(* ===== verification/CoOS_Prelude.thy ===== *)
theory CoOS_Prelude
  imports Main "HOL-Library.Word" "HOL-Library.Monad_Syntax"
begin

unbundle bit_operations_syntax

text \<open>
  Shared material of the CoOS development: the C integer types of \<open>CoOS.h\<close> as machine
  words, the pointer abstraction of the doubly linked lists that every kernel module keeps
  (ready list, delay list, event waiting lists, mutex waiting lists, timer list, flag nodes),
  stable insertion by priority, and the delta encoding of the delay and timer lists.
\<close>

section \<open>Machine integers\<close>

type_synonym U8 = "8 word"
type_synonym U16 = "16 word"
type_synonym U32 = "32 word"
type_synonym U64 = "64 word"

named_theorems kernel_simps
  \<open>rewrite rules that evaluate the kernel operations on abstract states\<close>

named_theorems list_rep
  \<open>facts about the list representation predicates\<close>

lemma unat_less_size_eq: "unat (a :: 'a::len word) < unat b \<longleftrightarrow> a < b"
  by (simp add: word_less_nat_alt)

section \<open>The option monad\<close>

text \<open>
  \<open>None\<close> stands for a computation of the C code that has no defined result: a read or
  write through a null or out-of-range pointer, or a loop that does not end.
\<close>

lemma bind_Some_iff [kernel_simps]:
  "(Option.bind m f = Some y) = (\<exists>x. m = Some x \<and> f x = Some y)"
  by (cases m) auto

lemma bind_if_distrib [kernel_simps]:
  "Option.bind (if b then m else n) f = (if b then Option.bind m f else Option.bind n f)"
  by simp

text \<open>Lets \<open>partial_function\<close> see through a case distinction on a pointer.\<close>

lemma mono_case_option [partial_function_mono]:
  assumes "monotone R ord (\<lambda>f. F f)" and "\<And>y. monotone R ord (\<lambda>f. G f y)"
  shows "monotone R ord (\<lambda>f. case x of None \<Rightarrow> F f | Some y \<Rightarrow> G f y)"
  using assms by (cases x) simp_all

section \<open>Doubly linked lists\<close>

text \<open>
  A list with fields \<open>next\<close> and \<open>prev\<close> is a chain: \<open>dchain nx pv p xs q\<close> says that the
  nodes \<open>xs\<close> are linked in this order, the first one's \<open>prev\<close> being \<open>p\<close> and the last one's
  \<open>next\<close> being \<open>q\<close>.
\<close>

definition hd_ptr :: "'a list \<Rightarrow> 'a option \<Rightarrow> 'a option" where
  "hd_ptr xs q = (case xs of [] \<Rightarrow> q | x # _ \<Rightarrow> Some x)"

definition last_ptr :: "'a option \<Rightarrow> 'a list \<Rightarrow> 'a option" where
  "last_ptr p xs = (if xs = [] then p else Some (last xs))"

lemma hd_ptr_simps [simp]:
  "hd_ptr [] q = q" "hd_ptr (x # xs) q = Some x"
  by (simp_all add: hd_ptr_def)

lemma hd_ptr_append [simp]: "hd_ptr (xs @ ys) q = hd_ptr xs (hd_ptr ys q)"
  by (cases xs) simp_all

lemma hd_ptr_None [simp]: "hd_ptr xs None = None \<longleftrightarrow> xs = []"
  by (cases xs) simp_all

lemma hd_ptr_Some: "hd_ptr xs None = Some a \<longleftrightarrow> (\<exists>ys. xs = a # ys)"
  by (cases xs) auto

lemma last_ptr_simps [simp]:
  "last_ptr p [] = p" "last_ptr p (x # xs) = last_ptr (Some x) xs"
  by (simp_all add: last_ptr_def)

lemma last_ptr_append [simp]: "last_ptr p (xs @ ys) = last_ptr (last_ptr p xs) ys"
  by (simp add: last_ptr_def)

lemma last_ptr_None [simp]: "last_ptr None xs = None \<longleftrightarrow> xs = []"
  by (simp add: last_ptr_def)

lemma last_ptr_Some: "last_ptr None xs = Some a \<longleftrightarrow> (\<exists>ys. xs = ys @ [a])"
  by (cases xs rule: rev_cases) (auto simp: last_ptr_def)

primrec dchain ::
  "('a \<Rightarrow> 'a option) \<Rightarrow> ('a \<Rightarrow> 'a option) \<Rightarrow> 'a option \<Rightarrow> 'a list \<Rightarrow> 'a option \<Rightarrow> bool" where
  "dchain nx pv p [] q = True"
| "dchain nx pv p (a # as) q = (pv a = p \<and> nx a = hd_ptr as q \<and> dchain nx pv (Some a) as q)"

lemma dchain_append [simp]:
  "dchain nx pv p (as @ bs) q \<longleftrightarrow>
     dchain nx pv p as (hd_ptr bs q) \<and> dchain nx pv (last_ptr p as) bs q"
  by (induction as arbitrary: p) auto

lemma dchain_cong:
  assumes "\<And>a. a \<in> set as \<Longrightarrow> nx a = nx' a" and "\<And>a. a \<in> set as \<Longrightarrow> pv a = pv' a"
  shows "dchain nx pv p as q \<longleftrightarrow> dchain nx' pv' p as q"
  using assms by (induction as arbitrary: p) auto

lemma dchain_upd_next [simp]:
  "a \<notin> set as \<Longrightarrow> dchain (nx(a := v)) pv p as q = dchain nx pv p as q"
  by (rule dchain_cong) auto

lemma dchain_upd_prev [simp]:
  "a \<notin> set as \<Longrightarrow> dchain nx (pv(a := v)) p as q = dchain nx pv p as q"
  by (rule dchain_cong) auto

lemma dchain_change_last:
  assumes "dchain nx pv p as q" and "distinct as"
    and "\<And>a. a \<in> set as \<Longrightarrow> nx' a = (if a = last as then q' else nx a)"
    and "\<And>a. a \<in> set as \<Longrightarrow> pv' a = pv a"
  shows "dchain nx' pv' p as q'"
  using assms
proof (induction as arbitrary: p)
  case (Cons a as)
  show ?case
  proof (cases "as = []")
    case False
    have "dchain nx' pv' (Some a) as q'"
      by (rule Cons.IH) (use Cons.prems False in auto)
    moreover have "nx' a = hd_ptr as q'"
      using Cons.prems False by (cases as) auto
    ultimately show ?thesis using Cons.prems by simp
  qed (use Cons.prems in simp)
qed simp

lemma dchain_change_first:
  assumes "dchain nx pv p as q" and "distinct as"
    and "\<And>a. a \<in> set as \<Longrightarrow> pv' a = (if a = hd as then p' else pv a)"
    and "\<And>a. a \<in> set as \<Longrightarrow> nx' a = nx a"
  shows "dchain nx' pv' p' as q"
proof (cases as)
  case (Cons a bs)
  with assms(2,3) have "pv' x = pv x" if "x \<in> set bs" for x
    using that by auto
  then have "dchain nx' pv' (Some a) bs q"
    using Cons assms(1,4) dchain_cong [of bs nx' nx pv' pv "Some a" q] by auto
  with Cons assms show ?thesis by simp
qed simp

text \<open>Linking a node in, and unlinking it, in terms of the two link fields.\<close>

lemma dchain_insert:
  assumes "dchain nx pv p (xs @ ys) q" and "distinct (xs @ t # ys)"
    and "\<And>a. a \<in> set (xs @ ys) \<Longrightarrow> nx' a = (if xs \<noteq> [] \<and> a = last xs then Some t else nx a)"
    and "\<And>a. a \<in> set (xs @ ys) \<Longrightarrow> pv' a = (if ys \<noteq> [] \<and> a = hd ys then Some t else pv a)"
    and "nx' t = hd_ptr ys q" and "pv' t = last_ptr p xs"
  shows "dchain nx' pv' p (xs @ t # ys) q"
proof -
  have pv_xs: "pv' a = pv a" if "a \<in> set xs" for a
    using assms(2,4) that by (cases ys) auto
  have "dchain nx' pv' p xs (Some t)"
    by (rule dchain_change_last [where nx = nx and pv = pv and q = "hd_ptr ys q"])
      (use assms pv_xs in auto)
  moreover have nx_ys: "nx' a = nx a" if "a \<in> set ys" for a
    using assms(2,3) that by (cases xs rule: rev_cases) auto
  have "dchain nx' pv' (Some t) ys q"
    by (rule dchain_change_first [where nx = nx and pv = pv and p = "last_ptr p xs"])
      (use assms nx_ys in auto)
  ultimately show ?thesis using assms by simp
qed

lemma dchain_remove:
  assumes "dchain nx pv p (xs @ t # ys) q" and "distinct (xs @ t # ys)"
    and "\<And>a. a \<in> set (xs @ ys) \<Longrightarrow>
      nx' a = (if xs \<noteq> [] \<and> a = last xs then hd_ptr ys q else nx a)"
    and "\<And>a. a \<in> set (xs @ ys) \<Longrightarrow>
      pv' a = (if ys \<noteq> [] \<and> a = hd ys then last_ptr p xs else pv a)"
  shows "dchain nx' pv' p (xs @ ys) q"
proof -
  have pv_xs: "pv' a = pv a" if "a \<in> set xs" for a
    using assms(2,4) that by (cases ys) auto
  have "dchain nx' pv' p xs (hd_ptr ys q)"
    by (rule dchain_change_last [where nx = nx and pv = pv and q = "Some t"])
      (use assms pv_xs in auto)
  moreover have nx_ys: "nx' a = nx a" if "a \<in> set ys" for a
    using assms(2,3) that by (cases xs rule: rev_cases) auto
  have "dchain nx' pv' (last_ptr p xs) ys q"
    by (rule dchain_change_first [where nx = nx and pv = pv and p = "Some t"])
      (use assms nx_ys in auto)
  ultimately show ?thesis by simp
qed

text \<open>A list anchored in a head pointer.\<close>

definition dlist ::
  "('a \<Rightarrow> 'a option) \<Rightarrow> ('a \<Rightarrow> 'a option) \<Rightarrow> 'a option \<Rightarrow> 'a list \<Rightarrow> bool" where
  "dlist nx pv h xs \<longleftrightarrow> h = hd_ptr xs None \<and> dchain nx pv None xs None \<and> distinct xs"

lemma dlist_distinct [list_rep]: "dlist nx pv h xs \<Longrightarrow> distinct xs"
  by (simp add: dlist_def)

lemma dlist_cong:
  assumes "\<And>a. a \<in> set xs \<Longrightarrow> nx a = nx' a" and "\<And>a. a \<in> set xs \<Longrightarrow> pv a = pv' a"
  shows "dlist nx pv h xs \<longleftrightarrow> dlist nx' pv' h xs"
  using dchain_cong [OF assms] by (simp add: dlist_def)

lemma dlist_unique:
  assumes "dlist nx pv h xs" and "dlist nx pv h ys"
  shows "xs = ys"
proof -
  have "dchain nx pv p xs None \<Longrightarrow> dchain nx pv p ys None \<Longrightarrow> hd_ptr xs None = hd_ptr ys None
      \<Longrightarrow> xs = ys" for p
  proof (induction xs arbitrary: p ys)
    case Nil
    then show ?case by (cases ys) auto
  next
    case (Cons x xs)
    then obtain zs where "ys = x # zs" by (cases ys) auto
    with Cons show ?case by auto
  qed
  with assms show ?thesis by (auto simp: dlist_def)
qed

lemma dlist_links:
  assumes "dlist nx pv h (xs @ t # ys)"
  shows "nx t = hd_ptr ys None" and "pv t = last_ptr None xs"
  using assms by (auto simp: dlist_def)

section \<open>Stable insertion by a key\<close>

text \<open>
  Insert behind every element whose key is not greater: the order in which the kernel
  keeps tasks of one priority.
\<close>

fun insort_after :: "('a \<Rightarrow> 'b::linorder) \<Rightarrow> 'a \<Rightarrow> 'a list \<Rightarrow> 'a list" where
  "insort_after f x [] = [x]"
| "insort_after f x (y # ys) = (if f x < f y then x # y # ys else y # insort_after f x ys)"

lemma set_insort_after [simp]: "set (insort_after f x xs) = insert x (set xs)"
  by (induction xs) auto

lemma length_insort_after [simp]: "length (insort_after f x xs) = Suc (length xs)"
  by (induction xs) auto

lemma distinct_insort_after [simp]:
  "distinct (insort_after f x xs) \<longleftrightarrow> x \<notin> set xs \<and> distinct xs"
  by (induction xs) auto

lemma sorted_insort_after: "sorted (map f xs) \<Longrightarrow> sorted (map f (insort_after f x xs))"
  by (induction xs) (auto simp: not_less less_imp_le)

lemma insort_after_split:
  "insort_after f x xs = takeWhile (\<lambda>y. \<not> f x < f y) xs @ x # dropWhile (\<lambda>y. \<not> f x < f y) xs"
  by (induction xs) auto

lemma insort_after_append:
  assumes "\<And>y. y \<in> set xs \<Longrightarrow> \<not> f x < f y" and "ys \<noteq> [] \<Longrightarrow> f x < f (hd ys)"
  shows "insort_after f x (xs @ ys) = xs @ x # ys"
  using assms
proof (induction xs)
  case Nil
  then show ?case by (cases ys) auto
qed auto

lemma insort_after_cong:
  assumes "\<And>y. y \<in> insert x (set xs) \<Longrightarrow> f y = g y"
  shows "insort_after f x xs = insort_after g x xs"
  using assms by (induction xs) auto

text \<open>Elements with one key keep their order, and the new one comes last among them.\<close>

lemma filter_insort_after:
  assumes "sorted (map f xs)"
  shows "filter (\<lambda>y. f y = k) (insort_after f x xs) =
    filter (\<lambda>y. f y = k) xs @ (if f x = k then [x] else [])"
  using assms
proof (induction xs)
  case (Cons y ys)
  show ?case
  proof (cases "f x < f y")
    case True
    with Cons.prems have "filter (\<lambda>z. f z = f x) (y # ys) = []"
      by (auto simp: filter_empty_conv)
    with True show ?thesis by auto
  qed (use Cons in auto)
qed simp

lemma remove1_insort_after: "x \<notin> set xs \<Longrightarrow> remove1 x (insort_after f x xs) = xs"
  by (induction xs) auto

end
