(* ===== verification/CoOS_State.thy ===== *)
theory CoOS_State
  imports CoOS_Prelude
begin

text \<open>
  The data of the kernel: the configuration of \<open>OsConfig.h\<close> as a parameter record, the control
  blocks of the kernel headers as records, and the global variables of all kernel files as one
  state record. A pointer into a table is the index of its entry (\<open>None\<close> is \<open>Co_NULL\<close>); the
  tables are functions of the index, and every \<open>&Tbl[i]\<close> of the code that is not bounded by
  construction goes through a bounds check (\<open>tcb_ptr\<close>, \<open>ecb_ptr\<close> and so on), whose failure is
  \<open>None\<close>, the outcome of undefined behaviour. Memory that the kernel reaches through raw
  addresses (task stacks, mail queues, memory partitions, the kernel heap) is a store of
  32-bit words indexed by byte address.
\<close>

section \<open>Types and constants of CoOS.h\<close>

type_synonym OS_TID = U8
type_synonym OS_TCID = U8
type_synonym OS_MutexID = U8
type_synonym OS_EventID = U8
type_synonym OS_FlagID = U8
type_synonym OS_MMID = U8

datatype StatusType =
    E_OK | E_INVALID_ID | E_INVALID_PARAMETER | E_CALL | E_TASK_WAITING | E_TIMEOUT
  | E_SEM_FULL | E_MBOX_FULL | E_QUEUE_FULL | E_SEM_EMPTY | E_MBOX_EMPTY | E_QUEUE_EMPTY
  | E_FLAG_NOT_READY | E_ALREADY_IN_WAITING | E_TASK_NOT_WAITING | E_TASK_WAIT_OTHER
  | E_EXCEED_MAX_NUM | E_NOT_IN_DELAY_LIST | E_SEV_REQ_FULL | E_NOT_FREE_ALL
  | E_PROTECTED_TASK | E_OS_IN_LOCK

text \<open>\<open>E_CREATE_FAIL\<close> is \<open>(StatusType)-1\<close> and only ever returned in place of an id.\<close>

definition E_CREATE_FAIL :: U8 where "E_CREATE_FAIL = 255"

definition INVALID_ID :: U8 where "INVALID_ID = 255"
definition INVALID_VALUE :: U32 where "INVALID_VALUE = 4294967295"
definition MAGIC_WORD :: U32 where "MAGIC_WORD = 0x5a5aa5a5"

definition OPT_WAIT_ALL :: U8 where "OPT_WAIT_ALL = 0"
definition OPT_WAIT_ANY :: U8 where "OPT_WAIT_ANY = 1"
definition OPT_WAIT_ONE :: U8 where "OPT_WAIT_ONE = 2"
definition OPT_DEL_NO_PEND :: U8 where "OPT_DEL_NO_PEND = 0"
definition OPT_DEL_ANYWAY :: U8 where "OPT_DEL_ANYWAY = 1"
definition TMR_TYPE_ONE_SHOT :: U8 where "TMR_TYPE_ONE_SHOT = 0"
definition TMR_TYPE_PERIODIC :: U8 where "TMR_TYPE_PERIODIC = 1"
definition EVENT_SORT_TYPE_FIFO :: U8 where "EVENT_SORT_TYPE_FIFO = 1"
definition EVENT_SORT_TYPE_PRIO :: U8 where "EVENT_SORT_TYPE_PRIO = 2"

lemmas opt_defs =
  OPT_WAIT_ALL_def OPT_WAIT_ANY_def OPT_WAIT_ONE_def OPT_DEL_NO_PEND_def OPT_DEL_ANYWAY_def
  TMR_TYPE_ONE_SHOT_def TMR_TYPE_PERIODIC_def EVENT_SORT_TYPE_FIFO_def EVENT_SORT_TYPE_PRIO_def

section \<open>Configuration\<close>

text \<open>
  The numeric settings of \<open>OsConfig.h\<close> and the switches the code branches on. The module
  switches (\<open>CFG_EVENT_EN\<close>, \<open>CFG_FLAG_EN\<close>, \<open>CFG_MUTEX_EN\<close>, \<open>CFG_TMR_EN\<close>, \<open>CFG_MM_EN\<close>,
  \<open>CFG_KHEAP_EN\<close>, \<open>CFG_TASK_WAITTING_EN\<close>, \<open>CFG_TASK_SCHEDULE_EN\<close>) are taken as enabled, and
  \<open>CFG_EVENT_SORT\<close> as 3, their values in \<open>OsConfig.h\<close>. \<open>KernelHeap\<close> is the address of the
  heap array, and \<open>null_prio\<close> is the byte that \<open>NULL->prio\<close> reads: address 4 is readable on
  a Cortex-M (it holds the reset vector), and two places of \<open>task.c\<close> read it.
\<close>

record config =
  CFG_LOWEST_PRIO :: U8
  CFG_MAX_USER_TASKS :: nat
  CFG_IDLE_STACK_SIZE :: nat
  CFG_SYSTICK_FREQ :: nat
  CFG_MAX_SERVICE_REQUEST :: nat
  CFG_ORDER_LIST_SCHEDULE_EN :: bool
  CFG_ROBIN_EN :: bool
  CFG_TIME_SLICE :: U16
  CFG_PAR_CHECKOUT_EN :: bool
  CFG_STK_CHECKOUT_EN :: bool
  CFG_MAX_MM :: nat
  KHEAP_SIZE :: nat
  CFG_MAX_TMR :: nat
  CFG_MAX_EVENT :: nat
  CFG_MAX_QUEUE :: nat
  CFG_MAX_MUTEX :: nat
  KernelHeap :: U32
  idle_stk :: U32
  CoIdleTask_entry :: U32
  null_prio :: U8

definition SYS_TASK_NUM :: nat where "SYS_TASK_NUM = 1"

definition task_max :: "config \<Rightarrow> nat" where
  "task_max c = CFG_MAX_USER_TASKS c + SYS_TASK_NUM"

text \<open>The checks of \<open>OsError.h\<close> that a build must pass.\<close>

definition config_ok :: "config \<Rightarrow> bool" where
  "config_ok c \<longleftrightarrow>
     1 \<le> CFG_SYSTICK_FREQ c \<and> CFG_SYSTICK_FREQ c \<le> 1000 \<and>
     CFG_MAX_USER_TASKS c \<le> 253 \<and> CFG_LOWEST_PRIO c \<le> 254 \<and> 25 \<le> CFG_IDLE_STACK_SIZE c \<and>
     (CFG_ROBIN_EN c \<longrightarrow> CFG_TIME_SLICE c \<le> 4095) \<and>
     CFG_MAX_TMR c \<le> 32 \<and> CFG_MAX_MM c \<le> 32 \<and> 0x20 \<le> KHEAP_SIZE c \<and>
     CFG_MAX_MUTEX c \<le> 254 \<and> CFG_MAX_EVENT c \<le> 254 \<and> 0 < CFG_MAX_EVENT c \<and>
     CFG_MAX_QUEUE c \<le> CFG_MAX_EVENT c"

text \<open>The shipped \<open>OsConfig.h\<close>; the three addresses are those of an example link map.\<close>

definition OsConfig :: config where
  "OsConfig = \<lparr>CFG_LOWEST_PRIO = 64, CFG_MAX_USER_TASKS = 5, CFG_IDLE_STACK_SIZE = 25,
     CFG_SYSTICK_FREQ = 100, CFG_MAX_SERVICE_REQUEST = 5, CFG_ORDER_LIST_SCHEDULE_EN = True,
     CFG_ROBIN_EN = True, CFG_TIME_SLICE = 10, CFG_PAR_CHECKOUT_EN = True,
     CFG_STK_CHECKOUT_EN = True, CFG_MAX_MM = 2, KHEAP_SIZE = 50, CFG_MAX_TMR = 2,
     CFG_MAX_EVENT = 20, CFG_MAX_QUEUE = 2, CFG_MAX_MUTEX = 10,
     KernelHeap = 0x20000400, idle_stk = 0x20000300, CoIdleTask_entry = 0x08000101,
     null_prio = 1\<rparr>"

lemma config_ok_OsConfig: "config_ok OsConfig"
  by (simp add: config_ok_def OsConfig_def)

section \<open>Control blocks\<close>

datatype task_state = TASK_READY | TASK_RUNNING | TASK_WAITING | TASK_DORMANT

type_synonym P_OSTCB = "OS_TID option"
type_synonym P_ECB = "OS_EventID option"
type_synonym P_QCB = "U8 option"
type_synonym P_TmrCtrl = "OS_TCID option"

text \<open>
  A \<open>void*\<close> that the kernel stores: a plain address (0 is \<open>Co_NULL\<close>), an event control block
  of the free list, or a queue control block.
\<close>

datatype voidp = VPtr U32 | VEcb OS_EventID | VQcb U8

abbreviation vnull :: voidp where "vnull \<equiv> VPtr 0"

text \<open>
  \<open>TCB.pnode\<close>. A flag node is a local variable of the waiting call, so the node of a task is
  named by the task; \<open>PNode_woken\<close> is the mark \<open>(void*)0xffffffff\<close> left by a wake-up.
\<close>

datatype flag_ptr = PNode_null | PNode OS_TID | PNode_woken

text \<open>\<open>OsTask.h\<close>\<close>

record OSTCB =
  stkPtr :: U32
  prio :: U8
  state :: task_state
  taskID :: OS_TID
  mutexID :: OS_MutexID
  eventID :: OS_EventID
  timeSlice :: U16
  stack :: U32
  pmail :: voidp
  waitNext :: P_OSTCB
  waitPrev :: P_OSTCB
  pnode :: flag_ptr
  delayTick :: U32
  TCBnext :: P_OSTCB
  TCBprev :: P_OSTCB

text \<open>\<open>OsEvent.h\<close>\<close>

datatype event_type = EVENT_TYPE_NONE | EVENT_TYPE_SEM | EVENT_TYPE_MBOX | EVENT_TYPE_QUEUE
  | EVENT_TYPE_INVALID

record ECB =
  eventPtr :: voidp
  ecb_id :: U8
  eventType :: event_type
  eventSortType :: U8
  eventCounter :: U16
  initialEventCounter :: U16
  eventTCBList :: P_OSTCB

text \<open>\<open>OsQueue.h\<close>\<close>

record QCB =
  qStart :: U32
  qcb_id :: U8
  qhead :: U16
  qtail :: U16
  qMaxSize :: U16
  qSize :: U16

text \<open>\<open>OsMutex.h\<close>\<close>

datatype mutex_flag = MUTEX_FREE | MUTEX_OCCUPY

record MUTEX =
  originalPrio :: U8
  mutexFlag :: mutex_flag
  mtx_taskID :: OS_TID
  hipriTaskID :: OS_TID
  waittingList :: P_OSTCB

text \<open>\<open>OsFlag.h\<close>\<close>

record FLAG_NODE =
  nextNode :: "OS_TID option"
  prevNode :: "OS_TID option"
  waitFlags :: U32
  waitTask :: OS_TID
  waitType :: U8

record FCB =
  flagRdy :: U32
  resetOpt :: U32
  flagActive :: U32
  headNode :: "OS_TID option"
  tailNode :: "OS_TID option"

text \<open>\<open>OsTimer.h\<close>\<close>

datatype tmr_state = TMR_STATE_RUNNING | TMR_STATE_STOPPED

record TmrCtrl =
  tmrID :: OS_TCID
  tmrType :: U8
  tmrState :: tmr_state
  tmrCnt :: U32
  tmrReload :: U32
  tmrCallBack :: U32
  tmrNext :: P_TmrCtrl
  tmrPrev :: P_TmrCtrl

text \<open>\<open>OsServiceReq.h\<close>\<close>

datatype req_type = SEM_REQ | MBOX_REQ | FLAG_REQ | QUEUE_REQ

record SQC =
  sqc_type :: req_type
  sqc_id :: U8
  sqc_arg :: U32

record SRQ =
  srq_cnt :: U8
  srq_head :: U8
  srq_cell :: "nat \<Rightarrow> SQC"

text \<open>\<open>OsMM.h\<close> and \<open>OsKernelHeap.h\<close>\<close>

record MM =
  memAddr :: U32
  freeBlock :: U32
  blockSize :: U32
  blockNum :: U32

record KHeap =
  startAddr :: U32
  endAddr :: U32

section \<open>The kernel state\<close>

text \<open>
  Every global variable of the kernel, and \<open>PendSVSet\<close>, the pending bit of the PendSV exception
  that \<open>SwitchContext\<close> sets.
\<close>

record kernel =
  TCBTbl :: "OS_TID \<Rightarrow> OSTCB"
  FreeTCB :: P_OSTCB
  TCBRdy :: P_OSTCB
  TCBNext :: P_OSTCB
  TCBRunning :: P_OSTCB
  OSCheckTime :: U64
  PriNum :: U8
  ActivePri :: "nat \<Rightarrow> U8"
  TaskNumPerPri :: "nat \<Rightarrow> U8"
  RdyTaskPri :: "nat \<Rightarrow> OS_TID"
  RdyTaskPriInfo :: "nat \<Rightarrow> U32"
  OSIntNesting :: U8
  OSSchedLock :: U8
  TaskSchedReq :: bool
  OSTickCnt :: U64
  PendSVSet :: bool
  DlyList :: P_OSTCB
  EventTbl :: "OS_EventID \<Rightarrow> ECB"
  FreeEventList :: P_ECB
  QueueTbl :: "U8 \<Rightarrow> QCB"
  QueueIDVessel :: U32
  MutexFreeID :: OS_MutexID
  MutexTbl :: "OS_MutexID \<Rightarrow> MUTEX"
  FlagCrl :: FCB
  FlagNodes :: "OS_TID \<Rightarrow> FLAG_NODE"
  TmrTbl :: "OS_TCID \<Rightarrow> TmrCtrl"
  TmrList :: P_TmrCtrl
  TmrIDVessel :: U32
  ServiceReq :: SRQ
  IsrReq :: bool
  TimeReq :: bool
  TimerReq :: bool
  MemoryTbl :: "OS_MMID \<Rightarrow> MM"
  MemoryIDVessel :: U32
  FMBlist :: U32
  Kheap :: KHeap
  mem :: "U32 \<Rightarrow> U32"

text \<open>The static initial values: every table is \<open>{{0}}\<close>, every pointer \<open>Co_NULL\<close>.\<close>

definition OSTCB_zero :: OSTCB where
  "OSTCB_zero = \<lparr>stkPtr = 0, prio = 0, state = TASK_READY, taskID = 0, mutexID = 0, eventID = 0,
     timeSlice = 0, stack = 0, pmail = vnull, waitNext = None, waitPrev = None,
     pnode = PNode_null, delayTick = 0, TCBnext = None, TCBprev = None\<rparr>"

definition kernel_start :: kernel where
  "kernel_start = \<lparr>
     TCBTbl = (\<lambda>_. OSTCB_zero), FreeTCB = None, TCBRdy = None, TCBNext = None, TCBRunning = None,
     OSCheckTime = 0, PriNum = 0, ActivePri = (\<lambda>_. 0), TaskNumPerPri = (\<lambda>_. 0),
     RdyTaskPri = (\<lambda>_. 0), RdyTaskPriInfo = (\<lambda>_. 0),
     OSIntNesting = 0, OSSchedLock = 0, TaskSchedReq = False, OSTickCnt = 0, PendSVSet = False,
     DlyList = None,
     EventTbl = (\<lambda>_. \<lparr>eventPtr = vnull, ecb_id = 0, eventType = EVENT_TYPE_NONE,
       eventSortType = 0, eventCounter = 0, initialEventCounter = 0, eventTCBList = None\<rparr>),
     FreeEventList = None,
     QueueTbl = (\<lambda>_. \<lparr>qStart = 0, qcb_id = 0, qhead = 0, qtail = 0, qMaxSize = 0, qSize = 0\<rparr>),
     QueueIDVessel = 0, MutexFreeID = 0,
     MutexTbl = (\<lambda>_. \<lparr>originalPrio = 0, mutexFlag = MUTEX_FREE, mtx_taskID = 0,
       hipriTaskID = 0, waittingList = None\<rparr>),
     FlagCrl = \<lparr>flagRdy = 0, resetOpt = 0, flagActive = 0, headNode = None, tailNode = None\<rparr>,
     FlagNodes = (\<lambda>_. \<lparr>nextNode = None, prevNode = None, waitFlags = 0, waitTask = 0,
       waitType = 0\<rparr>),
     TmrTbl = (\<lambda>_. \<lparr>tmrID = 0, tmrType = 0, tmrState = TMR_STATE_RUNNING, tmrCnt = 0,
       tmrReload = 0, tmrCallBack = 0, tmrNext = None, tmrPrev = None\<rparr>),
     TmrList = None, TmrIDVessel = 0,
     ServiceReq = \<lparr>srq_cnt = 0, srq_head = 0,
       srq_cell = (\<lambda>_. \<lparr>sqc_type = SEM_REQ, sqc_id = 0, sqc_arg = 0\<rparr>)\<rparr>,
     IsrReq = False, TimeReq = False, TimerReq = False,
     MemoryTbl = (\<lambda>_. \<lparr>memAddr = 0, freeBlock = 0, blockSize = 0, blockNum = 0\<rparr>),
     MemoryIDVessel = 0, FMBlist = 0, Kheap = \<lparr>startAddr = 0, endAddr = 0\<rparr>,
     mem = (\<lambda>_. 0)\<rparr>"

section \<open>Reading and writing the tables\<close>

text \<open>
  Updates of one table entry. They are abbreviations over the record's update functions, so
  that the record package's rewriting applies to them.
\<close>

abbreviation upd_tcb :: "OS_TID \<Rightarrow> (OSTCB \<Rightarrow> OSTCB) \<Rightarrow> kernel \<Rightarrow> kernel" where
  "upd_tcb t f \<equiv> TCBTbl_update (\<lambda>tb. tb(t := f (tb t)))"

abbreviation upd_ecb :: "OS_EventID \<Rightarrow> (ECB \<Rightarrow> ECB) \<Rightarrow> kernel \<Rightarrow> kernel" where
  "upd_ecb e f \<equiv> EventTbl_update (\<lambda>tb. tb(e := f (tb e)))"

abbreviation upd_qcb :: "U8 \<Rightarrow> (QCB \<Rightarrow> QCB) \<Rightarrow> kernel \<Rightarrow> kernel" where
  "upd_qcb q f \<equiv> QueueTbl_update (\<lambda>tb. tb(q := f (tb q)))"

abbreviation upd_mutex :: "OS_MutexID \<Rightarrow> (MUTEX \<Rightarrow> MUTEX) \<Rightarrow> kernel \<Rightarrow> kernel" where
  "upd_mutex m f \<equiv> MutexTbl_update (\<lambda>tb. tb(m := f (tb m)))"

abbreviation upd_node :: "OS_TID \<Rightarrow> (FLAG_NODE \<Rightarrow> FLAG_NODE) \<Rightarrow> kernel \<Rightarrow> kernel" where
  "upd_node n f \<equiv> FlagNodes_update (\<lambda>tb. tb(n := f (tb n)))"

abbreviation upd_tmr :: "OS_TCID \<Rightarrow> (TmrCtrl \<Rightarrow> TmrCtrl) \<Rightarrow> kernel \<Rightarrow> kernel" where
  "upd_tmr i f \<equiv> TmrTbl_update (\<lambda>tb. tb(i := f (tb i)))"

abbreviation upd_mm :: "OS_MMID \<Rightarrow> (MM \<Rightarrow> MM) \<Rightarrow> kernel \<Rightarrow> kernel" where
  "upd_mm i f \<equiv> MemoryTbl_update (\<lambda>tb. tb(i := f (tb i)))"

abbreviation wr_mem :: "U32 \<Rightarrow> U32 \<Rightarrow> kernel \<Rightarrow> kernel" where
  "wr_mem a v \<equiv> mem_update (\<lambda>m. m(a := v))"

text \<open>The address of a table entry, defined inside the table only.\<close>

definition tcb_ptr :: "config \<Rightarrow> OS_TID \<Rightarrow> P_OSTCB" where
  "tcb_ptr c i = (if unat i < task_max c then Some i else None)"

definition ecb_ptr :: "config \<Rightarrow> OS_EventID \<Rightarrow> P_ECB" where
  "ecb_ptr c i = (if unat i < CFG_MAX_EVENT c then Some i else None)"

definition mutex_ptr :: "config \<Rightarrow> OS_MutexID \<Rightarrow> OS_MutexID option" where
  "mutex_ptr c i = (if unat i < CFG_MAX_MUTEX c then Some i else None)"

definition tmr_ptr :: "config \<Rightarrow> OS_TCID \<Rightarrow> P_TmrCtrl" where
  "tmr_ptr c i = (if unat i < CFG_MAX_TMR c then Some i else None)"

definition mm_ptr :: "config \<Rightarrow> OS_MMID \<Rightarrow> OS_MMID option" where
  "mm_ptr c i = (if unat i < CFG_MAX_MM c then Some i else None)"

lemmas ptr_defs = tcb_ptr_def ecb_ptr_def mutex_ptr_def tmr_ptr_def mm_ptr_def

text \<open>\<open>1 << i\<close> on 32 bits: a shift by 32 or more is undefined.\<close>

definition shl1 :: "nat \<Rightarrow> U32 option" where
  "shl1 i = (if i < 32 then Some (push_bit i 1) else None)"

lemma shl1_Some [simp]: "i < 32 \<Longrightarrow> shl1 i = Some (push_bit i 1)"
  by (simp add: shl1_def)

text \<open>\<open>p->prio\<close> for a pointer that may be \<open>Co_NULL\<close>.\<close>

definition prio_at :: "config \<Rightarrow> kernel \<Rightarrow> P_OSTCB \<Rightarrow> U8" where
  "prio_at c s p = (case p of None \<Rightarrow> null_prio c | Some t \<Rightarrow> prio (TCBTbl s t))"

lemma prio_at_simps [simp]:
  "prio_at c s None = null_prio c" "prio_at c s (Some t) = prio (TCBTbl s t)"
  by (simp_all add: prio_at_def)

section \<open>Schedule lock\<close>

text \<open>The macro \<open>OsSchedLock()\<close> of \<open>OsCore.h\<close>.\<close>

definition OsSchedLock :: "kernel \<Rightarrow> kernel" where
  "OsSchedLock s = s\<lparr>OSSchedLock := OSSchedLock s + 1\<rparr>"

text \<open>
  A call that may block: it returns a value, or it has queued the running task to wait, and its
  code goes on at the resume point when that task has the processor again.
\<close>

datatype 'a outcome = Ret 'a | Blocked

end
