(* ===== verification/PriQueue.thy ===== *)
theory PriQueue
  imports CoOS_State
begin

text \<open>
  The priority tables of the Binary-Scheduling Algorithm (\<open>task.c\<close>, compiled when
  \<open>CFG_ORDER_LIST_SCHEDULE_EN\<close> is 0): \<open>ActivePri\<close> holds the priorities in use in ascending
  order, \<open>TaskNumPerPri\<close> how many tasks have each, \<open>RdyTaskPri\<close> the last ready task of each and
  \<open>RdyTaskPriInfo\<close> one ready bit for each. Indices are natural numbers: they are bounded by
  \<open>PriNum\<close>, which is at most 254, so the \<open>U8\<close> variables of the code never wrap.
\<close>

section \<open>Operations\<close>

text \<open>The loop of \<open>GetPriSeqNum\<close>: \<open>None\<close> would be a search that does not end.\<close>

partial_function (option) GetPriSeqNum_loop ::
  "(nat \<Rightarrow> U8) \<Rightarrow> U8 \<Rightarrow> nat \<Rightarrow> nat \<Rightarrow> (bool \<times> nat) option" where
  "GetPriSeqNum_loop A pri num seqNum =
     (if num \<noteq> seqNum then
        let tmpNum = num; num = (num + seqNum) div 2 in
        if pri = A num then Some (True, num)
        else if pri < A num then GetPriSeqNum_loop A pri tmpNum num
        else GetPriSeqNum_loop A pri (num + 1) seqNum
      else Some (False, num))"

definition GetPriSeqNum :: "U8 \<Rightarrow> kernel \<Rightarrow> (bool \<times> nat) option" where
  "GetPriSeqNum pri s = GetPriSeqNum_loop (ActivePri s) pri 0 (unat (PriNum s))"

text \<open>\<open>for(cnt=j; cnt>=lo; cnt--)\<close>: the first set bit of \<open>tmp\<close> from \<open>cnt\<close> down to \<open>lo\<close>.\<close>

function scan_bits :: "U32 \<Rightarrow> int \<Rightarrow> int \<Rightarrow> nat option" where
  "scan_bits tmp cnt lo =
     (if cnt \<ge> lo then if bit tmp (nat cnt) then Some (nat cnt) else scan_bits tmp (cnt - 1) lo
      else None)"
  by pat_completeness auto
termination
  by (relation "measure (\<lambda>(tmp, cnt, lo). nat (cnt - lo + 1))") auto

text \<open>The body of the inner \<open>do\<close> loop for byte \<open>num\<close> of the bit map word.\<close>

definition scan_byte :: "U32 \<Rightarrow> nat \<Rightarrow> nat \<Rightarrow> nat option" where
  "scan_byte tmp num j =
     (if tmp AND push_bit (num * 8) 0xff \<noteq> 0 then
        (case (if tmp AND push_bit (num * 8) 0xf0 \<noteq> 0
               then scan_bits tmp (int j) (int (num * 8 + 4)) else None) of
           Some cnt \<Rightarrow> Some cnt
         | None \<Rightarrow>
             let j = (if j AND 0x4 = 4 then (j OR 0x3) - 4 else j)
             in scan_bits tmp (int j) (int (num * 8)))
      else None)"

fun scan_word :: "U32 \<Rightarrow> nat \<Rightarrow> nat \<Rightarrow> nat option" where
  "scan_word tmp num j =
     (case scan_byte tmp num j of
        Some cnt \<Rightarrow> Some cnt
      | None \<Rightarrow> (if num = 0 then None else scan_word tmp (num - 1) (num * 8 - 1)))"

fun scan_map :: "(nat \<Rightarrow> U32) \<Rightarrow> nat \<Rightarrow> nat \<Rightarrow> U8" where
  "scan_map info i j =
     (case (if info i \<noteq> 0 then scan_word (info i) (j div 8) j else None) of
        Some cnt \<Rightarrow> of_nat (32 * i + cnt)
      | None \<Rightarrow> (if i = 0 then INVALID_ID else scan_map info (i - 1) 31))"

declare scan_bits.simps [simp del] scan_word.simps [simp del] scan_map.simps [simp del]

definition GetRdyPriSeqNum :: "nat \<Rightarrow> kernel \<Rightarrow> U8" where
  "GetRdyPriSeqNum seqNum s = scan_map (RdyTaskPriInfo s) (seqNum div 32) (seqNum mod 32)"

text \<open>One round of the second loop of \<open>PrioRemap\<close>, on \<open>j\<close>, \<open>tmp\<close> and the bit map.\<close>

definition PrioRemap_step ::
  "nat \<Rightarrow> (nat \<Rightarrow> OS_TID) \<Rightarrow> nat \<Rightarrow> nat \<times> U32 \<times> (nat \<Rightarrow> U32) \<Rightarrow> nat \<times> U32 \<times> (nat \<Rightarrow> U32)" where
  "PrioRemap_step seqNum rdy i = (\<lambda>(j, tmp, info).
     let (j, tmp, info) =
       (if i mod 32 = 0 \<and> i \<noteq> seqNum then (j + 1, 0, info(j := tmp)) else (j, tmp, info));
       tmp = (if rdy i \<noteq> INVALID_ID then tmp OR push_bit (i mod 32) 1 else tmp)
     in (j, tmp, info))"

definition PrioRemap :: "nat \<Rightarrow> kernel \<Rightarrow> kernel" where
  "PrioRemap seqNum s =
     (let j = seqNum div 32;
          tmp = fold (\<lambda>i tmp. tmp OR push_bit i 1) [0..<seqNum mod 32] (0 :: U32);
          tmp = tmp AND RdyTaskPriInfo s j;
          (j, tmp, info) = fold (PrioRemap_step seqNum (RdyTaskPri s)) [seqNum..<unat (PriNum s)]
                             (j, tmp, RdyTaskPriInfo s)
      in s\<lparr>RdyTaskPriInfo := info(j := tmp)\<rparr>)"

definition GetPrioSeqNumStatus :: "nat \<Rightarrow> kernel \<Rightarrow> bool" where
  "GetPrioSeqNumStatus seqNum s =
     (RdyTaskPriInfo s (seqNum div 32) AND push_bit (seqNum mod 32) 1 \<noteq> 0)"

definition SetPrioSeqNumStatus :: "nat \<Rightarrow> bool \<Rightarrow> kernel \<Rightarrow> kernel" where
  "SetPrioSeqNumStatus seqNum isRdy s =
     (let tmp = RdyTaskPriInfo s (seqNum div 32);
          tmp = tmp AND NOT (push_bit (seqNum mod 32) 1);
          tmp = tmp OR push_bit (seqNum mod 32) (of_bool isRdy)
      in s\<lparr>RdyTaskPriInfo := (RdyTaskPriInfo s)(seqNum div 32 := tmp)\<rparr>)"

text \<open>The two shifting loops: entry by entry, upwards from the end and downwards from the gap.\<close>

definition shift_up :: "nat \<Rightarrow> nat \<Rightarrow> (nat \<Rightarrow> 'a) \<Rightarrow> nat \<Rightarrow> 'a" where
  "shift_up lo hi A = fold (\<lambda>num A. A(num := A (num - 1))) (rev [lo + 1..<hi + 1]) A"

definition shift_down :: "nat \<Rightarrow> nat \<Rightarrow> (nat \<Rightarrow> 'a) \<Rightarrow> nat \<Rightarrow> 'a" where
  "shift_down lo hi A = fold (\<lambda>num A. A(num := A (num + 1))) [lo..<hi] A"

definition ActiveTaskPri :: "U8 \<Rightarrow> kernel \<Rightarrow> kernel option" where
  "ActiveTaskPri pri s = do {
     (found, seqNum) \<leftarrow> GetPriSeqNum pri s;
     if \<not> found then
       let n = unat (PriNum s);
           s = s\<lparr>ActivePri := (shift_up seqNum n (ActivePri s))(seqNum := pri),
                 TaskNumPerPri := (shift_up seqNum n (TaskNumPerPri s))(seqNum := 1),
                 RdyTaskPri := (shift_up seqNum n (RdyTaskPri s))(seqNum := INVALID_ID),
                 PriNum := PriNum s + 1\<rparr>
       in Some (PrioRemap seqNum s)
     else Some (s\<lparr>TaskNumPerPri := (TaskNumPerPri s)(seqNum := TaskNumPerPri s seqNum + 1)\<rparr>)
   }"

definition DeleteTaskPri :: "U8 \<Rightarrow> kernel \<Rightarrow> kernel option" where
  "DeleteTaskPri pri s = do {
     (_, seqNum) \<leftarrow> GetPriSeqNum pri s;
     let s = s\<lparr>TaskNumPerPri := (TaskNumPerPri s)(seqNum := TaskNumPerPri s seqNum - 1)\<rparr>;
     if TaskNumPerPri s seqNum = 0 then
       let n = unat (PriNum s) - 1;
           s = s\<lparr>ActivePri := shift_down seqNum n (ActivePri s),
                 TaskNumPerPri := shift_down seqNum n (TaskNumPerPri s),
                 RdyTaskPri := shift_down seqNum n (RdyTaskPri s),
                 PriNum := PriNum s - 1\<rparr>
       in Some (PrioRemap seqNum s)
     else Some s
   }"

section \<open>The bit map search\<close>

text \<open>
  \<open>top_in P lo n\<close> is the greatest number from \<open>lo\<close> up to but not including \<open>n\<close> with property \<open>P\<close>:
  the reference for the byte- and nibble-wise scan of \<open>GetRdyPriSeqNum\<close>.
\<close>

fun top_in :: "(nat \<Rightarrow> bool) \<Rightarrow> nat \<Rightarrow> nat \<Rightarrow> nat option" where
  "top_in P lo 0 = None"
| "top_in P lo (Suc n) = (if lo \<le> n then if P n then Some n else top_in P lo n else None)"

lemma top_in_None: "top_in P lo n = None \<longleftrightarrow> (\<forall>k. lo \<le> k \<and> k < n \<longrightarrow> \<not> P k)"
  by (induction n) (auto simp: less_Suc_eq)

lemma top_in_Some:
  "top_in P lo n = Some k \<longleftrightarrow> lo \<le> k \<and> k < n \<and> P k \<and> (\<forall>m. k < m \<and> m < n \<longrightarrow> \<not> P m)"
  by (induction n) (auto simp: less_Suc_eq)

lemma top_in_split:
  "lo \<le> m \<Longrightarrow> m \<le> n \<Longrightarrow>
    top_in P lo n = (case top_in P m n of Some k \<Rightarrow> Some k | None \<Rightarrow> top_in P lo m)"
proof (induction n)
  case (Suc n)
  show ?case
  proof (cases "m = Suc n")
    case True
    then have "top_in P m (Suc n) = None" by (simp add: top_in_None)
    with True show ?thesis by simp
  qed (use Suc in auto)
qed simp

lemma scan_bits_top:
  assumes "-1 \<le> cnt"
  shows "scan_bits tmp cnt (int lo) = top_in (bit tmp) lo (nat (cnt + 1))"
  using assms
proof (induction "nat (cnt + 1)" arbitrary: cnt)
  case 0
  then show ?case by (subst scan_bits.simps) auto
next
  case (Suc n)
  from Suc.hyps(2) have c: "cnt = int n" by simp
  have "scan_bits tmp (int n - 1) (int lo) = top_in (bit tmp) lo (nat (int n - 1 + 1))"
    by (rule Suc.hyps(1)) (use c in simp_all)
  then have IH: "scan_bits tmp (int n - 1) (int lo) = top_in (bit tmp) lo n" by simp
  have "nat (int n + 1) = Suc n" by simp
  then show ?case
    unfolding c by (subst scan_bits.simps) (simp add: IH)
qed

lemma and_push_mask_iff:
  fixes w :: "'a::len word"
  shows "w AND push_bit n (mask m) \<noteq> 0 \<longleftrightarrow> (\<exists>k. n \<le> k \<and> k < n + m \<and> bit w k)"
proof -
  have "bit (w AND push_bit n (mask m)) k \<longleftrightarrow> bit w k \<and> n \<le> k \<and> k < n + m" for k
    by (auto simp: bit_simps dest: bit_imp_le_length)
  then show ?thesis
    by (metis bit_eq_iff bit_0_eq bot_apply bot_bool_def)
qed

lemma byte_masks:
  "(0xff :: U32) = mask 8" "(0xf0 :: U32) = push_bit 4 (mask 4)"
  by (simp_all add: mask_eq_exp_minus_1 push_bit_eq_mult)

lemma nibble_step:
  "j < 32 \<Longrightarrow> (j AND 4 = 4 \<longleftrightarrow> 4 \<le> j mod 8) \<and> (4 \<le> j mod 8 \<longrightarrow> (j OR 3) - 4 = 8 * (j div 8) + (3 :: nat))"
proof -
  have "\<forall>j \<in> set [0..<32]. (j AND 4 = 4 \<longleftrightarrow> 4 \<le> j mod 8) \<and>
      (4 \<le> j mod 8 \<longrightarrow> (j OR 3) - 4 = 8 * (j div 8) + (3 :: nat))"
    by code_simp
  then show "j < 32 \<Longrightarrow> ?thesis" by simp
qed

lemma scan_byte_top:
  assumes "j < 32" and "num = j div 8"
  shows "scan_byte tmp num j = top_in (bit tmp) (num * 8) (j + 1)"
proof -
  have j: "num * 8 \<le> j" "j < num * 8 + 8" using assms(2) by auto
  have byte: "tmp AND push_bit (num * 8) 0xff \<noteq> 0 \<longleftrightarrow>
      (\<exists>k. num * 8 \<le> k \<and> k < num * 8 + 8 \<and> bit tmp k)"
    by (simp only: byte_masks and_push_mask_iff)
  have nib: "tmp AND push_bit (num * 8) 0xf0 \<noteq> 0 \<longleftrightarrow>
      (\<exists>k. num * 8 + 4 \<le> k \<and> k < num * 8 + 8 \<and> bit tmp k)"
    by (simp only: byte_masks push_bit_push_bit and_push_mask_iff) (simp add: add.commute)
  have s1: "scan_bits tmp (int j) (int (num * 8 + 4)) = top_in (bit tmp) (num * 8 + 4) (j + 1)"
    and s2: "scan_bits tmp (int i) (int (num * 8)) = top_in (bit tmp) (num * 8) (i + 1)" for i
    by (subst scan_bits_top; simp add: nat_add_distrib)+
  show ?thesis
  proof (cases "\<exists>k. num * 8 \<le> k \<and> k < num * 8 + 8 \<and> bit tmp k")
    case False
    with byte j show ?thesis by (auto simp: scan_byte_def top_in_None [symmetric] eq_commute[of None] top_in_None)
  next
    case True
    show ?thesis
    proof (cases "j mod 8 < 4")
      case low: True
      have "j < num * 8 + 4" unfolding assms(2) using low by presburger
      then have "top_in (bit tmp) (num * 8 + 4) (j + 1) = None"
        by (auto simp: top_in_None)
      moreover have "j AND 4 \<noteq> 4" using low nibble_step [OF assms(1)] by auto
      ultimately show ?thesis
        using True byte s1 s2 by (simp add: scan_byte_def Let_def del: of_nat_add of_nat_mult)
    next
      case high: False
      then have jj: "j AND 4 = 4" "(j OR 3) - 4 = num * 8 + 3"
        using nibble_step [OF assms(1)] assms(2) by auto
      have "num * 8 + 4 \<le> j" unfolding assms(2) using high by presburger
      note jj = jj this
      have top: "(if tmp AND push_bit (num * 8) 0xf0 \<noteq> 0 then top_in (bit tmp) (num * 8 + 4) (j + 1) else None)
          = top_in (bit tmp) (num * 8 + 4) (j + 1)"
        using nib j by (auto simp: eq_commute[of None] top_in_None)
      have "top_in (bit tmp) (num * 8) (j + 1) =
          (case top_in (bit tmp) (num * 8 + 4) (j + 1) of Some k \<Rightarrow> Some k
           | None \<Rightarrow> top_in (bit tmp) (num * 8) (num * 8 + 4))"
        using jj by (intro top_in_split) auto
      moreover have "scan_byte tmp num j = (case top_in (bit tmp) (num * 8 + 4) (j + 1) of
          Some k \<Rightarrow> Some k | None \<Rightarrow> scan_bits tmp (int (num * 8 + 3)) (int (num * 8)))"
        using True byte jj unfolding scan_byte_def s1 top Let_def
        by (simp cong: option.case_cong)
      moreover have "scan_bits tmp (int (num * 8 + 3)) (int (num * 8)) =
          top_in (bit tmp) (num * 8) (num * 8 + 4)"
        unfolding s2 by (simp only: add.assoc) (simp only: numeral_plus_one add_num_simps)
      ultimately show ?thesis by (simp only:)
    qed
  qed
qed

lemma scan_word_top:
  assumes "j < 32" and "num = j div 8"
  shows "scan_word tmp num j = top_in (bit tmp) 0 (j + 1)"
  using assms
proof (induction num arbitrary: j)
  case 0
  then show ?case
    by (subst scan_word.simps) (simp add: scan_byte_top split: option.splits)
next
  case (Suc num)
  have "Suc num \<le> 3" using Suc.prems by linarith
  then have "scan_word tmp num (num * 8 + 7) = top_in (bit tmp) 0 (num * 8 + 7 + 1)"
    by (intro Suc.IH) simp_all
  then have "scan_word tmp num (Suc num * 8 - 1) = top_in (bit tmp) 0 (Suc num * 8)"
    by (simp add: add.commute)
  moreover have "top_in (bit tmp) 0 (j + 1) = (case top_in (bit tmp) (Suc num * 8) (j + 1) of
      Some k \<Rightarrow> Some k | None \<Rightarrow> top_in (bit tmp) 0 (Suc num * 8))"
    using Suc.prems by (intro top_in_split) auto
  moreover have "scan_word tmp (Suc num) j = (case scan_byte tmp (Suc num) j of
      Some k \<Rightarrow> Some k | None \<Rightarrow> scan_word tmp num (Suc num * 8 - 1))"
    by (subst scan_word.simps) (simp only: nat.distinct if_False diff_Suc_1)
  ultimately show ?case
    by (simp only: scan_byte_top [OF Suc.prems])
qed

abbreviation rdy_bit :: "(nat \<Rightarrow> U32) \<Rightarrow> nat \<Rightarrow> bool" where
  "rdy_bit info k \<equiv> bit (info (k div 32)) (k mod 32)"

lemma top_in_shift:
  assumes "\<And>k. k < n \<Longrightarrow> P (m + k) = Q k"
  shows "top_in P m (m + n) = map_option (\<lambda>k. m + k) (top_in Q 0 n)"
  using assms
proof (induction n)
  case 0
  show ?case by (cases m) simp_all
qed auto

lemma scan_map_top:
  assumes "j < 32"
  shows "scan_map info i j =
    (case top_in (rdy_bit info) 0 (32 * i + j + 1) of None \<Rightarrow> INVALID_ID | Some k \<Rightarrow> of_nat k)"
  using assms
proof (induction i arbitrary: j)
  case 0
  have "(if info 0 \<noteq> 0 then scan_word (info 0) (j div 8) j else None) = top_in (bit (info 0)) 0 (j + 1)"
    using 0 by (auto simp: scan_word_top eq_commute [of None] top_in_None)
  moreover have "top_in (rdy_bit info) 0 (0 + (j + 1)) = map_option (\<lambda>k. 0 + k) (top_in (bit (info 0)) 0 (j + 1))"
    by (rule top_in_shift) (use 0 in auto)
  ultimately show ?case
    by (subst scan_map.simps) (simp add: option.map_ident del: top_in.simps split: option.split)
next
  case (Suc i)
  let ?n = "32 * Suc i"
  have "(if info (Suc i) \<noteq> 0 then scan_word (info (Suc i)) (j div 8) j else None) = top_in (bit (info (Suc i))) 0 (j + 1)"
    using Suc.prems by (auto simp: scan_word_top eq_commute [of None] top_in_None)
  moreover have "(?n + k) div 32 = Suc i" "(?n + k) mod 32 = k" if "k < j + 1" for k
    using that Suc.prems
    by (metis Suc_eq_plus1 Suc_leI add.commute div_less div_mult_self2 less_le_trans mod_less
        mod_mult_self2 add_0 zero_neq_numeral add_diff_cancel_right' less_Suc_eq_le order_le_less_trans)+
  then have "top_in (rdy_bit info) ?n (?n + (j + 1)) =
      map_option (\<lambda>k. ?n + k) (top_in (bit (info (Suc i))) 0 (j + 1))"
    by (intro top_in_shift) simp
  moreover have "top_in (rdy_bit info) 0 (?n + j + 1) =
      (case top_in (rdy_bit info) ?n (?n + j + 1) of Some k \<Rightarrow> Some k
       | None \<Rightarrow> top_in (rdy_bit info) 0 ?n)"
    by (rule top_in_split) simp_all
  moreover have "scan_map info i 31 =
    (case top_in (rdy_bit info) 0 ?n of None \<Rightarrow> INVALID_ID | Some k \<Rightarrow> of_nat k)"
    using Suc.IH [of 31] by (simp add: add.commute del: top_in.simps)
  ultimately show ?case
    by (subst scan_map.simps) (simp add: add.assoc del: top_in.simps split: option.split)
qed

lemma GetRdyPriSeqNum_top:
  "GetRdyPriSeqNum seqNum s =
    (case top_in (rdy_bit (RdyTaskPriInfo s)) 0 (Suc seqNum) of None \<Rightarrow> INVALID_ID | Some k \<Rightarrow> of_nat k)"
  unfolding GetRdyPriSeqNum_def by (subst scan_map_top) (simp_all del: top_in.simps)

lemma GetPriSeqNum_loop_correct:
  assumes "num \<le> seqNum" and "strict_mono_on {num..<seqNum} A"
  shows "\<exists>i. num \<le> i \<and> i \<le> seqNum \<and>
    (\<forall>k. num \<le> k \<and> k < i \<longrightarrow> A k < pri) \<and> (\<forall>k. i < k \<and> k < seqNum \<longrightarrow> pri < A k) \<and>
    GetPriSeqNum_loop A pri num seqNum = Some (i < seqNum \<and> A i = pri, i) \<and> (i < seqNum \<longrightarrow> pri \<le> A i)"
  using assms
proof (induction "seqNum - num" arbitrary: num seqNum rule: less_induct)
  case less
  show ?case
  proof (cases "num = seqNum")
    case True
    then show ?thesis by (subst GetPriSeqNum_loop.simps) auto
  next
    case False
    let ?m = "(num + seqNum) div 2"
    have m: "num \<le> ?m" "?m < seqNum" using less.prems False by auto
    have lt: "A i < A j" if "num \<le> i" "i < j" "j < seqNum" for i j
      using less.prems(2) that by (auto simp: strict_mono_on_def)
    consider "A ?m = pri" | "pri < A ?m" | "A ?m < pri" by fastforce
    then show ?thesis
    proof cases
      case 1
      then have "GetPriSeqNum_loop A pri num seqNum = Some (True, ?m)"
        using False by (subst GetPriSeqNum_loop.simps) (simp add: Let_def)
      with 1 m lt show ?thesis by (intro exI [of _ ?m]) auto
    next
      case 2
      have mono: "strict_mono_on {num..<?m} A"
        using less.prems(2) m by (auto simp: strict_mono_on_def)
      have "?m - num < seqNum - num" using m by linarith
      from less.hyps [OF this m(1) mono] obtain i where i: "num \<le> i" "i \<le> ?m"
        "\<forall>k. num \<le> k \<and> k < i \<longrightarrow> A k < pri" "\<forall>k. i < k \<and> k < ?m \<longrightarrow> pri < A k"
        "GetPriSeqNum_loop A pri num ?m = Some (i < ?m \<and> A i = pri, i)" "i < ?m \<longrightarrow> pri \<le> A i"
        by blast
      have "GetPriSeqNum_loop A pri num seqNum = GetPriSeqNum_loop A pri num ?m"
        using False 2 by (subst GetPriSeqNum_loop.simps) (auto simp: Let_def)
      moreover have "pri < A k" if "i < k" "k < seqNum" for k
      proof -
        consider "k < ?m" | "k = ?m" | "?m < k" by linarith
        then show ?thesis using i(4) that 2 lt [of ?m k] m by cases auto
      qed
      moreover have "(i < ?m \<and> A i = pri) = (i < seqNum \<and> A i = pri)" "i < seqNum \<longrightarrow> pri \<le> A i"
        using i(2,6) 2 m by (cases "i = ?m"; auto)+
      ultimately show ?thesis using i m by (intro exI [of _ i]) auto
    next
      case 3
      have mono: "strict_mono_on {?m + 1..<seqNum} A"
        using less.prems(2) m by (auto simp: strict_mono_on_def)
      have "seqNum - (?m + 1) < seqNum - num" "?m + 1 \<le> seqNum" using m by linarith+
      from less.hyps [OF this mono] obtain i where i: "?m + 1 \<le> i" "i \<le> seqNum"
        "\<forall>k. ?m + 1 \<le> k \<and> k < i \<longrightarrow> A k < pri" "\<forall>k. i < k \<and> k < seqNum \<longrightarrow> pri < A k"
        "GetPriSeqNum_loop A pri (?m + 1) seqNum = Some (i < seqNum \<and> A i = pri, i)" "i < seqNum \<longrightarrow> pri \<le> A i"
        by blast
      have "GetPriSeqNum_loop A pri num seqNum = GetPriSeqNum_loop A pri (?m + 1) seqNum"
        using False 3 by (subst GetPriSeqNum_loop.simps) (auto simp: Let_def)
      moreover have "A k < pri" if "num \<le> k" "k < i" for k
      proof -
        consider "?m < k" | "k = ?m" | "k < ?m" by linarith
        then show ?thesis using i(3) that 3 lt [of k ?m] m by cases auto
      qed
      ultimately show ?thesis using i m by (intro exI [of _ i]) auto
    qed
  qed
qed

end
