(* ===== verification/ReadyList.thy ===== *)
theory ReadyList
  imports PriQueue
begin

text \<open>
  The READY list of \<open>task.c\<close>: a doubly linked list through \<open>TCBnext\<close>/\<open>TCBprev\<close>, headed by
  \<open>TCBRdy\<close>, in priority order (a smaller number is a higher priority), tasks of one priority in
  the order they became ready. Both search strategies of the code are modelled: the ordered
  list walk and the Binary-Scheduling Algorithm.
\<close>

section \<open>Operations\<close>

text \<open>
  The round-robin clause at the head of \<open>InsertToTCBRdyList\<close>. The code reads \<open>ptcb->prio\<close> before
  it tests \<open>ptcb\<close> against \<open>Co_NULL\<close>; with a null \<open>TCBRunning\<close> the inner test skips the update
  whatever byte was read.
\<close>

definition set_check_time :: "config \<Rightarrow> OS_TID \<Rightarrow> kernel \<Rightarrow> kernel" where
  "set_check_time c tcbInsert s =
     (if CFG_ROBIN_EN c \<and> prio (TCBTbl s tcbInsert) = prio_at c s (TCBRunning s) then
        (case TCBRunning s of
           None \<Rightarrow> s
         | Some ptcb \<Rightarrow>
             if ptcb \<noteq> tcbInsert then
               if OSCheckTime s < OSTickCnt s
               then s\<lparr>OSCheckTime := OSTickCnt s + ucast (timeSlice (TCBTbl s ptcb))\<rparr>
               else s
             else s)
      else s)"

text \<open>The walk to the correct place: \<open>ptcb\<close> and \<open>ptcbNext\<close> when the loop stops.\<close>

partial_function (option) find_rdy_place ::
  "kernel \<Rightarrow> U8 \<Rightarrow> OS_TID \<Rightarrow> P_OSTCB \<Rightarrow> (OS_TID \<times> P_OSTCB) option" where
  "find_rdy_place s pri ptcb ptcbNext =
     (case ptcbNext of
        None \<Rightarrow> Some (ptcb, None)
      | Some n \<Rightarrow>
          if pri < prio (TCBTbl s n) then Some (ptcb, Some n)
          else find_rdy_place s pri n (TCBnext (TCBTbl s n)))"

text \<open>Link \<open>tcbInsert\<close> between \<open>ptcb\<close> and \<open>ptcbNext\<close>.\<close>

definition link_after :: "OS_TID \<Rightarrow> OS_TID \<Rightarrow> P_OSTCB \<Rightarrow> kernel \<Rightarrow> kernel" where
  "link_after tcbInsert ptcb ptcbNext s =
     (let s = upd_tcb tcbInsert (TCBnext_update (\<lambda>_. ptcbNext)) s;
          s = upd_tcb ptcb (TCBnext_update (\<lambda>_. Some tcbInsert)) s;
          s = upd_tcb tcbInsert (TCBprev_update (\<lambda>_. Some ptcb)) s
      in case ptcbNext of
           None \<Rightarrow> s
         | Some n \<Rightarrow> upd_tcb n (TCBprev_update (\<lambda>_. Some tcbInsert)) s)"

text \<open>Link \<open>tcbInsert\<close> in front of the list headed by \<open>ptcb\<close>.\<close>

definition link_head :: "OS_TID \<Rightarrow> OS_TID \<Rightarrow> kernel \<Rightarrow> kernel" where
  "link_head tcbInsert ptcb s =
     (let s = upd_tcb tcbInsert (TCBnext_update (\<lambda>_. Some ptcb)) s;
          s = upd_tcb ptcb (TCBprev_update (\<lambda>_. Some tcbInsert)) s
      in s\<lparr>TCBRdy := Some tcbInsert\<rparr>)"

text \<open>The \<open>#else\<close> branch (\<open>CFG_ORDER_LIST_SCHEDULE_EN\<close> not 0): walk the ordered list.\<close>

definition insert_order_list :: "OS_TID \<Rightarrow> kernel \<Rightarrow> kernel option" where
  "insert_order_list tcbInsert s =
     (case TCBRdy s of
        None \<Rightarrow> Some (s\<lparr>TaskSchedReq := True, TCBRdy := Some tcbInsert\<rparr>)
      | Some ptcb \<Rightarrow>
          if prio (TCBTbl s tcbInsert) < prio (TCBTbl s ptcb) then
            Some (link_head tcbInsert ptcb (s\<lparr>TaskSchedReq := True\<rparr>))
          else do {
            (ptcb, ptcbNext) \<leftarrow>
              find_rdy_place s (prio (TCBTbl s tcbInsert)) ptcb (TCBnext (TCBTbl s ptcb));
            Some (link_after tcbInsert ptcb ptcbNext s)
          })"

text \<open>
  The \<open>CFG_ORDER_LIST_SCHEDULE_EN == 0\<close> branch: the place behind the last ready task of the
  nearest ready priority comes from the priority tables.
\<close>

definition insert_binary :: "config \<Rightarrow> OS_TID \<Rightarrow> kernel \<Rightarrow> kernel option" where
  "insert_binary c tcbInsert s = do {
     (_, seqNum) \<leftarrow> GetPriSeqNum (prio (TCBTbl s tcbInsert)) s;
     if GetPrioSeqNumStatus seqNum s then do {
       ptcb \<leftarrow> tcb_ptr c (RdyTaskPri s seqNum);
       let s = s\<lparr>RdyTaskPri := (RdyTaskPri s)(seqNum := taskID (TCBTbl s tcbInsert))\<rparr>;
       Some (link_after tcbInsert ptcb (TCBnext (TCBTbl s ptcb)) s)
     } else do {
       let s = s\<lparr>RdyTaskPri := (RdyTaskPri s)(seqNum := taskID (TCBTbl s tcbInsert))\<rparr>;
       let rdySeq = GetRdyPriSeqNum seqNum s;
       let s = SetPrioSeqNumStatus seqNum True s;
       if rdySeq = INVALID_ID then
         let s = s\<lparr>TaskSchedReq := True\<rparr> in
         Some (case TCBRdy s of
                 None \<Rightarrow> s\<lparr>TCBRdy := Some tcbInsert\<rparr>
               | Some ptcb \<Rightarrow> link_head tcbInsert ptcb s)
       else do {
         ptcb \<leftarrow> tcb_ptr c (RdyTaskPri s (unat rdySeq));
         Some (link_after tcbInsert ptcb (TCBnext (TCBTbl s ptcb)) s)
       }
     }
   }"

definition InsertToTCBRdyList :: "config \<Rightarrow> OS_TID \<Rightarrow> kernel \<Rightarrow> kernel option" where
  "InsertToTCBRdyList c tcbInsert s =
     (let s = upd_tcb tcbInsert (state_update (\<lambda>_. TASK_READY)) s;
          s = set_check_time c tcbInsert s
      in if CFG_ORDER_LIST_SCHEDULE_EN c then insert_order_list tcbInsert s
         else insert_binary c tcbInsert s)"

text \<open>
  \<open>RemoveFromTCBRdyList\<close>, its four cases. \<open>unlink_rdy\<close> does the unlinking of the four cases;
  \<open>rdy_pri_change\<close> computes what each case does to the priority tables before it: \<open>isChange\<close>,
  and the new last ready task of the priority if there is one.
\<close>

definition unlink_rdy :: "OS_TID \<Rightarrow> kernel \<Rightarrow> kernel" where
  "unlink_rdy ptcb s =
     (case (TCBnext (TCBTbl s ptcb), TCBprev (TCBTbl s ptcb)) of
        (None, None) \<Rightarrow> s\<lparr>TCBRdy := None\<rparr>
      | (Some n, None) \<Rightarrow>
          let s = s\<lparr>TCBRdy := Some n\<rparr>;
              s = upd_tcb ptcb (TCBnext_update (\<lambda>_. None)) s
          in upd_tcb n (TCBprev_update (\<lambda>_. None)) s
      | (None, Some p) \<Rightarrow>
          let s = upd_tcb p (TCBnext_update (\<lambda>_. None)) s
          in upd_tcb ptcb (TCBprev_update (\<lambda>_. None)) s
      | (Some n, Some p) \<Rightarrow>
          let s = upd_tcb p (TCBnext_update (\<lambda>_. Some n)) s;
              s = upd_tcb n (TCBprev_update (\<lambda>_. Some p)) s;
              s = upd_tcb ptcb (TCBnext_update (\<lambda>_. None)) s
          in upd_tcb ptcb (TCBprev_update (\<lambda>_. None)) s)"

definition rdy_pri_change :: "OS_TID \<Rightarrow> kernel \<Rightarrow> bool \<times> OS_TID option" where
  "rdy_pri_change ptcb s =
     (let pri = prio (TCBTbl s ptcb) in
      case (TCBnext (TCBTbl s ptcb), TCBprev (TCBTbl s ptcb)) of
        (None, None) \<Rightarrow> (True, None)
      | (Some n, None) \<Rightarrow> (prio (TCBTbl s n) \<noteq> pri, None)
      | (None, Some p) \<Rightarrow>
          if prio (TCBTbl s p) \<noteq> pri then (True, None)
          else (False, Some (taskID (TCBTbl s p)))
      | (Some n, Some p) \<Rightarrow>
          if prio (TCBTbl s p) \<noteq> pri \<and> prio (TCBTbl s n) \<noteq> pri then (True, None)
          else if prio (TCBTbl s p) = pri \<and> prio (TCBTbl s n) \<noteq> pri
          then (False, Some (taskID (TCBTbl s p)))
          else (False, None))"

definition RemoveFromTCBRdyList :: "config \<Rightarrow> OS_TID \<Rightarrow> kernel \<Rightarrow> kernel option" where
  "RemoveFromTCBRdyList c ptcb s =
     (if CFG_ORDER_LIST_SCHEDULE_EN c then Some (unlink_rdy ptcb s)
      else do {
        (_, seqNum) \<leftarrow> GetPriSeqNum (prio (TCBTbl s ptcb)) s;
        let (isChange, lastTask) = rdy_pri_change ptcb s;
        let s = (case lastTask of
                   None \<Rightarrow> s
                 | Some t \<Rightarrow> s\<lparr>RdyTaskPri := (RdyTaskPri s)(seqNum := t)\<rparr>);
        let s = unlink_rdy ptcb s;
        if isChange then
          Some (SetPrioSeqNumStatus seqNum False
                  (s\<lparr>RdyTaskPri := (RdyTaskPri s)(seqNum := INVALID_ID)\<rparr>))
        else Some s
      })"

section \<open>Representation\<close>

text \<open>\<open>rdy_list s xs\<close>: the READY list is well linked and its tasks are \<open>xs\<close>, in order.\<close>

abbreviation nextf :: "kernel \<Rightarrow> OS_TID \<Rightarrow> P_OSTCB" where
  "nextf s \<equiv> (\<lambda>t. TCBnext (TCBTbl s t))"

abbreviation prevf :: "kernel \<Rightarrow> OS_TID \<Rightarrow> P_OSTCB" where
  "prevf s \<equiv> (\<lambda>t. TCBprev (TCBTbl s t))"

abbreviation priof :: "kernel \<Rightarrow> OS_TID \<Rightarrow> U8" where
  "priof s \<equiv> (\<lambda>t. prio (TCBTbl s t))"

definition rdy_list :: "kernel \<Rightarrow> OS_TID list \<Rightarrow> bool" where
  "rdy_list s xs \<longleftrightarrow> dlist (nextf s) (prevf s) (TCBRdy s) xs"

definition unlinked :: "kernel \<Rightarrow> OS_TID \<Rightarrow> bool" where
  "unlinked s t \<longleftrightarrow> TCBnext (TCBTbl s t) = None \<and> TCBprev (TCBTbl s t) = None"

text \<open>
  \<open>links_only A T T'\<close>: the control blocks \<open>T'\<close> are \<open>T\<close> except for the two
  link fields of the tasks in \<open>A\<close>.
\<close>

definition links_only :: "OS_TID set \<Rightarrow> (OS_TID \<Rightarrow> OSTCB) \<Rightarrow> (OS_TID \<Rightarrow> OSTCB) \<Rightarrow> bool" where
  "links_only A T T' \<longleftrightarrow>
     (\<forall>t. (t \<notin> A \<longrightarrow> T' t = T t) \<and>
          T' t = (T t)\<lparr>TCBnext := TCBnext (T' t), TCBprev := TCBprev (T' t)\<rparr>)"

section \<open>Linking and unlinking\<close>

lemma links_only_refl: "links_only A T T"
  by (simp add: links_only_def)

lemma find_rdy_place_chain:
  assumes "dchain (nextf s) (prevf s) p ys None"
  shows "find_rdy_place s pri t (hd_ptr ys None) =
    Some (the (last_ptr (Some t) (takeWhile (\<lambda>y. \<not> pri < priof s y) ys)),
          hd_ptr (dropWhile (\<lambda>y. \<not> pri < priof s y) ys) None)"
  using assms
proof (induction ys arbitrary: t p)
  case Nil
  then show ?case by (simp add: find_rdy_place.simps)
next
  case (Cons y ys)
  then have "nextf s y = hd_ptr ys None" and "dchain (nextf s) (prevf s) (Some y) ys None"
    by auto
  with Cons.IH [of "Some y" y] show ?case
    by (subst find_rdy_place.simps) auto
qed

lemma rdy_list_link_after:
  assumes "rdy_list s (xs @ ys)" and "xs \<noteq> []" and "t \<notin> set (xs @ ys)"
  shows "rdy_list (link_after t (last xs) (hd_ptr ys None) s) (xs @ t # ys)"
proof -
  have d: "distinct (xs @ t # ys)" and ch: "dchain (nextf s) (prevf s) None (xs @ ys) None"
    using assms by (auto simp: rdy_list_def dlist_def)
  have l: "last xs \<in> set xs" "last xs \<noteq> t" using assms by auto
  have h: "ys \<noteq> [] \<Longrightarrow> hd ys \<noteq> t \<and> hd ys \<noteq> last xs \<and> hd ys \<in> set ys"
    using d l by (cases ys) auto
  let ?s = "link_after t (last xs) (hd_ptr ys None) s"
  have "dchain (nextf ?s) (prevf ?s) None (xs @ t # ys) None"
    by (rule dchain_insert [OF ch d])
      (use assms(2,3) l h in \<open>auto simp: link_after_def Let_def last_ptr_def hd_ptr_def split: list.splits\<close>)
  moreover have "TCBRdy ?s = TCBRdy s"
    by (simp add: link_after_def Let_def split: option.splits)
  moreover have "TCBRdy s = hd_ptr (xs @ t # ys) None"
    using assms(1,2) by (cases xs) (auto simp: rdy_list_def dlist_def)
  ultimately show ?thesis
    using d by (simp add: rdy_list_def dlist_def)
qed

lemma rdy_list_link_head:
  assumes "rdy_list s (p # ys)" and "t \<notin> set (p # ys)" and "TCBprev (TCBTbl s t) = None"
  shows "rdy_list (link_head t p s) (t # p # ys)"
proof -
  have d: "distinct ([] @ t # p # ys)" and ch: "dchain (nextf s) (prevf s) None ([] @ p # ys) None"
    using assms by (auto simp: rdy_list_def dlist_def)
  let ?s = "link_head t p s"
  have "dchain (nextf ?s) (prevf ?s) None ([] @ t # p # ys) None"
    by (rule dchain_insert [OF ch d])
      (use assms in \<open>auto simp: link_head_def Let_def\<close>)
  then show ?thesis
    using d by (simp add: rdy_list_def dlist_def link_head_def Let_def)
qed

lemma rdy_list_unlink:
  assumes "rdy_list s (xs @ t # ys)"
  shows "rdy_list (unlink_rdy t s) (xs @ ys)" and "unlinked (unlink_rdy t s) t"
proof -
  have d: "distinct (xs @ t # ys)" and ch: "dchain (nextf s) (prevf s) None (xs @ t # ys) None"
    using assms by (auto simp: rdy_list_def dlist_def)
  then have n: "TCBnext (TCBTbl s t) = hd_ptr ys None" and p: "TCBprev (TCBTbl s t) = last_ptr None xs"
    by auto
  let ?s = "unlink_rdy t s"
  have "dchain (nextf ?s) (prevf ?s) None (xs @ ys) None"
    by (rule dchain_remove [OF ch d])
      (use d n p in \<open>cases ys; cases xs rule: rev_cases; auto simp: unlink_rdy_def Let_def\<close>)+
  moreover have "TCBRdy ?s = hd_ptr (xs @ ys) None"
    using assms n p by (cases xs rule: rev_cases; cases ys)
      (auto simp: unlink_rdy_def Let_def rdy_list_def dlist_def)
  ultimately show "rdy_list ?s (xs @ ys)"
    using d by (simp add: rdy_list_def dlist_def)
  show "unlinked ?s t"
    using d n p by (cases ys; cases xs rule: rev_cases) (auto simp: unlinked_def unlink_rdy_def Let_def)
qed

section \<open>Frames\<close>

text \<open>
  \<open>rdy_frame s s'\<close>: only the control blocks, the READY list and its tables, the request flag and
  the round-robin deadline differ.
\<close>

definition rdy_frame :: "kernel \<Rightarrow> kernel \<Rightarrow> bool" where
  "rdy_frame s s' \<longleftrightarrow>
     s' = s\<lparr>TCBTbl := TCBTbl s', TCBRdy := TCBRdy s', TaskSchedReq := TaskSchedReq s',
            OSCheckTime := OSCheckTime s', RdyTaskPri := RdyTaskPri s',
            RdyTaskPriInfo := RdyTaskPriInfo s'\<rparr>"

lemma rdy_frame_refl [simp]: "rdy_frame s s"
  by (simp add: rdy_frame_def)

lemma rdy_frame_trans: "rdy_frame s s' \<Longrightarrow> rdy_frame s' s'' \<Longrightarrow> rdy_frame s s''"
  unfolding rdy_frame_def by (erule ssubst)+ simp

lemma rdy_frame_upd [simp]:
  "rdy_frame s (TCBTbl_update a s') = rdy_frame s s'"
  "rdy_frame s (TCBRdy_update b s') = rdy_frame s s'"
  "rdy_frame s (TaskSchedReq_update d s') = rdy_frame s s'"
  "rdy_frame s (OSCheckTime_update e s') = rdy_frame s s'"
  "rdy_frame s (RdyTaskPri_update f s') = rdy_frame s s'"
  "rdy_frame s (RdyTaskPriInfo_update g s') = rdy_frame s s'"
  by (cases s; cases s'; simp add: rdy_frame_def)+

lemma rdy_frameD:
  assumes "rdy_frame s s'"
  shows "FreeTCB s' = FreeTCB s" "TCBNext s' = TCBNext s" "TCBRunning s' = TCBRunning s"
    "PriNum s' = PriNum s" "ActivePri s' = ActivePri s" "TaskNumPerPri s' = TaskNumPerPri s"
    "OSIntNesting s' = OSIntNesting s" "OSSchedLock s' = OSSchedLock s" "OSTickCnt s' = OSTickCnt s"
    "PendSVSet s' = PendSVSet s" "DlyList s' = DlyList s" "EventTbl s' = EventTbl s"
    "FreeEventList s' = FreeEventList s" "QueueTbl s' = QueueTbl s" "QueueIDVessel s' = QueueIDVessel s"
    "MutexFreeID s' = MutexFreeID s" "MutexTbl s' = MutexTbl s" "FlagCrl s' = FlagCrl s"
    "FlagNodes s' = FlagNodes s" "TmrTbl s' = TmrTbl s" "TmrList s' = TmrList s"
    "TmrIDVessel s' = TmrIDVessel s" "ServiceReq s' = ServiceReq s" "IsrReq s' = IsrReq s"
    "TimeReq s' = TimeReq s" "TimerReq s' = TimerReq s" "MemoryTbl s' = MemoryTbl s"
    "MemoryIDVessel s' = MemoryIDVessel s" "FMBlist s' = FMBlist s" "Kheap s' = Kheap s"
    "mem s' = mem s"
  using assms by (cases s; cases s'; simp add: rdy_frame_def)+

lemma links_onlyD:
  assumes "links_only A T T'"
  shows "prio (T' t) = prio (T t)" "state (T' t) = state (T t)" "taskID (T' t) = taskID (T t)"
    "stkPtr (T' t) = stkPtr (T t)" "stack (T' t) = stack (T t)" "timeSlice (T' t) = timeSlice (T t)"
    "mutexID (T' t) = mutexID (T t)" "eventID (T' t) = eventID (T t)" "pmail (T' t) = pmail (T t)"
    "waitNext (T' t) = waitNext (T t)" "waitPrev (T' t) = waitPrev (T t)" "pnode (T' t) = pnode (T t)"
    "delayTick (T' t) = delayTick (T t)"
proof -
  from assms have "T' t = (T t)\<lparr>TCBnext := TCBnext (T' t), TCBprev := TCBprev (T' t)\<rparr>"
    by (simp add: links_only_def)
  then show "prio (T' t) = prio (T t)" "state (T' t) = state (T t)" "taskID (T' t) = taskID (T t)"
    "stkPtr (T' t) = stkPtr (T t)" "stack (T' t) = stack (T t)" "timeSlice (T' t) = timeSlice (T t)"
    "mutexID (T' t) = mutexID (T t)" "eventID (T' t) = eventID (T t)" "pmail (T' t) = pmail (T t)"
    "waitNext (T' t) = waitNext (T t)" "waitPrev (T' t) = waitPrev (T t)" "pnode (T' t) = pnode (T t)"
    "delayTick (T' t) = delayTick (T t)"
    by (cases "T t"; cases "T' t"; simp)+
qed

lemma links_only_outside: "links_only A T T' \<Longrightarrow> t \<notin> A \<Longrightarrow> T' t = T t"
  by (simp add: links_only_def)

lemma links_only_trans:
  assumes "links_only A T T'" and "links_only B T' T''" and "A \<subseteq> C" and "B \<subseteq> C"
  shows "links_only C T T''"
  unfolding links_only_def
proof (intro allI conjI impI)
  fix t
  show "T'' t = (T t)\<lparr>TCBnext := TCBnext (T'' t), TCBprev := TCBprev (T'' t)\<rparr>"
    by (rule OSTCB.equality) (simp_all add: links_onlyD [OF assms(1)] links_onlyD [OF assms(2)])
  show "T'' t = T t" if "t \<notin> C"
    using that assms links_only_outside by (metis subsetD)
qed

lemma links_only_upd:
  assumes "links_only A T (TCBTbl s)" and "a \<in> A"
  shows "links_only A T (TCBTbl (upd_tcb a (TCBnext_update f) s))"
    and "links_only A T (TCBTbl (upd_tcb a (TCBprev_update f) s))"
  unfolding links_only_def
  using links_onlyD [OF assms(1)] links_only_outside [OF assms(1)] assms(2)
  by (auto intro!: OSTCB.equality)

lemma links_only_TCBRdy:
  "links_only A T (TCBTbl s) \<Longrightarrow> links_only A T (TCBTbl (TCBRdy_update f s))"
  by simp

lemmas links_only_intros = links_only_upd links_only_TCBRdy links_only_refl

lemma link_after_frame:
  assumes "p \<in> A" and "t \<in> A" and "set_option nx \<subseteq> A"
  shows "links_only A (TCBTbl s) (TCBTbl (link_after t p nx s))"
  unfolding link_after_def Let_def
  by (cases nx) (use assms in \<open>simp_all only: option.case\<close>, (intro links_only_intros; simp)+)

lemma link_after_rdy_frame [simp]:
  "rdy_frame s0 (link_after t p nx s) = rdy_frame s0 s" "TaskSchedReq (link_after t p nx s) = TaskSchedReq s"
  "RdyTaskPri (link_after t p nx s) = RdyTaskPri s" "RdyTaskPriInfo (link_after t p nx s) = RdyTaskPriInfo s"
  "ActivePri (link_after t p nx s) = ActivePri s" "PriNum (link_after t p nx s) = PriNum s"
  by (simp_all add: link_after_def Let_def split: option.splits)

lemma link_head_frame:
  assumes "p \<in> A" and "t \<in> A"
  shows "links_only A (TCBTbl s) (TCBTbl (link_head t p s))"
  unfolding link_head_def Let_def using assms by (intro links_only_intros)

lemma link_head_rdy_frame [simp]:
  "rdy_frame s0 (link_head t p s) = rdy_frame s0 s" "TaskSchedReq (link_head t p s) = TaskSchedReq s"
  "RdyTaskPri (link_head t p s) = RdyTaskPri s" "RdyTaskPriInfo (link_head t p s) = RdyTaskPriInfo s"
  "ActivePri (link_head t p s) = ActivePri s" "PriNum (link_head t p s) = PriNum s"
  by (simp_all add: link_head_def Let_def)

lemma unlink_rdy_frame:
  assumes "t \<in> A" and "set_option (nextf s t) \<subseteq> A" and "set_option (prevf s t) \<subseteq> A"
  shows "links_only A (TCBTbl s) (TCBTbl (unlink_rdy t s))"
  unfolding unlink_rdy_def Let_def
  by (cases "TCBnext (TCBTbl s t)"; cases "TCBprev (TCBTbl s t)")
    (use assms in \<open>simp_all only: option.case prod.case\<close>, (intro links_only_intros; simp)+)

lemma unlink_rdy_rdy_frame [simp]:
  "rdy_frame s0 (unlink_rdy t s) = rdy_frame s0 s" "TaskSchedReq (unlink_rdy t s) = TaskSchedReq s"
  "RdyTaskPri (unlink_rdy t s) = RdyTaskPri s" "RdyTaskPriInfo (unlink_rdy t s) = RdyTaskPriInfo s"
  "ActivePri (unlink_rdy t s) = ActivePri s" "PriNum (unlink_rdy t s) = PriNum s"
  by (simp_all add: unlink_rdy_def Let_def split: option.splits)

lemma set_check_time_simps [simp]:
  "TCBTbl (set_check_time c t s) = TCBTbl s" "TCBRdy (set_check_time c t s) = TCBRdy s"
  "TaskSchedReq (set_check_time c t s) = TaskSchedReq s" "RdyTaskPri (set_check_time c t s) = RdyTaskPri s"
  "RdyTaskPriInfo (set_check_time c t s) = RdyTaskPriInfo s" "ActivePri (set_check_time c t s) = ActivePri s"
  "PriNum (set_check_time c t s) = PriNum s"
  by (simp_all add: set_check_time_def split: option.splits)

lemma set_check_time_frame [simp]: "rdy_frame s (set_check_time c t s') = rdy_frame s s'"
  by (simp add: set_check_time_def split: option.splits)

end
