(* ===== verification/ReadyQueue.thy ===== *)
theory ReadyQueue
  imports ReadyList
begin

text \<open>
  The READY list as a stable priority queue: the invariant that ties the linked list to the
  tables of the binary scheme, the proof that insertion and removal keep it under both search
  strategies, and the interface \<open>ready_queue\<close> that the scheduler and the other modules rely on.
\<close>

section \<open>The invariant\<close>

text \<open>The tasks of one priority in the READY list.\<close>

abbreviation of_prio :: "kernel \<Rightarrow> U8 \<Rightarrow> OS_TID list \<Rightarrow> OS_TID list" where
  "of_prio s p xs \<equiv> filter (\<lambda>t. priof s t = p) xs"

text \<open>
  The priority tables agree with the READY list: the active priorities are in strictly
  ascending order, the ready bit of each says whether a task of it is in the list, and
  \<open>RdyTaskPri\<close> names the last of them.
\<close>

definition pri_active :: "kernel \<Rightarrow> U8 \<Rightarrow> bool" where
  "pri_active s p \<longleftrightarrow> (\<exists>k < unat (PriNum s). ActivePri s k = p)"

definition valid_tid :: "config \<Rightarrow> kernel \<Rightarrow> OS_TID \<Rightarrow> bool" where
  "valid_tid c s t \<longleftrightarrow> taskID (TCBTbl s t) = t \<and> unat t < task_max c"

definition tables_inv :: "config \<Rightarrow> kernel \<Rightarrow> OS_TID list \<Rightarrow> bool" where
  "tables_inv c s xs \<longleftrightarrow>
     task_max c \<le> 254 \<and> unat (PriNum s) \<le> task_max c \<and>
     strict_mono_on {0..<unat (PriNum s)} (ActivePri s) \<and>
     (\<forall>t \<in> set xs. pri_active s (priof s t) \<and> valid_tid c s t) \<and>
     (\<forall>k < unat (PriNum s).
        (rdy_bit (RdyTaskPriInfo s) k \<longleftrightarrow> of_prio s (ActivePri s k) xs \<noteq> []) \<and>
        RdyTaskPri s k = (if of_prio s (ActivePri s k) xs = [] then INVALID_ID
                          else last (of_prio s (ActivePri s k) xs)))"

definition rdy_inv :: "config \<Rightarrow> kernel \<Rightarrow> OS_TID list \<Rightarrow> bool" where
  "rdy_inv c s xs \<longleftrightarrow> rdy_list s xs \<and> sorted (map (priof s) xs) \<and>
     (CFG_ORDER_LIST_SCHEDULE_EN c \<or> tables_inv c s xs)"

text \<open>What the code relies on for a task it puts into the list.\<close>

definition admissible :: "config \<Rightarrow> kernel \<Rightarrow> OS_TID \<Rightarrow> bool" where
  "admissible c s t \<longleftrightarrow> unlinked s t \<and>
     (CFG_ORDER_LIST_SCHEDULE_EN c \<or> pri_active s (priof s t) \<and> valid_tid c s t)"

definition ins_frame :: "OS_TID \<Rightarrow> OS_TID list \<Rightarrow> kernel \<Rightarrow> kernel \<Rightarrow> bool" where
  "ins_frame t xs s s' \<longleftrightarrow> rdy_frame s s' \<and>
     links_only (insert t (set xs)) ((TCBTbl s)(t := (TCBTbl s t)\<lparr>state := TASK_READY\<rparr>)) (TCBTbl s') \<and>
     TaskSchedReq s' = (TaskSchedReq s \<or> hd (insort_after (priof s) t xs) = t)"

definition rem_frame :: "OS_TID list \<Rightarrow> kernel \<Rightarrow> kernel \<Rightarrow> bool" where
  "rem_frame xs s s' \<longleftrightarrow> rdy_frame s s' \<and> links_only (set xs) (TCBTbl s) (TCBTbl s') \<and>
     TaskSchedReq s' = TaskSchedReq s"

lemma sorted_filter_takeWhile:
  fixes f :: "'a \<Rightarrow> 'b::linorder"
  assumes "sorted (map f xs)"
  shows "takeWhile (\<lambda>y. \<not> p < f y) xs = filter (\<lambda>y. \<not> p < f y) xs"
  using assms
proof (induction xs)
  case (Cons x xs)
  show ?case
  proof (cases "p < f x")
    case True
    with Cons.prems have "\<forall>y \<in> set xs. p < f y" by fastforce
    with True show ?thesis by simp
  qed (use Cons in simp)
qed simp

lemma sorted_dropWhile_hd:
  "ys = dropWhile (\<lambda>y. \<not> p < f y) xs \<Longrightarrow> ys \<noteq> [] \<Longrightarrow> p < f (hd ys)"
  using hd_dropWhile [of "\<lambda>y. \<not> p < f y" xs] by auto

lemma last_filter: "ys \<noteq> [] \<Longrightarrow> Q (last ys) \<Longrightarrow> last (filter Q ys) = last ys"
  by (induction ys rule: rev_induct) auto

text \<open>The last task in front of the place of a new one is the last one of the nearest priority.\<close>

lemma last_takeWhile_prio:
  fixes f :: "'a \<Rightarrow> 'b::linorder"
  assumes "sorted (map f xs)" and "x \<in> set xs" and "f x \<le> p"
    and "\<And>y. y \<in> set xs \<Longrightarrow> f y \<le> p \<Longrightarrow> f y \<le> f x"
  shows "last (takeWhile (\<lambda>y. \<not> p < f y) xs) = last (filter (\<lambda>y. f y = f x) xs)"
    and "takeWhile (\<lambda>y. \<not> p < f y) xs \<noteq> []"
proof -
  let ?ys = "filter (\<lambda>y. \<not> p < f y) xs"
  have ne: "?ys \<noteq> []" using assms(2,3) by (auto simp: filter_empty_conv not_less)
  have s: "sorted (map f ?ys)" using assms(1) by (rule sorted_filter)
  have x: "x \<in> set ?ys" using assms(2,3) by auto
  have "f x \<le> f (last ?ys)"
  proof -
    obtain zs where z: "?ys = zs @ [last ?ys]" using ne by (metis append_butlast_last_id)
    then have "sorted (map f zs @ [f (last ?ys)])"
      using s by (metis list.simps(8,9) map_append)
    then have "\<forall>a \<in> set zs. f a \<le> f (last ?ys)" by (simp add: sorted_append)
    moreover have "x \<in> set zs \<or> x = last ?ys" using x by (subst (asm) z) auto
    ultimately show ?thesis by auto
  qed
  moreover have "last ?ys \<in> set xs" "f (last ?ys) \<le> p"
    using last_in_set [OF ne] by (auto simp: not_less)
  ultimately have "f (last ?ys) = f x" using assms(4) by fastforce
  then have "last (filter (\<lambda>y. f y = f x) ?ys) = last ?ys" by (intro last_filter ne) simp
  moreover have "filter (\<lambda>y. f y = f x) ?ys = filter (\<lambda>y. f y = f x) xs"
    using assms(3) by (auto simp: filter_filter intro!: filter_cong)
  ultimately show "last (takeWhile (\<lambda>y. \<not> p < f y) xs) = last (filter (\<lambda>y. f y = f x) xs)"
    "takeWhile (\<lambda>y. \<not> p < f y) xs \<noteq> []"
    using ne by (simp_all add: sorted_filter_takeWhile [OF assms(1)])
qed

section \<open>Insertion\<close>

lemma set_status_bit [simp]:
  "rdy_bit (RdyTaskPriInfo (SetPrioSeqNumStatus k b s)) i =
     (if i = k then b else rdy_bit (RdyTaskPriInfo s) i)"
proof -
  have "i div 32 \<noteq> k div 32 \<or> i mod 32 \<noteq> k mod 32" if "i \<noteq> k"
    using that by (metis div_mult_mod_eq)
  moreover have "k mod 32 < 32" "i mod 32 < 32" by simp_all
  ultimately show ?thesis
    by (auto simp: SetPrioSeqNumStatus_def Let_def bit_simps)
qed

lemma set_status_simps [simp]:
  "TCBTbl (SetPrioSeqNumStatus k b s) = TCBTbl s" "TCBRdy (SetPrioSeqNumStatus k b s) = TCBRdy s"
  "RdyTaskPri (SetPrioSeqNumStatus k b s) = RdyTaskPri s" "PriNum (SetPrioSeqNumStatus k b s) = PriNum s"
  "ActivePri (SetPrioSeqNumStatus k b s) = ActivePri s"
  "TaskSchedReq (SetPrioSeqNumStatus k b s) = TaskSchedReq s"
  "rdy_frame s' (SetPrioSeqNumStatus k b s) = rdy_frame s' s"
  by (simp_all add: SetPrioSeqNumStatus_def Let_def)

lemma get_status_bit: "GetPrioSeqNumStatus k s = rdy_bit (RdyTaskPriInfo s) k"
proof -
  have "RdyTaskPriInfo s (k div 32) AND push_bit (k mod 32) (mask 1) \<noteq> 0 \<longleftrightarrow>
      bit (RdyTaskPriInfo s (k div 32)) (k mod 32)"
    unfolding and_push_mask_iff by (auto simp: le_less_Suc_eq)
  then show ?thesis by (simp add: GetPrioSeqNumStatus_def)
qed

lemma GetPriSeqNum_active:
  assumes "strict_mono_on {0..<unat (PriNum s)} (ActivePri s)" and "k < unat (PriNum s)"
    and "ActivePri s k = pri"
  shows "GetPriSeqNum pri s = Some (True, k)"
proof -
  obtain i where i: "i \<le> unat (PriNum s)" "\<forall>j. j < i \<longrightarrow> ActivePri s j < pri"
    "\<forall>j. i < j \<and> j < unat (PriNum s) \<longrightarrow> pri < ActivePri s j"
    "GetPriSeqNum_loop (ActivePri s) pri 0 (unat (PriNum s)) =
       Some (i < unat (PriNum s) \<and> ActivePri s i = pri, i)"
    using GetPriSeqNum_loop_correct [OF _ assms(1), of pri] by auto
  have "i = k" using i(2,3) assms(2,3) by (metis less_irrefl linorder_neqE_nat)
  with i(4) assms show ?thesis by (simp add: GetPriSeqNum_def)
qed

lemma tables_inv_insert:
  assumes "tables_inv c s xs" and "sorted (map (priof s) xs)" and "valid_tid c s t"
    and "k < unat (PriNum s)" and "ActivePri s k = priof s t"
    and "ActivePri s' = ActivePri s" and "PriNum s' = PriNum s"
    and "RdyTaskPri s' = (RdyTaskPri s)(k := t)"
    and "\<And>i. i < unat (PriNum s) \<Longrightarrow> rdy_bit (RdyTaskPriInfo s') i = (rdy_bit (RdyTaskPriInfo s) i \<or> i = k)"
    and "\<And>u. prio (TCBTbl s' u) = prio (TCBTbl s u)" and "\<And>u. taskID (TCBTbl s' u) = taskID (TCBTbl s u)"
  shows "tables_inv c s' (insort_after (priof s) t xs)"
proof -
  have inj: "ActivePri s i = ActivePri s k \<longleftrightarrow> i = k" if "i < unat (PriNum s)" for i
    using assms(1,4) that strict_mono_on_imp_inj_on [of "{0..<unat (PriNum s)}" "ActivePri s"]
    by (auto simp: tables_inv_def inj_on_def)
  have "pri_active s (priof s t)" using assms(4,5) by (auto simp: pri_active_def)
  moreover have "priof s t = ActivePri s i \<longleftrightarrow> i = k" if "i < unat (PriNum s)" for i
    using inj [OF that] assms(5) by auto
  ultimately show ?thesis
    using assms unfolding tables_inv_def
    by (simp add: filter_insort_after pri_active_def valid_tid_def)
qed

lemma place_split:
  assumes "rdy_list s xs" and "t \<notin> set xs"
  defines "as \<equiv> takeWhile (\<lambda>y. \<not> priof s t < priof s y) xs"
    and "bs \<equiv> dropWhile (\<lambda>y. \<not> priof s t < priof s y) xs"
  shows "xs = as @ bs" and "insort_after (priof s) t xs = as @ t # bs"
    and "as \<noteq> [] \<Longrightarrow> nextf s (last as) = hd_ptr bs None"
    and "as = [] \<Longrightarrow> TCBRdy s = hd_ptr bs None"
proof -
  show x: "xs = as @ bs" unfolding as_def bs_def by simp
  show "insort_after (priof s) t xs = as @ t # bs" unfolding as_def bs_def by (rule insort_after_split)
  have d: "dlist (nextf s) (prevf s) (TCBRdy s) (as @ bs)" using assms(1) x by (simp add: rdy_list_def)
  show "nextf s (last as) = hd_ptr bs None" if "as \<noteq> []"
  proof -
    have "as @ bs = butlast as @ last as # bs" using append_butlast_last_id [OF that] by simp
    with d have "dlist (nextf s) (prevf s) (TCBRdy s) (butlast as @ last as # bs)" by (simp only:)
    then show ?thesis by (rule dlist_links(1))
  qed
  show "TCBRdy s = hd_ptr bs None" if "as = []" using d that by (simp add: dlist_def)
qed

text \<open>Linking a task in behind the last one that may not be overtaken.\<close>

lemma link_after_insort:
  assumes "rdy_list s xs" and "t \<notin> set xs"
    and "as = takeWhile (\<lambda>y. \<not> priof s t < priof s y) xs" and "as \<noteq> []" and "p = last as"
    and "TCBTbl s1 = TCBTbl s" and "TCBRdy s1 = TCBRdy s"
  shows "rdy_list (link_after t p (nextf s p) s1) (insort_after (priof s) t xs)"
    and "links_only (insert t (set xs)) (TCBTbl s) (TCBTbl (link_after t p (nextf s p) s1))"
    and "hd (insort_after (priof s) t xs) \<noteq> t"
proof -
  define bs where "bs = dropWhile (\<lambda>y. \<not> priof s t < priof s y) xs"
  note sp = place_split [OF assms(1,2), folded assms(3) bs_def]
  have r: "rdy_list s1 (as @ bs)" using assms(1,6,7) sp(1) by (simp add: rdy_list_def)
  have n: "nextf s p = hd_ptr bs None" using sp(3) assms(4,5) by simp
  have "t \<notin> set (as @ bs)" using assms(2) sp(1) by simp
  then have "rdy_list (link_after t p (hd_ptr bs None) s1) (as @ t # bs)"
    unfolding assms(5) by (rule rdy_list_link_after [OF r assms(4)])
  then show "rdy_list (link_after t p (nextf s p) s1) (insort_after (priof s) t xs)"
    by (simp only: n sp(2))
  have sub: "set as \<subseteq> set xs" "set bs \<subseteq> set xs" using sp(1) by (metis Un_upper1 Un_upper2 set_append)+
  have "p \<in> set xs" using assms(4,5) sub(1) by auto
  moreover have "set_option (nextf s p) \<subseteq> set xs"
    unfolding n using sub(2) by (cases bs) auto
  ultimately show "links_only (insert t (set xs)) (TCBTbl s) (TCBTbl (link_after t p (nextf s p) s1))"
    using link_after_frame [of p "insert t (set xs)" t "nextf s p" s1] assms(6) by auto
  show "hd (insort_after (priof s) t xs) \<noteq> t"
    using assms(2,4) sp(1) unfolding sp(2) by (cases as) auto
qed

lemma link_head_insort:
  assumes "rdy_list s xs" and "t \<notin> set xs" and "unlinked s t"
    and "takeWhile (\<lambda>y. \<not> priof s t < priof s y) xs = []"
    and "TCBTbl s1 = TCBTbl s" and "TCBRdy s1 = TCBRdy s"
  defines "s2 \<equiv> (case TCBRdy s1 of None \<Rightarrow> s1\<lparr>TCBRdy := Some t\<rparr> | Some p \<Rightarrow> link_head t p s1)"
  shows "rdy_list s2 (insort_after (priof s) t xs)"
    and "links_only (insert t (set xs)) (TCBTbl s) (TCBTbl s2)"
    and "hd (insort_after (priof s) t xs) = t"
proof -
  note sp = place_split [OF assms(1,2), unfolded assms(4), simplified]
  have ins: "insort_after (priof s) t xs = t # xs" using sp(1,2) by simp
  then show "hd (insort_after (priof s) t xs) = t" by simp
  have r: "rdy_list s1 xs" using assms(1,5,6) by (simp add: rdy_list_def)
  show "rdy_list s2 (insort_after (priof s) t xs)"
  proof (cases xs)
    case Nil
    with r assms(3,5) show ?thesis
      unfolding s2_def ins by (simp add: rdy_list_def dlist_def unlinked_def)
  next
    case (Cons p ys)
    then have "TCBRdy s1 = Some p" using r by (simp add: rdy_list_def dlist_def)
    moreover have "rdy_list (link_head t p s1) (t # p # ys)"
      by (rule rdy_list_link_head) (use r Cons assms(2,3,5) in \<open>simp_all add: unlinked_def\<close>)
    ultimately show ?thesis unfolding s2_def ins using Cons by simp
  qed
  show "links_only (insert t (set xs)) (TCBTbl s) (TCBTbl s2)"
  proof (cases xs)
    case Nil
    then have "TCBRdy s1 = None" using r by (simp add: rdy_list_def dlist_def)
    then show ?thesis unfolding s2_def using assms(5) by (simp add: links_only_refl)
  next
    case (Cons p ys)
    then have "TCBRdy s1 = Some p" using r by (simp add: rdy_list_def dlist_def)
    then show ?thesis unfolding s2_def
      using link_head_frame [of p "insert t (set xs)" t s1] Cons assms(5) by simp
  qed
qed

lemma insert_order_list_ok:
  assumes "rdy_list s xs" and "t \<notin> set xs" and "unlinked s t"
  shows "\<exists>s'. insert_order_list t s = Some s' \<and> rdy_list s' (insort_after (priof s) t xs) \<and>
    links_only (insert t (set xs)) (TCBTbl s) (TCBTbl s') \<and> rdy_frame s s' \<and>
    TaskSchedReq s' = (TaskSchedReq s \<or> hd (insort_after (priof s) t xs) = t)"
proof -
  let ?P = "\<lambda>y. \<not> priof s t < priof s y"
  show ?thesis
  proof (cases "takeWhile ?P xs = []")
    case True
    let ?s1 = "s\<lparr>TaskSchedReq := True\<rparr>"
    have "insert_order_list t s =
        Some (case TCBRdy ?s1 of None \<Rightarrow> ?s1\<lparr>TCBRdy := Some t\<rparr> | Some p \<Rightarrow> link_head t p ?s1)"
      using True assms(1) by (cases xs) (auto simp: insert_order_list_def rdy_list_def dlist_def split: if_splits)
    moreover note link_head_insort [OF assms True, of ?s1]
    ultimately show ?thesis by (auto split: option.splits)
  next
    case False
    then obtain p ys where xs: "xs = p # ys" "?P p" by (cases xs) (auto split: if_splits)
    have rdy: "TCBRdy s = Some p" and ch: "dchain (nextf s) (prevf s) (Some p) ys None"
      and nx: "TCBnext (TCBTbl s p) = hd_ptr ys None"
      using assms(1) xs(1) by (auto simp: rdy_list_def dlist_def)
    let ?as = "takeWhile ?P xs"
    have "the (last_ptr (Some p) (takeWhile ?P ys)) = last ?as" using xs by (simp add: last_ptr_def)
    moreover have "hd_ptr (dropWhile ?P ys) None = nextf s (last ?as)"
      using place_split(3) [OF assms(1,2) False] xs by simp
    ultimately have "insert_order_list t s = Some (link_after t (last ?as) (nextf s (last ?as)) s)"
      using xs rdy nx find_rdy_place_chain [OF ch, of "priof s t" p]
      by (simp add: insert_order_list_def)
    with link_after_insort [OF assms(1,2) refl False refl refl refl] show ?thesis by simp
  qed
qed

lemma nearest_ready:
  assumes "tables_inv c s xs" and "k < unat (PriNum s)" and "x \<in> set xs" and "priof s x \<le> ActivePri s k"
  shows "\<exists>j. j \<le> k \<and> rdy_bit (RdyTaskPriInfo s) j \<and> ActivePri s j = priof s x"
proof -
  obtain j where j: "j < unat (PriNum s)" "ActivePri s j = priof s x"
    using assms(1,3) by (auto simp: tables_inv_def pri_active_def)
  then have "rdy_bit (RdyTaskPriInfo s) j"
    using assms(1,3) by (auto simp: tables_inv_def filter_empty_conv)
  moreover have "j \<le> k"
  proof (rule ccontr)
    assume "\<not> j \<le> k"
    then have "ActivePri s k < ActivePri s j"
      using assms(1,2) j(1) by (auto simp: tables_inv_def strict_mono_on_def)
    with j(2) assms(4) show False by simp
  qed
  ultimately show ?thesis using j(2) by blast
qed

text \<open>The highest ready priority at or above \<open>k\<close>'s place names the task to insert behind.\<close>

lemma tables_place:
  assumes "tables_inv c s xs" and "sorted (map (priof s) xs)" and "k < unat (PriNum s)"
    and "j \<le> k" and "rdy_bit (RdyTaskPriInfo s) j" and "\<forall>m. j < m \<and> m < Suc k \<longrightarrow> \<not> rdy_bit (RdyTaskPriInfo s) m"
  shows "takeWhile (\<lambda>y. \<not> ActivePri s k < priof s y) xs \<noteq> []"
    and "RdyTaskPri s j = last (takeWhile (\<lambda>y. \<not> ActivePri s k < priof s y) xs)"
    and "tcb_ptr c (RdyTaskPri s j) = Some (RdyTaskPri s j)"
proof -
  have jn: "j < unat (PriNum s)" using assms(3,4) by simp
  have ne: "of_prio s (ActivePri s j) xs \<noteq> []" using assms(1,5) jn by (simp add: tables_inv_def)
  then obtain x where x: "x \<in> set xs" "priof s x = ActivePri s j" by (auto simp: filter_empty_conv)
  have mono: "ActivePri s a \<le> ActivePri s b" if "a \<le> b" "b < unat (PriNum s)" for a b
    using assms(1) that by (cases "a = b") (auto simp: tables_inv_def strict_mono_on_def less_imp_le)
  have le: "priof s x \<le> ActivePri s k" using x(2) mono assms(3,4) by simp
  have max: "priof s y \<le> priof s x" if "y \<in> set xs" "priof s y \<le> ActivePri s k" for y
  proof -
    from nearest_ready [OF assms(1,3) that(1) that(2)]
    obtain i where "i \<le> k" "rdy_bit (RdyTaskPriInfo s) i" "ActivePri s i = priof s y" by blast
    moreover from this have "i \<le> j" using assms(6) by (meson not_less less_Suc_eq_le)
    ultimately show ?thesis using x(2) mono [OF _ jn] by metis
  qed
  note L = last_takeWhile_prio [OF assms(2) x(1) le max]
  show "takeWhile (\<lambda>y. \<not> ActivePri s k < priof s y) xs \<noteq> []" using L(2) by blast
  have r: "RdyTaskPri s j = last (of_prio s (ActivePri s j) xs)"
    using assms(1) jn ne by (simp add: tables_inv_def)
  then show "RdyTaskPri s j = last (takeWhile (\<lambda>y. \<not> ActivePri s k < priof s y) xs)"
    using L(1) x(2) by simp
  have "RdyTaskPri s j \<in> set xs" using r last_in_set [OF ne] by simp
  then show "tcb_ptr c (RdyTaskPri s j) = Some (RdyTaskPri s j)"
    using assms(1) by (simp add: tables_inv_def valid_tid_def tcb_ptr_def)
qed

lemma unat_INVALID_ID: "unat INVALID_ID = 255"
  by (simp add: INVALID_ID_def)

lemma insert_binary_ok:
  assumes "rdy_list s xs" and "t \<notin> set xs" and "unlinked s t"
    and "sorted (map (priof s) xs)" and "tables_inv c s xs" and "pri_active s (priof s t)" and "valid_tid c s t"
  shows "\<exists>s'. insert_binary c t s = Some s' \<and> rdy_list s' (insort_after (priof s) t xs) \<and>
    links_only (insert t (set xs)) (TCBTbl s) (TCBTbl s') \<and> rdy_frame s s' \<and>
    TaskSchedReq s' = (TaskSchedReq s \<or> hd (insort_after (priof s) t xs) = t) \<and>
    tables_inv c s' (insort_after (priof s) t xs)"
proof -
  obtain k where k: "k < unat (PriNum s)" "ActivePri s k = priof s t"
    using assms(6) by (auto simp: pri_active_def)
  have get: "GetPriSeqNum (priof s t) s = Some (True, k)"
    using GetPriSeqNum_active k assms(5) by (auto simp: tables_inv_def)
  have tid: "taskID (TCBTbl s t) = t" using assms(7) by (simp add: valid_tid_def)
  have small: "unat (PriNum s) \<le> 254" using assms(5) by (simp add: tables_inv_def)
  let ?as = "takeWhile (\<lambda>y. \<not> priof s t < priof s y) xs"
  let ?info = "RdyTaskPriInfo s"
  let ?s1 = "s\<lparr>RdyTaskPri := (RdyTaskPri s)(k := t)\<rparr>"
  consider (same) "rdy_bit ?info k" | (near) j where "\<not> rdy_bit ?info k" "top_in (rdy_bit ?info) 0 (Suc k) = Some j"
    | (none) "\<not> rdy_bit ?info k" "top_in (rdy_bit ?info) 0 (Suc k) = None" by fastforce
  then show ?thesis
  proof cases
    case same
    have "\<forall>m. k < m \<and> m < Suc k \<longrightarrow> \<not> rdy_bit ?info m" using not_less_eq by blast
    note pl = tables_place [OF assms(5,4) k(1) order_refl same this, unfolded k(2)]
    let ?p = "RdyTaskPri s k"
    let ?s' = "link_after t ?p (nextf s ?p) ?s1"
    have "insert_binary c t s = Some ?s'"
      using same get pl(3) tid by (simp add: insert_binary_def get_status_bit)
    moreover note L = link_after_insort [OF assms(1,2) refl pl(1) pl(2), of ?s1]
    moreover have "tables_inv c ?s' (insort_after (priof s) t xs)"
      by (rule tables_inv_insert [OF assms(5,4,7) k])
        (use L(2) same in \<open>auto simp: links_onlyD\<close>)
    ultimately show ?thesis by simp
  next
    case near
    then have j: "j < k" "rdy_bit ?info j" "\<forall>m. j < m \<and> m < Suc k \<longrightarrow> \<not> rdy_bit ?info m"
      unfolding top_in_Some by (auto simp: less_Suc_eq le_less)
    note pl = tables_place [OF assms(5,4) k(1) less_imp_le [OF j(1)] j(2) j(3) , unfolded k(2)]
    let ?p = "RdyTaskPri s j"
    let ?s2 = "SetPrioSeqNumStatus k True ?s1"
    let ?s' = "link_after t ?p (nextf s ?p) ?s2"
    have "unat (of_nat j :: U8) = j" using j(1) k(1) small by (simp add: unat_of_nat)
    moreover from this have "(of_nat j :: U8) \<noteq> INVALID_ID"
      using j(1) k(1) small unat_INVALID_ID by auto
    ultimately have "insert_binary c t s = Some ?s'"
      using near j(1) get pl(3) tid
      by (simp add: insert_binary_def get_status_bit GetRdyPriSeqNum_top del: top_in.simps)
    moreover note L = link_after_insort [OF assms(1,2) refl pl(1) pl(2), of ?s2]
    moreover have "tables_inv c ?s' (insort_after (priof s) t xs)"
      by (rule tables_inv_insert [OF assms(5,4,7) k])
        (use L(2) in \<open>auto simp: links_onlyD\<close>)
    ultimately show ?thesis by simp
  next
    case none
    let ?s2 = "SetPrioSeqNumStatus k True ?s1\<lparr>TaskSchedReq := True\<rparr>"
    let ?s' = "case TCBRdy ?s2 of None \<Rightarrow> ?s2\<lparr>TCBRdy := Some t\<rparr> | Some p \<Rightarrow> link_head t p ?s2"
    have "?as = []"
    proof (rule ccontr)
      assume "?as \<noteq> []"
      then obtain x where "x \<in> set xs" "priof s x \<le> ActivePri s k"
        using k(2) by (cases xs) (auto simp: not_less split: if_splits)
      from nearest_ready [OF assms(5) k(1) this] none(2) show False
        unfolding top_in_None by (auto simp: less_Suc_eq_le)
    qed
    note L = link_head_insort [OF assms(1-3) this, of ?s2]
    have "insert_binary c t s = Some ?s'"
      using none get tid by (simp add: insert_binary_def get_status_bit GetRdyPriSeqNum_top Let_def del: top_in.simps)
    moreover have "tables_inv c ?s' (insort_after (priof s) t xs)"
      by (rule tables_inv_insert [OF assms(5,4,7) k])
        (use L(2) in \<open>auto simp: links_onlyD split: option.splits\<close>)
    ultimately show ?thesis using L by (auto split: option.splits)
  qed
qed

lemma InsertToTCBRdyList_ok:
  assumes "rdy_inv c s xs" and "t \<notin> set xs" and "admissible c s t"
  shows "\<exists>s'. InsertToTCBRdyList c t s = Some s' \<and> rdy_inv c s' (insort_after (priof s) t xs) \<and>
    ins_frame t xs s s'"
proof -
  define s1 where "s1 = set_check_time c t (upd_tcb t (state_update (\<lambda>_. TASK_READY)) s)"
  have f: "priof s1 = priof s" "nextf s1 = nextf s" "prevf s1 = prevf s"
    "TCBTbl s1 = (TCBTbl s)(t := (TCBTbl s t)\<lparr>state := TASK_READY\<rparr>)" "TCBRdy s1 = TCBRdy s"
    "TaskSchedReq s1 = TaskSchedReq s" "PriNum s1 = PriNum s" "ActivePri s1 = ActivePri s"
    "RdyTaskPri s1 = RdyTaskPri s" "RdyTaskPriInfo s1 = RdyTaskPriInfo s"
    "\<And>u. taskID (TCBTbl s1 u) = taskID (TCBTbl s u)"
    by (auto simp: fun_eq_iff s1_def)
  have p1: "prio (TCBTbl s1 u) = prio (TCBTbl s u)" for u using fun_cong [OF f(1)] .
  have r: "rdy_list s1 xs" and u: "unlinked s1 t" and so: "sorted (map (priof s1) xs)"
    using assms f by (auto simp: rdy_inv_def rdy_list_def admissible_def unlinked_def fun_eq_iff)
  have so': "sorted (map (priof s) (insort_after (priof s) t xs))"
    using assms(1) by (simp add: rdy_inv_def sorted_insort_after)
  have fr: "rdy_frame s s1" by (simp add: s1_def)
  have def: "InsertToTCBRdyList c t s = (if CFG_ORDER_LIST_SCHEDULE_EN c then insert_order_list t s1 else insert_binary c t s1)"
    by (simp add: InsertToTCBRdyList_def s1_def Let_def)
  show ?thesis
  proof (cases "CFG_ORDER_LIST_SCHEDULE_EN c")
    case True
    from insert_order_list_ok [OF r assms(2) u] obtain s' where s': "insert_order_list t s1 = Some s'"
      "rdy_list s' (insort_after (priof s) t xs)" "links_only (insert t (set xs)) (TCBTbl s1) (TCBTbl s')"
      "rdy_frame s1 s'" "TaskSchedReq s' = (TaskSchedReq s \<or> hd (insort_after (priof s) t xs) = t)"
      unfolding f(1,6) by blast
    from links_onlyD(1) [OF s'(3)] have "priof s' = priof s" using f(1) by (auto simp: fun_eq_iff)
    then have "rdy_inv c s' (insort_after (priof s) t xs)"
      using True s'(2) so' by (simp add: rdy_inv_def)
    with True s' rdy_frame_trans [OF fr s'(4)] show ?thesis
      by (simp add: def ins_frame_def f(4))
  next
    case False
    have "tables_inv c s1 xs"
      using assms(1) False by (simp add: rdy_inv_def tables_inv_def pri_active_def valid_tid_def f(7-) p1)
    moreover have "pri_active s1 (priof s1 t)" "valid_tid c s1 t"
      using assms(3) False by (simp_all add: admissible_def pri_active_def valid_tid_def f(7-) p1)
    ultimately obtain s' where s': "insert_binary c t s1 = Some s'"
      "rdy_list s' (insort_after (priof s) t xs)" "links_only (insert t (set xs)) (TCBTbl s1) (TCBTbl s')"
      "rdy_frame s1 s'" "TaskSchedReq s' = (TaskSchedReq s \<or> hd (insort_after (priof s) t xs) = t)"
      "tables_inv c s' (insort_after (priof s) t xs)"
      using insert_binary_ok [OF r assms(2) u so, of c] unfolding f(1,6) by blast
    from links_onlyD(1) [OF s'(3)] have "priof s' = priof s" using f(1) by (auto simp: fun_eq_iff)
    then have "rdy_inv c s' (insort_after (priof s) t xs)"
      using s'(2,6) so' by (simp add: rdy_inv_def)
    with False s' rdy_frame_trans [OF fr s'(4)] show ?thesis
      by (simp add: def ins_frame_def f(4))
  qed
qed

section \<open>Removal\<close>

lemma sorted_filter_hd:
  fixes f :: "'a \<Rightarrow> 'b::linorder"
  assumes "sorted (map f bs)" and "\<forall>b \<in> set bs. p \<le> f b"
  shows "filter (\<lambda>y. f y = p) bs = [] \<longleftrightarrow> bs = [] \<or> f (hd bs) \<noteq> p"
  using assms by (cases bs) (auto simp: filter_empty_conv)

lemma sorted_filter_last:
  fixes f :: "'a \<Rightarrow> 'b::linorder"
  assumes "sorted (map f as)" and "\<forall>a \<in> set as. f a \<le> p"
  shows "filter (\<lambda>y. f y = p) as = [] \<longleftrightarrow> as = [] \<or> f (last as) \<noteq> p"
    and "as \<noteq> [] \<Longrightarrow> f (last as) = p \<Longrightarrow> last (filter (\<lambda>y. f y = p) as) = last as"
  using assms by (cases as rule: rev_cases; auto simp: sorted_append filter_empty_conv)+

lemma rdy_pri_change_ok:
  assumes "rdy_list s (as @ t # bs)" and "sorted (map (priof s) (as @ t # bs))"
  defines "p \<equiv> priof s t"
  shows "fst (rdy_pri_change t s) \<longleftrightarrow> of_prio s p (as @ bs) = []"
    and "snd (rdy_pri_change t s) =
      (if of_prio s p (as @ bs) \<noteq> [] \<and> of_prio s p bs = [] then Some (taskID (TCBTbl s (last as))) else None)"
    and "of_prio s p (as @ bs) \<noteq> [] \<Longrightarrow> of_prio s p bs = [] \<Longrightarrow>
      as \<noteq> [] \<and> last (of_prio s p (as @ bs)) = last as"
proof -
  have l: "nextf s t = hd_ptr bs None" "prevf s t = last_ptr None as"
    using assms(1) dlist_links unfolding rdy_list_def by fast+
  have so: "sorted (map (priof s) as)" "sorted (map (priof s) bs)" "\<forall>a \<in> set as. priof s a \<le> p"
    "\<forall>b \<in> set bs. p \<le> priof s b"
    using assms(2) by (auto simp: sorted_append p_def)
  note H = sorted_filter_hd [OF so(2,4)] and T = sorted_filter_last [OF so(1,3)]
  show "fst (rdy_pri_change t s) \<longleftrightarrow> of_prio s p (as @ bs) = []"
    using l H T(1) by (cases bs; cases as rule: rev_cases) (auto simp: rdy_pri_change_def Let_def p_def)
  show "snd (rdy_pri_change t s) =
      (if of_prio s p (as @ bs) \<noteq> [] \<and> of_prio s p bs = [] then Some (taskID (TCBTbl s (last as))) else None)"
    using l H T(1) by (cases bs; cases as rule: rev_cases) (auto simp: rdy_pri_change_def Let_def p_def)
  show "as \<noteq> [] \<and> last (of_prio s p (as @ bs)) = last as"
    if "of_prio s p (as @ bs) \<noteq> []" "of_prio s p bs = []"
    using that T by auto
qed

lemma tables_inv_remove:
  assumes "tables_inv c s (as @ t # bs)" and "k < unat (PriNum s)" and "ActivePri s k = priof s t"
    and "t \<notin> set (as @ bs)"
    and "ActivePri s' = ActivePri s" and "PriNum s' = PriNum s"
    and "\<And>i. i < unat (PriNum s) \<Longrightarrow> i \<noteq> k \<Longrightarrow> RdyTaskPri s' i = RdyTaskPri s i"
    and "RdyTaskPri s' k = (if of_prio s (priof s t) (as @ bs) = [] then INVALID_ID
       else last (of_prio s (priof s t) (as @ bs)))"
    and "\<And>i. i < unat (PriNum s) \<Longrightarrow> i \<noteq> k \<Longrightarrow> rdy_bit (RdyTaskPriInfo s') i = rdy_bit (RdyTaskPriInfo s) i"
    and "rdy_bit (RdyTaskPriInfo s') k \<longleftrightarrow> of_prio s (priof s t) (as @ bs) \<noteq> []"
    and "\<And>u. prio (TCBTbl s' u) = prio (TCBTbl s u)" and "\<And>u. taskID (TCBTbl s' u) = taskID (TCBTbl s u)"
  shows "tables_inv c s' (as @ bs)"
proof -
  have inj: "priof s t = ActivePri s i \<longleftrightarrow> i = k" if "i < unat (PriNum s)" for i
    using assms(1,2,3) that strict_mono_on_imp_inj_on [of "{0..<unat (PriNum s)}" "ActivePri s"]
    by (auto simp: tables_inv_def inj_on_def)
  have "(rdy_bit (RdyTaskPriInfo s') i \<longleftrightarrow> of_prio s (ActivePri s i) (as @ bs) \<noteq> []) \<and>
      RdyTaskPri s' i = (if of_prio s (ActivePri s i) (as @ bs) = [] then INVALID_ID
                         else last (of_prio s (ActivePri s i) (as @ bs)))"
    if "i < unat (PriNum s)" for i
  proof (cases "i = k")
    case True
    with assms(3,8,10) show ?thesis by simp
  next
    case False
    then have "of_prio s (ActivePri s i) (as @ bs) = of_prio s (ActivePri s i) (as @ t # bs)"
      using inj [OF that] by simp
    with that False assms(1,7,9) show ?thesis unfolding tables_inv_def by simp
  qed
  with assms(1,5,6,11,12) show ?thesis
    unfolding tables_inv_def by (simp add: pri_active_def valid_tid_def)
qed

lemma RemoveFromTCBRdyList_ok:
  assumes "rdy_inv c s (as @ t # bs)"
  shows "\<exists>s'. RemoveFromTCBRdyList c t s = Some s' \<and> rdy_inv c s' (as @ bs) \<and>
    rem_frame (as @ t # bs) s s' \<and> unlinked s' t"
proof -
  let ?xs = "as @ t # bs"
  have r: "rdy_list s ?xs" and so: "sorted (map (priof s) ?xs)" using assms by (simp_all add: rdy_inv_def)
  have d: "distinct ?xs" using r by (simp add: rdy_list_def dlist_def)
  have l: "nextf s t = hd_ptr bs None" "prevf s t = last_ptr None as"
    using r dlist_links unfolding rdy_list_def by fast+
  have set: "set_option (nextf s t) \<subseteq> set ?xs" "set_option (prevf s t) \<subseteq> set ?xs"
    unfolding l by (cases bs; cases as rule: rev_cases; simp)+
  have so': "sorted (map (priof s) (as @ bs))" using so by (auto simp: sorted_append)
  have lo: "links_only (set ?xs) (TCBTbl s') (TCBTbl (unlink_rdy t s'))" if "TCBTbl s' = TCBTbl s" for s'
    using unlink_rdy_frame [of t "set ?xs" s'] set that by simp
  have pf: "priof (unlink_rdy t s') = priof s" if "TCBTbl s' = TCBTbl s" for s'
    using links_onlyD(1) [OF lo [OF that]] that by (auto simp: fun_eq_iff)
  have un: "rdy_list (unlink_rdy t s') (as @ bs)" "unlinked (unlink_rdy t s') t"
    if "TCBTbl s' = TCBTbl s" "TCBRdy s' = TCBRdy s" for s'
    using rdy_list_unlink [of s' as t bs] r that by (simp_all add: rdy_list_def)
  show ?thesis
  proof (cases "CFG_ORDER_LIST_SCHEDULE_EN c")
    case True
    then show ?thesis using un [of s] lo [of s] pf [of s] so'
      by (simp add: RemoveFromTCBRdyList_def rdy_inv_def rem_frame_def)
  next
    case False
    then have ti: "tables_inv c s ?xs" using assms by (simp add: rdy_inv_def)
    then obtain k where k: "k < unat (PriNum s)" "ActivePri s k = priof s t" and vt: "valid_tid c s t"
      by (auto simp: tables_inv_def pri_active_def)
    have get: "GetPriSeqNum (priof s t) s = Some (True, k)"
      using GetPriSeqNum_active k ti by (auto simp: tables_inv_def)
    note ch = rdy_pri_change_ok [OF r so]
    let ?ps = "of_prio s (priof s t) (as @ bs)"
    have tlast: "taskID (TCBTbl s (last as)) = last as" if "as \<noteq> []"
      using ti last_in_set [OF that] by (simp add: tables_inv_def valid_tid_def)
    have lastb: "last ?ps = last (of_prio s (priof s t) ?xs)" if "of_prio s (priof s t) bs \<noteq> []"
      using that by simp
    let ?s1 = "case snd (rdy_pri_change t s) of None \<Rightarrow> s | Some u \<Rightarrow> s\<lparr>RdyTaskPri := (RdyTaskPri s)(k := u)\<rparr>"
    let ?s' = "if fst (rdy_pri_change t s) then
        SetPrioSeqNumStatus k False (unlink_rdy t ?s1\<lparr>RdyTaskPri := (RdyTaskPri ?s1)(k := INVALID_ID)\<rparr>)
      else unlink_rdy t ?s1"
    have s1: "TCBTbl ?s1 = TCBTbl s" "TCBRdy ?s1 = TCBRdy s" "PriNum ?s1 = PriNum s"
      "ActivePri ?s1 = ActivePri s" "RdyTaskPriInfo ?s1 = RdyTaskPriInfo s" "rdy_frame s ?s1"
      "TaskSchedReq ?s1 = TaskSchedReq s"
      by (simp_all split: option.split)
    have eq: "RemoveFromTCBRdyList c t s = Some ?s'"
      using False get by (simp add: RemoveFromTCBRdyList_def split: prod.split option.split)
    have "tables_inv c ?s' (as @ bs)"
    proof (rule tables_inv_remove [OF ti k])
      show "RdyTaskPri ?s' k = (if ?ps = [] then INVALID_ID else last ?ps)"
      proof (cases "?ps = [] \<or> of_prio s (priof s t) bs = []")
        case True
        then show ?thesis using ch tlast by auto
      next
        case nb: False
        have "RdyTaskPri s k = last (of_prio s (priof s t) ?xs)"
          using ti k by (auto simp: tables_inv_def filter_empty_conv)
        then show ?thesis using nb ch(1,2) lastb by simp
      qed
      show "rdy_bit (RdyTaskPriInfo ?s') k \<longleftrightarrow> ?ps \<noteq> []"
        using ch(1) ti k s1(5) by (auto simp: tables_inv_def filter_empty_conv)
      show "prio (TCBTbl ?s' u) = prio (TCBTbl s u)" "taskID (TCBTbl ?s' u) = taskID (TCBTbl s u)" for u
        using links_onlyD(1,3) [OF lo [OF s1(1)], of u] s1(1) by simp_all
    qed (use d s1 in \<open>auto split: option.split\<close>)
    moreover have "links_only (set ?xs) (TCBTbl s) (TCBTbl ?s')" using lo [OF s1(1)] s1(1) by simp
    moreover have "rdy_list ?s' (as @ bs)" "unlinked ?s' t"
      using un [OF s1(1,2)] by (simp_all add: rdy_list_def unlinked_def)
    moreover have "priof ?s' = priof s" using pf [OF s1(1)] by simp
    ultimately show ?thesis
      using eq so' s1(6,7) by (simp add: rdy_inv_def rem_frame_def del: if_split)
  qed
qed

section \<open>Interface\<close>

text \<open>
  What the clients of the READY list rely on: a list in priority order, an insertion that puts
  a task behind all those it may not overtake, and a removal that leaves the task ready to be
  inserted again.
\<close>

locale ready_queue =
  fixes inv :: "kernel \<Rightarrow> OS_TID list \<Rightarrow> bool"
    and adm :: "kernel \<Rightarrow> OS_TID \<Rightarrow> bool"
    and ins :: "OS_TID \<Rightarrow> kernel \<Rightarrow> kernel option"
    and rem :: "OS_TID \<Rightarrow> kernel \<Rightarrow> kernel option"
  assumes inv_list: "inv s xs \<Longrightarrow> rdy_list s xs"
    and inv_sorted: "inv s xs \<Longrightarrow> sorted (map (priof s) xs)"
    and ins_ok: "inv s xs \<Longrightarrow> t \<notin> set xs \<Longrightarrow> adm s t \<Longrightarrow>
      \<exists>s'. ins t s = Some s' \<and> inv s' (insort_after (priof s) t xs) \<and> ins_frame t xs s s'"
    and rem_ok: "inv s (as @ t # bs) \<Longrightarrow>
      \<exists>s'. rem t s = Some s' \<and> inv s' (as @ bs) \<and> rem_frame (as @ t # bs) s s' \<and> adm s' t"
begin

lemma inv_unique: "inv s xs \<Longrightarrow> inv s ys \<Longrightarrow> xs = ys"
  using inv_list dlist_unique unfolding rdy_list_def by blast

lemma inv_distinct: "inv s xs \<Longrightarrow> distinct xs"
  using inv_list by (auto simp: rdy_list_def dlist_def)

lemma head: "inv s xs \<Longrightarrow> TCBRdy s = hd_ptr xs None"
  using inv_list by (auto simp: rdy_list_def dlist_def)

lemma head_highest: "inv s (x # xs) \<Longrightarrow> y \<in> set xs \<Longrightarrow> priof s x \<le> priof s y"
  using inv_sorted by fastforce

lemma rem_in:
  assumes "inv s xs" and "t \<in> set xs"
  shows "\<exists>s'. rem t s = Some s' \<and> inv s' (remove1 t xs) \<and> rem_frame xs s s' \<and> adm s' t"
proof -
  obtain as bs where xs: "xs = as @ t # bs" and "t \<notin> set as" using split_list_first [OF assms(2)] by auto
  then have "remove1 t xs = as @ bs" by (simp add: remove1_append)
  with rem_ok [of s as t bs] assms(1) xs show ?thesis by simp
qed

text \<open>Inserting a task and removing it again gives the list back.\<close>

lemma ins_rem:
  assumes "inv s xs" and "t \<notin> set xs" and "adm s t"
  shows "\<exists>s1 s2. ins t s = Some s1 \<and> rem t s1 = Some s2 \<and> inv s2 xs"
proof -
  obtain s1 where s1: "ins t s = Some s1" "inv s1 (insort_after (priof s) t xs)"
    using ins_ok [OF assms] by blast
  obtain s2 where "rem t s1 = Some s2" "inv s2 (remove1 t (insort_after (priof s) t xs))"
    using rem_in [OF s1(2)] by auto
  with s1(1) remove1_insort_after [OF assms(2), of "priof s"] show ?thesis by auto
qed

text \<open>
  The step of the scheduler: the running task goes in, the head of the list goes out. The head
  stays in front as long as the running task does not have a higher priority.
\<close>

lemma ins_rem_head:
  assumes "inv s (x # xs)" and "t \<notin> set (x # xs)" and "adm s t" and "priof s x \<le> priof s t"
  shows "\<exists>s1 s2. ins t s = Some s1 \<and> rem x s1 = Some s2 \<and> inv s2 (insort_after (priof s) t xs) \<and>
    ins_frame t (x # xs) s s1 \<and> rem_frame (x # insort_after (priof s) t xs) s1 s2 \<and> adm s2 x"
proof -
  obtain s1 where s1: "ins t s = Some s1" "inv s1 (x # insort_after (priof s) t xs)"
    "ins_frame t (x # xs) s s1"
    using ins_ok [OF assms(1-3)] assms(4) by (auto simp: not_less [symmetric])
  obtain s2 where "rem x s1 = Some s2" "inv s2 (insort_after (priof s) t xs)"
    "rem_frame (x # insort_after (priof s) t xs) s1 s2" "adm s2 x"
    using rem_ok [of s1 "[]" x] s1(2) by auto
  with s1(1,3) show ?thesis by blast
qed

end

lemma rem_admissible:
  assumes "rdy_inv c s (as @ t # bs)" and "rem_frame (as @ t # bs) s s'" and "unlinked s' t"
  shows "admissible c s' t"
proof -
  have f: "rdy_frame s s'" and l: "links_only (set (as @ t # bs)) (TCBTbl s) (TCBTbl s')"
    using assms(2) by (simp_all add: rem_frame_def)
  show ?thesis
    using assms(1,3) by (auto simp: admissible_def rdy_inv_def tables_inv_def pri_active_def valid_tid_def
        rdy_frameD [OF f] links_onlyD [OF l])
qed

interpretation rq: ready_queue "rdy_inv c" "admissible c" "InsertToTCBRdyList c" "RemoveFromTCBRdyList c"
  for c
proof
  show "rdy_list s xs" "sorted (map (priof s) xs)" if "rdy_inv c s xs" for s xs
    using that by (simp_all add: rdy_inv_def)
  show "\<exists>s'. InsertToTCBRdyList c t s = Some s' \<and> rdy_inv c s' (insort_after (priof s) t xs) \<and>
      ins_frame t xs s s'"
    if "rdy_inv c s xs" "t \<notin> set xs" "admissible c s t" for s xs t
    using that by (rule InsertToTCBRdyList_ok)
  show "\<exists>s'. RemoveFromTCBRdyList c t s = Some s' \<and> rdy_inv c s' (as @ bs) \<and>
      rem_frame (as @ t # bs) s s' \<and> admissible c s' t"
    if "rdy_inv c s (as @ t # bs)" for s as t bs
    using RemoveFromTCBRdyList_ok [OF that] rem_admissible [OF that] by blast
qed

end
