(* ===== verification/PriTables.thy ===== *)
theory PriTables
  imports ReadyQueue
begin

text \<open>
  The upkeep of the priority tables of the binary scheme: \<open>ActiveTaskPri\<close> and \<open>DeleteTaskPri\<close>
  count the tasks of a priority, open and close its place in the sorted table, and \<open>PrioRemap\<close>
  computes the ready bits again. Both keep the tables in step with the READY list.
\<close>

section \<open>Shifting\<close>

lemma shift_up_nth:
  "shift_up lo hi A i = (if lo < i \<and> i \<le> hi then A (i - 1) else A i)"
proof (induction hi arbitrary: A)
  case 0
  then show ?case by (simp add: shift_up_def)
next
  case (Suc hi)
  show ?case
  proof (cases "lo \<le> hi")
    case True
    then have "shift_up lo (Suc hi) A = shift_up lo hi (A(Suc hi := A hi))"
      by (simp add: shift_up_def)
    then show ?thesis using True by (simp only: Suc.IH) auto
  qed (auto simp: shift_up_def)
qed

lemma shift_down_nth:
  "shift_down lo hi A i = (if lo \<le> i \<and> i < hi then A (i + 1) else A i)"
proof (induction hi arbitrary: i)
  case (Suc hi)
  show ?case
  proof (cases "lo \<le> hi")
    case True
    then have "shift_down lo (Suc hi) A = (shift_down lo hi A)(hi := shift_down lo hi A (hi + 1))"
      by (simp add: shift_down_def)
    then show ?thesis using True by (auto simp: Suc.IH less_Suc_eq)
  qed (auto simp: shift_down_def)
qed (simp add: shift_down_def)

section \<open>The ready bits\<close>

text \<open>
  \<open>PrioRemap\<close>: from place \<open>seqNum\<close> on the ready bits are computed again from \<open>RdyTaskPri\<close>; those
  in front stay. \<open>remap_spec\<close> is the bit that place \<open>k\<close> gets when the places up to \<open>m\<close> are done.
\<close>

definition remap_spec :: "kernel \<Rightarrow> nat \<Rightarrow> nat \<Rightarrow> nat \<Rightarrow> bool" where
  "remap_spec s seqNum m k =
     (if k < seqNum then rdy_bit (RdyTaskPriInfo s) k else k < m \<and> RdyTaskPri s k \<noteq> INVALID_ID)"

definition remap_inv :: "kernel \<Rightarrow> nat \<Rightarrow> nat \<Rightarrow> nat \<times> U32 \<times> (nat \<Rightarrow> U32) \<Rightarrow> bool" where
  "remap_inv s seqNum m = (\<lambda>(j, tmp, info).
     j = (if m = seqNum then m else m - 1) div 32 \<and>
     (\<forall>b < 32. bit tmp b = remap_spec s seqNum m (32 * j + b)) \<and>
     (\<forall>w < j. \<forall>b < 32. bit (info w) b = remap_spec s seqNum m (32 * w + b)))"

lemma fold_or_bits:
  "bit (fold (\<lambda>i tmp. tmp OR push_bit i 1) [0..<n] (0 :: U32)) b = (b < n \<and> b < 32)"
  by (induction n) (auto simp: bit_simps less_Suc_eq)

lemma remap_init:
  "remap_inv s seqNum seqNum
     (seqNum div 32,
      fold (\<lambda>i tmp. tmp OR push_bit i 1) [0..<seqNum mod 32] (0 :: U32) AND RdyTaskPriInfo s (seqNum div 32),
      RdyTaskPriInfo s)"
proof -
  have q: "32 * (seqNum div 32) + seqNum mod 32 = seqNum" by simp
  then have "32 * (seqNum div 32) + b < seqNum \<longleftrightarrow> b < seqNum mod 32" for b
    by linarith
  moreover have "32 * w + b < seqNum" if "w < seqNum div 32" "b < 32" for w b
    using that q by linarith
  moreover have "(32 * w + b) div 32 = w" "(32 * w + b) mod 32 = b" if "b < 32" for w b :: nat
    using that by simp_all
  ultimately show ?thesis
    by (simp add: remap_inv_def remap_spec_def bit_and_iff fold_or_bits [simplified])
qed

lemma remap_step:
  assumes "remap_inv s seqNum m x" and "seqNum \<le> m"
  shows "remap_inv s seqNum (Suc m) (PrioRemap_step seqNum (RdyTaskPri s) m x)"
proof -
  obtain j tmp info where x: "x = (j, tmp, info)" by (cases x)
  have j: "j = (if m = seqNum then m else m - 1) div 32"
    and t: "\<And>b. b < 32 \<Longrightarrow> bit tmp b = remap_spec s seqNum m (32 * j + b)"
    and w: "\<And>w b. w < j \<Longrightarrow> b < 32 \<Longrightarrow> bit (info w) b = remap_spec s seqNum m (32 * w + b)"
    using assms(1) by (auto simp: x remap_inv_def)
  define c where "c \<longleftrightarrow> m mod 32 = 0 \<and> m \<noteq> seqNum"
  define j' tmp' info' where "j' = (if c then j + 1 else j)" and "tmp' = (if c then 0 else tmp)"
    and "info' = (if c then info(j := tmp) else info)"
  have j': "j' = m div 32"
    using j assms(2) unfolding j'_def c_def by (cases m) (auto simp: div_Suc)
  have q: "32 * j' + m mod 32 = m" unfolding j' by simp
  have t': "bit tmp' b = remap_spec s seqNum m (32 * j' + b)" if "b < 32" for b
  proof (cases c)
    case True
    then have "m \<le> 32 * j' + b" using j' by (auto simp: c_def)
    with True assms(2) show ?thesis by (simp add: tmp'_def remap_spec_def)
  qed (use t that in \<open>simp add: tmp'_def j'_def\<close>)
  have w': "bit (info' w) b = remap_spec s seqNum m (32 * w + b)" if "w < j'" "b < 32" for w b
    using that t w by (cases c) (auto simp: info'_def j'_def less_Suc_eq)
  have step: "PrioRemap_step seqNum (RdyTaskPri s) m x =
      (j', (if RdyTaskPri s m \<noteq> INVALID_ID then tmp' OR push_bit (m mod 32) 1 else tmp'), info')"
    by (simp add: PrioRemap_step_def x c_def j'_def tmp'_def info'_def Let_def)
  have sp: "remap_spec s seqNum (Suc m) k =
      (remap_spec s seqNum m k \<or> k = m \<and> RdyTaskPri s m \<noteq> INVALID_ID)" for k
    using assms(2) by (auto simp: remap_spec_def less_Suc_eq)
  have here: "32 * j' + b = m \<longleftrightarrow> b = m mod 32" if "b < 32" for b
    using q by linarith
  have below: "32 * w + b \<noteq> m" if "w < j'" "b < 32" for w b
    using that q by linarith
  show ?thesis
    unfolding step remap_inv_def
    using j' assms(2) t' w' here below by (auto simp: sp bit_simps)
qed

lemma remap_fold:
  "seqNum \<le> n \<Longrightarrow> remap_inv s seqNum seqNum x \<Longrightarrow>
     remap_inv s seqNum n (fold (PrioRemap_step seqNum (RdyTaskPri s)) [seqNum..<n] x)"
  by (induction n) (auto simp: le_Suc_eq remap_step)

lemma PrioRemap_bit:
  assumes "seqNum \<le> unat (PriNum s)" and "k < unat (PriNum s)"
  shows "rdy_bit (RdyTaskPriInfo (PrioRemap seqNum s)) k =
    (if k < seqNum then rdy_bit (RdyTaskPriInfo s) k else RdyTaskPri s k \<noteq> INVALID_ID)"
proof -
  let ?n = "unat (PriNum s)"
  obtain j tmp info where f: "fold (PrioRemap_step seqNum (RdyTaskPri s)) [seqNum..<?n]
      (seqNum div 32,
       fold (\<lambda>i tmp. tmp OR push_bit i 1) [0..<seqNum mod 32] (0 :: U32) AND RdyTaskPriInfo s (seqNum div 32),
       RdyTaskPriInfo s) = (j, tmp, info)"
    using prod_cases3 by blast
  have i: "remap_inv s seqNum ?n (j, tmp, info)"
    using remap_fold [OF assms(1) remap_init, of s] f by (simp only:)
  then have j: "k div 32 \<le> j"
    using assms(2) by (auto simp: remap_inv_def intro: div_le_mono split: if_splits)
  have "bit ((info(j := tmp)) (k div 32)) (k mod 32) = remap_spec s seqNum ?n (32 * (k div 32) + k mod 32)"
    using i j by (cases "k div 32 = j") (auto simp: remap_inv_def)
  then show ?thesis using f assms(2) by (simp add: PrioRemap_def remap_spec_def Let_def)
qed

lemma PrioRemap_simps [simp]:
  "TCBTbl (PrioRemap k s) = TCBTbl s" "TCBRdy (PrioRemap k s) = TCBRdy s" "PriNum (PrioRemap k s) = PriNum s"
  "ActivePri (PrioRemap k s) = ActivePri s" "RdyTaskPri (PrioRemap k s) = RdyTaskPri s"
  "TaskNumPerPri (PrioRemap k s) = TaskNumPerPri s"
  by (simp_all add: PrioRemap_def Let_def split: prod.split)

section \<open>Counting tasks\<close>

text \<open>The number of tasks that the tables count for a priority.\<close>

definition pri_count :: "kernel \<Rightarrow> U8 \<Rightarrow> nat" where
  "pri_count s p = (\<Sum>k < unat (PriNum s). if ActivePri s k = p then unat (TaskNumPerPri s k) else 0)"

lemma pri_count_active:
  assumes "strict_mono_on {0..<unat (PriNum s)} (ActivePri s)" and "k < unat (PriNum s)"
  shows "pri_count s (ActivePri s k) = unat (TaskNumPerPri s k)"
proof -
  have "ActivePri s i = ActivePri s k \<longleftrightarrow> i = k" if "i < unat (PriNum s)" for i
    using assms that strict_mono_on_imp_inj_on [OF assms(1)] by (auto simp: inj_on_def)
  then have "pri_count s (ActivePri s k) = (\<Sum>i < unat (PriNum s). if i = k then unat (TaskNumPerPri s k) else 0)"
    unfolding pri_count_def by (intro sum.cong) auto
  with assms(2) show ?thesis by simp
qed

lemma pri_count_inactive: "\<not> pri_active s p \<Longrightarrow> pri_count s p = 0"
  by (auto simp: pri_count_def pri_active_def)

lemma GetPriSeqNum_inactive:
  assumes "strict_mono_on {0..<unat (PriNum s)} (ActivePri s)" and "\<not> pri_active s pri"
  obtains k where "GetPriSeqNum pri s = Some (False, k)" "k \<le> unat (PriNum s)"
    "\<And>j. j < k \<Longrightarrow> ActivePri s j < pri" "\<And>j. k \<le> j \<Longrightarrow> j < unat (PriNum s) \<Longrightarrow> pri < ActivePri s j"
proof -
  obtain i where i: "i \<le> unat (PriNum s)" "\<forall>j. 0 \<le> j \<and> j < i \<longrightarrow> ActivePri s j < pri"
    "\<forall>j. i < j \<and> j < unat (PriNum s) \<longrightarrow> pri < ActivePri s j"
    "GetPriSeqNum_loop (ActivePri s) pri 0 (unat (PriNum s)) =
       Some (i < unat (PriNum s) \<and> ActivePri s i = pri, i)" "i < unat (PriNum s) \<longrightarrow> pri \<le> ActivePri s i"
    using GetPriSeqNum_loop_correct [OF le0 assms(1)] by blast
  have ne: "j < unat (PriNum s) \<Longrightarrow> ActivePri s j \<noteq> pri" for j using assms(2) by (auto simp: pri_active_def)
  have "pri < ActivePri s j" if "i \<le> j" "j < unat (PriNum s)" for j
    using i(3,5) ne [of j] that by (cases "i = j") auto
  moreover have "GetPriSeqNum pri s = Some (False, i)"
    using i(4) ne [of i] by (auto simp: GetPriSeqNum_def)
  ultimately show thesis using that i(1,2) by blast
qed

lemma rdy_valid:
  assumes "tables_inv c s xs" and "k < unat (PriNum s)"
  shows "RdyTaskPri s k \<noteq> INVALID_ID \<longleftrightarrow> of_prio s (ActivePri s k) xs \<noteq> []"
proof (cases "of_prio s (ActivePri s k) xs = []")
  case False
  then have "last (of_prio s (ActivePri s k) xs) \<in> set xs" using last_in_set [OF False] by auto
  then have "unat (last (of_prio s (ActivePri s k) xs)) < 254"
    using assms(1) by (auto simp: tables_inv_def valid_tid_def)
  then have "last (of_prio s (ActivePri s k) xs) \<noteq> INVALID_ID" using unat_INVALID_ID by auto
  with False assms show ?thesis by (simp add: tables_inv_def)
qed (use assms in \<open>simp add: tables_inv_def\<close>)

lemma not_active_of_prio: "tables_inv c s xs \<Longrightarrow> \<not> pri_active s p \<Longrightarrow> of_prio s p xs = []"
  by (auto simp: tables_inv_def filter_empty_conv)

lemma tables_place_rdy:
  assumes "tables_inv c s xs" and "k < unat (PriNum s)"
  shows "rdy_bit (RdyTaskPriInfo s) k \<longleftrightarrow> of_prio s (ActivePri s k) xs \<noteq> []"
    and "RdyTaskPri s k = (if of_prio s (ActivePri s k) xs = [] then INVALID_ID
                           else last (of_prio s (ActivePri s k) xs))"
  using assms by (simp_all add: tables_inv_def)

section \<open>A new priority\<close>

lemma active_new_place:
  assumes "tables_inv c s xs" and "unat (PriNum s) < task_max c" and "\<not> pri_active s p"
    and "k \<le> unat (PriNum s)" and "\<And>j. j < k \<Longrightarrow> ActivePri s j < p"
    and "\<And>j. k \<le> j \<Longrightarrow> j < unat (PriNum s) \<Longrightarrow> p < ActivePri s j"
    and s': "s' = PrioRemap k (s\<lparr>ActivePri := (shift_up k (unat (PriNum s)) (ActivePri s))(k := p),
                 TaskNumPerPri := (shift_up k (unat (PriNum s)) (TaskNumPerPri s))(k := 1),
                 RdyTaskPri := (shift_up k (unat (PriNum s)) (RdyTaskPri s))(k := INVALID_ID),
                 PriNum := PriNum s + 1\<rparr>)"
  shows "tables_inv c s' xs" and "pri_active s' q \<longleftrightarrow> pri_active s q \<or> q = p"
    and "pri_count s' q = pri_count s q + of_bool (q = p)"
proof -
  let ?n = "unat (PriNum s)"
  have tm: "task_max c \<le> 254" and sm: "strict_mono_on {0..<?n} (ActivePri s)"
    using assms(1) by (simp_all add: tables_inv_def)
  have n': "unat (PriNum s') = Suc ?n"
    using assms(2) tm by (simp add: s' unat_word_ariths)
  define g where "g i = (if i < k then i else i - 1)" for i :: nat
  have g: "g i < ?n" if "i < Suc ?n" "i \<noteq> k" for i using that assms(4) by (auto simp: g_def)
  have A: "ActivePri s' i = (if i = k then p else ActivePri s (g i))"
    and N: "TaskNumPerPri s' i = (if i = k then 1 else TaskNumPerPri s (g i))"
    and R: "RdyTaskPri s' i = (if i = k then INVALID_ID else RdyTaskPri s (g i))" if "i < Suc ?n" for i
    using that by (auto simp: s' shift_up_nth g_def)
  have sm': "strict_mono_on {0..<Suc ?n} (ActivePri s')"
  proof (rule strict_mono_onI)
    fix i j assume ij: "i \<in> {0..<Suc ?n}" "j \<in> {0..<Suc ?n}" "i < j"
    have mono: "ActivePri s a < ActivePri s b" if "a < b" "b < ?n" for a b
      using sm that by (auto simp: strict_mono_on_def)
    consider "j = k" | "i = k" | "i \<noteq> k" "j \<noteq> k" by blast
    then show "ActivePri s' i < ActivePri s' j"
    proof cases
      case 3
      with ij have "g i < g j" by (auto simp: g_def)
      with 3 ij g [of j] mono show ?thesis by (simp add: A)
    qed (use ij assms(5,6) in \<open>auto simp: A g_def\<close>)
  qed
  have same: "\<And>u. prio (TCBTbl s' u) = prio (TCBTbl s u)" "\<And>u. taskID (TCBTbl s' u) = taskID (TCBTbl s u)"
    by (simp_all add: s')
  have onto: "\<exists>j < Suc ?n. j \<noteq> k \<and> g j = i" if "i < ?n" for i
    using that by (intro exI [of _ "if i < k then i else Suc i"]) (auto simp: g_def)
  show act: "pri_active s' q \<longleftrightarrow> pri_active s q \<or> q = p" for q
  proof -
    have "(\<exists>i < Suc ?n. ActivePri s' i = q) \<longleftrightarrow> (\<exists>i < ?n. ActivePri s i = q) \<or> q = p"
      using A onto g assms(4) by (metis le_imp_less_Suc)
    then show ?thesis by (simp add: pri_active_def n')
  qed
  have bits: "(rdy_bit (RdyTaskPriInfo s') i \<longleftrightarrow> of_prio s (ActivePri s' i) xs \<noteq> []) \<and>
      RdyTaskPri s' i = (if of_prio s (ActivePri s' i) xs = [] then INVALID_ID
                         else last (of_prio s (ActivePri s' i) xs))" if "i < Suc ?n" for i
  proof -
    have "rdy_bit (RdyTaskPriInfo s') i = (if i < k then rdy_bit (RdyTaskPriInfo s) i else RdyTaskPri s' i \<noteq> INVALID_ID)"
      using that assms(4) n' unfolding s' by (subst PrioRemap_bit) simp_all
    moreover have "RdyTaskPri s' i \<noteq> INVALID_ID \<longleftrightarrow> of_prio s (ActivePri s' i) xs \<noteq> []"
      using rdy_valid [OF assms(1) g] not_active_of_prio [OF assms(1,3)] that by (simp add: A R)
    moreover have "i < k \<Longrightarrow> rdy_bit (RdyTaskPriInfo s) i \<longleftrightarrow> of_prio s (ActivePri s' i) xs \<noteq> []"
      using tables_place_rdy(1) [OF assms(1), of i] assms(4) by (simp add: A g_def)
    ultimately show ?thesis
      using tables_place_rdy(2) [OF assms(1) g] not_active_of_prio [OF assms(1,3)] that by (auto simp: A R)
  qed
  show "tables_inv c s' xs"
    using assms(1,2) sm' bits act n' same unfolding tables_inv_def by (simp add: valid_tid_def)
  show "pri_count s' q = pri_count s q + of_bool (q = p)"
  proof (cases "pri_active s' q")
    case True
    then obtain i where i: "i < Suc ?n" "ActivePri s' i = q" by (auto simp: pri_active_def n')
    have "pri_count s' q = unat (TaskNumPerPri s' i)"
      using pri_count_active [of s' i] sm' i n' by simp
    moreover have "pri_count s p = 0" using assms(3) by (rule pri_count_inactive)
    moreover have "i \<noteq> k \<Longrightarrow> pri_count s q = unat (TaskNumPerPri s (g i)) \<and> q \<noteq> p"
      using pri_count_active [OF sm g] i assms(3) g [of i] by (auto simp: A pri_active_def)
    ultimately show ?thesis using i by (cases "i = k") (auto simp: A N)
  next
    case False
    then show ?thesis using act by (auto simp: pri_count_inactive)
  qed
qed

text \<open>
  \<open>ActiveTaskPri\<close> counts one more task for a priority, opening a place for a new one; the tables
  go on describing the READY list.
\<close>

lemma ActiveTaskPri_ok:
  assumes "tables_inv c s xs" and "unat (PriNum s) < task_max c"
    and "\<And>k. k < unat (PriNum s) \<Longrightarrow> unat (TaskNumPerPri s k) < 255"
  shows "\<exists>s'. ActiveTaskPri p s = Some s' \<and> tables_inv c s' xs \<and>
    (\<forall>q. pri_active s' q \<longleftrightarrow> pri_active s q \<or> q = p) \<and>
    (\<forall>q. pri_count s' q = pri_count s q + of_bool (q = p)) \<and>
    TCBTbl s' = TCBTbl s \<and> TCBRdy s' = TCBRdy s"
proof -
  let ?n = "unat (PriNum s)"
  have sm: "strict_mono_on {0..<?n} (ActivePri s)" using assms(1) by (simp add: tables_inv_def)
  show ?thesis
  proof (cases "pri_active s p")
    case True
    then obtain k where k: "k < ?n" "ActivePri s k = p" by (auto simp: pri_active_def)
    define s' where "s' = s\<lparr>TaskNumPerPri := (TaskNumPerPri s)(k := TaskNumPerPri s k + 1)\<rparr>"
    have eq: "ActiveTaskPri p s = Some s'"
      using GetPriSeqNum_active [OF sm k] by (simp add: ActiveTaskPri_def s'_def)
    have u: "unat (TaskNumPerPri s k + 1) = unat (TaskNumPerPri s k) + 1"
      using assms(3) [OF k(1)] by (simp add: unat_word_ariths)
    have "pri_count s' q = pri_count s q + of_bool (q = p)" for q
    proof (cases "pri_active s q")
      case True
      then obtain i where i: "i < ?n" "ActivePri s i = q" by (auto simp: pri_active_def)
      then have "i = k \<longleftrightarrow> q = p"
        using strict_mono_on_imp_inj_on [OF sm] k by (auto simp: inj_on_def)
      with pri_count_active [OF sm i(1)] pri_count_active [of s' i] sm i u show ?thesis
        by (auto simp: s'_def)
    next
      case False
      with True show ?thesis by (auto simp: s'_def pri_count_inactive pri_active_def)
    qed
    with eq show ?thesis
      using assms(1) True by (auto simp: s'_def tables_inv_def pri_active_def valid_tid_def)
  next
    case False
    then obtain k where k: "GetPriSeqNum p s = Some (False, k)" "k \<le> ?n"
      "\<And>j. j < k \<Longrightarrow> ActivePri s j < p" "\<And>j. k \<le> j \<Longrightarrow> j < ?n \<Longrightarrow> p < ActivePri s j"
      using GetPriSeqNum_inactive [OF sm] by metis
    note N = active_new_place [OF assms(1,2) False k(2-4) refl]
    have "ActiveTaskPri p s = Some (PrioRemap k (s\<lparr>ActivePri := (shift_up k ?n (ActivePri s))(k := p),
                 TaskNumPerPri := (shift_up k ?n (TaskNumPerPri s))(k := 1),
                 RdyTaskPri := (shift_up k ?n (RdyTaskPri s))(k := INVALID_ID),
                 PriNum := PriNum s + 1\<rparr>))"
      using k(1) by (simp add: ActiveTaskPri_def Let_def)
    with N show ?thesis by simp
  qed
qed

section \<open>A priority no longer in use\<close>

lemma delete_place:
  assumes "tables_inv c s xs" and "k < unat (PriNum s)" and "of_prio s (ActivePri s k) xs = []"
    and "unat (TaskNumPerPri s k) = 1"
    and s': "s' = PrioRemap k (s\<lparr>ActivePri := shift_down k (unat (PriNum s) - 1) (ActivePri s),
                 TaskNumPerPri := shift_down k (unat (PriNum s) - 1) ((TaskNumPerPri s)(k := 0)),
                 RdyTaskPri := shift_down k (unat (PriNum s) - 1) (RdyTaskPri s),
                 PriNum := PriNum s - 1\<rparr>)"
  shows "tables_inv c s' xs" and "pri_active s' q \<longleftrightarrow> pri_active s q \<and> q \<noteq> ActivePri s k"
    and "pri_count s' q = pri_count s q - of_bool (q = ActivePri s k)"
proof -
  let ?n = "unat (PriNum s)"
  have sm: "strict_mono_on {0..<?n} (ActivePri s)" using assms(1) by (simp add: tables_inv_def)
  have "PriNum s \<noteq> 0" using assms(2) by auto
  then have "unat (PriNum s - 1) = ?n - 1" by (rule unat_minus_one)
  moreover have "PriNum s' = PriNum s - 1" by (simp add: s')
  ultimately have n': "unat (PriNum s') = ?n - 1" by (simp only:)
  define g where "g i = (if i < k then i else i + 1)" for i :: nat
  have g: "g i < ?n" "g i \<noteq> k" if "i < ?n - 1" for i using that by (auto simp: g_def)
  have A: "ActivePri s' i = ActivePri s (g i)" and N: "TaskNumPerPri s' i = TaskNumPerPri s (g i)"
    and R: "RdyTaskPri s' i = RdyTaskPri s (g i)" if "i < ?n - 1" for i
    using that by (auto simp: s' shift_down_nth g_def)
  have inj: "ActivePri s i = ActivePri s k \<longleftrightarrow> i = k" if "i < ?n" for i
    using strict_mono_on_imp_inj_on [OF sm] that assms(2) by (auto simp: inj_on_def)
  have sm': "strict_mono_on {0..<?n - 1} (ActivePri s')"
  proof (rule strict_mono_onI)
    fix i j assume ij: "i \<in> {0..<?n - 1}" "j \<in> {0..<?n - 1}" "i < j"
    then have "g i < g j" by (auto simp: g_def)
    moreover have "g j < ?n" using ij g by simp
    ultimately show "ActivePri s' i < ActivePri s' j" using ij sm by (simp add: A strict_mono_on_def)
  qed
  have same: "\<And>u. prio (TCBTbl s' u) = prio (TCBTbl s u)" "\<And>u. taskID (TCBTbl s' u) = taskID (TCBTbl s u)"
    by (simp_all add: s')
  have onto: "\<exists>j < ?n - 1. g j = i" if "i < ?n" "i \<noteq> k" for i
    using that by (intro exI [of _ "if i < k then i else i - 1"]) (use assms(2) in \<open>auto simp: g_def\<close>)
  show act: "pri_active s' q \<longleftrightarrow> pri_active s q \<and> q \<noteq> ActivePri s k" for q
  proof -
    have "(\<exists>i < ?n - 1. ActivePri s' i = q) \<longleftrightarrow> (\<exists>i < ?n. ActivePri s i = q) \<and> q \<noteq> ActivePri s k"
      using A onto g inj by metis
    then show ?thesis by (simp add: pri_active_def n')
  qed
  have bits: "(rdy_bit (RdyTaskPriInfo s') i \<longleftrightarrow> of_prio s (ActivePri s' i) xs \<noteq> []) \<and>
      RdyTaskPri s' i = (if of_prio s (ActivePri s' i) xs = [] then INVALID_ID
                         else last (of_prio s (ActivePri s' i) xs))" if "i < ?n - 1" for i
  proof -
    have "rdy_bit (RdyTaskPriInfo s') i = (if i < k then rdy_bit (RdyTaskPriInfo s) i else RdyTaskPri s' i \<noteq> INVALID_ID)"
      using that assms(2) n' unfolding s' by (subst PrioRemap_bit) simp_all
    moreover have "RdyTaskPri s' i \<noteq> INVALID_ID \<longleftrightarrow> of_prio s (ActivePri s' i) xs \<noteq> []"
      using rdy_valid [OF assms(1) g(1)] that by (simp add: A R)
    moreover have "i < k \<Longrightarrow> rdy_bit (RdyTaskPriInfo s) i \<longleftrightarrow> of_prio s (ActivePri s' i) xs \<noteq> []"
      using tables_place_rdy(1) [OF assms(1), of i] assms(2) that by (simp add: A g_def)
    ultimately show ?thesis
      using tables_place_rdy(2) [OF assms(1) g(1)] that by (auto simp: A R)
  qed
  have "\<forall>t \<in> set xs. priof s t \<noteq> ActivePri s k" using assms(3) by (auto simp: filter_empty_conv)
  then show "tables_inv c s' xs"
    using assms(1) sm' bits act n' same unfolding tables_inv_def
    by (simp add: valid_tid_def le_diff_conv)
  have cnt: "pri_count s (ActivePri s k) = 1" using pri_count_active [OF sm assms(2)] assms(4) by simp
  show "pri_count s' q = pri_count s q - of_bool (q = ActivePri s k)"
  proof (cases "pri_active s' q")
    case True
    then obtain i where i: "i < ?n - 1" "ActivePri s' i = q" by (auto simp: pri_active_def n')
    with pri_count_active [of s' i] sm' n' pri_count_active [OF sm g(1)] g inj True act show ?thesis
      by (auto simp: A N)
  next
    case False
    then show ?thesis using act cnt pri_count_inactive by (cases "q = ActivePri s k") auto
  qed
qed

text \<open>\<open>DeleteTaskPri\<close> counts one task less, and closes the place when it was the last one.\<close>

lemma DeleteTaskPri_ok:
  assumes "tables_inv c s xs" and "pri_active s p" and "0 < pri_count s p"
    and "pri_count s p = 1 \<Longrightarrow> of_prio s p xs = []"
  shows "\<exists>s'. DeleteTaskPri p s = Some s' \<and> tables_inv c s' xs \<and>
    (\<forall>q. pri_active s' q \<longleftrightarrow> pri_active s q \<and> (q = p \<longrightarrow> 1 < pri_count s p)) \<and>
    (\<forall>q. pri_count s' q = pri_count s q - of_bool (q = p)) \<and>
    TCBTbl s' = TCBTbl s \<and> TCBRdy s' = TCBRdy s"
proof -
  let ?n = "unat (PriNum s)"
  have sm: "strict_mono_on {0..<?n} (ActivePri s)" using assms(1) by (simp add: tables_inv_def)
  obtain k where k: "k < ?n" "ActivePri s k = p" using assms(2) by (auto simp: pri_active_def)
  have cnt: "pri_count s p = unat (TaskNumPerPri s k)" using pri_count_active [OF sm k(1)] k(2) by simp
  have pos: "TaskNumPerPri s k \<noteq> 0" using assms(3) cnt by auto
  have u: "unat (TaskNumPerPri s k - 1) = unat (TaskNumPerPri s k) - 1"
    using pos by (rule unat_minus_one)
  have get: "GetPriSeqNum p s = Some (True, k)" by (rule GetPriSeqNum_active [OF sm k])
  show ?thesis
  proof (cases "unat (TaskNumPerPri s k) = 1")
    case True
    then have one: "TaskNumPerPri s k = 1" by (metis unat_1 word_unat_eq_iff)
    have em: "of_prio s (ActivePri s k) xs = []" using assms(4) cnt True k(2) by simp
    note D = delete_place [OF assms(1) k(1) em True refl]
    have "DeleteTaskPri p s = Some (PrioRemap k (s\<lparr>ActivePri := shift_down k (?n - 1) (ActivePri s),
                 TaskNumPerPri := shift_down k (?n - 1) ((TaskNumPerPri s)(k := 0)),
                 RdyTaskPri := shift_down k (?n - 1) (RdyTaskPri s),
                 PriNum := PriNum s - 1\<rparr>))"
      using get one by (simp add: DeleteTaskPri_def Let_def)
    with D k(2) cnt True show ?thesis by simp
  next
    case False
    define s' where "s' = s\<lparr>TaskNumPerPri := (TaskNumPerPri s)(k := TaskNumPerPri s k - 1)\<rparr>"
    have "TaskNumPerPri s k - 1 \<noteq> 0" using False u pos by (metis Suc_pred unat_0 unat_gt_0 One_nat_def)
    then have eq: "DeleteTaskPri p s = Some s'" using get by (simp add: DeleteTaskPri_def s'_def)
    have "pri_count s' q = pri_count s q - of_bool (q = p)" for q
    proof (cases "pri_active s q")
      case True
      then obtain i where i: "i < ?n" "ActivePri s i = q" by (auto simp: pri_active_def)
      then have "i = k \<longleftrightarrow> q = p"
        using strict_mono_on_imp_inj_on [OF sm] k by (auto simp: inj_on_def)
      with pri_count_active [OF sm i(1)] pri_count_active [of s' i] sm i u show ?thesis
        by (auto simp: s'_def)
    next
      case False
      with assms(2) show ?thesis by (auto simp: s'_def pri_count_inactive pri_active_def)
    qed
    moreover have "1 < pri_count s p" using cnt False assms(3) by simp
    ultimately show ?thesis
      using eq assms(1) by (auto simp: s'_def tables_inv_def pri_active_def valid_tid_def)
  qed
qed

section \<open>Properties\<close>

text \<open>
  A small state for concrete instances: tasks 2 (priority 3) and 1 (priority 5) are ready, task 3
  (priority 5) waits, and the priority tables describe the same situation.
\<close>

definition ready_example :: kernel where
  "ready_example = kernel_start\<lparr>
     TCBTbl := (TCBTbl kernel_start)(
       1 := OSTCB_zero\<lparr>taskID := 1, prio := 5, TCBprev := Some 2\<rparr>,
       2 := OSTCB_zero\<lparr>taskID := 2, prio := 3, TCBnext := Some 1\<rparr>,
       3 := OSTCB_zero\<lparr>taskID := 3, prio := 5, state := TASK_WAITING\<rparr>),
     TCBRdy := Some 2, PriNum := 2, ActivePri := (\<lambda>_. 255)(0 := 3, 1 := 5),
     TaskNumPerPri := (\<lambda>_. 0)(0 := 1, 1 := 2),
     RdyTaskPri := (\<lambda>_. INVALID_ID)(0 := 2, 1 := 1), RdyTaskPriInfo := (\<lambda>_. 0)(0 := 3)\<rparr>"

definition binary_config :: config where
  "binary_config = OsConfig\<lparr>CFG_ORDER_LIST_SCHEDULE_EN := False\<rparr>"

lemmas ready_example_defs =
  ready_example_def binary_config_def OsConfig_def kernel_start_def OSTCB_zero_def

lemma ready_example_simps:
  "TCBRdy ready_example = Some 2" "PriNum ready_example = 2" "unat (PriNum ready_example) = 2"
  "ActivePri ready_example 0 = 3" "ActivePri ready_example (Suc 0) = 5"
  "RdyTaskPri ready_example 0 = 2" "RdyTaskPri ready_example (Suc 0) = 1"
  "RdyTaskPriInfo ready_example 0 = 3"
  "prio (TCBTbl ready_example 1) = 5" "prio (TCBTbl ready_example 2) = 3" "prio (TCBTbl ready_example 3) = 5"
  "taskID (TCBTbl ready_example 1) = 1" "taskID (TCBTbl ready_example 2) = 2" "taskID (TCBTbl ready_example 3) = 3"
  "TCBnext (TCBTbl ready_example 1) = None" "TCBprev (TCBTbl ready_example 1) = Some 2"
  "TCBnext (TCBTbl ready_example 2) = Some 1" "TCBprev (TCBTbl ready_example 2) = None"
  "TCBnext (TCBTbl ready_example 3) = None" "TCBprev (TCBTbl ready_example 3) = None"
  "task_max binary_config = 6" "task_max OsConfig = 6"
  "CFG_ORDER_LIST_SCHEDULE_EN binary_config = False" "CFG_ORDER_LIST_SCHEDULE_EN OsConfig = True"
  by (simp_all add: ready_example_defs task_max_def SYS_TASK_NUM_def)

lemma ready_example_list: "rdy_list ready_example [2, 1]"
  by (simp add: rdy_list_def dlist_def ready_example_simps)

lemma ready_example_tables: "tables_inv binary_config ready_example [2, 1]"
proof -
  have "strict_mono_on {0..<2} (ActivePri ready_example)"
    by (auto simp: strict_mono_on_def ready_example_simps less_2_cases_iff)
  moreover have "bit (3 :: U32) 0" "bit (3 :: U32) (Suc 0)"
    by code_simp+
  moreover have "pri_active ready_example 3" "pri_active ready_example 5"
    by (auto simp: pri_active_def ready_example_simps less_2_cases_iff)
  ultimately show ?thesis
    by (auto simp: tables_inv_def valid_tid_def ready_example_simps less_2_cases_iff)
qed

lemma ready_example_inv: "rdy_inv binary_config ready_example [2, 1]" "rdy_inv OsConfig ready_example [2, 1]"
  using ready_example_list ready_example_tables
  by (simp_all add: rdy_inv_def ready_example_simps)

lemma ready_example_adm: "admissible binary_config ready_example 3" "admissible OsConfig ready_example 3"
  by (auto simp: admissible_def unlinked_def pri_active_def valid_tid_def
      ready_example_simps less_2_cases_iff)

text \<open>
  C1. \<open>InsertToTCBRdyList\<close>, in both scheduling schemes, returns and turns a well-formed READY
  list \<open>xs\<close> into the list with the task inserted behind every task of equal or higher priority;
  the invariant (links, order, priority tables) holds again, nothing but the link fields, the
  state of the task and the request flag changes, and the flag is raised when the task is the
  new head.
\<close>

theorem ready_insert_refines:
  assumes "rdy_inv c s xs" and "t \<notin> set xs" and "admissible c s t"
  shows "\<exists>s'. InsertToTCBRdyList c t s = Some s' \<and> rdy_inv c s' (insort_after (priof s) t xs) \<and>
    ins_frame t xs s s'"
  using assms by (rule rq.ins_ok)

theorem ready_insert_refines_witness:
  "\<exists>s'. InsertToTCBRdyList binary_config 3 ready_example = Some s' \<and>
     rdy_inv binary_config s' [2, 1, 3]"
  using ready_insert_refines [of binary_config ready_example "[2, 1]" 3]
    ready_example_inv ready_example_adm
  by (auto simp: ready_example_simps)

text \<open>
  C2. \<open>RemoveFromTCBRdyList\<close>, in both scheduling schemes, returns and takes exactly the given task
  out of the READY list; the invariant holds again and the task is left unlinked, ready to be
  inserted once more.
\<close>

theorem ready_remove_refines:
  assumes "rdy_inv c s xs" and "t \<in> set xs"
  shows "\<exists>s'. RemoveFromTCBRdyList c t s = Some s' \<and> rdy_inv c s' (remove1 t xs) \<and>
    rem_frame xs s s' \<and> admissible c s' t"
  using assms by (rule rq.rem_in)

theorem ready_remove_refines_witness:
  "\<exists>s'. RemoveFromTCBRdyList binary_config 2 ready_example = Some s' \<and> rdy_inv binary_config s' [1]"
  using ready_remove_refines [of binary_config ready_example "[2, 1]" 2] ready_example_inv
  by auto

lemma dlist_same_links:
  "dlist nx pv h xs \<Longrightarrow> dlist nx' pv' h' xs \<Longrightarrow> a \<in> set xs \<Longrightarrow> nx a = nx' a \<and> pv a = pv' a"
  using dlist_links by (metis in_set_conv_decomp)

text \<open>
  C8. The Binary-Scheduling insertion, which finds its place through the priority tables and
  the ready bit map, and the plain walk along the ordered list produce the same control blocks,
  the same list head and the same scheduling request.
\<close>

theorem binary_insert_equals_list_insert:
  assumes "rdy_inv c s xs" and "\<not> CFG_ORDER_LIST_SCHEDULE_EN c" and "t \<notin> set xs" and "admissible c s t"
  shows "\<exists>s1 s2. insert_binary c t s = Some s1 \<and> insert_order_list t s = Some s2 \<and>
    TCBTbl s1 = TCBTbl s2 \<and> TCBRdy s1 = TCBRdy s2 \<and> TaskSchedReq s1 = TaskSchedReq s2"
proof -
  have r: "rdy_list s xs" and u: "unlinked s t" and so: "sorted (map (priof s) xs)"
    and b: "tables_inv c s xs" "pri_active s (priof s t)" "valid_tid c s t"
    using assms by (auto simp: rdy_inv_def admissible_def)
  let ?ys = "insort_after (priof s) t xs"
  obtain s1 where s1: "insert_binary c t s = Some s1" "rdy_list s1 ?ys"
    "links_only (insert t (set xs)) (TCBTbl s) (TCBTbl s1)" "TaskSchedReq s1 = (TaskSchedReq s \<or> hd ?ys = t)"
    using insert_binary_ok [OF r assms(3) u so b] by blast
  obtain s2 where s2: "insert_order_list t s = Some s2" "rdy_list s2 ?ys"
    "links_only (insert t (set xs)) (TCBTbl s) (TCBTbl s2)" "TaskSchedReq s2 = (TaskSchedReq s \<or> hd ?ys = t)"
    using insert_order_list_ok [OF r assms(3) u] by blast
  have "TCBTbl s1 a = TCBTbl s2 a" for a
  proof (cases "a \<in> insert t (set xs)")
    case True
    then have "nextf s1 a = nextf s2 a \<and> prevf s1 a = prevf s2 a"
      using dlist_same_links [OF s1(2) [unfolded rdy_list_def] s2(2) [unfolded rdy_list_def], of a] by simp
    then show ?thesis
      by (intro OSTCB.equality) (simp_all add: links_onlyD [OF s1(3)] links_onlyD [OF s2(3)])
  qed (use links_only_outside [OF s1(3)] links_only_outside [OF s2(3)] in simp)
  moreover have "TCBRdy s1 = TCBRdy s2" using s1(2) s2(2) by (simp add: rdy_list_def dlist_def)
  ultimately show ?thesis using s1 s2 by auto
qed

theorem binary_insert_equals_list_insert_witness:
  "\<exists>s1 s2. insert_binary binary_config 3 ready_example = Some s1 \<and>
     insert_order_list 3 ready_example = Some s2 \<and> TCBTbl s1 = TCBTbl s2 \<and> TCBRdy s1 = TCBRdy s2"
  using binary_insert_equals_list_insert [of binary_config ready_example "[2, 1]" 3]
    ready_example_inv ready_example_adm
  by (auto simp: ready_example_simps)

text \<open>
  Inserting a task into the READY list and removing it again gives the list back, in both
  scheduling schemes.
\<close>

theorem ready_insert_remove_roundtrip:
  assumes "rdy_inv c s xs" and "t \<notin> set xs" and "admissible c s t"
  shows "\<exists>s1 s2. InsertToTCBRdyList c t s = Some s1 \<and> RemoveFromTCBRdyList c t s1 = Some s2 \<and> rdy_inv c s2 xs"
  using assms by (rule rq.ins_rem)

theorem ready_insert_remove_roundtrip_witness:
  "\<exists>s1 s2. InsertToTCBRdyList OsConfig 3 ready_example = Some s1 \<and>
     RemoveFromTCBRdyList OsConfig 3 s1 = Some s2 \<and> rdy_inv OsConfig s2 [2, 1]"
  using ready_insert_remove_roundtrip [of OsConfig ready_example "[2, 1]" 3]
    ready_example_inv ready_example_adm
  by auto

text \<open>
  \<open>GetPriSeqNum\<close> terminates and is a correct binary search: it returns the place of the
  priority in the sorted table of active priorities, or the place where it has to be opened.
\<close>

theorem binary_search_correct:
  assumes "strict_mono_on {0..<unat (PriNum s)} (ActivePri s)"
  shows "\<exists>found k. GetPriSeqNum pri s = Some (found, k) \<and> k \<le> unat (PriNum s) \<and>
    (found \<longleftrightarrow> k < unat (PriNum s) \<and> ActivePri s k = pri) \<and>
    (\<forall>j < k. ActivePri s j < pri) \<and> (\<forall>j. k \<le> j \<and> j < unat (PriNum s) \<longrightarrow> pri \<le> ActivePri s j)"
proof -
  obtain i where "i \<le> unat (PriNum s)" "\<forall>j. 0 \<le> j \<and> j < i \<longrightarrow> ActivePri s j < pri"
    "\<forall>j. i < j \<and> j < unat (PriNum s) \<longrightarrow> pri < ActivePri s j"
    "GetPriSeqNum pri s = Some (i < unat (PriNum s) \<and> ActivePri s i = pri, i)"
    "i < unat (PriNum s) \<longrightarrow> pri \<le> ActivePri s i"
    using GetPriSeqNum_loop_correct [OF le0 assms] unfolding GetPriSeqNum_def by blast
  then show ?thesis by (auto simp: le_less)
qed

theorem binary_search_correct_witness:
  "\<exists>found k. GetPriSeqNum 4 ready_example = Some (found, k) \<and> k \<le> 2 \<and>
     (\<forall>j < k. ActivePri ready_example j < 4) \<and> (\<forall>j. k \<le> j \<and> j < 2 \<longrightarrow> 4 \<le> ActivePri ready_example j)"
  using binary_search_correct [of ready_example 4] ready_example_tables
  by (auto simp: tables_inv_def ready_example_simps)

text \<open>
  The byte- and nibble-wise scan of \<open>GetRdyPriSeqNum\<close> finds the highest place not above
  \<open>seqNum\<close> whose ready bit is set, and returns \<open>INVALID_ID\<close> exactly when there is none.
\<close>

theorem bitmap_scan_correct:
  "(GetRdyPriSeqNum seqNum s = INVALID_ID \<and> (\<forall>k \<le> seqNum. \<not> rdy_bit (RdyTaskPriInfo s) k)) \<or>
   (\<exists>k \<le> seqNum. GetRdyPriSeqNum seqNum s = of_nat k \<and> rdy_bit (RdyTaskPriInfo s) k \<and>
      (\<forall>m. k < m \<and> m \<le> seqNum \<longrightarrow> \<not> rdy_bit (RdyTaskPriInfo s) m))"
proof (cases "top_in (rdy_bit (RdyTaskPriInfo s)) 0 (Suc seqNum)")
  case None
  then have "GetRdyPriSeqNum seqNum s = INVALID_ID" unfolding GetRdyPriSeqNum_top by (simp only: option.case)
  with None show ?thesis unfolding top_in_None by (auto simp: less_Suc_eq_le)
next
  case (Some k)
  then have "k \<le> seqNum" "rdy_bit (RdyTaskPriInfo s) k"
    "\<forall>m. k < m \<and> m \<le> seqNum \<longrightarrow> \<not> rdy_bit (RdyTaskPriInfo s) m"
    unfolding top_in_Some by (auto simp: less_Suc_eq_le)
  moreover have "GetRdyPriSeqNum seqNum s = of_nat k" unfolding GetRdyPriSeqNum_top using Some by simp
  ultimately show ?thesis by blast
qed

theorem bitmap_scan_correct_witness:
  "GetRdyPriSeqNum 1 ready_example = INVALID_ID \<or> (\<exists>k \<le> 1. GetRdyPriSeqNum 1 ready_example = of_nat k)"
  using bitmap_scan_correct [of 1 ready_example] by auto

text \<open>
  \<open>ActiveTaskPri\<close> returns, counts one more task for the priority and none for the others,
  and keeps the tables sorted and in step with the READY list, also when it has to open a new
  place in the middle of the table and to shift the ready bits.
\<close>

theorem active_pri_keeps_tables:
  assumes "tables_inv c s xs" and "unat (PriNum s) < task_max c"
    and "\<And>k. k < unat (PriNum s) \<Longrightarrow> unat (TaskNumPerPri s k) < 255"
  shows "\<exists>s'. ActiveTaskPri p s = Some s' \<and> tables_inv c s' xs \<and>
    (\<forall>q. pri_active s' q \<longleftrightarrow> pri_active s q \<or> q = p) \<and>
    (\<forall>q. pri_count s' q = pri_count s q + of_bool (q = p)) \<and>
    TCBTbl s' = TCBTbl s \<and> TCBRdy s' = TCBRdy s"
  using assms by (rule ActiveTaskPri_ok)

theorem active_pri_keeps_tables_witness:
  "\<exists>s'. ActiveTaskPri 4 ready_example = Some s' \<and> tables_inv binary_config s' [2, 1] \<and> pri_active s' 4"
proof -
  have "unat (TaskNumPerPri ready_example k) < 255" if "k < unat (PriNum ready_example)" for k
    using that by (auto simp: ready_example_simps less_2_cases_iff) (simp_all add: ready_example_defs)
  then show ?thesis
    using active_pri_keeps_tables [OF ready_example_tables, of 4] by (auto simp: ready_example_simps)
qed

text \<open>
  \<open>DeleteTaskPri\<close> returns, counts one task less for the priority, and removes the priority
  from the table exactly when that was its last task; the tables stay in step with the READY
  list.
\<close>

theorem delete_pri_keeps_tables:
  assumes "tables_inv c s xs" and "pri_active s p" and "0 < pri_count s p"
    and "pri_count s p = 1 \<Longrightarrow> of_prio s p xs = []"
  shows "\<exists>s'. DeleteTaskPri p s = Some s' \<and> tables_inv c s' xs \<and>
    (\<forall>q. pri_active s' q \<longleftrightarrow> pri_active s q \<and> (q = p \<longrightarrow> 1 < pri_count s p)) \<and>
    (\<forall>q. pri_count s' q = pri_count s q - of_bool (q = p)) \<and>
    TCBTbl s' = TCBTbl s \<and> TCBRdy s' = TCBRdy s"
  using assms by (rule DeleteTaskPri_ok)

theorem delete_pri_keeps_tables_witness:
  "\<exists>s'. DeleteTaskPri 5 ready_example = Some s' \<and> tables_inv binary_config s' [2, 1] \<and> pri_active s' 5"
proof -
  have "pri_count ready_example 5 = 2"
    using pri_count_active [of ready_example "Suc 0"] ready_example_tables
    by (simp add: tables_inv_def ready_example_simps) (simp add: ready_example_defs)
  moreover have "pri_active ready_example 5" by (auto simp: pri_active_def ready_example_simps less_2_cases_iff)
  ultimately show ?thesis
    using delete_pri_keeps_tables [OF ready_example_tables, of 5] by auto
qed

end
