(* ===== verification/Scheduler.thy ===== *)
theory Scheduler
  imports PriTables
begin

text \<open>
  The scheduler of \<open>task.c\<close> and the context switch of \<open>portable/GCC/port.c\<close>. \<open>Schedule\<close> chooses
  \<open>TCBNext\<close> and pends the PendSV exception; \<open>PendSV_Handler\<close> saves the registers of the running
  task on its stack and restores those of \<open>TCBNext\<close>. The two assembly versions of the handler
  (Cortex-M3 and Cortex-M0) are modelled on the process stack pointer and the registers R4 to
  R11, the part of the processor they touch.
\<close>

section \<open>Operations\<close>

text \<open>\<open>CoStkOverflowHook\<close> of \<open>hook.c\<close> loops for ever: it has no result.\<close>

partial_function (option) CoStkOverflowHook :: "OS_TID \<Rightarrow> kernel \<Rightarrow> kernel option" where
  "CoStkOverflowHook tid s = CoStkOverflowHook tid s"

definition SwitchContext :: "kernel \<Rightarrow> kernel" where
  "SwitchContext s = s\<lparr>PendSVSet := True\<rparr>"

text \<open>The stack check of \<open>Schedule\<close> and the statements around it, from the switch decision on.\<close>

definition stk_overflow :: "OS_TID \<Rightarrow> kernel \<Rightarrow> bool" where
  "stk_overflow t s \<longleftrightarrow>
     stkPtr (TCBTbl s t) < stack (TCBTbl s t) \<or> mem s (stack (TCBTbl s t)) \<noteq> MAGIC_WORD"

definition Schedule_switch :: "config \<Rightarrow> OS_TID \<Rightarrow> OS_TID \<Rightarrow> kernel \<Rightarrow> kernel option" where
  "Schedule_switch c pCurTcb next s = do {
     let s = (if CFG_ROBIN_EN c \<and> prio (TCBTbl s next) = prio_at c s (TCBRdy s)
              then s\<lparr>OSCheckTime := OSTickCnt s + ucast (timeSlice (TCBTbl s next))\<rparr> else s);
     s \<leftarrow> (if CFG_STK_CHECKOUT_EN c \<and> stk_overflow pCurTcb s
           then CoStkOverflowHook (taskID (TCBTbl s pCurTcb)) s else Some s);
     Some (SwitchContext s)
   }"

definition Schedule :: "config \<Rightarrow> kernel \<Rightarrow> kernel option" where
  "Schedule c s =
     (case TCBRdy s of
        None \<Rightarrow> Some s
      | Some pRdyTcb \<Rightarrow>
          if TCBRunning s \<noteq> TCBNext s \<or> OSSchedLock s > 1 \<or> OSIntNesting s > 0 then Some s
          else do {
            pCurTcb \<leftarrow> TCBRunning s;
            let s = s\<lparr>TaskSchedReq := False\<rparr>;
            let RunPrio = prio (TCBTbl s pCurTcb);
            let RdyPrio = prio (TCBTbl s pRdyTcb);
            if state (TCBTbl s pCurTcb) \<noteq> TASK_RUNNING then do {
              let s = s\<lparr>TCBNext := Some pRdyTcb\<rparr>;
              let s = upd_tcb pRdyTcb (state_update (\<lambda>_. TASK_RUNNING)) s;
              s \<leftarrow> RemoveFromTCBRdyList c pRdyTcb s;
              Schedule_switch c pCurTcb pRdyTcb s
            }
            else if RdyPrio < RunPrio \<or>
                    CFG_ROBIN_EN c \<and> RunPrio = RdyPrio \<and> OSCheckTime s = OSTickCnt s then do {
              let s = s\<lparr>TCBNext := Some pRdyTcb\<rparr>;
              s \<leftarrow> InsertToTCBRdyList c pCurTcb s;
              s \<leftarrow> RemoveFromTCBRdyList c pRdyTcb s;
              let s = upd_tcb pRdyTcb (state_update (\<lambda>_. TASK_RUNNING)) s;
              Schedule_switch c pCurTcb pRdyTcb s
            }
            else Some s
          })"

text \<open>
  The processor state of the context switch. \<open>regs\<close> are R4 to R11, \<open>regs 0\<close> being R4. On
  exception entry the hardware has pushed the other registers and \<open>PSP\<close> points below them.
\<close>

record cpu =
  PSP :: U32
  regs :: "nat \<Rightarrow> U32"

text \<open>\<open>STMIA a!, {n registers}\<close> and \<open>LDMIA a!, {n registers}\<close>, word by word upwards from \<open>a\<close>.\<close>

definition stmia :: "U32 \<Rightarrow> U32 list \<Rightarrow> (U32 \<Rightarrow> U32) \<Rightarrow> U32 \<Rightarrow> U32" where
  "stmia a ws m = fold (\<lambda>(i, w) m. m(a + 4 * of_nat i := w)) (enumerate 0 ws) m"

definition ldmia :: "U32 \<Rightarrow> nat \<Rightarrow> (U32 \<Rightarrow> U32) \<Rightarrow> U32 list" where
  "ldmia a n m = map (\<lambda>i. m (a + 4 * of_nat i)) [0..<n]"

definition set_regs :: "nat \<Rightarrow> U32 list \<Rightarrow> (nat \<Rightarrow> U32) \<Rightarrow> nat \<Rightarrow> U32" where
  "set_regs k ws r = (\<lambda>i. if k \<le> i \<and> i < k + length ws then ws ! (i - k) else r i)"

text \<open>\<open>PendSV_Handler\<close> for \<open>CFG_CHIP_TYPE == 1\<close> (Cortex-M3).\<close>

definition PendSV_Handler_M3 :: "cpu \<times> kernel \<Rightarrow> (cpu \<times> kernel) option" where
  "PendSV_Handler_M3 = (\<lambda>(p, s). do {
     let s = s\<lparr>PendSVSet := False\<rparr>;
     if TCBRunning s = TCBNext s then Some (p, s\<lparr>OSSchedLock := 0\<rparr>)
     else do {
       r1 \<leftarrow> TCBRunning s;
       r2 \<leftarrow> TCBNext s;
       let r0 = PSP p - 32;
       let s = s\<lparr>mem := stmia r0 (map (regs p) [0..<8]) (mem s)\<rparr>;
       let s = upd_tcb r1 (stkPtr_update (\<lambda>_. r0)) s;
       let s = s\<lparr>TCBRunning := Some r2\<rparr>;
       let r0 = stkPtr (TCBTbl s r2);
       let p = p\<lparr>regs := set_regs 0 (ldmia r0 8 (mem s)) (regs p)\<rparr>;
       let p = p\<lparr>PSP := r0 + 32\<rparr>;
       Some (p, s\<lparr>OSSchedLock := 0\<rparr>)
     }
   })"

text \<open>
  \<open>PendSV_Handler\<close> for \<open>CFG_CHIP_TYPE == 2\<close> (Cortex-M0), whose instructions reach R4 to R7 only:
  two stores of four words, R8 to R11 going through R4 to R7, and two loads in the opposite
  order.
\<close>

definition PendSV_Handler_M0 :: "cpu \<times> kernel \<Rightarrow> (cpu \<times> kernel) option" where
  "PendSV_Handler_M0 = (\<lambda>(p, s). do {
     let s = s\<lparr>PendSVSet := False\<rparr>;
     if TCBRunning s = TCBNext s then Some (p, s\<lparr>OSSchedLock := 0\<rparr>)
     else do {
       r1 \<leftarrow> TCBRunning s;
       r2 \<leftarrow> TCBNext s;
       let r0 = PSP p - 32;
       let s = upd_tcb r1 (stkPtr_update (\<lambda>_. r0)) s;
       let s = s\<lparr>mem := stmia r0 (map (regs p) [0..<4]) (mem s)\<rparr>;
       let r0 = r0 + 16;
       let p = p\<lparr>regs := set_regs 0 (map (regs p) [4..<8]) (regs p)\<rparr>;
       let s = s\<lparr>mem := stmia r0 (map (regs p) [0..<4]) (mem s)\<rparr>;
       let s = s\<lparr>TCBRunning := Some r2\<rparr>;
       let r0 = stkPtr (TCBTbl s r2);
       let r0 = r0 + 16;
       let p = p\<lparr>regs := set_regs 0 (ldmia r0 4 (mem s)) (regs p)\<rparr>;
       let r0 = r0 + 16;
       let p = p\<lparr>regs := set_regs 4 (map (regs p) [0..<4]) (regs p)\<rparr>;
       let r0 = r0 - 32;
       let p = p\<lparr>regs := set_regs 0 (ldmia r0 4 (mem s)) (regs p)\<rparr>;
       let r0 = r0 + 16;
       let r0 = r0 + 16;
       let p = p\<lparr>PSP := r0\<rparr>;
       Some (p, s\<lparr>OSSchedLock := 0\<rparr>)
     }
   })"

definition SetEnvironment :: "U32 \<Rightarrow> cpu \<Rightarrow> cpu" where
  "SetEnvironment pstk p = p\<lparr>PSP := pstk - 28\<rparr>"

text \<open>
  \<open>Inc8\<close> and \<open>Dec8\<close> on a byte: the value returned and the new contents. \<open>Inc8\<close> undoes the
  increment in the result register, \<open>Dec8\<close> does not.
\<close>

definition Inc8 :: "U8 \<Rightarrow> U8 \<times> U8" where
  "Inc8 data = (let r1 = (ucast data :: U32) + 1; data' = ucast r1 in (ucast (r1 - 1), data'))"

definition Dec8 :: "U8 \<Rightarrow> U8 \<times> U8" where
  "Dec8 data = (let r1 = (ucast data :: U32) - 1; data' = ucast r1 in (ucast r1, data'))"

section \<open>Congruence\<close>

text \<open>The invariant of the READY list depends on the links, priorities and tables only.\<close>

lemma rdy_inv_cong:
  assumes "TCBRdy s' = TCBRdy s" "PriNum s' = PriNum s" "ActivePri s' = ActivePri s"
    "RdyTaskPri s' = RdyTaskPri s" "RdyTaskPriInfo s' = RdyTaskPriInfo s"
    "\<And>t. prio (TCBTbl s' t) = prio (TCBTbl s t)" "\<And>t. taskID (TCBTbl s' t) = taskID (TCBTbl s t)"
    "\<And>t. TCBnext (TCBTbl s' t) = TCBnext (TCBTbl s t)" "\<And>t. TCBprev (TCBTbl s' t) = TCBprev (TCBTbl s t)"
  shows "rdy_inv c s' xs = rdy_inv c s xs" and "admissible c s' t = admissible c s t"
    and "tables_inv c s' xs = tables_inv c s xs" and "rdy_list s' xs = rdy_list s xs"
    and "unlinked s' t = unlinked s t"
  using assms
  by (simp_all add: rdy_inv_def rdy_list_def tables_inv_def admissible_def unlinked_def
      pri_active_def valid_tid_def)

lemma rdy_inv_upd_tcb [simp]:
  "rdy_inv c (upd_tcb t (state_update f1) s) xs = rdy_inv c s xs"
  "rdy_inv c (upd_tcb t (delayTick_update f2) s) xs = rdy_inv c s xs"
  "rdy_inv c (upd_tcb t (pmail_update f3) s) xs = rdy_inv c s xs"
  "rdy_inv c (upd_tcb t (waitNext_update f4) s) xs = rdy_inv c s xs"
  "rdy_inv c (upd_tcb t (waitPrev_update f4) s) xs = rdy_inv c s xs"
  "rdy_inv c (upd_tcb t (eventID_update f5) s) xs = rdy_inv c s xs"
  "rdy_inv c (upd_tcb t (mutexID_update f5) s) xs = rdy_inv c s xs"
  "rdy_inv c (upd_tcb t (pnode_update f6) s) xs = rdy_inv c s xs"
  by (rule rdy_inv_cong(1); simp)+

lemma admissible_upd_tcb [simp]:
  "admissible c (upd_tcb t (state_update f1) s) u = admissible c s u"
  "admissible c (upd_tcb t (delayTick_update f2) s) u = admissible c s u"
  "admissible c (upd_tcb t (pmail_update f3) s) u = admissible c s u"
  "admissible c (upd_tcb t (waitNext_update f4) s) u = admissible c s u"
  "admissible c (upd_tcb t (waitPrev_update f4) s) u = admissible c s u"
  "admissible c (upd_tcb t (eventID_update f5) s) u = admissible c s u"
  "admissible c (upd_tcb t (mutexID_update f5) s) u = admissible c s u"
  "admissible c (upd_tcb t (pnode_update f6) s) u = admissible c s u"
  by (rule rdy_inv_cong(2); simp)+

lemma rdy_inv_upd [simp]:
  "rdy_inv c (TCBNext_update g1 s) xs = rdy_inv c s xs"
  "rdy_inv c (TCBRunning_update g1 s) xs = rdy_inv c s xs"
  "rdy_inv c (FreeTCB_update g1 s) xs = rdy_inv c s xs"
  "rdy_inv c (DlyList_update g1 s) xs = rdy_inv c s xs"
  "rdy_inv c (OSCheckTime_update g2 s) xs = rdy_inv c s xs"
  "rdy_inv c (OSTickCnt_update g2 s) xs = rdy_inv c s xs"
  "rdy_inv c (OSSchedLock_update g3 s) xs = rdy_inv c s xs"
  "rdy_inv c (OSIntNesting_update g3 s) xs = rdy_inv c s xs"
  "rdy_inv c (TaskSchedReq_update g4 s) xs = rdy_inv c s xs"
  "rdy_inv c (PendSVSet_update g4 s) xs = rdy_inv c s xs"
  "rdy_inv c (EventTbl_update g5 s) xs = rdy_inv c s xs"
  "rdy_inv c (QueueTbl_update g6 s) xs = rdy_inv c s xs"
  "rdy_inv c (mem_update g7 s) xs = rdy_inv c s xs"
  "rdy_inv c (FlagNodes_update g8 s) xs = rdy_inv c s xs"
  "rdy_inv c (FlagCrl_update g9 s) xs = rdy_inv c s xs"
  "rdy_inv c (MutexTbl_update g10 s) xs = rdy_inv c s xs"
  by (rule rdy_inv_cong(1); simp)+

lemma admissible_upd [simp]:
  "admissible c (TCBNext_update g1 s) u = admissible c s u"
  "admissible c (TCBRunning_update g1 s) u = admissible c s u"
  "admissible c (FreeTCB_update g1 s) u = admissible c s u"
  "admissible c (DlyList_update g1 s) u = admissible c s u"
  "admissible c (OSCheckTime_update g2 s) u = admissible c s u"
  "admissible c (OSTickCnt_update g2 s) u = admissible c s u"
  "admissible c (OSSchedLock_update g3 s) u = admissible c s u"
  "admissible c (OSIntNesting_update g3 s) u = admissible c s u"
  "admissible c (TaskSchedReq_update g4 s) u = admissible c s u"
  "admissible c (PendSVSet_update g4 s) u = admissible c s u"
  "admissible c (EventTbl_update g5 s) u = admissible c s u"
  "admissible c (QueueTbl_update g6 s) u = admissible c s u"
  "admissible c (mem_update g7 s) u = admissible c s u"
  "admissible c (FlagNodes_update g8 s) u = admissible c s u"
  "admissible c (FlagCrl_update g9 s) u = admissible c s u"
  "admissible c (MutexTbl_update g10 s) u = admissible c s u"
  by (rule rdy_inv_cong(2); simp)+

section \<open>Scheduling\<close>

lemma CoStkOverflowHook_loops: "CoStkOverflowHook t s = None"
proof -
  have False if "CoStkOverflowHook t s = Some y" for y
    by (rule CoStkOverflowHook.raw_induct [where P = "\<lambda>_ _ _. False", OF _ that]) blast
  then show ?thesis by (cases "CoStkOverflowHook t s") auto
qed

text \<open>
  The situation in which the scheduler runs: a well-formed READY list, a running task outside it
  that, unless it has started to wait, could be put back, no switch pending, one level of lock at most and no interrupt.
\<close>

definition sched_ready :: "config \<Rightarrow> kernel \<Rightarrow> OS_TID \<Rightarrow> OS_TID list \<Rightarrow> bool" where
  "sched_ready c s r xs \<longleftrightarrow> rdy_inv c s xs \<and> TCBRunning s = Some r \<and> TCBNext s = Some r \<and>
     r \<notin> set xs \<and> (state (TCBTbl s r) = TASK_RUNNING \<longrightarrow> admissible c s r) \<and>
     OSSchedLock s \<le> 1 \<and> OSIntNesting s = 0"

definition no_overflow :: "config \<Rightarrow> OS_TID \<Rightarrow> kernel \<Rightarrow> bool" where
  "no_overflow c r s \<longleftrightarrow> CFG_STK_CHECKOUT_EN c \<longrightarrow> \<not> stk_overflow r s"

lemma Schedule_switch_ok:
  assumes "no_overflow c r s"
  shows "\<exists>s'. Schedule_switch c r n s = Some s' \<and> TCBTbl s' = TCBTbl s \<and> TCBNext s' = TCBNext s \<and>
    TCBRunning s' = TCBRunning s \<and> TaskSchedReq s' = TaskSchedReq s \<and> PendSVSet s' \<and>
    OSSchedLock s' = OSSchedLock s \<and> mem s' = mem s \<and> EventTbl s' = EventTbl s \<and> DlyList s' = DlyList s \<and>
    (\<forall>ys. rdy_inv c s' ys = rdy_inv c s ys)"
  using assms
  by (auto simp: Schedule_switch_def SwitchContext_def no_overflow_def stk_overflow_def Let_def)

definition must_switch :: "config \<Rightarrow> kernel \<Rightarrow> OS_TID \<Rightarrow> OS_TID \<Rightarrow> bool" where
  "must_switch c s r x \<longleftrightarrow> priof s x < priof s r \<or>
     CFG_ROBIN_EN c \<and> priof s r = priof s x \<and> OSCheckTime s = OSTickCnt s"

lemma Schedule_waiting:
  assumes "sched_ready c s r (x # xs)" and "state (TCBTbl s r) \<noteq> TASK_RUNNING" and "no_overflow c r s"
  shows "\<exists>s'. Schedule c s = Some s' \<and> rdy_inv c s' xs \<and> TCBNext s' = Some x \<and> TCBRunning s' = Some r \<and>
    state (TCBTbl s' x) = TASK_RUNNING \<and> state (TCBTbl s' r) = state (TCBTbl s r) \<and> PendSVSet s' \<and>
    \<not> TaskSchedReq s' \<and> (\<forall>t. prio (TCBTbl s' t) = prio (TCBTbl s t)) \<and>
    links_only (set (x # xs)) ((TCBTbl s)(x := (TCBTbl s x)\<lparr>state := TASK_RUNNING\<rparr>)) (TCBTbl s') \<and>
    EventTbl s' = EventTbl s \<and> DlyList s' = DlyList s \<and> OSSchedLock s' = OSSchedLock s \<and> unlinked s' x"
proof -
  have inv: "rdy_inv c s ([] @ x # xs)" and h: "TCBRdy s = Some x" and rx: "r \<noteq> x"
    using assms(1) rq.head [of c s "x # xs"] by (auto simp: sched_ready_def)
  define s1 where "s1 = upd_tcb x (state_update (\<lambda>_. TASK_RUNNING)) (s\<lparr>TaskSchedReq := False, TCBNext := Some x\<rparr>)"
  have "rdy_inv c s1 ([] @ x # xs)" using inv by (simp add: s1_def)
  from rq.rem_ok [OF this] obtain s2 where s2: "RemoveFromTCBRdyList c x s1 = Some s2" "rdy_inv c s2 xs"
    "rem_frame (x # xs) s1 s2" "unlinked s2 x" by (auto simp: admissible_def)
  then have fr: "rdy_frame s1 s2" and lo: "links_only (set (x # xs)) (TCBTbl s1) (TCBTbl s2)"
    and tr: "TaskSchedReq s2 = TaskSchedReq s1" by (simp_all add: rem_frame_def)
  note L = links_onlyD [OF lo] and R = rdy_frameD [OF fr]
  have no: "no_overflow c r s2"
    using assms(3) rx by (simp add: no_overflow_def stk_overflow_def L R) (simp add: s1_def)
  obtain s3 where s3: "Schedule_switch c r x s2 = Some s3" "TCBTbl s3 = TCBTbl s2" "TCBNext s3 = TCBNext s2"
    "TCBRunning s3 = TCBRunning s2" "TaskSchedReq s3 = TaskSchedReq s2" "PendSVSet s3" "rdy_inv c s3 xs = rdy_inv c s2 xs"
    "EventTbl s3 = EventTbl s2" "DlyList s3 = DlyList s2" "OSSchedLock s3 = OSSchedLock s2"
    using Schedule_switch_ok [OF no, of x] by blast
  have "Schedule c s = Some s3"
    using assms(1,2) h s2(1) s3(1) by (auto simp: Schedule_def sched_ready_def s1_def Let_def)
  moreover have "TCBTbl s1 = (TCBTbl s)(x := (TCBTbl s x)\<lparr>state := TASK_RUNNING\<rparr>)" by (simp add: s1_def)
  with lo s3(2) have "links_only (set (x # xs)) ((TCBTbl s)(x := (TCBTbl s x)\<lparr>state := TASK_RUNNING\<rparr>)) (TCBTbl s3)"
    by simp
  moreover have "unlinked s3 x" using s2(4) s3(2) by (simp add: unlinked_def)
  ultimately show ?thesis using s2(2) s3 tr rx assms(1)
    by (simp add: L R) (auto simp: s1_def sched_ready_def)
qed

lemma links_only_state:
  assumes "links_only A T T'" and "x \<in> A"
  shows "links_only A (T(x := (T x)\<lparr>state := q\<rparr>)) (T'(x := (T' x)\<lparr>state := q\<rparr>))"
  unfolding links_only_def
proof (intro allI conjI impI)
  fix t
  show "(T'(x := (T' x)\<lparr>state := q\<rparr>)) t = (T(x := (T x)\<lparr>state := q\<rparr>)) t" if "t \<notin> A"
    using that assms(2) links_only_outside [OF assms(1) that] by auto
  show "(T'(x := (T' x)\<lparr>state := q\<rparr>)) t = ((T(x := (T x)\<lparr>state := q\<rparr>)) t)
      \<lparr>TCBnext := TCBnext ((T'(x := (T' x)\<lparr>state := q\<rparr>)) t), TCBprev := TCBprev ((T'(x := (T' x)\<lparr>state := q\<rparr>)) t)\<rparr>"
    by (rule OSTCB.equality) (simp_all add: links_onlyD [OF assms(1)])
qed

lemma Schedule_running:
  assumes "sched_ready c s r (x # xs)" and "state (TCBTbl s r) = TASK_RUNNING" and "no_overflow c r s"
    and "must_switch c s r x"
  shows "\<exists>s'. Schedule c s = Some s' \<and> rdy_inv c s' (insort_after (priof s) r xs) \<and> TCBNext s' = Some x \<and>
    TCBRunning s' = Some r \<and> state (TCBTbl s' x) = TASK_RUNNING \<and> state (TCBTbl s' r) = TASK_READY \<and>
    PendSVSet s' \<and> \<not> TaskSchedReq s' \<and> (\<forall>t. prio (TCBTbl s' t) = prio (TCBTbl s t)) \<and>
    links_only (insert r (set (x # xs)))
      ((TCBTbl s)(r := (TCBTbl s r)\<lparr>state := TASK_READY\<rparr>, x := (TCBTbl s x)\<lparr>state := TASK_RUNNING\<rparr>)) (TCBTbl s') \<and>
    DlyList s' = DlyList s \<and> OSSchedLock s' = OSSchedLock s \<and> unlinked s' x"
proof -
  have inv: "rdy_inv c s (x # xs)" and h: "TCBRdy s = Some x" and rx: "r \<notin> set (x # xs)" and ad: "admissible c s r"
    using assms(1,2) rq.head [of c s "x # xs"] by (auto simp: sched_ready_def)
  define s1 where "s1 = s\<lparr>TaskSchedReq := False, TCBNext := Some x\<rparr>"
  have "rdy_inv c s1 (x # xs)" "admissible c s1 r" "priof s1 x \<le> priof s1 r"
    using inv ad assms(4) by (auto simp: s1_def must_switch_def)
  from rq.ins_rem_head [OF this(1) rx this(2,3)] obtain s2 s3 where
    s2: "InsertToTCBRdyList c r s1 = Some s2" "ins_frame r (x # xs) s1 s2" and
    s3: "RemoveFromTCBRdyList c x s2 = Some s3" "rdy_inv c s3 (insort_after (priof s) r xs)"
      "rem_frame (x # insort_after (priof s) r xs) s2 s3" "unlinked s3 x"
    by (auto simp: s1_def admissible_def)
  have hd: "hd (insort_after (priof s1) r (x # xs)) \<noteq> r"
    using rx assms(4) by (auto simp: must_switch_def s1_def)
  have f2: "rdy_frame s1 s2" "TaskSchedReq s2 = False"
    "links_only (insert r (set (x # xs))) ((TCBTbl s1)(r := (TCBTbl s1 r)\<lparr>state := TASK_READY\<rparr>)) (TCBTbl s2)"
    using s2(2) hd by (simp_all add: ins_frame_def) (simp_all add: s1_def)
  have f3: "rdy_frame s2 s3" "TaskSchedReq s3 = TaskSchedReq s2"
    "links_only (set (x # insort_after (priof s) r xs)) (TCBTbl s2) (TCBTbl s3)"
    using s3(3) by (simp_all add: rem_frame_def)
  note L2 = links_onlyD [OF f2(3)] and L3 = links_onlyD [OF f3(3)]
    and R2 = rdy_frameD [OF f2(1)] and R3 = rdy_frameD [OF f3(1)]
  define s4 where "s4 = upd_tcb x (state_update (\<lambda>_. TASK_RUNNING)) s3"
  have xr: "x \<noteq> r" using rx by auto
  have no: "no_overflow c r s4"
    using assms(3) xr
    by (simp add: no_overflow_def stk_overflow_def s4_def L2 L3 R2 R3) (simp add: s1_def)
  obtain s5 where s5: "Schedule_switch c r x s4 = Some s5" "TCBTbl s5 = TCBTbl s4" "TCBNext s5 = TCBNext s4"
    "TCBRunning s5 = TCBRunning s4" "TaskSchedReq s5 = TaskSchedReq s4" "PendSVSet s5"
    "rdy_inv c s5 (insort_after (priof s) r xs) = rdy_inv c s4 (insort_after (priof s) r xs)"
    "DlyList s5 = DlyList s4" "OSSchedLock s5 = OSSchedLock s4"
    using Schedule_switch_ok [OF no, of x] by blast
  have "links_only (insert r (set (x # xs))) ((TCBTbl s1)(r := (TCBTbl s1 r)\<lparr>state := TASK_READY\<rparr>)) (TCBTbl s3)"
    by (rule links_only_trans [OF f2(3) f3(3)]) auto
  then have lo: "links_only (insert r (set (x # xs)))
      ((TCBTbl s)(r := (TCBTbl s r)\<lparr>state := TASK_READY\<rparr>, x := (TCBTbl s x)\<lparr>state := TASK_RUNNING\<rparr>)) (TCBTbl s4)"
    using links_only_state [of _ _ _ x TASK_RUNNING] xr by (fastforce simp: s4_def s1_def)
  have "Schedule c s = Some s5"
    using assms(1,2,4) h s2(1) s3(1) s5(1)
    by (auto simp: Schedule_def sched_ready_def s1_def s4_def must_switch_def Let_def)
  moreover have "unlinked s5 x" using s3(4) s5(2) by (simp add: unlinked_def s4_def)
  ultimately show ?thesis
    using s3(2) s5 f2(2) f3(2) xr assms(1) lo
    by (auto simp: s4_def L2 L3 R2 R3) (auto simp: s1_def sched_ready_def)
qed

lemma Schedule_stays:
  assumes "sched_ready c s r (x # xs)" and "state (TCBTbl s r) = TASK_RUNNING" and "\<not> must_switch c s r x"
  shows "Schedule c s = Some (s\<lparr>TaskSchedReq := False\<rparr>)"
  using assms rq.head [of c s "x # xs"]
  by (auto simp: Schedule_def sched_ready_def must_switch_def Let_def)

section \<open>Context switch\<close>

lemma upt_words: "[0..<8] = [0, 1, 2, 3, 4, 5, 6, 7 :: nat]" "[0..<4] = [0, 1, 2, 3 :: nat]"
  "[4..<8] = [4, 5, 6, 7 :: nat]"
  by code_simp+

lemma less_8_cases: "i < (8 :: nat) \<longleftrightarrow> i \<in> {0, 1, 2, 3, 4, 5, 6, 7}"
  by auto

lemma stmia_split:
  "stmia (a + 16) (map r [4..<8]) (stmia a (map r [0..<4]) m) = stmia a (map r [0..<8]) m"
  by (simp add: stmia_def upt_words add.assoc)

lemma set_regs_low: "map (set_regs 0 (map r [4..<8]) r) [0..<4] = map r [4..<8]"
  by (simp add: set_regs_def upt_words)

lemma set_regs_ldmia:
  assumes "R = set_regs 0 (ldmia (a + 16) 4 m) (set_regs 0 (map r [4..<8]) r)"
  shows "set_regs 0 (ldmia a 4 m) (set_regs 4 (map R [0..<4]) R) = set_regs 0 (ldmia a 8 m) r"
proof
  fix i :: nat
  consider "i \<in> {0, 1, 2, 3, 4, 5, 6, 7}" | "8 \<le> i" by fastforce
  then show "set_regs 0 (ldmia a 4 m) (set_regs 4 (map R [0..<4]) R) i = set_regs 0 (ldmia a 8 m) r i"
  proof cases
    case 1
    then show ?thesis
      by (elim insertE emptyE) (simp_all add: assms set_regs_def ldmia_def upt_words add.assoc)
  qed (simp add: assms set_regs_def ldmia_def upt_words)
qed

lemma PendSV_handlers_agree: "PendSV_Handler_M0 x = PendSV_Handler_M3 x"
proof -
  obtain p s where x: "x = (p, s)" by (cases x)
  have frame: "stkPtr (TCBTbl (s\<lparr>mem := mm\<rparr>) t) = stkPtr (TCBTbl s t)" for mm t by simp
  show ?thesis
  proof (cases "TCBRunning s = TCBNext s \<or> TCBRunning s = None \<or> TCBNext s = None")
    case True
    then show ?thesis by (cases "TCBRunning s"; cases "TCBNext s") (auto simp: x PendSV_Handler_M0_def PendSV_Handler_M3_def Let_def)
  next
    case False
    then obtain a b where ab: "TCBRunning s = Some a" "TCBNext s = Some b" "a \<noteq> b" by auto
    let ?r0 = "stkPtr (TCBTbl s b)"
    let ?m = "stmia (PSP p - 32) (map (regs p) [0..<8]) (mem s)"
    show ?thesis
      using ab set_regs_ldmia [OF refl, of ?r0 ?m "regs p"] stmia_split [of "PSP p - 32" "regs p" "mem s"]
      by (simp add: x PendSV_Handler_M0_def PendSV_Handler_M3_def Let_def set_regs_low add.assoc
          del: upt_rec_numeral)
  qed
qed

lemma word_index_inj: "i < 8 \<Longrightarrow> j < 8 \<Longrightarrow> (4 * of_nat i :: U32) = 4 * of_nat j \<longleftrightarrow> i = j"
  unfolding less_8_cases by (elim insertE emptyE) simp_all

lemma stmia_same:
  assumes "i < 8"
  shows "stmia a (map r [0..<8]) m (a + 4 * of_nat i) = r i"
  using assms unfolding less_8_cases by (elim insertE emptyE) (simp_all add: stmia_def upt_words)

lemma stmia_other:
  assumes "\<And>i. i < 8 \<Longrightarrow> b \<noteq> a + 4 * of_nat i"
  shows "stmia a (map r [0..<8]) m b = m b"
  using assms [of 0] assms [of 1] assms [of 2] assms [of 3] assms [of 4] assms [of 5] assms [of 6] assms [of 7]
  by (simp add: stmia_def upt_words)

lemma PendSV_M3_switch:
  assumes "TCBRunning s = Some a" and "TCBNext s = Some b" and "a \<noteq> b"
  shows "PendSV_Handler_M3 (p, s) = Some
    (p\<lparr>regs := set_regs 0 (ldmia (stkPtr (TCBTbl s b)) 8 (stmia (PSP p - 32) (map (regs p) [0..<8]) (mem s))) (regs p),
       PSP := stkPtr (TCBTbl s b) + 32\<rparr>,
     upd_tcb a (stkPtr_update (\<lambda>_. PSP p - 32))
       (s\<lparr>PendSVSet := False, mem := stmia (PSP p - 32) (map (regs p) [0..<8]) (mem s),
          TCBRunning := Some b, OSSchedLock := 0\<rparr>))"
  using assms by (simp add: PendSV_Handler_M3_def Let_def)

section \<open>Properties\<close>

text \<open>
  A concrete situation: task 4 (priority 7) runs, tasks 2 (priority 3) and 1 (priority 5) are
  ready.
\<close>

definition sched_example :: kernel where
  "sched_example = ready_example\<lparr>
     TCBTbl := (TCBTbl ready_example)(4 := OSTCB_zero\<lparr>taskID := 4, prio := 7, state := TASK_RUNNING,
       stkPtr := 100, stack := 40\<rparr>),
     TCBRunning := Some 4, TCBNext := Some 4, mem := (\<lambda>_. MAGIC_WORD)\<rparr>"

lemma sched_example_ready: "sched_ready OsConfig sched_example 4 [2, 1]"
  by (simp add: sched_ready_def rdy_inv_def rdy_list_def dlist_def admissible_def unlinked_def sched_example_def
      ready_example_defs)

lemma sched_example_state:
  "state (TCBTbl sched_example 4) = TASK_RUNNING" "no_overflow OsConfig 4 sched_example"
  "priof sched_example 2 = 3" "priof sched_example 4 = 7"
  by (simp_all add: sched_example_def no_overflow_def stk_overflow_def ready_example_defs)

text \<open>
  C3. When the scheduler may switch, it leaves a next task that runs and that no task of the READY
  list exceeds in priority; the READY list is well formed again, and no runnable task is lost:
  the next task and the list together are the old list and, if it was still running, the
  running task.
\<close>

theorem schedule_picks_highest_priority:
  assumes "sched_ready c s r xs" and "xs \<noteq> []" and "no_overflow c r s"
  shows "\<exists>s' n ys. Schedule c s = Some s' \<and> TCBNext s' = Some n \<and> state (TCBTbl s' n) = TASK_RUNNING \<and>
    rdy_inv c s' ys \<and> n \<notin> set ys \<and> (\<forall>y \<in> set ys. priof s' n \<le> priof s' y) \<and>
    insert n (set ys) = (if state (TCBTbl s r) = TASK_RUNNING then insert r (set xs) else set xs) \<and>
    (n \<noteq> r \<longrightarrow> PendSVSet s')"
proof -
  obtain x zs where xs: "xs = x # zs" using assms(2) by (cases xs) auto
  have sr: "sched_ready c s r (x # zs)" using assms(1) xs by simp
  have inv: "rdy_inv c s (x # zs)" and rx: "r \<notin> set (x # zs)" using sr by (simp_all add: sched_ready_def)
  have x: "x \<notin> set zs" "x \<noteq> r" using rq.inv_distinct [OF inv] rx by auto
  have le: "\<forall>y \<in> set zs. priof s x \<le> priof s y" using rq.head_highest [OF inv] by blast
  consider (w) "state (TCBTbl s r) \<noteq> TASK_RUNNING" | (sw) "state (TCBTbl s r) = TASK_RUNNING" "must_switch c s r x"
    | (st) "state (TCBTbl s r) = TASK_RUNNING" "\<not> must_switch c s r x" by blast
  then show ?thesis
  proof cases
    case w
    obtain s' where "Schedule c s = Some s'" "rdy_inv c s' zs" "TCBNext s' = Some x"
      "state (TCBTbl s' x) = TASK_RUNNING" "PendSVSet s'" "\<forall>t. prio (TCBTbl s' t) = prio (TCBTbl s t)"
      using Schedule_waiting [OF sr w assms(3)] by blast
    with w le x show ?thesis by (intro exI [of _ s'] exI [of _ x] exI [of _ zs]) (simp add: xs)
  next
    case sw
    obtain s' where "Schedule c s = Some s'" "rdy_inv c s' (insort_after (priof s) r zs)" "TCBNext s' = Some x"
      "state (TCBTbl s' x) = TASK_RUNNING" "PendSVSet s'" "\<forall>t. prio (TCBTbl s' t) = prio (TCBTbl s t)"
      using Schedule_running [OF sr sw(1) assms(3) sw(2)] by blast
    moreover have "priof s x \<le> priof s r" using sw(2) by (auto simp: must_switch_def)
    ultimately show ?thesis using sw(1) le x
      by (intro exI [of _ s'] exI [of _ x] exI [of _ "insort_after (priof s) r zs"]) (auto simp: xs)
  next
    case st
    have "priof s r \<le> priof s x" using st(2) by (auto simp: must_switch_def)
    with le have "\<forall>y \<in> set (x # zs). priof s r \<le> priof s y" by auto
    with Schedule_stays [OF sr st] st(1) inv rx sr show ?thesis
      by (intro exI [of _ "s\<lparr>TaskSchedReq := False\<rparr>"] exI [of _ r] exI [of _ xs]) (simp add: xs sched_ready_def)
  qed
qed

theorem schedule_picks_highest_priority_witness:
  "\<exists>s' n ys. Schedule OsConfig sched_example = Some s' \<and> TCBNext s' = Some n \<and>
     rdy_inv OsConfig s' ys \<and> insert n (set ys) = {4, 2, 1}"
  using schedule_picks_highest_priority [OF sched_example_ready _ sched_example_state(2)] sched_example_state(1)
  by auto

text \<open>
  C12. Preemption and round robin: a running task that has to yield, because a task of higher
  priority is ready or because its time slice is over and one of the same priority is ready,
  becomes ready behind all tasks of its own priority, the head of the READY list becomes the
  next task, and the context switch is pended.
\<close>

theorem schedule_preempts_and_rotates:
  assumes "sched_ready c s r (x # xs)" and "state (TCBTbl s r) = TASK_RUNNING" and "no_overflow c r s"
    and "priof s x < priof s r \<or> CFG_ROBIN_EN c \<and> priof s r = priof s x \<and> OSCheckTime s = OSTickCnt s"
  shows "\<exists>s'. Schedule c s = Some s' \<and> rdy_inv c s' (insort_after (priof s) r xs) \<and> TCBNext s' = Some x \<and>
    TCBRunning s' = Some r \<and> state (TCBTbl s' x) = TASK_RUNNING \<and> state (TCBTbl s' r) = TASK_READY \<and>
    PendSVSet s' \<and> \<not> TaskSchedReq s'"
  using Schedule_running [OF assms(1-3)] assms(4) unfolding must_switch_def by blast

theorem schedule_preempts_and_rotates_witness:
  "\<exists>s'. Schedule OsConfig sched_example = Some s' \<and>
     rdy_inv OsConfig s' (insort_after (priof sched_example) 4 [1]) \<and> TCBNext s' = Some 2"
  using schedule_preempts_and_rotates [OF sched_example_ready sched_example_state(1,2)] sched_example_state(3,4)
  by auto

text \<open>
  A task whose stack has overflowed (its saved stack pointer is below the stack, or the magic
  word at the stack bottom is gone) is never switched away from: \<open>Schedule\<close> ends in the overflow
  hook, which does not return.
\<close>

theorem schedule_halts_on_stack_overflow:
  assumes "sched_ready c s r (x # xs)" and "CFG_STK_CHECKOUT_EN c" and "stk_overflow r s"
    and "state (TCBTbl s r) \<noteq> TASK_RUNNING \<or> priof s x < priof s r"
  shows "Schedule c s = None"
proof -
  have ov: "Schedule_switch c r n s' = None" if "stk_overflow r s'" for n s'
  proof -
    have "stk_overflow r (s'\<lparr>OSCheckTime := v\<rparr>) = stk_overflow r s'" for v by (simp add: stk_overflow_def)
    with that assms(2) show ?thesis by (simp add: Schedule_switch_def Let_def CoStkOverflowHook_loops)
  qed
  have inv: "rdy_inv c s (x # xs)" and h: "TCBRdy s = Some x" and rx: "r \<notin> set (x # xs)" and ad: "state (TCBTbl s r) = TASK_RUNNING \<Longrightarrow> admissible c s r"
    using assms(1) rq.head [of c s "x # xs"] by (auto simp: sched_ready_def)
  have stk: "stk_overflow r s'" if "stkPtr (TCBTbl s' r) = stkPtr (TCBTbl s r)"
    "stack (TCBTbl s' r) = stack (TCBTbl s r)" "mem s' = mem s" for s'
    using assms(3) that by (simp add: stk_overflow_def)
  define s1 where "s1 = s\<lparr>TaskSchedReq := False, TCBNext := Some x\<rparr>"
  show ?thesis
  proof (cases "state (TCBTbl s r) = TASK_RUNNING")
    case True
    then have lt: "priof s1 x \<le> priof s1 r" using assms(4) by (auto simp: s1_def)
    have i1: "rdy_inv c s1 (x # xs)" "admissible c s1 r" using inv ad [OF True] by (simp_all add: s1_def)
    from rq.ins_rem_head [OF i1(1) rx i1(2) lt] obtain s2 s3 where
      s2: "InsertToTCBRdyList c r s1 = Some s2" "ins_frame r (x # xs) s1 s2" and
      s3: "RemoveFromTCBRdyList c x s2 = Some s3" "rem_frame (x # insort_after (priof s1) r xs) s2 s3"
      by blast
    have "stk_overflow r (upd_tcb x (state_update (\<lambda>_. TASK_RUNNING)) s3)"
      using s2(2) s3(2) rx
      by (intro stk) (auto simp: ins_frame_def rem_frame_def s1_def links_onlyD rdy_frameD)
    then show ?thesis
      using True assms(1,4) h s2(1) s3(1) ov by (auto simp: Schedule_def sched_ready_def s1_def Let_def)
  next
    case False
    define s2 where "s2 = upd_tcb x (state_update (\<lambda>_. TASK_RUNNING)) s1"
    have "rdy_inv c s2 ([] @ x # xs)" using inv by (simp add: s2_def s1_def)
    from rq.rem_ok [OF this] obtain s3 where
      s3: "RemoveFromTCBRdyList c x s2 = Some s3" "rem_frame (x # xs) s2 s3" by auto
    have "stk_overflow r s3"
      using s3(2) rx by (intro stk) (auto simp: rem_frame_def s2_def s1_def links_onlyD rdy_frameD)
    then show ?thesis
      using False assms(1) h s3(1) ov by (auto simp: Schedule_def sched_ready_def s1_def s2_def Let_def)
  qed
qed

theorem schedule_halts_on_stack_overflow_witness: "Schedule OsConfig (sched_example\<lparr>mem := \<lambda>_. 0\<rparr>) = None"
proof -
  have "sched_ready OsConfig (sched_example\<lparr>mem := \<lambda>_. 0\<rparr>) 4 [2, 1]"
    using sched_example_ready by (simp add: sched_ready_def)
  then show ?thesis
    by (rule schedule_halts_on_stack_overflow)
      (simp_all add: stk_overflow_def sched_example_def ready_example_defs MAGIC_WORD_def)
qed

text \<open>
  C9. A task that is switched out and later switched in again finds its registers R4 to R11 and
  its stack pointer as it left them, provided its control block and the saved frame are not
  overwritten in between; the frame of the task switched out then is saved elsewhere.
\<close>

theorem context_switch_restores_task:
  assumes "PendSV_Handler_M3 (p, s) = Some (p1, s1)" and "TCBRunning s = Some a" and "TCBNext s = Some b" and "a \<noteq> b"
    and "TCBRunning s2 = Some x" and "TCBNext s2 = Some a" and "x \<noteq> a"
    and "stkPtr (TCBTbl s2 a) = stkPtr (TCBTbl s1 a)"
    and "\<And>i. i < 8 \<Longrightarrow> mem s2 (PSP p - 32 + 4 * of_nat i) = mem s1 (PSP p - 32 + 4 * of_nat i)"
    and "\<And>i j. i < 8 \<Longrightarrow> j < 8 \<Longrightarrow> PSP p - 32 + 4 * of_nat j \<noteq> PSP p2 - 32 + 4 * of_nat i"
  shows "\<exists>p3 s3. PendSV_Handler_M3 (p2, s2) = Some (p3, s3) \<and> PSP p3 = PSP p \<and>
    (\<forall>i < 8. regs p3 i = regs p i) \<and> TCBRunning s3 = Some a \<and> OSSchedLock s3 = 0"
proof -
  from assms(1) PendSV_M3_switch [OF assms(2-4), of p]
  have s1: "stkPtr (TCBTbl s1 a) = PSP p - 32" "mem s1 = stmia (PSP p - 32) (map (regs p) [0..<8]) (mem s)"
    by auto
  let ?m = "stmia (PSP p2 - 32) (map (regs p2) [0..<8]) (mem s2)"
  have "ldmia (PSP p - 32) 8 ?m ! i = regs p i" if "i < 8" for i
    using that assms(9,10) by (simp add: ldmia_def stmia_other s1(2) stmia_same)
  then have "set_regs 0 (ldmia (PSP p - 32) 8 ?m) (regs p2) i = regs p i" if "i < 8" for i
    using that by (simp add: set_regs_def ldmia_def)
  then show ?thesis
    using PendSV_M3_switch [OF assms(5,6,7), of p2] assms(8) s1(1) by simp
qed

theorem context_switch_restores_task_witness:
  "\<exists>p3 s3. PendSV_Handler_M3 (\<lparr>PSP = 2000, regs = (\<lambda>_. 0)\<rparr>,
       upd_tcb 4 (stkPtr_update (\<lambda>_. 968))
         (sched_example\<lparr>mem := stmia 968 (map of_nat [0..<8]) (mem sched_example), TCBRunning := Some 2, TCBNext := Some 4\<rparr>))
     = Some (p3, s3) \<and> PSP p3 = 1000 \<and> (\<forall>i < 8. regs p3 i = of_nat i)"
proof -
  let ?p = "\<lparr>PSP = 1000, regs = of_nat\<rparr>"
  let ?s = "sched_example\<lparr>TCBNext := Some 2\<rparr>"
  have run: "TCBRunning ?s = Some 4" "TCBNext ?s = Some 2" "(4 :: OS_TID) \<noteq> 2"
    by (simp_all add: sched_example_def)
  have dis: "(1000 :: U32) - 32 + 4 * of_nat j \<noteq> 2000 - 32 + 4 * of_nat i" if "i < 8" "j < 8" for i j
    using that unfolding less_8_cases by (elim insertE emptyE) simp_all
  show ?thesis
    using context_switch_restores_task [OF PendSV_M3_switch [OF run, of ?p] run,
        of "upd_tcb 4 (stkPtr_update (\<lambda>_. 968)) (sched_example\<lparr>mem := stmia 968 (map of_nat [0..<8]) (mem sched_example),
          TCBRunning := Some 2, TCBNext := Some 4\<rparr>)" 2 "\<lparr>PSP = 2000, regs = (\<lambda>_. 0)\<rparr>"] dis
    by simp blast
qed

text \<open>
  The Cortex-M0 version of the handler, which can only store and load R4 to R7 and moves R8 to
  R11 through them, has the same effect as the Cortex-M3 version.
\<close>

theorem pendsv_handlers_equivalent: "PendSV_Handler_M0 = PendSV_Handler_M3"
  using PendSV_handlers_agree by (rule ext)

end
