(* ===== verification/DeltaList.thy ===== *)
theory DeltaList
  imports CoOS_State
begin

text \<open>
  Delta lists: the DELAY list and the timer list keep in each node the difference to the node in
  front. \<open>deltas\<close> is the abstraction to absolute times, and the locale \<open>delta_list\<close> is what the
  two modules promise about it.
\<close>

section \<open>Absolute times\<close>

fun deltas :: "('a \<Rightarrow> U32) \<Rightarrow> nat \<Rightarrow> 'a list \<Rightarrow> ('a \<times> nat) list" where
  "deltas f b [] = []"
| "deltas f b (x # xs) = (x, b + unat (f x)) # deltas f (b + unat (f x)) xs"

abbreviation total :: "('a \<Rightarrow> U32) \<Rightarrow> 'a list \<Rightarrow> nat" where
  "total f xs \<equiv> sum_list (map (\<lambda>x. unat (f x)) xs)"

lemma deltas_append: "deltas f b (xs @ ys) = deltas f b xs @ deltas f (b + total f xs) ys"
  by (induction xs arbitrary: b) (simp_all add: add.assoc)

lemma map_fst_deltas [simp]: "map fst (deltas f b xs) = xs"
  by (induction xs arbitrary: b) simp_all

lemma deltas_cong: "(\<And>x. x \<in> set xs \<Longrightarrow> f x = g x) \<Longrightarrow> deltas f b xs = deltas g b xs"
  by (induction xs arbitrary: b) simp_all

lemma deltas_lower: "p \<in> set (deltas f b xs) \<Longrightarrow> b \<le> snd p"
  by (induction xs arbitrary: b) force+

lemma deltas_sorted: "sorted (map snd (deltas f b xs))"
  by (induction xs arbitrary: b) (auto dest: deltas_lower)

lemma deltas_upper: "p \<in> set (deltas f b xs) \<Longrightarrow> snd p \<le> b + total f xs"
  by (induction xs arbitrary: b) (force simp: add.assoc)+

lemma deltas_last: "xs \<noteq> [] \<Longrightarrow> \<exists>p \<in> set (deltas f b xs). snd p = b + total f xs"
  by (induction xs arbitrary: b rule: rev_induct) (auto simp: deltas_append add.assoc)

lemma deltas_Nil [simp]: "deltas f b xs = [] \<longleftrightarrow> xs = []"
  by (cases xs) simp_all

text \<open>Putting \<open>t\<close> in front of \<open>n\<close>, which takes over what is left of its difference.\<close>

lemma deltas_insert_before:
  assumes "distinct (xs @ t # n # ys)" and "total f xs \<le> k" and "k < total f xs + unat (f n)"
    and "\<And>a. a \<in> set (xs @ ys) \<Longrightarrow> g a = f a"
    and "unat (g t) = k - total f xs" and "unat (g n) = unat (f n) - unat (g t)"
  shows "deltas g 0 (xs @ t # n # ys) = insort_after snd (t, k) (deltas f 0 (xs @ n # ys))"
proof -
  have "total g xs = total f xs" using assms(4) by (intro arg_cong [where f = sum_list] map_cong) auto
  moreover have "deltas g b xs = deltas f b xs" "deltas g b ys = deltas f b ys" for b
    using assms(4) by (auto intro: deltas_cong)
  ultimately have "deltas g 0 (xs @ t # n # ys) =
      deltas f 0 xs @ (t, k) # deltas f (total f xs) (n # ys)"
    using assms(2,3,5,6) by (simp add: deltas_append add.commute)
  moreover have "insort_after snd (t, k) (deltas f 0 xs @ deltas f (total f xs) (n # ys)) =
      deltas f 0 xs @ (t, k) # deltas f (total f xs) (n # ys)"
    using assms(2,3) deltas_upper [of _ f 0 xs] by (intro insort_after_append) (fastforce simp: not_less)+
  ultimately show ?thesis by (simp add: deltas_append)
qed

lemma deltas_insert_last:
  assumes "t \<notin> set xs" and "total f xs \<le> k" and "\<And>a. a \<in> set xs \<Longrightarrow> g a = f a"
    and "unat (g t) = k - total f xs"
  shows "deltas g 0 (xs @ [t]) = insort_after snd (t, k) (deltas f 0 xs)"
proof -
  have "total g xs = total f xs" using assms(3) by (intro arg_cong [where f = sum_list] map_cong) auto
  then have "deltas g 0 (xs @ [t]) = deltas f 0 xs @ [(t, k)]"
    using assms(2,4) deltas_cong [OF assms(3), of xs] by (simp add: deltas_append)
  moreover have "insort_after snd (t, k) (deltas f 0 xs @ []) = deltas f 0 xs @ [(t, k)]"
    using assms(2) deltas_upper [of _ f 0 xs] by (intro insort_after_append) (fastforce simp: not_less)+
  ultimately show ?thesis by simp
qed

text \<open>Taking \<open>t\<close> out: the node behind it takes over its difference.\<close>

lemma deltas_remove:
  assumes "distinct (xs @ t # ys)" and "\<And>a. a \<in> set xs \<Longrightarrow> g a = f a"
    and "\<And>n zs. ys = n # zs \<Longrightarrow> unat (g n) = unat (f n) + unat (f t) \<and> (\<forall>a \<in> set zs. g a = f a)"
  shows "deltas g 0 (xs @ ys) = deltas f 0 xs @ deltas f (total f xs + unat (f t)) ys"
proof -
  have "total g xs = total f xs" using assms(2) by (intro arg_cong [where f = sum_list] map_cong) auto
  then have "deltas g 0 (xs @ ys) = deltas f 0 xs @ deltas g (total f xs) ys"
    using deltas_cong [OF assms(2), of xs] by (simp add: deltas_append)
  moreover have "deltas g (total f xs) ys = deltas f (total f xs + unat (f t)) ys"
  proof (cases ys)
    case (Cons n zs)
    with assms(3) have "unat (g n) = unat (f n) + unat (f t)" "deltas g b zs = deltas f b zs" for b
      by (auto intro: deltas_cong)
    with Cons show ?thesis by (simp add: ac_simps)
  qed simp
  ultimately show ?thesis by simp
qed

section \<open>Signed comparison\<close>

text \<open>The loops compare \<open>deltaTicks\<close>, an \<open>S32\<close>, with zero.\<close>

lemma bit31_unat: "bit (w :: U32) 31 \<longleftrightarrow> 2 ^ 31 \<le> unat w"
proof -
  have "unat w < 2 ^ 32" using unsigned_less [of w] by simp
  then have "odd (unat w div 2 ^ 31) \<longleftrightarrow> 2 ^ 31 \<le> unat w"
    by (cases "2 ^ 31 \<le> unat w") (auto simp: div_nat_eqI [where q = 1])
  moreover have "bit w 31 = bit (unat w) 31" by (simp add: bit_unsigned_iff)
  ultimately show ?thesis by (simp only: bit_iff_odd)
qed

lemma sint_diff_less_0:
  assumes "unat (a :: U32) < 2 ^ 31" and "unat b < 2 ^ 31"
  shows "sint (a - b) < 0 \<longleftrightarrow> a < b"
proof -
  have "sint (a - b) < 0 \<longleftrightarrow> bit (a - b) 31" using bit_last_iff [of "a - b"] by simp
  also have "\<dots> \<longleftrightarrow> a < b"
    using assms unfolding bit31_unat unat_sub_if' word_less_nat_alt by auto
  finally show ?thesis .
qed

section \<open>Representation\<close>

text \<open>
  \<open>delta_rep nx pv dt h ds\<close>: the list headed by \<open>h\<close> is well linked and its nodes, with their
  absolute times, are \<open>ds\<close>. The signed comparison of the code asks for times below \<open>2 ^ 31\<close>.
\<close>

definition delta_rep ::
  "('a \<Rightarrow> 'a option) \<Rightarrow> ('a \<Rightarrow> 'a option) \<Rightarrow> ('a \<Rightarrow> U32) \<Rightarrow> 'a option \<Rightarrow> ('a \<times> nat) list \<Rightarrow> bool" where
  "delta_rep nx pv dt h ds \<longleftrightarrow>
     dlist nx pv h (map fst ds) \<and> ds = deltas dt 0 (map fst ds) \<and> (\<forall>p \<in> set ds. snd p < 2 ^ 31)"

lemma delta_repI:
  "dlist nx pv h xs \<Longrightarrow> ds = deltas dt 0 xs \<Longrightarrow> (\<And>p. p \<in> set ds \<Longrightarrow> snd p < 2 ^ 31) \<Longrightarrow>
   delta_rep nx pv dt h ds"
  by (simp add: delta_rep_def)

lemma delta_repE:
  assumes "delta_rep nx pv dt h ds"
  obtains xs where "dlist nx pv h xs" "ds = deltas dt 0 xs" "map fst ds = xs" "total dt xs < 2 ^ 31"
proof -
  have "total dt (map fst ds) < 2 ^ 31"
    using assms deltas_last [of "map fst ds" dt 0] by (cases "ds = []") (auto simp: delta_rep_def)
  with assms that show thesis unfolding delta_rep_def by blast
qed

lemma delta_rep_sorted: "delta_rep nx pv dt h ds \<Longrightarrow> sorted (map snd ds)"
  using deltas_sorted unfolding delta_rep_def by metis

lemma delta_rep_distinct: "delta_rep nx pv dt h ds \<Longrightarrow> distinct (map fst ds)"
  by (auto simp: delta_rep_def dlist_def)

lemma delta_rep_cong:
  assumes "\<And>x. x \<in> fst ` set ds \<Longrightarrow> nx x = nx' x \<and> pv x = pv' x \<and> dt x = dt' x"
  shows "delta_rep nx pv dt h ds = delta_rep nx' pv' dt' h ds"
proof -
  have "dlist nx pv h (map fst ds) = dlist nx' pv' h (map fst ds)"
    by (rule dlist_cong) (use assms in auto)
  moreover have "deltas dt 0 (map fst ds) = deltas dt' 0 (map fst ds)"
    by (rule deltas_cong) (use assms in auto)
  ultimately show ?thesis by (simp add: delta_rep_def)
qed

lemma delta_rep_insert:
  assumes "dlist nx pv h (as @ bs)" and "t \<notin> set (as @ bs)"
    and "k < 2 ^ 31" and "total dt (as @ bs) < 2 ^ 31" and "total dt as \<le> k"
    and "h' = hd_ptr (as @ t # bs) None"
    and "\<And>a. a \<in> set (as @ bs) \<Longrightarrow> nx' a = (if as \<noteq> [] \<and> a = last as then Some t else nx a)"
    and "\<And>a. a \<in> set (as @ bs) \<Longrightarrow> pv' a = (if bs \<noteq> [] \<and> a = hd bs then Some t else pv a)"
    and "nx' t = hd_ptr bs None" and "pv' t = last_ptr None as" and "unat (dt' t) = k - total dt as"
    and "\<And>a. a \<in> set as \<Longrightarrow> dt' a = dt a"
    and "\<And>n zs. bs = n # zs \<Longrightarrow> k < total dt as + unat (dt n) \<and>
           unat (dt' n) = unat (dt n) - unat (dt' t) \<and> (\<forall>a \<in> set zs. dt' a = dt a)"
  shows "delta_rep nx' pv' dt' h' (insort_after snd (t, k) (deltas dt 0 (as @ bs)))"
proof (rule delta_repI)
  have d: "distinct (as @ t # bs)" and ch: "dchain nx pv None (as @ bs) None"
    using assms(1,2) by (auto simp: dlist_def)
  have "dchain nx' pv' None (as @ t # bs) None"
    by (rule dchain_insert [OF ch d]) (use assms(7-10) in auto)
  with d assms(6) show "dlist nx' pv' h' (as @ t # bs)" by (simp add: dlist_def)
  show "insort_after snd (t, k) (deltas dt 0 (as @ bs)) = deltas dt' 0 (as @ t # bs)"
  proof (cases bs)
    case Nil
    with deltas_insert_last [of t as dt k dt'] assms(2,5,11,12) show ?thesis by simp
  next
    case (Cons n zs)
    have eq: "dt' a = dt a" if "a \<in> set (as @ zs)" for a using that assms(12) assms(13) [OF Cons] by auto
    have "deltas dt' 0 (as @ t # n # zs) = insort_after snd (t, k) (deltas dt 0 (as @ n # zs))"
      by (rule deltas_insert_before) (use d Cons eq assms(5,11) assms(13) [OF Cons] in auto)
    with Cons show ?thesis by simp
  qed
  show "snd p < 2 ^ 31" if "p \<in> set (insort_after snd (t, k) (deltas dt 0 (as @ bs)))" for p
    using that assms(3,4) deltas_upper [of p dt 0 "as @ bs"] by auto
qed

lemma delta_rep_remove:
  assumes "delta_rep nx pv dt h (xs @ (t, d) # ys)"
    and "as = map fst xs" and "bs = map fst ys"
    and "h' = hd_ptr (as @ bs) None"
    and "\<And>a. a \<in> set (as @ bs) \<Longrightarrow> nx' a = (if as \<noteq> [] \<and> a = last as then hd_ptr bs None else nx a)"
    and "\<And>a. a \<in> set (as @ bs) \<Longrightarrow> pv' a = (if bs \<noteq> [] \<and> a = hd bs then last_ptr None as else pv a)"
    and "\<And>a. a \<in> set as \<Longrightarrow> dt' a = dt a"
    and "\<And>n zs. bs = n # zs \<Longrightarrow> dt' n = dt n + dt t \<and> (\<forall>a \<in> set zs. dt' a = dt a)"
  shows "delta_rep nx' pv' dt' h' (xs @ ys)"
proof (rule delta_repI)
  let ?zs = "as @ t # bs"
  have z: "map fst (xs @ (t, d) # ys) = ?zs" using assms(2,3) by simp
  have dl: "dlist nx pv h ?zs" and eq: "xs @ (t, d) # ys = deltas dt 0 ?zs"
    using assms(1) unfolding delta_rep_def z by simp_all
  have tot: "total dt ?zs < 2 ^ 31" using assms(1) z by (metis delta_repE)
  have d: "distinct ?zs" and ch: "dchain nx pv None ?zs None" using dl by (auto simp: dlist_def)
  have "dchain nx' pv' None (as @ bs) None"
    by (rule dchain_remove [OF ch d]) (use assms(5,6) in auto)
  with d assms(4) show "dlist nx' pv' h' (as @ bs)" by (simp add: dlist_def)
  have len: "length xs = length (deltas dt 0 as)"
    using assms(2) map_fst_deltas [of dt 0 as] by (metis length_map)
  have xy: "xs = deltas dt 0 as" "ys = deltas dt (total dt as + unat (dt t)) bs"
    using eq len by (simp_all add: deltas_append)
  have "unat (dt n + dt t) = unat (dt n) + unat (dt t)" if "bs = n # zs" for n zs
    using tot that by (simp add: unat_plus_if')
  then show "xs @ ys = deltas dt' 0 (as @ bs)"
    unfolding xy by (intro deltas_remove [symmetric] d) (use assms(7,8) in auto)
  show "snd p < 2 ^ 31" if "p \<in> set (xs @ ys)" for p
    using that assms(1) by (auto simp: delta_rep_def)
qed

text \<open>Taking \<open>t\<close> out from between \<open>as\<close> and \<open>bs\<close>.\<close>

definition taken_out ::
  "('a \<Rightarrow> 'a option) \<Rightarrow> ('a \<Rightarrow> 'a option) \<Rightarrow> ('a \<Rightarrow> U32) \<Rightarrow> ('a \<Rightarrow> 'a option) \<Rightarrow> ('a \<Rightarrow> 'a option) \<Rightarrow>
   ('a \<Rightarrow> U32) \<Rightarrow> 'a option \<Rightarrow> 'a list \<Rightarrow> 'a \<Rightarrow> 'a list \<Rightarrow> bool" where
  "taken_out nx pv dt nx' pv' dt' h' as t bs \<longleftrightarrow> h' = hd_ptr (as @ bs) None \<and>
     (\<forall>a \<in> set (as @ bs). nx' a = (if as \<noteq> [] \<and> a = last as then hd_ptr bs None else nx a) \<and>
        pv' a = (if bs \<noteq> [] \<and> a = hd bs then last_ptr None as else pv a) \<and>
        dt' a = (if bs \<noteq> [] \<and> a = hd bs then dt a + dt t else dt a))"

lemma taken_outI:
  assumes "distinct (as @ t # bs)" and "h' = hd_ptr (as @ bs) None"
    and "\<And>a. a \<noteq> t \<Longrightarrow> as \<noteq> [] \<Longrightarrow> a = last as \<Longrightarrow> \<not> (bs \<noteq> [] \<and> a = hd bs) \<Longrightarrow> nx' a = hd_ptr bs None \<and> pv' a = pv a \<and> dt' a = dt a"
    and "\<And>a. a \<noteq> t \<Longrightarrow> bs \<noteq> [] \<Longrightarrow> a = hd bs \<Longrightarrow> nx' a = nx a \<and> pv' a = last_ptr None as \<and> dt' a = dt a + dt t"
    and "\<And>a. a \<noteq> t \<Longrightarrow> \<not> (as \<noteq> [] \<and> a = last as) \<Longrightarrow> \<not> (bs \<noteq> [] \<and> a = hd bs) \<Longrightarrow> nx' a = nx a \<and> pv' a = pv a \<and> dt' a = dt a"
  shows "taken_out nx pv dt nx' pv' dt' h' as t bs"
proof -
  have x: "\<not> (as \<noteq> [] \<and> bs \<noteq> [] \<and> last as = hd bs)"
    using assms(1) by (cases as rule: rev_cases; cases bs) auto
  have "nx' a = (if as \<noteq> [] \<and> a = last as then hd_ptr bs None else nx a) \<and>
      pv' a = (if bs \<noteq> [] \<and> a = hd bs then last_ptr None as else pv a) \<and>
      dt' a = (if bs \<noteq> [] \<and> a = hd bs then dt a + dt t else dt a)" if "a \<in> set (as @ bs)" for a
  proof -
    have "a \<noteq> t" using that assms(1) by auto
    note e = assms(3-5) [OF this]
    consider "bs \<noteq> [] \<and> a = hd bs" | "\<not> (bs \<noteq> [] \<and> a = hd bs)" "as \<noteq> [] \<and> a = last as"
      | "\<not> (bs \<noteq> [] \<and> a = hd bs)" "\<not> (as \<noteq> [] \<and> a = last as)" by blast
    then show ?thesis
    proof cases
      case 1 with e(2) x show ?thesis by auto
    next
      case 2 with e(1) show ?thesis by auto
    next
      case 3 with e(3) show ?thesis by auto
    qed
  qed
  with assms(2) show ?thesis by (simp add: taken_out_def)
qed

lemma delta_rep_taken_out:
  assumes "delta_rep nx pv dt h (xs @ (t, d) # ys)"
    and "taken_out nx pv dt nx' pv' dt' h' (map fst xs) t (map fst ys)"
  shows "delta_rep nx' pv' dt' h' (xs @ ys)"
proof (rule delta_rep_remove [OF assms(1) refl refl])
  let ?as = "map fst xs" and ?bs = "map fst ys"
  have "dlist nx pv h (?as @ t # ?bs)" using assms(1) by (simp add: delta_rep_def)
  then have d: "distinct (?as @ t # ?bs)" by (rule dlist_distinct)
  show "dt' a = dt a" if "a \<in> set ?as" for a
  proof -
    have "\<not> (?bs \<noteq> [] \<and> a = hd ?bs)" using that d hd_in_set [of ?bs] by auto
    with that assms(2) show ?thesis by (auto simp: taken_out_def)
  qed
  show "dt' n = dt n + dt t \<and> (\<forall>a \<in> set zs. dt' a = dt a)" if "?bs = n # zs" for n zs
    using that assms(2) d unfolding taken_out_def that by auto
qed (use assms(2) in \<open>auto simp: taken_out_def\<close>)

section \<open>The insertion loop\<close>

text \<open>
  What one step of relinking does: \<open>t\<close> comes between \<open>as\<close> and \<open>bs\<close>, and no difference changes but
  those of \<open>t\<close> and of the node behind it.
\<close>

definition spliced ::
  "('a \<Rightarrow> 'a option) \<Rightarrow> ('a \<Rightarrow> 'a option) \<Rightarrow> ('a \<Rightarrow> U32) \<Rightarrow> ('a \<Rightarrow> 'a option) \<Rightarrow> ('a \<Rightarrow> 'a option) \<Rightarrow>
   ('a \<Rightarrow> U32) \<Rightarrow> 'a option \<Rightarrow> 'a list \<Rightarrow> 'a \<Rightarrow> 'a list \<Rightarrow> bool" where
  "spliced nx pv dt nx' pv' dt' h' as t bs \<longleftrightarrow> h' = hd_ptr (as @ t # bs) None \<and>
     (\<forall>a \<in> set (as @ bs). nx' a = (if as \<noteq> [] \<and> a = last as then Some t else nx a) \<and>
        pv' a = (if bs \<noteq> [] \<and> a = hd bs then Some t else pv a)) \<and>
     nx' t = hd_ptr bs None \<and> pv' t = last_ptr None as \<and> (\<forall>a \<in> set as \<union> set (tl bs). dt' a = dt a)"

text \<open>
  The two modules search the place with the same loop, which subtracts the differences it passes
  and compares as a signed number; they differ in the links and counters they keep, the head, and
  what else they store. The laws are about one step of relinking, in front of a node and behind
  the last one.
\<close>

locale delta_loop =
  fixes nx pv :: "kernel \<Rightarrow> 'a \<Rightarrow> 'a option" and dt :: "kernel \<Rightarrow> 'a \<Rightarrow> U32" and head :: "kernel \<Rightarrow> 'a option"
    and before :: "'a \<Rightarrow> 'a \<Rightarrow> U32 \<Rightarrow> kernel \<Rightarrow> kernel option"
    and behind :: "'a \<Rightarrow> 'a \<Rightarrow> U32 \<Rightarrow> kernel \<Rightarrow> kernel"
    and loop :: "'a \<Rightarrow> 'a \<Rightarrow> U32 \<Rightarrow> kernel \<Rightarrow> kernel option"
    and frame :: "'a set \<Rightarrow> kernel \<Rightarrow> kernel \<Rightarrow> bool"
  assumes loop_eq: "loop t n w s =
      (if sint (w - dt s n) < 0 then before t n (w - dt s n) s
       else case nx s n of None \<Rightarrow> Some (behind t n (w - dt s n) s) | Some m \<Rightarrow> loop t m (w - dt s n) s)"
    and before_ok: "dlist (nx s) (pv s) (head s) (as @ n # bs) \<Longrightarrow> t \<notin> set (as @ n # bs) \<Longrightarrow>
      nx s t = None \<Longrightarrow> pv s t = None \<Longrightarrow>
      \<exists>s'. before t n w s = Some s' \<and> frame (insert t (set (as @ n # bs))) s s' \<and>
        spliced (nx s) (pv s) (dt s) (nx s') (pv s') (dt s') (head s') as t (n # bs) \<and>
        dt s' t = dt s n + w \<and> dt s' n = - w"
    and behind_ok: "dlist (nx s) (pv s) (head s) (as @ [n]) \<Longrightarrow> t \<notin> set (as @ [n]) \<Longrightarrow>
      nx s t = None \<Longrightarrow> pv s t = None \<Longrightarrow>
      frame (insert t (set (as @ [n]))) s (behind t n w s) \<and>
      spliced (nx s) (pv s) (dt s) (nx (behind t n w s)) (pv (behind t n w s)) (dt (behind t n w s))
        (head (behind t n w s)) (as @ [n]) t [] \<and> dt (behind t n w s) t = w"
begin

lemma splice_rep:
  assumes "dlist (nx s) (pv s) (head s) (as @ bs)" and "t \<notin> set (as @ bs)"
    and "spliced (nx s) (pv s) (dt s) (nx s') (pv s') (dt s') (head s') as t bs"
    and "k < 2 ^ 31" and "total (dt s) (as @ bs) < 2 ^ 31" and "total (dt s) as \<le> k"
    and "unat (dt s' t) = k - total (dt s) as"
    and "\<And>n zs. bs = n # zs \<Longrightarrow> k < total (dt s) as + unat (dt s n) \<and> unat (dt s' n) = unat (dt s n) - unat (dt s' t)"
  shows "delta_rep (nx s') (pv s') (dt s') (head s') (insort_after snd (t, k) (deltas (dt s) 0 (as @ bs)))"
proof (rule delta_rep_insert [OF assms(1,2,4,5,6)])
  show "unat (dt s' t) = k - total (dt s) as" by fact
  show "k < total (dt s) as + unat (dt s n) \<and> unat (dt s' n) = unat (dt s n) - unat (dt s' t) \<and>
      (\<forall>a \<in> set zs. dt s' a = dt s a)" if "bs = n # zs" for n zs
    using assms(8) [OF that] assms(3) that by (simp add: spliced_def)
qed (use assms(3) in \<open>auto simp: spliced_def\<close>)

lemma before_rep:
  assumes "dlist (nx s) (pv s) (head s) (as @ n # bs)" and "t \<notin> set (as @ n # bs)"
    and "nx s t = None" and "pv s t = None" and "total (dt s) (as @ n # bs) < 2 ^ 31"
    and "total (dt s) as \<le> k" and "k < 2 ^ 31" and "unat w = k - total (dt s) as" and "w < dt s n"
  shows "\<exists>s'. before t n (w - dt s n) s = Some s' \<and> frame (insert t (set (as @ n # bs))) s s' \<and>
    delta_rep (nx s') (pv s') (dt s') (head s') (insort_after snd (t, k) (deltas (dt s) 0 (as @ n # bs)))"
proof -
  obtain s' where s': "before t n (w - dt s n) s = Some s'" "frame (insert t (set (as @ n # bs))) s s'"
    "spliced (nx s) (pv s) (dt s) (nx s') (pv s') (dt s') (head s') as t (n # bs)"
    "dt s' t = dt s n + (w - dt s n)" "dt s' n = - (w - dt s n)"
    using before_ok [OF assms(1-4)] by blast
  have lt: "unat w < unat (dt s n)" using assms(9) by (simp add: word_less_nat_alt)
  then have "unat (dt s n - w) = unat (dt s n) - unat w" by (intro unat_sub) (simp add: word_le_nat_alt)
  with s' lt assms(6,8) have "delta_rep (nx s') (pv s') (dt s') (head s') (insort_after snd (t, k) (deltas (dt s) 0 (as @ n # bs)))"
    by (intro splice_rep [OF assms(1,2) s'(3) assms(7,5,6)]) auto
  with s'(1,2) show ?thesis by blast
qed

lemma loop_ok:
  assumes "dlist (nx s) (pv s) (head s) (as @ n # bs)" and "t \<notin> set (as @ n # bs)"
    and "nx s t = None" and "pv s t = None" and "total (dt s) (as @ n # bs) < 2 ^ 31"
    and "total (dt s) as \<le> k" and "k < 2 ^ 31" and "unat w = k - total (dt s) as"
  shows "\<exists>s'. loop t n w s = Some s' \<and> frame (insert t (set (as @ n # bs))) s s' \<and>
    delta_rep (nx s') (pv s') (dt s') (head s') (insort_after snd (t, k) (deltas (dt s) 0 (as @ n # bs)))"
  using assms
proof (induction bs arbitrary: as n w)
  case (Nil as n w)
  note P = Nil.prems
  have lt: "sint (w - dt s n) < 0 \<longleftrightarrow> w < dt s n" by (rule sint_diff_less_0) (use P in simp_all)
  show ?case
  proof (cases "w < dt s n")
    case True
    with before_rep [OF P True] lt loop_eq [of t n w s] show ?thesis by simp
  next
    case False
    then have ge: "unat (dt s n) \<le> unat w" by (simp add: not_less word_le_nat_alt)
    have u: "unat (w - dt s n) = unat w - unat (dt s n)" using ge by (intro unat_sub) (simp add: word_le_nat_alt)
    let ?s = "behind t n (w - dt s n) s"
    note B = behind_ok [OF P(1,2,3,4), of "w - dt s n"]
    have "delta_rep (nx ?s) (pv ?s) (dt ?s) (head ?s) (insort_after snd (t, k) (deltas (dt s) 0 ((as @ [n]) @ [])))"
      by (rule splice_rep) (use B P ge u in auto)
    moreover have "nx s n = None" using P(1) by (simp add: dlist_def)
    ultimately show ?thesis using B False lt loop_eq [of t n w s] by simp
  qed
next
  case (Cons m bs as n w)
  note P = Cons.prems
  have lt: "sint (w - dt s n) < 0 \<longleftrightarrow> w < dt s n" by (rule sint_diff_less_0) (use P in simp_all)
  show ?case
  proof (cases "w < dt s n")
    case True
    with before_rep [OF P True] lt loop_eq [of t n w s] show ?thesis by simp
  next
    case False
    then have ge: "unat (dt s n) \<le> unat w" by (simp add: not_less word_le_nat_alt)
    then have "unat (w - dt s n) = unat w - unat (dt s n)" by (intro unat_sub) (simp add: word_le_nat_alt)
    with ge P have "\<exists>s'. loop t m (w - dt s n) s = Some s' \<and> frame (insert t (set ((as @ [n]) @ m # bs))) s s' \<and>
        delta_rep (nx s') (pv s') (dt s') (head s') (insort_after snd (t, k) (deltas (dt s) 0 ((as @ [n]) @ m # bs)))"
      by (intro Cons.IH) simp_all
    moreover have "nx s n = Some m" using P(1) by (simp add: dlist_def)
    ultimately show ?thesis using lt False loop_eq [of t n w s] by simp
  qed
qed

end

section \<open>Interface\<close>

locale delta_list =
  fixes rep :: "kernel \<Rightarrow> ('a \<times> nat) list \<Rightarrow> bool"
    and free :: "kernel \<Rightarrow> 'a \<Rightarrow> bool"
    and ins :: "'a \<Rightarrow> U32 \<Rightarrow> kernel \<Rightarrow> kernel option"
    and rem :: "'a \<Rightarrow> kernel \<Rightarrow> kernel option"
  assumes rep_sorted: "rep s ds \<Longrightarrow> sorted (map snd ds)"
    and rep_distinct: "rep s ds \<Longrightarrow> distinct (map fst ds)"
    and ins_ok: "rep s ds \<Longrightarrow> t \<notin> fst ` set ds \<Longrightarrow> free s t \<Longrightarrow> 0 < n \<Longrightarrow> unat n < 2 ^ 31 \<Longrightarrow>
      \<exists>s'. ins t n s = Some s' \<and> rep s' (insort_after snd (t, unat n) ds)"
    and rem_ok: "rep s (as @ (t, d) # bs) \<Longrightarrow> \<exists>s'. rem t s = Some s' \<and> rep s' (as @ bs) \<and> free s' t"
begin

text \<open>Nobody else's time changes when a node comes in or goes out.\<close>

lemma ins_others:
  assumes "rep s ds" and "t \<notin> fst ` set ds" and "free s t" and "0 < n" and "unat n < 2 ^ 31"
  shows "\<exists>s' ds'. ins t n s = Some s' \<and> rep s' ds' \<and> set ds' = insert (t, unat n) (set ds)"
  using ins_ok [OF assms] by force

lemma ins_rem:
  assumes "rep s ds" and "t \<notin> fst ` set ds" and "free s t" and "0 < n" and "unat n < 2 ^ 31"
  shows "\<exists>s1 s2. ins t n s = Some s1 \<and> rem t s1 = Some s2 \<and> rep s2 ds"
proof -
  obtain s1 where s1: "ins t n s = Some s1" "rep s1 (insort_after snd (t, unat n) ds)"
    using ins_ok [OF assms] by blast
  let ?P = "\<lambda>y. \<not> snd (t, unat n) < snd y"
  have "insort_after snd (t, unat n) ds = takeWhile ?P ds @ (t, unat n) # dropWhile ?P ds"
    by (rule insort_after_split)
  with s1(2) obtain s2 where "rem t s1 = Some s2" "rep s2 (takeWhile ?P ds @ dropWhile ?P ds)"
    using rem_ok by metis
  with s1(1) show ?thesis by auto
qed

end

end
