(* ===== verification/DelayList.thy ===== *)
theory DelayList
  imports Scheduler DeltaList
begin

text \<open>
  The DELAY list of \<open>time.c\<close>: the waiting tasks that have a time-out, linked through
  \<open>TCBnext\<close>/\<open>TCBprev\<close> and headed by \<open>DlyList\<close>. \<open>delayTick\<close> is the difference to the task in
  front, so that only the head is counted down.
\<close>

section \<open>Operations\<close>

text \<open>
  The branch of \<open>InsertDelayList\<close> that puts \<open>ptcb\<close> in front of \<open>dlyNext\<close>: \<open>deltaTicks\<close> has become
  negative there.
\<close>

definition insert_delay_before :: "OS_TID \<Rightarrow> OS_TID \<Rightarrow> U32 \<Rightarrow> kernel \<Rightarrow> kernel option" where
  "insert_delay_before ptcb dlyNext deltaTicks s = do {
     s \<leftarrow> (case TCBprev (TCBTbl s dlyNext) of
             Some p \<Rightarrow>
               let s = upd_tcb p (TCBnext_update (\<lambda>_. Some ptcb)) s;
                   s = upd_tcb ptcb (TCBprev_update (\<lambda>_. TCBprev (TCBTbl s dlyNext))) s;
                   s = upd_tcb ptcb (TCBnext_update (\<lambda>_. Some dlyNext)) s
               in Some (upd_tcb dlyNext (TCBprev_update (\<lambda>_. Some ptcb)) s)
           | None \<Rightarrow> do {
               d \<leftarrow> DlyList s;
               let s = upd_tcb ptcb (TCBnext_update (\<lambda>_. Some d)) s;
               let s = upd_tcb d (TCBprev_update (\<lambda>_. Some ptcb)) s;
               Some (s\<lparr>DlyList := Some ptcb\<rparr>)
             });
     n \<leftarrow> TCBnext (TCBTbl s ptcb);
     let s = upd_tcb ptcb (delayTick_update (\<lambda>_. delayTick (TCBTbl s n) + deltaTicks)) s;
     Some (upd_tcb n (delayTick_update (\<lambda>d. d - delayTick (TCBTbl s ptcb))) s)
   }"

text \<open>\<open>deltaTicks\<close> is an \<open>S32\<close>: the same 32 bits, read as signed in the comparison.\<close>

partial_function (option) insert_delay_loop ::
  "OS_TID \<Rightarrow> OS_TID \<Rightarrow> U32 \<Rightarrow> kernel \<Rightarrow> kernel option" where
  "insert_delay_loop ptcb dlyNext deltaTicks s =
     (let deltaTicks = deltaTicks - delayTick (TCBTbl s dlyNext) in
      if sint deltaTicks < 0 then insert_delay_before ptcb dlyNext deltaTicks s
      else case TCBnext (TCBTbl s dlyNext) of
             None \<Rightarrow>
               let s = upd_tcb ptcb (TCBprev_update (\<lambda>_. Some dlyNext)) s;
                   s = upd_tcb dlyNext (TCBnext_update (\<lambda>_. Some ptcb)) s
               in Some (upd_tcb ptcb (delayTick_update (\<lambda>_. deltaTicks)) s)
           | Some n \<Rightarrow> insert_delay_loop ptcb n deltaTicks s)"

definition InsertDelayList :: "OS_TID \<Rightarrow> U32 \<Rightarrow> kernel \<Rightarrow> kernel option" where
  "InsertDelayList ptcb ticks s =
     (if ticks = 0 then Some s
      else do {
        s \<leftarrow> (case DlyList s of
                None \<Rightarrow>
                  let s = upd_tcb ptcb (delayTick_update (\<lambda>_. ticks)) s
                  in Some (s\<lparr>DlyList := Some ptcb\<rparr>)
              | Some dlyNext \<Rightarrow> insert_delay_loop ptcb dlyNext ticks s);
        let s = upd_tcb ptcb (state_update (\<lambda>_. TASK_WAITING)) s;
        Some (s\<lparr>TaskSchedReq := True\<rparr>)
      })"

definition RemoveDelayList :: "OS_TID \<Rightarrow> kernel \<Rightarrow> kernel" where
  "RemoveDelayList ptcb s =
     (let s =
        (case (TCBprev (TCBTbl s ptcb), TCBnext (TCBTbl s ptcb)) of
           (None, None) \<Rightarrow> s\<lparr>DlyList := None\<rparr>
         | (None, Some n) \<Rightarrow>
             let s = s\<lparr>DlyList := Some n\<rparr>;
                 s = upd_tcb n (delayTick_update (\<lambda>d. d + delayTick (TCBTbl s ptcb))) s;
                 s = upd_tcb n (TCBprev_update (\<lambda>_. None)) s
             in upd_tcb ptcb (TCBnext_update (\<lambda>_. None)) s
         | (Some p, None) \<Rightarrow>
             let s = upd_tcb p (TCBnext_update (\<lambda>_. None)) s
             in upd_tcb ptcb (TCBprev_update (\<lambda>_. None)) s
         | (Some p, Some n) \<Rightarrow>
             let s = upd_tcb p (TCBnext_update (\<lambda>_. Some n)) s;
                 s = upd_tcb n (TCBprev_update (\<lambda>_. Some p)) s;
                 s = upd_tcb n (delayTick_update (\<lambda>d. d + delayTick (TCBTbl s ptcb))) s;
                 s = upd_tcb ptcb (TCBnext_update (\<lambda>_. None)) s
             in upd_tcb ptcb (TCBprev_update (\<lambda>_. None)) s)
      in upd_tcb ptcb (delayTick_update (\<lambda>_. INVALID_VALUE)) s)"

definition CoGetOSTime :: "kernel \<Rightarrow> U64" where
  "CoGetOSTime s = OSTickCnt s"

text \<open>
  From here on \<open>unl\<close> stands for \<open>OsSchedUnlock\<close>, which serves the postponed requests of
  interrupt handlers and so calls back into the modules: the two are tied together once all of
  them are defined. A call that switches away from the running task delivers its return value
  when that task runs again.
\<close>

definition CoTickDelay ::
  "(kernel \<Rightarrow> kernel option) \<Rightarrow> U32 \<Rightarrow> kernel \<Rightarrow> (StatusType \<times> kernel) option" where
  "CoTickDelay unl ticks s =
     (if OSIntNesting s > 0 then Some (E_CALL, s)
      else if ticks = INVALID_VALUE then Some (E_INVALID_PARAMETER, s)
      else if ticks = 0 then Some (E_OK, s)
      else if OSSchedLock s \<noteq> 0 then Some (E_OS_IN_LOCK, s)
      else do {
        let s = OsSchedLock s;
        t \<leftarrow> TCBRunning s;
        s \<leftarrow> InsertDelayList t ticks s;
        s \<leftarrow> unl s;
        Some (E_OK, s)
      })"

definition CoResetTaskDelayTick ::
  "config \<Rightarrow> (kernel \<Rightarrow> kernel option) \<Rightarrow> OS_TID \<Rightarrow> U32 \<Rightarrow> kernel \<Rightarrow> (StatusType \<times> kernel) option" where
  "CoResetTaskDelayTick c unl tid ticks s =
     (if CFG_PAR_CHECKOUT_EN c \<and> unat tid \<ge> task_max c then Some (E_INVALID_ID, s)
      else do {
        ptcb \<leftarrow> tcb_ptr c tid;
        if CFG_PAR_CHECKOUT_EN c \<and> stkPtr (TCBTbl s ptcb) = 0 then Some (E_INVALID_ID, s)
        else if delayTick (TCBTbl s ptcb) = INVALID_VALUE then Some (E_NOT_IN_DELAY_LIST, s)
        else do {
          let s = OsSchedLock s;
          let s = RemoveDelayList ptcb s;
          s \<leftarrow> (if ticks = 0 then InsertToTCBRdyList c ptcb s else InsertDelayList ptcb ticks s);
          s \<leftarrow> unl s;
          Some (E_OK, s)
        }
      })"

text \<open>
  The tick count of a time of day. The C expression is computed in \<open>int\<close> and stored in a
  \<open>U32\<close>.
\<close>

definition time_ticks :: "config \<Rightarrow> U8 \<Rightarrow> U8 \<Rightarrow> U8 \<Rightarrow> U16 \<Rightarrow> int" where
  "time_ticks c hour minute sec millsec =
     (uint hour * 3600 + uint minute * 60 + uint sec) * int (CFG_SYSTICK_FREQ c)
     + (uint millsec * int (CFG_SYSTICK_FREQ c) + 500) div 1000"

definition CoTimeDelay ::
  "config \<Rightarrow> (kernel \<Rightarrow> kernel option) \<Rightarrow> U8 \<Rightarrow> U8 \<Rightarrow> U8 \<Rightarrow> U16 \<Rightarrow> kernel \<Rightarrow>
   (StatusType \<times> kernel) option" where
  "CoTimeDelay c unl hour minute sec millsec s =
     (if CFG_PAR_CHECKOUT_EN c \<and> OSIntNesting s > 0 then Some (E_CALL, s)
      else if CFG_PAR_CHECKOUT_EN c \<and> (minute > 59 \<or> sec > 59 \<or> millsec > 999)
      then Some (E_INVALID_PARAMETER, s)
      else if OSSchedLock s \<noteq> 0 then Some (E_OS_IN_LOCK, s)
      else do {
        let ticks = word_of_int (time_ticks c hour minute sec millsec);
        (_, s) \<leftarrow> CoTickDelay unl ticks s;
        Some (E_OK, s)
      })"

text \<open>\<open>utility.c\<close>: the two conversions between ticks and a time of day.\<close>

definition CoTickToTime :: "config \<Rightarrow> U32 \<Rightarrow> U8 \<times> U8 \<times> U8 \<times> U16" where
  "CoTickToTime c ticks =
     (let totalTime = ticks * of_nat (1000 div CFG_SYSTICK_FREQ c);
          millsec = ucast (totalTime mod 1000);
          totalTime = totalTime div 1000;
          sec = ucast (totalTime mod 60);
          totalTime = totalTime div 60;
          minute = ucast (totalTime mod 60);
          totalTime = totalTime div 60;
          hour = ucast totalTime
      in (hour, minute, sec, millsec))"

definition CoTimeToTick :: "config \<Rightarrow> U8 \<Rightarrow> U8 \<Rightarrow> U8 \<Rightarrow> U16 \<Rightarrow> StatusType \<times> U32 option" where
  "CoTimeToTick c hour minute sec millsec =
     (if CFG_PAR_CHECKOUT_EN c \<and> (minute > 59 \<or> sec > 59 \<or> millsec > 999)
      then (E_INVALID_PARAMETER, None)
      else (E_OK, Some (word_of_int (time_ticks c hour minute sec millsec))))"

section \<open>Representation\<close>

abbreviation tickf :: "kernel \<Rightarrow> OS_TID \<Rightarrow> U32" where
  "tickf s \<equiv> (\<lambda>t. delayTick (TCBTbl s t))"

definition dly_rep :: "kernel \<Rightarrow> (OS_TID \<times> nat) list \<Rightarrow> bool" where
  "dly_rep s ds \<longleftrightarrow> delta_rep (nextf s) (prevf s) (tickf s) (DlyList s) ds"

text \<open>
  \<open>dly_frame A s s'\<close>: only the head of the list and the links and tick counts of the tasks in
  \<open>A\<close> differ.
\<close>

definition dly_core :: "OSTCB \<Rightarrow> OSTCB" where
  "dly_core b = b\<lparr>TCBnext := None, TCBprev := None, delayTick := 0\<rparr>"

definition dly_frame :: "OS_TID set \<Rightarrow> kernel \<Rightarrow> kernel \<Rightarrow> bool" where
  "dly_frame A s s' \<longleftrightarrow> s'\<lparr>TCBTbl := TCBTbl s, DlyList := DlyList s\<rparr> = s \<and>
     (\<forall>t. (t \<notin> A \<longrightarrow> TCBTbl s' t = TCBTbl s t) \<and> dly_core (TCBTbl s' t) = dly_core (TCBTbl s t))"

lemma dly_core_upd [simp]:
  "dly_core (TCBnext_update f b) = dly_core b" "dly_core (TCBprev_update f b) = dly_core b"
  "dly_core (delayTick_update g b) = dly_core b"
  by (simp_all add: dly_core_def)

lemma dly_frameI:
  assumes "s'\<lparr>TCBTbl := TCBTbl s, DlyList := DlyList s\<rparr> = s"
    and "\<And>t. t \<notin> A \<Longrightarrow> TCBTbl s' t = TCBTbl s t"
    and "\<And>t. dly_core (TCBTbl s' t) = dly_core (TCBTbl s t)"
  shows "dly_frame A s s'"
  using assms by (simp add: dly_frame_def)

lemma dly_rep_eqI:
  assumes "DlyList s' = DlyList s"
    and "\<And>t. t \<in> fst ` set ds \<Longrightarrow> nextf s' t = nextf s t \<and> prevf s' t = prevf s t \<and> tickf s' t = tickf s t"
  shows "dly_rep s' ds = dly_rep s ds"
  unfolding dly_rep_def assms(1) by (rule delta_rep_cong) (use assms(2) in blast)

lemma dly_rep_state [simp]: "dly_rep (upd_tcb t (state_update f) s) ds = dly_rep s ds"
  by (rule dly_rep_eqI) auto

lemma dly_rep_req [simp]: "dly_rep (TaskSchedReq_update f s) ds = dly_rep s ds"
  by (rule dly_rep_eqI) auto

section \<open>Insertion\<close>

lemma insert_delay_before_eq:
  assumes "dlist (nextf s) (prevf s) (DlyList s) (as @ n # bs)" and "t \<notin> set (as @ n # bs)"
    and "unlinked s t"
  shows "insert_delay_before t n w s =
    Some (s\<lparr>DlyList := hd_ptr (as @ [t]) None,
      TCBTbl := (\<lambda>x. if x = t then (TCBTbl s t)\<lparr>TCBnext := Some n, TCBprev := last_ptr None as,
                         delayTick := tickf s n + w\<rparr>
                 else if x = n then (TCBTbl s n)\<lparr>TCBprev := Some t, delayTick := - w\<rparr>
                 else if as \<noteq> [] \<and> x = last as then (TCBTbl s x)\<lparr>TCBnext := Some t\<rparr>
                 else TCBTbl s x)\<rparr>)"
proof -
  have p: "TCBprev (TCBTbl s n) = last_ptr None as" and h: "DlyList s = hd_ptr (as @ n # bs) None"
    using assms(1) by (auto simp: dlist_def)
  have u: "TCBnext (TCBTbl s t) = None" "TCBprev (TCBTbl s t) = None"
    using assms(3) by (simp_all add: unlinked_def)
  have d: "distinct (as @ n # bs)" using assms(1) by (rule dlist_distinct)
  have nt: "n \<noteq> t" using assms(2) by auto
  show ?thesis
  proof (cases as rule: rev_cases)
    case Nil
    with p h u nt show ?thesis
      by (simp add: insert_delay_before_def) (rule kernel.equality; simp add: fun_eq_iff)
  next
    case (snoc zs z)
    then have "z \<noteq> t" "z \<noteq> n" using assms(2) d by auto
    moreover have "DlyList s = hd_ptr zs (Some z)" using snoc h by simp
    ultimately show ?thesis using snoc p u nt
      by (simp add: insert_delay_before_def) (rule kernel.equality; simp add: fun_eq_iff)
  qed
qed

text \<open>The end of the loop: the task goes behind the last one.\<close>

abbreviation insert_delay_behind :: "OS_TID \<Rightarrow> OS_TID \<Rightarrow> U32 \<Rightarrow> kernel \<Rightarrow> kernel" where
  "insert_delay_behind t n w s \<equiv>
     upd_tcb t (delayTick_update (\<lambda>_. w)) (upd_tcb n (TCBnext_update (\<lambda>_. Some t)) (upd_tcb t (TCBprev_update (\<lambda>_. Some n)) s))"

interpretation dlp: delta_loop nextf prevf tickf DlyList insert_delay_before insert_delay_behind insert_delay_loop dly_frame
proof (unfold_locales, goal_cases)
  case (1 t n w s)
  show ?case
    by (subst insert_delay_loop.simps) (simp add: Let_def split: option.split)
next
  case (2 s as n bs t w)
  then have u: "unlinked s t" and d: "distinct (as @ n # bs)" by (auto simp: unlinked_def dlist_def)
  note eq = insert_delay_before_eq [OF 2(1,2) u, of w]
  have l: "last as \<in> set as" if "as \<noteq> []" using that by simp
  have nt: "t \<noteq> n" "t \<notin> set as" "t \<notin> set bs" using 2(2) by auto
  let ?s = "the (insert_delay_before t n w s)"
  have "dly_frame (insert t (set (as @ n # bs))) s ?s"
    unfolding eq option.sel
  proof (rule dly_frameI, goal_cases)
    case (2 u)
    then have "u \<noteq> t" "u \<noteq> n" "as \<noteq> [] \<Longrightarrow> u \<noteq> last as" using l by auto
    then show ?case by auto
  qed simp_all
  moreover have "spliced (nextf s) (prevf s) (tickf s) (nextf ?s) (prevf ?s) (tickf ?s) (DlyList ?s) as t (n # bs)"
    unfolding eq option.sel spliced_def using nt d l by auto
  ultimately show ?case using nt(1) by (simp add: eq)
next
  case (3 s as n t w)
  let ?s = "insert_delay_behind t n w s"
  have nt: "t \<noteq> n" "t \<notin> set as" "n \<notin> set as" using 3(1,2) by (auto simp: dlist_def)
  have "dly_frame (insert t (set (as @ [n]))) s ?s" by (rule dly_frameI) (simp_all add: nt)
  moreover have "spliced (nextf s) (prevf s) (tickf s) (nextf ?s) (prevf ?s) (tickf ?s) (DlyList ?s) (as @ [n]) t []"
    unfolding spliced_def using nt 3 by (auto simp: dlist_def)
  ultimately show ?case using nt(1) by simp
qed

text \<open>What \<open>InsertDelayList\<close> changes besides the list: the state of the task and the request flag.\<close>

lemma InsertDelayList_ok:
  assumes "dly_rep s ds" and "t \<notin> fst ` set ds" and "unlinked s t" and "0 < n" and "unat n < 2 ^ 31"
  shows "\<exists>s'. InsertDelayList t n s =
      Some (upd_tcb t (state_update (\<lambda>_. TASK_WAITING)) s'\<lparr>TaskSchedReq := True\<rparr>) \<and>
    dly_rep s' (insort_after snd (t, unat n) ds) \<and> dly_frame (insert t (fst ` set ds)) s s'"
proof -
  obtain xs where xs: "dlist (nextf s) (prevf s) (DlyList s) xs" "ds = deltas (tickf s) 0 xs"
    "map fst ds = xs" "total (tickf s) xs < 2 ^ 31"
    using assms(1) unfolding dly_rep_def by (rule delta_repE)
  have st: "fst ` set ds = set xs" using xs(3) by (metis set_map)
  have nz: "n \<noteq> 0" using assms(4) by auto
  show ?thesis
  proof (cases xs)
    case Nil
    let ?T = "(TCBTbl s)(t := (TCBTbl s t)\<lparr>delayTick := n\<rparr>)"
    let ?s = "s\<lparr>TCBTbl := ?T, DlyList := Some t\<rparr>"
    have "dly_rep ?s (insort_after snd (t, unat n) (deltas (tickf s) 0 ([] @ [])))"
      unfolding dly_rep_def
      by (rule delta_rep_insert [of "nextf s" "prevf s" "DlyList s"])
        (use xs(1) Nil assms(3,5) in \<open>auto simp: dlist_def unlinked_def\<close>)
    moreover have "dly_frame (insert t (fst ` set ds)) s ?s" by (rule dly_frameI) auto
    moreover have "DlyList s = None" using xs(1) Nil by (simp add: dlist_def)
    moreover from this nz have "InsertDelayList t n s =
        Some (upd_tcb t (state_update (\<lambda>_. TASK_WAITING)) ?s\<lparr>TaskSchedReq := True\<rparr>)"
      by (simp add: InsertDelayList_def)
    ultimately show ?thesis using xs(2) Nil by (intro exI [of _ ?s] conjI) simp_all
  next
    case (Cons p ps)
    have "DlyList s = Some p" using xs(1) Cons by (simp add: dlist_def)
    moreover have "\<exists>s'. insert_delay_loop t p n s = Some s' \<and> dly_frame (insert t (set ([] @ p # ps))) s s' \<and>
        delta_rep (nextf s') (prevf s') (tickf s') (DlyList s') (insort_after snd (t, unat n) (deltas (tickf s) 0 ([] @ p # ps)))"
      by (rule dlp.loop_ok) (use xs Cons assms st in \<open>auto simp: unlinked_def\<close>)
    ultimately show ?thesis using nz xs(2) st Cons
      by (auto simp: InsertDelayList_def dly_rep_def)
  qed
qed

section \<open>Removal\<close>

lemma RemoveDelayList_eq:
  assumes "dlist (nextf s) (prevf s) (DlyList s) (as @ t # bs)"
  shows "RemoveDelayList t s =
    s\<lparr>DlyList := hd_ptr (as @ bs) None,
      TCBTbl := (\<lambda>x. if x = t then (TCBTbl s t)\<lparr>TCBnext := None, TCBprev := None, delayTick := INVALID_VALUE\<rparr>
                 else if bs \<noteq> [] \<and> x = hd bs
                 then (TCBTbl s x)\<lparr>TCBprev := last_ptr None as, delayTick := tickf s x + tickf s t\<rparr>
                 else if as \<noteq> [] \<and> x = last as then (TCBTbl s x)\<lparr>TCBnext := hd_ptr bs None\<rparr>
                 else TCBTbl s x)\<rparr>"
proof -
  have n: "TCBnext (TCBTbl s t) = hd_ptr bs None" and p: "TCBprev (TCBTbl s t) = last_ptr None as"
    using dlist_links [OF assms] by simp_all
  have d: "distinct (as @ t # bs)" and h: "DlyList s = hd_ptr (as @ t # bs) None"
    using assms by (auto simp: dlist_def)
  show ?thesis
  proof (cases bs; cases as rule: rev_cases)
    assume "bs = []" "as = []"
    with n p h show ?thesis
      by (simp add: RemoveDelayList_def) (rule kernel.equality; simp add: fun_eq_iff)
  next
    fix ys y assume e: "bs = []" "as = ys @ [y]"
    with d have "t \<noteq> y" by auto
    with e n p h show ?thesis
      by (simp add: RemoveDelayList_def) (rule kernel.equality; simp add: fun_eq_iff)
  next
    fix z zs assume e: "bs = z # zs" "as = []"
    with d have "t \<noteq> z" by auto
    with e n p h show ?thesis
      by (simp add: RemoveDelayList_def) (rule kernel.equality; simp add: fun_eq_iff)
  next
    fix z zs ys y assume e: "bs = z # zs" "as = ys @ [y]"
    with d have "t \<noteq> y" "t \<noteq> z" "z \<noteq> y" by auto
    with e n p h show ?thesis
      by (simp add: RemoveDelayList_def Let_def) (rule kernel.equality; simp add: fun_eq_iff)
  qed
qed

lemma RemoveDelayList_ok:
  assumes "dly_rep s (xs @ (t, d) # ys)"
  shows "dly_rep (RemoveDelayList t s) (xs @ ys)"
    and "unlinked (RemoveDelayList t s) t" and "tickf (RemoveDelayList t s) t = INVALID_VALUE"
    and "dly_frame (insert t (fst ` set (xs @ ys))) s (RemoveDelayList t s)"
proof -
  define as bs where ab: "as = map fst xs" "bs = map fst ys"
  have dl: "dlist (nextf s) (prevf s) (DlyList s) (as @ t # bs)"
    using assms by (simp add: dly_rep_def delta_rep_def ab)
  have d: "distinct (as @ t # bs)" using dl by (rule dlist_distinct)
  note eq = RemoveDelayList_eq [OF dl]
  have t: "t \<notin> set as" "t \<notin> set bs" using d by auto
  have l: "as \<noteq> [] \<Longrightarrow> last as \<in> set as" "bs \<noteq> [] \<Longrightarrow> hd bs \<in> set bs" by simp_all
  have st: "insert t (fst ` set (xs @ ys)) = insert t (set as \<union> set bs)" by (auto simp: ab)
  have "taken_out (nextf s) (prevf s) (tickf s) (nextf (RemoveDelayList t s)) (prevf (RemoveDelayList t s))
      (tickf (RemoveDelayList t s)) (DlyList (RemoveDelayList t s)) as t bs"
    by (rule taken_outI [OF d]) (auto simp: eq)
  then show "dly_rep (RemoveDelayList t s) (xs @ ys)"
    using delta_rep_taken_out [OF assms [unfolded dly_rep_def]] unfolding ab dly_rep_def by blast
  show "unlinked (RemoveDelayList t s) t" "tickf (RemoveDelayList t s) t = INVALID_VALUE"
    by (simp_all add: eq unlinked_def)
  show "dly_frame (insert t (fst ` set (xs @ ys))) s (RemoveDelayList t s)"
    unfolding st eq
  proof (rule dly_frameI, goal_cases)
    case (2 u)
    then have "u \<noteq> t" "bs \<noteq> [] \<Longrightarrow> u \<noteq> hd bs" "as \<noteq> [] \<Longrightarrow> u \<noteq> last as" using l by auto
    then show ?case by auto
  qed simp_all
qed

interpretation dl: delta_list dly_rep unlinked InsertDelayList "\<lambda>t s. Some (RemoveDelayList t s)"
proof unfold_locales
  show "sorted (map snd ds)" if "dly_rep s ds" for s ds
    using that delta_rep_sorted unfolding dly_rep_def by blast
  show "distinct (map fst ds)" if "dly_rep s ds" for s ds
    using that delta_rep_distinct unfolding dly_rep_def by blast
  show "\<exists>s'. InsertDelayList t n s = Some s' \<and> dly_rep s' (insort_after snd (t, unat n) ds)"
    if "dly_rep s ds" "t \<notin> fst ` set ds" "unlinked s t" "0 < n" "unat n < 2 ^ 31" for s ds t n
    using InsertDelayList_ok [OF that] by auto
  show "\<exists>s'. Some (RemoveDelayList t s) = Some s' \<and> dly_rep s' (as @ bs) \<and> unlinked s' t"
    if "dly_rep s (as @ (t, d) # bs)" for s as t d bs
    using RemoveDelayList_ok [OF that] by simp
qed

section \<open>Properties\<close>

text \<open>
  A small state for concrete instances: task 1 has 5 ticks to wait, task 2 has 8, and task 3 is
  about to wait.
\<close>

definition delay_example :: kernel where
  "delay_example = kernel_start\<lparr>
     TCBTbl := (TCBTbl kernel_start)(
       1 := OSTCB_zero\<lparr>taskID := 1, state := TASK_WAITING, delayTick := 5, TCBnext := Some 2\<rparr>,
       2 := OSTCB_zero\<lparr>taskID := 2, state := TASK_WAITING, delayTick := 3, TCBprev := Some 1\<rparr>,
       3 := OSTCB_zero\<lparr>taskID := 3, state := TASK_RUNNING, delayTick := INVALID_VALUE\<rparr>),
     DlyList := Some 1\<rparr>"

lemma delay_example_rep: "dly_rep delay_example [(1, 5), (2, 8)]" and delay_example_free: "unlinked delay_example 3"
  by (simp_all add: dly_rep_def delta_rep_def dlist_def unlinked_def delay_example_def kernel_start_def OSTCB_zero_def)

text \<open>
  C16. \<open>InsertDelayList\<close> returns for every delay from 1 to \<open>2 ^ 31 - 1\<close> ticks and puts the task
  at its time, behind the tasks that expire at the same tick, leaving the remaining time of every
  other task as it was; the task waits, a reschedule is requested, and nothing else changes than
  the links and the differences of the list.
\<close>

theorem delay_insert_refines:
  assumes "dly_rep s ds" and "t \<notin> fst ` set ds" and "unlinked s t" and "0 < n" and "unat n < 2 ^ 31"
  shows "\<exists>s'. InsertDelayList t n s =
      Some (upd_tcb t (state_update (\<lambda>_. TASK_WAITING)) s'\<lparr>TaskSchedReq := True\<rparr>) \<and>
    dly_rep s' (insort_after snd (t, unat n) ds) \<and> dly_frame (insert t (fst ` set ds)) s s'"
  using assms by (rule InsertDelayList_ok)

theorem delay_insert_refines_witness:
  "\<exists>s'. InsertDelayList 3 5 delay_example =
      Some (upd_tcb 3 (state_update (\<lambda>_. TASK_WAITING)) s'\<lparr>TaskSchedReq := True\<rparr>) \<and>
    dly_rep s' [(1, 5), (3, 5), (2, 8)]"
  using delay_insert_refines [OF delay_example_rep _ delay_example_free, of 5] by auto

text \<open>
  C17. \<open>RemoveDelayList\<close> takes exactly the given task out of the DELAY list, whatever its place,
  and leaves every other task's remaining time as it was; a delay that was just inserted is
  cancelled without a trace in the list.
\<close>

theorem delay_remove_refines:
  assumes "dly_rep s (as @ (t, d) # bs)"
  shows "dly_rep (RemoveDelayList t s) (as @ bs) \<and> unlinked (RemoveDelayList t s) t \<and>
    delayTick (TCBTbl (RemoveDelayList t s) t) = INVALID_VALUE \<and>
    dly_frame (insert t (fst ` set (as @ bs))) s (RemoveDelayList t s)"
  using RemoveDelayList_ok [OF assms] by simp

theorem delay_remove_refines_witness: "dly_rep (RemoveDelayList 1 delay_example) [(2, 8)]"
  using delay_remove_refines [of delay_example "[]" 1 5 "[(2, 8)]"] delay_example_rep by simp

text \<open>
  C18. A time of day that passes the parameter check is a tick count below \<open>2 ^ 31\<close> for every
  legal tick frequency: the \<open>int\<close> computation of \<open>CoTimeDelay\<close> does not overflow, the stored
  \<open>U32\<close> is exact and the delay is one that \<open>InsertDelayList\<close> orders correctly.
\<close>

theorem time_delay_ticks_bounded:
  assumes "config_ok c" and "minute \<le> 59" and "sec \<le> 59" and "millsec \<le> 999"
  shows "0 \<le> time_ticks c hour minute sec millsec \<and> time_ticks c hour minute sec millsec < 2 ^ 31 \<and>
    int (unat (word_of_int (time_ticks c hour minute sec millsec) :: U32)) = time_ticks c hour minute sec millsec"
proof -
  let ?f = "int (CFG_SYSTICK_FREQ c)"
  define h m e l where d: "h = uint hour" "m = uint minute" "e = uint sec" "l = uint millsec"
  have f: "0 \<le> ?f" "?f \<le> 1000" using assms(1) by (auto simp: config_ok_def)
  have u: "0 \<le> h" "0 \<le> m" "0 \<le> e" "0 \<le> l" "h \<le> 255" "m \<le> 59" "e \<le> 59" "l \<le> 999"
    using uint_bounded [of hour] assms(2-4) by (auto simp: d word_le_def)
  have "(h * 3600 + m * 60 + e) * ?f \<le> 921599 * 1000" by (rule mult_mono) (use u f in auto)
  moreover have "l * ?f \<le> 999 * 1000" by (rule mult_mono) (use u f in auto)
  then have "(l * ?f + 500) div 1000 \<le> 1000" by linarith
  moreover have "0 \<le> (l * ?f + 500) div 1000" "0 \<le> (h * 3600 + m * 60 + e) * ?f"
    using u f by (simp_all add: pos_imp_zdiv_nonneg_iff)
  ultimately have r: "0 \<le> time_ticks c hour minute sec millsec" "time_ticks c hour minute sec millsec < 2 ^ 31"
    unfolding time_ticks_def d [symmetric] by simp_all
  then have "uint (word_of_int (time_ticks c hour minute sec millsec) :: U32) = time_ticks c hour minute sec millsec"
    by (simp add: uint_word_of_int)
  with r show ?thesis by simp
qed

theorem time_delay_ticks_bounded_witness:
  "time_ticks OsConfig 255 59 59 999 < 2 ^ 31"
  using time_delay_ticks_bounded [OF config_ok_OsConfig, of 59 59 999 255] by simp

text \<open>
  Converting a tick count to a time of day and back is the identity, for every tick frequency
  that divides 1000 and every count below 256 hours, the range of the hour field.
\<close>

theorem tick_time_roundtrip:
  assumes "CFG_SYSTICK_FREQ c dvd 1000" and "unat ticks * (1000 div CFG_SYSTICK_FREQ c) < 256 * 3600000"
    and "CoTickToTime c ticks = (h, m, e, l)"
  shows "CoTimeToTick c h m e l = (E_OK, Some ticks)"
proof -
  let ?f = "CFG_SYSTICK_FREQ c"
  obtain k where k: "1000 = ?f * k" using assms(1) by blast
  then have f: "0 < ?f" "0 < k" by (auto intro: gr0I)
  then have dk: "1000 div ?f = k" by (subst k) simp
  define tot where "tot = unat ticks * k"
  have tb: "tot < 921600000" using assms(2) by (simp add: dk tot_def)
  have "k \<le> 1000" using f by (subst k) simp
  then have w: "unat (ticks * of_nat k) = tot"
    using tb by (simp add: unat_word_ariths unat_of_nat tot_def)
  let ?t = "ticks * of_nat k"
  have u: "unat l = tot mod 1000" "unat e = tot div 1000 mod 60" "unat m = tot div 1000 div 60 mod 60"
    "unat h = tot div 1000 div 60 div 60"
    using assms(3) tb w unfolding CoTickToTime_def dk Let_def
    by (auto simp: unsigned_ucast_eq take_bit_nat_eq_self unat_mod_distrib unat_div_distrib)
  have S: "unat h * 3600 + unat m * 60 + unat e = tot div 1000"
    using div_mult_mod_eq [of "tot div 1000" 60] div_mult_mod_eq [of "tot div 1000 div 60" 60]
    unfolding u by linarith
  have q: "tot div 1000 = unat ticks div ?f" and r: "tot mod 1000 = unat ticks mod ?f * k"
    using f by (simp_all only: k tot_def div_mult_mult2 mod_mult_mult2)
  have "(unat l * ?f + 500) div 1000 = unat ticks mod ?f"
  proof -
    have "unat l * ?f = unat ticks mod ?f * 1000" unfolding u r by (subst k) simp
    then show ?thesis by simp
  qed
  then have "unat ticks = (unat h * 3600 + unat m * 60 + unat e) * ?f + (unat l * ?f + 500) div 1000"
    unfolding S q by simp
  also have "int \<dots> = time_ticks c h m e l"
    by (simp add: time_ticks_def zdiv_int)
  finally have "time_ticks c h m e l = uint ticks" by simp
  moreover have "m \<le> 59" "e \<le> 59" "l \<le> 999"
    unfolding word_le_nat_alt u by auto
  ultimately show ?thesis
    by (simp add: CoTimeToTick_def not_less [symmetric])
qed

theorem tick_time_roundtrip_witness: "CoTimeToTick OsConfig 1 1 1 500 = (E_OK, Some 366150)"
  by (rule tick_time_roundtrip) (simp_all add: OsConfig_def CoTickToTime_def)

end
