(* ===== verification/TaskLists.thy ===== *)
theory TaskLists
  imports DelayList
begin

text \<open>
  The READY list and the DELAY list together: they share the link fields of the task control
  blocks, so that a task is in one of them at most, and waking a task moves it from one to the
  other.
\<close>

section \<open>Both lists\<close>

definition lists_inv :: "config \<Rightarrow> kernel \<Rightarrow> OS_TID list \<Rightarrow> (OS_TID \<times> nat) list \<Rightarrow> bool" where
  "lists_inv c s rs ds \<longleftrightarrow> rdy_inv c s rs \<and> dly_rep s ds \<and> set rs \<inter> fst ` set ds = {}"

text \<open>
  A task outside the READY list that could be put there: it is in the DELAY list exactly when its
  tick count is valid, and has no links otherwise.
\<close>

definition sleeping :: "config \<Rightarrow> kernel \<Rightarrow> OS_TID list \<Rightarrow> (OS_TID \<times> nat) list \<Rightarrow> OS_TID \<Rightarrow> bool" where
  "sleeping c s rs ds t \<longleftrightarrow> t \<notin> set rs \<and>
     (CFG_ORDER_LIST_SCHEDULE_EN c \<or> pri_active s (priof s t) \<and> valid_tid c s t) \<and>
     (if delayTick (TCBTbl s t) = INVALID_VALUE then t \<notin> fst ` set ds \<and> unlinked s t
      else t \<in> fst ` set ds)"

text \<open>The statement that five modules use to end a delay before its time.\<close>

definition stop_delay :: "OS_TID \<Rightarrow> kernel \<Rightarrow> kernel" where
  "stop_delay t s = (if delayTick (TCBTbl s t) \<noteq> INVALID_VALUE then RemoveDelayList t s else s)"

lemma rdy_inv_cong_on:
  assumes "TCBRdy s' = TCBRdy s" "PriNum s' = PriNum s" "ActivePri s' = ActivePri s"
    "RdyTaskPri s' = RdyTaskPri s" "RdyTaskPriInfo s' = RdyTaskPriInfo s"
    "\<And>t. prio (TCBTbl s' t) = prio (TCBTbl s t)" "\<And>t. taskID (TCBTbl s' t) = taskID (TCBTbl s t)"
    "\<And>t. t \<in> set xs \<Longrightarrow> nextf s' t = nextf s t \<and> prevf s' t = prevf s t"
  shows "rdy_inv c s' xs = rdy_inv c s xs"
proof -
  have "rdy_list s' xs = rdy_list s xs"
    unfolding rdy_list_def assms(1) by (rule dlist_cong) (use assms(8) in auto)
  with assms(2-7) show ?thesis
    by (simp add: rdy_inv_def tables_inv_def pri_active_def valid_tid_def)
qed

lemma dly_frame_simps:
  assumes "dly_frame A s s'"
  shows "prio (TCBTbl s' t) = prio (TCBTbl s t)" "taskID (TCBTbl s' t) = taskID (TCBTbl s t)"
    "state (TCBTbl s' t) = state (TCBTbl s t)" "eventID (TCBTbl s' t) = eventID (TCBTbl s t)"
    "pmail (TCBTbl s' t) = pmail (TCBTbl s t)" "pnode (TCBTbl s' t) = pnode (TCBTbl s t)"
    "waitNext (TCBTbl s' t) = waitNext (TCBTbl s t)" "waitPrev (TCBTbl s' t) = waitPrev (TCBTbl s t)"
    "t \<notin> A \<Longrightarrow> TCBTbl s' t = TCBTbl s t"
proof -
  have c: "dly_core (TCBTbl s' t) = dly_core (TCBTbl s t)" using assms by (simp add: dly_frame_def)
  show "prio (TCBTbl s' t) = prio (TCBTbl s t)" using arg_cong [OF c, of prio] by (simp add: dly_core_def)
  show "taskID (TCBTbl s' t) = taskID (TCBTbl s t)" using arg_cong [OF c, of taskID] by (simp add: dly_core_def)
  show "state (TCBTbl s' t) = state (TCBTbl s t)" using arg_cong [OF c, of state] by (simp add: dly_core_def)
  show "eventID (TCBTbl s' t) = eventID (TCBTbl s t)" using arg_cong [OF c, of eventID] by (simp add: dly_core_def)
  show "pmail (TCBTbl s' t) = pmail (TCBTbl s t)" using arg_cong [OF c, of pmail] by (simp add: dly_core_def)
  show "pnode (TCBTbl s' t) = pnode (TCBTbl s t)" using arg_cong [OF c, of pnode] by (simp add: dly_core_def)
  show "waitNext (TCBTbl s' t) = waitNext (TCBTbl s t)" using arg_cong [OF c, of waitNext] by (simp add: dly_core_def)
  show "waitPrev (TCBTbl s' t) = waitPrev (TCBTbl s t)" using arg_cong [OF c, of waitPrev] by (simp add: dly_core_def)
qed (use assms in \<open>simp add: dly_frame_def\<close>)

lemma dly_frame_rest:
  assumes "dly_frame A s s'"
  shows "TCBRdy s' = TCBRdy s" "PriNum s' = PriNum s" "ActivePri s' = ActivePri s"
    "RdyTaskPri s' = RdyTaskPri s" "RdyTaskPriInfo s' = RdyTaskPriInfo s" "TCBRunning s' = TCBRunning s"
    "EventTbl s' = EventTbl s" "QueueTbl s' = QueueTbl s" "mem s' = mem s" "FlagNodes s' = FlagNodes s"
    "FlagCrl s' = FlagCrl s" "OSSchedLock s' = OSSchedLock s" "TaskSchedReq s' = TaskSchedReq s"
    "TCBNext s' = TCBNext s" "OSIntNesting s' = OSIntNesting s" "IsrReq s' = IsrReq s"
  using assms by (cases s; cases s'; simp add: dly_frame_def)+

lemma rdy_inv_dly_frame:
  assumes "dly_frame A s s'" and "set rs \<inter> A = {}"
  shows "rdy_inv c s' rs = rdy_inv c s rs"
proof (rule rdy_inv_cong_on)
  show "nextf s' t = nextf s t \<and> prevf s' t = prevf s t" if "t \<in> set rs" for t
  proof -
    from that assms(2) have "t \<notin> A" by blast
    then show ?thesis by (simp add: dly_frame_simps [OF assms(1)])
  qed
qed (simp_all add: dly_frame_simps [OF assms(1)] dly_frame_rest [OF assms(1)])

lemma stop_delay_ok:
  assumes "lists_inv c s rs ds" and "sleeping c s rs ds t"
  shows "lists_inv c (stop_delay t s) rs (filter (\<lambda>p. fst p \<noteq> t) ds)"
    and "admissible c (stop_delay t s) t" and "delayTick (TCBTbl (stop_delay t s) t) = INVALID_VALUE"
    and "dly_frame (insert t (fst ` set ds)) s (stop_delay t s)"
proof -
  have "lists_inv c (stop_delay t s) rs (filter (\<lambda>p. fst p \<noteq> t) ds) \<and> admissible c (stop_delay t s) t \<and>
    delayTick (TCBTbl (stop_delay t s) t) = INVALID_VALUE \<and> dly_frame (insert t (fst ` set ds)) s (stop_delay t s)"
  proof (cases "delayTick (TCBTbl s t) = INVALID_VALUE")
    case True
    then have "filter (\<lambda>p. fst p \<noteq> t) ds = ds" using assms(2) by (auto simp: sleeping_def filter_id_conv)
    with True assms show ?thesis
      by (auto simp: stop_delay_def sleeping_def admissible_def intro: dly_frameI)
  next
    case False
    then obtain d where "(t, d) \<in> set ds" using assms(2) by (auto simp: sleeping_def)
    then obtain as bs where ds: "ds = as @ (t, d) # bs" by (meson split_list)
    then have r: "dly_rep s (as @ (t, d) # bs)" using assms(1) by (simp add: lists_inv_def)
    note R = RemoveDelayList_ok [OF r]
    have "distinct (map fst ds)" using dl.rep_distinct r ds by metis
    then have "t \<notin> fst ` set as" "t \<notin> fst ` set bs" by (auto simp: ds)
    then have "filter (\<lambda>p. fst p \<noteq> t) as = as" "filter (\<lambda>p. fst p \<noteq> t) bs = bs"
      by (auto simp: filter_id_conv)
    then have f: "filter (\<lambda>p. fst p \<noteq> t) ds = as @ bs" by (simp add: ds)
    have A: "insert t (fst ` set ds) = insert t (fst ` set (as @ bs))" by (auto simp: ds)
    have "set rs \<inter> insert t (fst ` set (as @ bs)) = {}"
      using assms(1) ds by (auto simp: lists_inv_def)
    then have "rdy_inv c (RemoveDelayList t s) rs"
      using rdy_inv_dly_frame [OF R(4), of rs c] assms(1) by (simp add: lists_inv_def)
    moreover have "pri_active (RemoveDelayList t s) p = pri_active s p" for p
      using dly_frame_rest [OF R(4)] by (simp add: pri_active_def)
    ultimately show ?thesis using False R assms f A ds
      by (auto simp: stop_delay_def lists_inv_def admissible_def sleeping_def valid_tid_def dly_frame_simps [OF R(4)])
  qed
  then show "lists_inv c (stop_delay t s) rs (filter (\<lambda>p. fst p \<noteq> t) ds)"
    "admissible c (stop_delay t s) t" "delayTick (TCBTbl (stop_delay t s) t) = INVALID_VALUE"
    "dly_frame (insert t (fst ` set ds)) s (stop_delay t s)" by blast+
qed

lemma ins_frame_tcb:
  assumes "ins_frame t rs s s'"
  shows "prio (TCBTbl s' u) = prio (TCBTbl s u)" "taskID (TCBTbl s' u) = taskID (TCBTbl s u)"
    "eventID (TCBTbl s' u) = eventID (TCBTbl s u)" "pmail (TCBTbl s' u) = pmail (TCBTbl s u)"
    "pnode (TCBTbl s' u) = pnode (TCBTbl s u)" "waitNext (TCBTbl s' u) = waitNext (TCBTbl s u)"
    "waitPrev (TCBTbl s' u) = waitPrev (TCBTbl s u)" "delayTick (TCBTbl s' u) = delayTick (TCBTbl s u)"
    "mutexID (TCBTbl s' u) = mutexID (TCBTbl s u)"
    "state (TCBTbl s' u) = (if u = t then TASK_READY else state (TCBTbl s u))"
    "u \<notin> insert t (set rs) \<Longrightarrow> TCBTbl s' u = TCBTbl s u"
proof -
  have l: "links_only (insert t (set rs)) ((TCBTbl s)(t := (TCBTbl s t)\<lparr>state := TASK_READY\<rparr>)) (TCBTbl s')"
    using assms by (simp add: ins_frame_def)
  show "prio (TCBTbl s' u) = prio (TCBTbl s u)" "taskID (TCBTbl s' u) = taskID (TCBTbl s u)"
    "eventID (TCBTbl s' u) = eventID (TCBTbl s u)" "pmail (TCBTbl s' u) = pmail (TCBTbl s u)"
    "pnode (TCBTbl s' u) = pnode (TCBTbl s u)" "waitNext (TCBTbl s' u) = waitNext (TCBTbl s u)"
    "waitPrev (TCBTbl s' u) = waitPrev (TCBTbl s u)" "delayTick (TCBTbl s' u) = delayTick (TCBTbl s u)"
    "mutexID (TCBTbl s' u) = mutexID (TCBTbl s u)"
    "state (TCBTbl s' u) = (if u = t then TASK_READY else state (TCBTbl s u))"
    by (simp_all add: links_onlyD [OF l])
  show "u \<notin> insert t (set rs) \<Longrightarrow> TCBTbl s' u = TCBTbl s u"
    using links_only_outside [OF l, of u] by auto
qed

lemma lists_insert_ok:
  assumes "lists_inv c s rs ds" and "t \<notin> set rs" and "t \<notin> fst ` set ds" and "admissible c s t"
  shows "\<exists>s'. InsertToTCBRdyList c t s = Some s' \<and> lists_inv c s' (insort_after (priof s) t rs) ds \<and>
    ins_frame t rs s s'"
proof -
  obtain s' where s': "InsertToTCBRdyList c t s = Some s'" "rdy_inv c s' (insort_after (priof s) t rs)" "ins_frame t rs s s'"
    using rq.ins_ok [OF _ assms(2,4)] assms(1) by (auto simp: lists_inv_def)
  have "rdy_frame s s'" using s'(3) by (simp add: ins_frame_def)
  then have "dly_rep s' ds = dly_rep s ds"
  proof (intro dly_rep_eqI)
    fix u assume "u \<in> fst ` set ds"
    then have "u \<notin> insert t (set rs)" using assms(1,3) by (auto simp: lists_inv_def)
    then have "TCBTbl s' u = TCBTbl s u" by (rule ins_frame_tcb(11) [OF s'(3)])
    then show "nextf s' u = nextf s u \<and> prevf s' u = prevf s u \<and> tickf s' u = tickf s u" by simp
  qed (rule rdy_frameD)
  with s' assms(1,3) show ?thesis by (auto simp: lists_inv_def)
qed

text \<open>The two lists see these parts of the state only.\<close>

definition same_lists :: "kernel \<Rightarrow> kernel \<Rightarrow> bool" where
  "same_lists s s' \<longleftrightarrow> TCBRdy s' = TCBRdy s \<and> PriNum s' = PriNum s \<and> ActivePri s' = ActivePri s \<and>
     RdyTaskPri s' = RdyTaskPri s \<and> RdyTaskPriInfo s' = RdyTaskPriInfo s \<and> DlyList s' = DlyList s \<and>
     (\<forall>t. prio (TCBTbl s' t) = prio (TCBTbl s t) \<and> taskID (TCBTbl s' t) = taskID (TCBTbl s t) \<and>
          nextf s' t = nextf s t \<and> prevf s' t = prevf s t \<and> tickf s' t = tickf s t)"

lemma same_lists_cong:
  assumes "same_lists s s'"
  shows "lists_inv c s' rs ds = lists_inv c s rs ds" and "sleeping c s' rs ds t = sleeping c s rs ds t"
    and "admissible c s' t = admissible c s t"
proof -
  have "rdy_inv c s' rs = rdy_inv c s rs" and a: "admissible c s' t = admissible c s t"
    by (rule rdy_inv_cong; use assms in \<open>simp add: same_lists_def\<close>)+
  moreover have "dly_rep s' ds = dly_rep s ds"
    by (rule dly_rep_eqI) (use assms in \<open>simp_all add: same_lists_def\<close>)
  ultimately show "lists_inv c s' rs ds = lists_inv c s rs ds" by (simp add: lists_inv_def)
  show "sleeping c s' rs ds t = sleeping c s rs ds t"
    using assms by (simp add: sleeping_def same_lists_def pri_active_def valid_tid_def unlinked_def)
  show "admissible c s' t = admissible c s t" by (rule a)
qed

text \<open>
  What a change of the lists leaves of the control blocks: all of a block that is not in \<open>A\<close>, and of
  the others all but the links, the state and the tick count.
\<close>

definition tcb_rest :: "OSTCB \<Rightarrow> OSTCB" where
  "tcb_rest b = b\<lparr>TCBnext := None, TCBprev := None, state := TASK_READY, delayTick := 0\<rparr>"

definition tcb_frame :: "OS_TID set \<Rightarrow> kernel \<Rightarrow> kernel \<Rightarrow> bool" where
  "tcb_frame A s s' \<longleftrightarrow> (\<forall>t. (t \<notin> A \<longrightarrow> TCBTbl s' t = TCBTbl s t) \<and> tcb_rest (TCBTbl s' t) = tcb_rest (TCBTbl s t))"

lemma tcb_rest_upd [simp]:
  "tcb_rest (TCBnext_update f b) = tcb_rest b" "tcb_rest (TCBprev_update f b) = tcb_rest b"
  "tcb_rest (state_update g b) = tcb_rest b" "tcb_rest (delayTick_update h b) = tcb_rest b"
  by (simp_all add: tcb_rest_def)

lemma tcb_rest_dly_core: "dly_core b = dly_core b' \<Longrightarrow> tcb_rest b = tcb_rest b'"
  by (cases b; cases b'; simp add: dly_core_def tcb_rest_def)

lemma tcb_frame_refl [simp]: "tcb_frame A s s"
  by (simp add: tcb_frame_def)

lemma tcb_frame_trans:
  "tcb_frame A s s1 \<Longrightarrow> tcb_frame B s1 s2 \<Longrightarrow> A \<subseteq> C \<Longrightarrow> B \<subseteq> C \<Longrightarrow> tcb_frame C s s2"
  unfolding tcb_frame_def by (metis subsetD)

lemma tcb_frame_upd:
  "t \<in> A \<Longrightarrow> tcb_rest (f (TCBTbl s' t)) = tcb_rest (TCBTbl s' t) \<Longrightarrow> tcb_frame A s s' \<Longrightarrow> tcb_frame A s (upd_tcb t f s')"
  by (auto simp: tcb_frame_def)

lemma tcb_frameD:
  assumes "tcb_frame A s s'"
  shows "t \<notin> A \<Longrightarrow> TCBTbl s' t = TCBTbl s t" "prio (TCBTbl s' t) = prio (TCBTbl s t)" "taskID (TCBTbl s' t) = taskID (TCBTbl s t)"
    "eventID (TCBTbl s' t) = eventID (TCBTbl s t)" "mutexID (TCBTbl s' t) = mutexID (TCBTbl s t)"
    "pnode (TCBTbl s' t) = pnode (TCBTbl s t)" "stkPtr (TCBTbl s' t) = stkPtr (TCBTbl s t)" "stack (TCBTbl s' t) = stack (TCBTbl s t)"
proof -
  have c: "tcb_rest (TCBTbl s' t) = tcb_rest (TCBTbl s t)" using assms by (simp add: tcb_frame_def)
  show "prio (TCBTbl s' t) = prio (TCBTbl s t)" "taskID (TCBTbl s' t) = taskID (TCBTbl s t)"
    "eventID (TCBTbl s' t) = eventID (TCBTbl s t)" "mutexID (TCBTbl s' t) = mutexID (TCBTbl s t)"
    "pnode (TCBTbl s' t) = pnode (TCBTbl s t)" "stkPtr (TCBTbl s' t) = stkPtr (TCBTbl s t)" "stack (TCBTbl s' t) = stack (TCBTbl s t)"
    using c by (cases "TCBTbl s' t"; cases "TCBTbl s t"; simp add: tcb_rest_def)+
  show "t \<notin> A \<Longrightarrow> TCBTbl s' t = TCBTbl s t" using assms by (simp add: tcb_frame_def)
qed

lemma tcb_frame_links:
  assumes "links_only A T (TCBTbl s')" and "\<And>t. t \<notin> A \<Longrightarrow> T t = TCBTbl s t" and "\<And>t. tcb_rest (T t) = tcb_rest (TCBTbl s t)"
  shows "tcb_frame A s s'"
  unfolding tcb_frame_def
proof (intro allI conjI impI)
  fix t
  show "TCBTbl s' t = TCBTbl s t" if "t \<notin> A" using links_only_outside [OF assms(1) that] assms(2) [OF that] by simp
  have "TCBTbl s' t = (T t)\<lparr>TCBnext := TCBnext (TCBTbl s' t), TCBprev := TCBprev (TCBTbl s' t)\<rparr>"
    using assms(1) by (simp add: links_only_def)
  then have "tcb_rest (TCBTbl s' t) = tcb_rest (T t)" by (metis tcb_rest_upd(1,2))
  then show "tcb_rest (TCBTbl s' t) = tcb_rest (TCBTbl s t)" using assms(3) by simp
qed

lemma tcb_frame_ins: "ins_frame t rs s s' \<Longrightarrow> tcb_frame (insert t (set rs)) s s'"
  by (rule tcb_frame_links [where T = "(TCBTbl s)(t := (TCBTbl s t)\<lparr>state := TASK_READY\<rparr>)"]) (auto simp: ins_frame_def)

lemma tcb_frame_rem: "rem_frame rs s s' \<Longrightarrow> tcb_frame (set rs) s s'"
  by (rule tcb_frame_links [where T = "TCBTbl s"]) (auto simp: rem_frame_def)

lemma tcb_frame_dly: "dly_frame A s s' \<Longrightarrow> tcb_frame A s s'"
  by (auto simp: dly_frame_def tcb_frame_def intro: tcb_rest_dly_core)

section \<open>What the list operations leave alone\<close>

text \<open>These hold of every state on which the operation returns, well formed or not.\<close>

lemma InsertToTCBRdyList_frame:
  assumes "InsertToTCBRdyList c t s = Some s'"
  shows "rdy_frame s s'"
proof (cases "CFG_ORDER_LIST_SCHEDULE_EN c")
  case True
  with assms show ?thesis
    by (auto simp: InsertToTCBRdyList_def insert_order_list_def Let_def kernel_simps split: option.splits if_splits)
next
  case False
  with assms show ?thesis
    by (auto simp: InsertToTCBRdyList_def insert_binary_def Let_def kernel_simps split: option.splits if_splits)
qed

lemma RemoveFromTCBRdyList_frame:
  assumes "RemoveFromTCBRdyList c t s = Some s'"
  shows "rdy_frame s s'"
proof (cases "rdy_pri_change t s")
  case (Pair ch l)
  with assms show ?thesis
    by (cases l; cases "GetPriSeqNum (prio (TCBTbl s t)) s")
      (auto simp: RemoveFromTCBRdyList_def Let_def split: if_splits)
qed

definition dly_rest :: "kernel \<Rightarrow> kernel \<Rightarrow> bool" where
  "dly_rest s s' \<longleftrightarrow> s'\<lparr>TCBTbl := TCBTbl s, DlyList := DlyList s, TaskSchedReq := TaskSchedReq s\<rparr> = s"

lemma dly_restI [simp]:
  "dly_rest s s"
  "dly_rest s (TCBTbl_update f s') = dly_rest s s'"
  "dly_rest s (DlyList_update g s') = dly_rest s s'"
  "dly_rest s (TaskSchedReq_update h s') = dly_rest s s'"
  by (simp_all add: dly_rest_def)

lemma RemoveDelayList_rest [simp]: "dly_rest s (RemoveDelayList t s') = dly_rest s s'"
  by (simp add: RemoveDelayList_def Let_def split: option.split)

lemma insert_delay_before_rest:
  "insert_delay_before t n w s = Some s' \<Longrightarrow> dly_rest s s'"
  by (auto simp: insert_delay_before_def Let_def kernel_simps split: option.splits)

lemma insert_delay_loop_rest:
  assumes "insert_delay_loop t n w s = Some s'"
  shows "dly_rest s s'"
proof (rule insert_delay_loop.raw_induct [where P = "\<lambda>t n w s s'. dly_rest s s'", OF _ assms])
  fix loop t n w s s'
  assume IH: "\<And>t n w s y. loop t n w s = Some y \<Longrightarrow> dly_rest s y"
    and eq: "(let w = w - tickf s n in
      if sint w < 0 then insert_delay_before t n w s
      else case TCBnext (TCBTbl s n) of
             None \<Rightarrow> let s = upd_tcb t (TCBprev_update (\<lambda>_. Some n)) s;
                          s = upd_tcb n (TCBnext_update (\<lambda>_. Some t)) s
                      in Some (upd_tcb t (delayTick_update (\<lambda>_. w)) s)
           | Some m \<Rightarrow> loop t m w s) = Some s'"
  then show "dly_rest s s'"
    by (auto simp: Let_def split: if_splits option.splits dest: insert_delay_before_rest)
qed

lemma InsertDelayList_rest:
  "InsertDelayList t n s = Some s' \<Longrightarrow> dly_rest s s'"
  by (auto simp: InsertDelayList_def Let_def kernel_simps split: if_splits option.splits
      dest!: insert_delay_loop_rest)

end
