(* ===== verification/EventCore.thy ===== *)
theory EventCore
  imports TaskLists
begin

text \<open>
  \<open>event.c\<close>: the event control blocks behind semaphores, mailboxes and queues, their free list,
  and the waiting list of each event, linked through \<open>waitNext\<close>/\<open>waitPrev\<close> in arrival or in
  priority order.
\<close>

section \<open>Operations\<close>

definition init_ecb :: "U8 \<Rightarrow> voidp \<Rightarrow> ECB \<Rightarrow> ECB" where
  "init_ecb i p e = e\<lparr>eventPtr := p, ecb_id := i, eventType := EVENT_TYPE_INVALID\<rparr>"

definition CreateEventList :: "config \<Rightarrow> kernel \<Rightarrow> kernel" where
  "CreateEventList c s =
     (let n = CFG_MAX_EVENT c - 1;
          s = fold (\<lambda>i. upd_ecb (of_nat i) (init_ecb (of_nat i) (VEcb (of_nat (i + 1))))) [0..<n] s;
          s = upd_ecb (of_nat n) (init_ecb (of_nat n) vnull) s
      in s\<lparr>FreeEventList := Some 0\<rparr>)"

text \<open>A list pointer as the \<open>void*\<close> stored in \<open>eventPtr\<close>, and back.\<close>

definition ecb_to_void :: "P_ECB \<Rightarrow> voidp" where
  "ecb_to_void p = (case p of None \<Rightarrow> vnull | Some e \<Rightarrow> VEcb e)"

definition void_to_ecb :: "voidp \<Rightarrow> P_ECB option" where
  "void_to_ecb v = (case v of VEcb e \<Rightarrow> Some (Some e) | VPtr a \<Rightarrow> if a = 0 then Some None else None
                    | VQcb _ \<Rightarrow> None)"

definition ReleaseECB :: "(kernel \<Rightarrow> kernel option) \<Rightarrow> OS_EventID \<Rightarrow> kernel \<Rightarrow> kernel option" where
  "ReleaseECB unl pecb s =
     (let s = upd_ecb pecb (eventType_update (\<lambda>_. EVENT_TYPE_INVALID)) s;
          s = OsSchedLock s;
          s = upd_ecb pecb (eventPtr_update (\<lambda>_. ecb_to_void (FreeEventList s))) s;
          s = s\<lparr>FreeEventList := Some pecb\<rparr>
      in unl s)"

definition CreatEvent ::
  "(kernel \<Rightarrow> kernel option) \<Rightarrow> event_type \<Rightarrow> U8 \<Rightarrow> voidp \<Rightarrow> kernel \<Rightarrow> (P_ECB \<times> kernel) option" where
  "CreatEvent unl et sortType evPtr s =
     (let s = OsSchedLock s in
      case FreeEventList s of
        None \<Rightarrow> do { s \<leftarrow> unl s; Some (None, s) }
      | Some pecb \<Rightarrow> do {
          f \<leftarrow> void_to_ecb (eventPtr (EventTbl s pecb));
          let s = s\<lparr>FreeEventList := f\<rparr>;
          s \<leftarrow> unl s;
          let s = upd_ecb pecb (\<lambda>e. e\<lparr>eventType := et, eventSortType := sortType,
                                   eventPtr := evPtr, eventTCBList := None\<rparr>) s;
          Some (Some pecb, s)
        })"

text \<open>The loop of \<open>DeleteEvent\<close> that makes every waiting task ready.\<close>

partial_function (option) delete_event_loop ::
  "config \<Rightarrow> OS_EventID \<Rightarrow> kernel \<Rightarrow> kernel option" where
  "delete_event_loop c pecb s =
     (case eventTCBList (EventTbl s pecb) of
        None \<Rightarrow> Some s
      | Some ptcb \<Rightarrow> do {
          let s = stop_delay ptcb s;
          let s = upd_ecb pecb (eventTCBList_update (\<lambda>_. waitNext (TCBTbl s ptcb))) s;
          let s = upd_tcb ptcb (waitNext_update (\<lambda>_. None)) s;
          let s = upd_tcb ptcb (eventID_update (\<lambda>_. INVALID_ID)) s;
          s \<leftarrow> InsertToTCBRdyList c ptcb s;
          delete_event_loop c pecb s
        })"

definition DeleteEvent ::
  "config \<Rightarrow> (kernel \<Rightarrow> kernel option) \<Rightarrow> OS_EventID \<Rightarrow> U8 \<Rightarrow> kernel \<Rightarrow>
   (StatusType \<times> kernel) option" where
  "DeleteEvent c unl pecb opt s =
     (if opt = OPT_DEL_NO_PEND then
        if eventTCBList (EventTbl s pecb) \<noteq> None then Some (E_TASK_WAITING, s)
        else do { s \<leftarrow> ReleaseECB unl pecb s; Some (E_OK, s) }
      else if opt = OPT_DEL_ANYWAY then do {
        let s = OsSchedLock s;
        s \<leftarrow> delete_event_loop c pecb s;
        s \<leftarrow> unl s;
        s \<leftarrow> ReleaseECB unl pecb s;
        Some (E_OK, s)
      }
      else Some (E_OK, s))"

text \<open>The walks of \<open>EventTaskToWait\<close>: to the last task, and to the first of lower priority.\<close>

partial_function (option) wait_tail :: "kernel \<Rightarrow> OS_TID \<Rightarrow> OS_TID option" where
  "wait_tail s ptcb1 =
     (case waitNext (TCBTbl s ptcb1) of None \<Rightarrow> Some ptcb1 | Some n \<Rightarrow> wait_tail s n)"

partial_function (option) wait_place ::
  "kernel \<Rightarrow> U8 \<Rightarrow> OS_TID \<Rightarrow> P_OSTCB \<Rightarrow> (OS_TID \<times> P_OSTCB) option" where
  "wait_place s pri ptcb1 ptcb2 =
     (case ptcb2 of
        None \<Rightarrow> Some (ptcb1, None)
      | Some n \<Rightarrow> if prio (TCBTbl s n) > pri then Some (ptcb1, Some n)
                  else wait_place s pri n (waitNext (TCBTbl s n)))"

definition wait_insert_fifo :: "OS_EventID \<Rightarrow> OS_TID \<Rightarrow> kernel \<Rightarrow> kernel option" where
  "wait_insert_fifo pecb ptcb s =
     (case eventTCBList (EventTbl s pecb) of
        None \<Rightarrow> Some (upd_ecb pecb (eventTCBList_update (\<lambda>_. Some ptcb)) s)
      | Some ptcb1 \<Rightarrow> do {
          ptcb1 \<leftarrow> wait_tail s ptcb1;
          let s = upd_tcb ptcb1 (waitNext_update (\<lambda>_. Some ptcb)) s;
          Some (upd_tcb ptcb (waitPrev_update (\<lambda>_. Some ptcb1)) s)
        })"

definition wait_insert_prio :: "OS_EventID \<Rightarrow> OS_TID \<Rightarrow> kernel \<Rightarrow> kernel option" where
  "wait_insert_prio pecb ptcb s =
     (case eventTCBList (EventTbl s pecb) of
        None \<Rightarrow> Some (upd_ecb pecb (eventTCBList_update (\<lambda>_. Some ptcb)) s)
      | Some ptcb1 \<Rightarrow>
          if prio (TCBTbl s ptcb1) > prio (TCBTbl s ptcb) then
            let s = upd_ecb pecb (eventTCBList_update (\<lambda>_. Some ptcb)) s;
                s = upd_tcb ptcb (waitNext_update (\<lambda>_. Some ptcb1)) s
            in Some (upd_tcb ptcb1 (waitPrev_update (\<lambda>_. Some ptcb)) s)
          else do {
            (ptcb1, ptcb2) \<leftarrow>
              wait_place s (prio (TCBTbl s ptcb)) ptcb1 (waitNext (TCBTbl s ptcb1));
            let s = upd_tcb ptcb1 (waitNext_update (\<lambda>_. Some ptcb)) s;
            let s = upd_tcb ptcb (waitPrev_update (\<lambda>_. Some ptcb1)) s;
            let s = upd_tcb ptcb (waitNext_update (\<lambda>_. ptcb2)) s;
            Some (case ptcb2 of
                    None \<Rightarrow> s
                  | Some n \<Rightarrow> upd_tcb n (waitPrev_update (\<lambda>_. Some ptcb)) s)
          })"

definition EventTaskToWait ::
  "(kernel \<Rightarrow> kernel option) \<Rightarrow> OS_EventID \<Rightarrow> OS_TID \<Rightarrow> kernel \<Rightarrow> kernel option" where
  "EventTaskToWait unl pecb ptcb s = do {
     let s = OsSchedLock s;
     let s = upd_tcb ptcb (eventID_update (\<lambda>_. ecb_id (EventTbl s pecb))) s;
     s \<leftarrow> (if eventSortType (EventTbl s pecb) = EVENT_SORT_TYPE_FIFO then wait_insert_fifo pecb ptcb s
           else if eventSortType (EventTbl s pecb) = EVENT_SORT_TYPE_PRIO
           then wait_insert_prio pecb ptcb s
           else Some s);
     let s = upd_tcb ptcb (state_update (\<lambda>_. TASK_WAITING)) s;
     let s = s\<lparr>TaskSchedReq := True\<rparr>;
     unl s
   }"

text \<open>What the event hands to the task it wakes: the mail, a queue entry, or the semaphore.\<close>

definition the_qcb :: "config \<Rightarrow> voidp \<Rightarrow> P_QCB" where
  "the_qcb c v = (case v of VQcb q \<Rightarrow> if unat q < CFG_MAX_QUEUE c then Some q else None
                  | _ \<Rightarrow> None)"

text \<open>Take the head mail out of a queue: the statements shared by the four receiving places.\<close>

definition qcb_take :: "U8 \<Rightarrow> kernel \<Rightarrow> U32 \<times> kernel" where
  "qcb_take pqcb s =
     (let m = mem s (qStart (QueueTbl s pqcb) + 4 * ucast (qhead (QueueTbl s pqcb)));
          s = upd_qcb pqcb (qhead_update (\<lambda>h. h + 1)) s;
          s = upd_qcb pqcb (qSize_update (\<lambda>n. n - 1)) s;
          s = (if qhead (QueueTbl s pqcb) = qMaxSize (QueueTbl s pqcb)
               then upd_qcb pqcb (qhead_update (\<lambda>_. 0)) s else s)
      in (m, s))"

definition event_deliver :: "config \<Rightarrow> OS_EventID \<Rightarrow> OS_TID \<Rightarrow> kernel \<Rightarrow> kernel option" where
  "event_deliver c pecb ptcb s =
     (case eventType (EventTbl s pecb) of
        EVENT_TYPE_MBOX \<Rightarrow>
          let s = upd_tcb ptcb (pmail_update (\<lambda>_. eventPtr (EventTbl s pecb))) s;
              s = upd_ecb pecb (eventPtr_update (\<lambda>_. vnull)) s
          in Some (upd_ecb pecb (eventCounter_update (\<lambda>n. n - 1)) s)
      | EVENT_TYPE_QUEUE \<Rightarrow> do {
          pqcb \<leftarrow> the_qcb c (eventPtr (EventTbl s pecb));
          let (m, s) = qcb_take pqcb s;
          Some (upd_tcb ptcb (pmail_update (\<lambda>_. VPtr m)) s)
        }
      | EVENT_TYPE_SEM \<Rightarrow>
          let s = upd_ecb pecb (eventCounter_update (\<lambda>n. n - 1)) s
          in Some (upd_tcb ptcb (pmail_update (\<lambda>_. VPtr 0xffffffff)) s)
      | _ \<Rightarrow> Some s)"

text \<open>Take the first waiting task off the list of the event.\<close>

definition event_pop :: "OS_EventID \<Rightarrow> OS_TID \<Rightarrow> kernel \<Rightarrow> kernel" where
  "event_pop pecb ptcb s =
     (let s = upd_ecb pecb (eventTCBList_update (\<lambda>_. waitNext (TCBTbl s ptcb))) s;
          s = (case eventTCBList (EventTbl s pecb) of
                 None \<Rightarrow> s
               | Some n \<Rightarrow> upd_tcb n (waitPrev_update (\<lambda>_. None)) s);
          s = upd_tcb ptcb (waitNext_update (\<lambda>_. None)) s
      in upd_tcb ptcb (eventID_update (\<lambda>_. INVALID_ID)) s)"

definition EventTaskToRdy :: "config \<Rightarrow> OS_EventID \<Rightarrow> kernel \<Rightarrow> kernel option" where
  "EventTaskToRdy c pecb s =
     (case eventTCBList (EventTbl s pecb) of
        None \<Rightarrow> Some s
      | Some ptcb \<Rightarrow> do {
          let s = event_pop pecb ptcb s;
          let s = stop_delay ptcb s;
          s \<leftarrow> event_deliver c pecb ptcb s;
          if TCBRunning s = Some ptcb
          then Some (upd_tcb ptcb (state_update (\<lambda>_. TASK_RUNNING)) s)
          else InsertToTCBRdyList c ptcb s
        })"

definition RemoveEventWaittingList :: "config \<Rightarrow> OS_TID \<Rightarrow> kernel \<Rightarrow> kernel option" where
  "RemoveEventWaittingList c ptcb s = do {
     pecb \<leftarrow> ecb_ptr c (eventID (TCBTbl s ptcb));
     let s =
       (case (waitNext (TCBTbl s ptcb), waitPrev (TCBTbl s ptcb)) of
          (None, None) \<Rightarrow> upd_ecb pecb (eventTCBList_update (\<lambda>_. None)) s
        | (Some n, None) \<Rightarrow>
            let s = upd_tcb n (waitPrev_update (\<lambda>_. None)) s;
                s = upd_ecb pecb (eventTCBList_update (\<lambda>_. Some n)) s
            in upd_tcb ptcb (waitNext_update (\<lambda>_. None)) s
        | (None, Some p) \<Rightarrow>
            let s = upd_tcb p (waitNext_update (\<lambda>_. None)) s
            in upd_tcb ptcb (waitPrev_update (\<lambda>_. None)) s
        | (Some n, Some p) \<Rightarrow>
            let s = upd_tcb p (waitNext_update (\<lambda>_. Some n)) s;
                s = upd_tcb n (waitPrev_update (\<lambda>_. Some p)) s;
                s = upd_tcb ptcb (waitPrev_update (\<lambda>_. None)) s
            in upd_tcb ptcb (waitNext_update (\<lambda>_. None)) s);
     Some (upd_tcb ptcb (eventID_update (\<lambda>_. INVALID_ID)) s)
   }"

section \<open>Waiting lists\<close>

abbreviation wnext :: "kernel \<Rightarrow> OS_TID \<Rightarrow> P_OSTCB" where
  "wnext s \<equiv> (\<lambda>t. waitNext (TCBTbl s t))"

abbreviation wprev :: "kernel \<Rightarrow> OS_TID \<Rightarrow> P_OSTCB" where
  "wprev s \<equiv> (\<lambda>t. waitPrev (TCBTbl s t))"

text \<open>\<open>wait_rep s e xs\<close>: the tasks waiting for event \<open>e\<close> are \<open>xs\<close>, in order.\<close>

definition wait_rep :: "kernel \<Rightarrow> OS_EventID \<Rightarrow> OS_TID list \<Rightarrow> bool" where
  "wait_rep s e xs \<longleftrightarrow> dlist (wnext s) (wprev s) (eventTCBList (EventTbl s e)) xs"

definition wait_free :: "kernel \<Rightarrow> OS_TID \<Rightarrow> bool" where
  "wait_free s t \<longleftrightarrow> waitNext (TCBTbl s t) = None \<and> waitPrev (TCBTbl s t) = None"

text \<open>The place of a new task: at the end, or behind the tasks of equal or higher priority.\<close>

definition wait_order :: "kernel \<Rightarrow> OS_EventID \<Rightarrow> OS_TID \<Rightarrow> OS_TID list \<Rightarrow> OS_TID list" where
  "wait_order s e t xs =
     (if eventSortType (EventTbl s e) = EVENT_SORT_TYPE_FIFO then xs @ [t] else insort_after (priof s) t xs)"

lemma wait_rep_eqI:
  assumes "eventTCBList (EventTbl s' e) = eventTCBList (EventTbl s e)"
    and "\<And>t. t \<in> set xs \<Longrightarrow> wnext s' t = wnext s t \<and> wprev s' t = wprev s t"
  shows "wait_rep s' e xs = wait_rep s e xs"
  unfolding wait_rep_def assms(1) by (rule dlist_cong) (use assms(2) in auto)

text \<open>Linking a task in between \<open>as\<close> and \<open>bs\<close>, and out again.\<close>

definition wait_in :: "OS_TID \<Rightarrow> OS_TID list \<Rightarrow> OS_TID list \<Rightarrow> (OS_TID \<Rightarrow> OSTCB) \<Rightarrow> OS_TID \<Rightarrow> OSTCB" where
  "wait_in t as bs T x =
     (if x = t then (T t)\<lparr>waitNext := hd_ptr bs None, waitPrev := last_ptr None as\<rparr>
      else if as \<noteq> [] \<and> x = last as then (T x)\<lparr>waitNext := Some t\<rparr>
      else if bs \<noteq> [] \<and> x = hd bs then (T x)\<lparr>waitPrev := Some t\<rparr>
      else T x)"

definition wait_out :: "OS_TID \<Rightarrow> OS_TID list \<Rightarrow> OS_TID list \<Rightarrow> (OS_TID \<Rightarrow> OSTCB) \<Rightarrow> OS_TID \<Rightarrow> OSTCB" where
  "wait_out t as bs T x =
     (if x = t then (T t)\<lparr>waitNext := None, waitPrev := None\<rparr>
      else if as \<noteq> [] \<and> x = last as then (T x)\<lparr>waitNext := hd_ptr bs None\<rparr>
      else if bs \<noteq> [] \<and> x = hd bs then (T x)\<lparr>waitPrev := last_ptr None as\<rparr>
      else T x)"

abbreviation set_wait :: "OS_EventID \<Rightarrow> P_OSTCB \<Rightarrow> (OS_TID \<Rightarrow> OSTCB) \<Rightarrow> kernel \<Rightarrow> kernel" where
  "set_wait e h T s \<equiv> s\<lparr>EventTbl := (EventTbl s)(e := (EventTbl s e)\<lparr>eventTCBList := h\<rparr>), TCBTbl := T\<rparr>"

lemma distinct_ends:
  assumes "distinct (as @ t # bs)"
  shows "as \<noteq> [] \<Longrightarrow> last as \<notin> set bs" "as \<noteq> [] \<Longrightarrow> last as \<noteq> t"
    "bs \<noteq> [] \<Longrightarrow> hd bs \<notin> set as" "bs \<noteq> [] \<Longrightarrow> hd bs \<noteq> t"
    "as \<noteq> [] \<Longrightarrow> bs \<noteq> [] \<Longrightarrow> hd bs \<noteq> last as"
  using assms by (cases as rule: rev_cases; cases bs; auto)+

lemma wait_rep_in:
  assumes "wait_rep s e (as @ bs)" and "t \<notin> set (as @ bs)"
  shows "wait_rep (set_wait e (hd_ptr (as @ t # bs) None) (wait_in t as bs (TCBTbl s)) s) e (as @ t # bs)"
proof -
  have d: "distinct (as @ t # bs)" and ch: "dchain (wnext s) (wprev s) None (as @ bs) None"
    using assms by (auto simp: wait_rep_def dlist_def)
  note x = distinct_ends [OF d]
  have "dchain (\<lambda>a. waitNext (wait_in t as bs (TCBTbl s) a)) (\<lambda>a. waitPrev (wait_in t as bs (TCBTbl s) a))
      None (as @ t # bs) None"
    by (rule dchain_insert [OF ch d]) (use assms(2) x in \<open>auto simp: wait_in_def\<close>)
  with d show ?thesis by (simp add: wait_rep_def dlist_def)
qed

lemma wait_rep_out:
  assumes "wait_rep s e (as @ t # bs)"
  shows "wait_rep (set_wait e (hd_ptr (as @ bs) None) (wait_out t as bs (TCBTbl s)) s) e (as @ bs)"
proof -
  have d: "distinct (as @ t # bs)" and ch: "dchain (wnext s) (wprev s) None (as @ t # bs) None"
    using assms by (auto simp: wait_rep_def dlist_def)
  note x = distinct_ends [OF d]
  have "dchain (\<lambda>a. waitNext (wait_out t as bs (TCBTbl s) a)) (\<lambda>a. waitPrev (wait_out t as bs (TCBTbl s) a))
      None (as @ bs) None"
    by (rule dchain_remove [OF ch d]) (use d x in \<open>auto simp: wait_out_def\<close>)
  with d show ?thesis by (simp add: wait_rep_def dlist_def)
qed

section \<open>Insertion\<close>

lemma wait_tail_chain:
  assumes "dchain (wnext s) (wprev s) p (x # xs) None"
  shows "wait_tail s x = Some (last (x # xs))"
  using assms
proof (induction xs arbitrary: p x)
  case Nil
  then show ?case by (subst wait_tail.simps) simp
next
  case (Cons y ys)
  then have "wait_tail s y = Some (last (y # ys))" by (intro Cons.IH [of "Some x"]) simp
  with Cons.prems show ?case by (subst wait_tail.simps) simp
qed

lemma wait_place_chain:
  assumes "dchain (wnext s) (wprev s) p ys None"
  shows "wait_place s pri t (hd_ptr ys None) =
    Some (the (last_ptr (Some t) (takeWhile (\<lambda>y. \<not> pri < priof s y) ys)),
          hd_ptr (dropWhile (\<lambda>y. \<not> pri < priof s y) ys) None)"
  using assms
proof (induction ys arbitrary: t p)
  case Nil
  then show ?case by (simp add: wait_place.simps)
next
  case (Cons y ys)
  then have "wnext s y = hd_ptr ys None" and "dchain (wnext s) (wprev s) (Some y) ys None" by auto
  with Cons.IH [of "Some y" y] show ?case by (subst wait_place.simps) auto
qed

lemma wait_insert_fifo_eq:
  assumes "wait_rep s e xs" and "t \<notin> set xs" and "wait_free s t"
  shows "wait_insert_fifo e t s =
    Some (set_wait e (hd_ptr (xs @ [t]) None) (wait_in t xs [] (TCBTbl s)) s)"
proof (cases xs)
  case Nil
  then have "eventTCBList (EventTbl s e) = None" using assms(1) by (simp add: wait_rep_def dlist_def)
  moreover have "wait_in t [] [] (TCBTbl s) = TCBTbl s"
    using assms(3) by (auto simp: wait_in_def wait_free_def fun_eq_iff intro!: OSTCB.equality)
  ultimately show ?thesis using Nil by (simp add: wait_insert_fifo_def)
next
  case (Cons p ps)
  have h: "eventTCBList (EventTbl s e) = Some p" and ch: "dchain (wnext s) (wprev s) None (p # ps) None"
    using assms(1) Cons by (auto simp: wait_rep_def dlist_def)
  obtain l where l: "wait_tail s p = Some l" "last xs = l" "l \<noteq> t"
    using wait_tail_chain [OF ch] Cons assms(2) by (metis last_in_set list.distinct(1))
  have "wait_insert_fifo e t s = Some (upd_tcb t (waitPrev_update (\<lambda>_. Some l)) (upd_tcb l (waitNext_update (\<lambda>_. Some t)) s))"
    using h l by (simp add: wait_insert_fifo_def)
  also have "upd_tcb t (waitPrev_update (\<lambda>_. Some l)) (upd_tcb l (waitNext_update (\<lambda>_. Some t)) s) =
      set_wait e (Some p) (wait_in t xs [] (TCBTbl s)) s"
    using h l Cons assms(3)
    by (intro kernel.equality) (auto simp: fun_eq_iff wait_in_def wait_free_def last_ptr_def)
  finally show ?thesis using Cons by simp
qed

lemma wait_insert_prio_eq:
  assumes "wait_rep s e xs" and "t \<notin> set xs" and "wait_free s t"
    and "as = takeWhile (\<lambda>y. \<not> priof s t < priof s y) xs"
    and "bs = dropWhile (\<lambda>y. \<not> priof s t < priof s y) xs"
  shows "wait_insert_prio e t s =
    Some (set_wait e (hd_ptr (as @ t # bs) None) (wait_in t as bs (TCBTbl s)) s)"
proof (cases as)
  case Nil
  show ?thesis
  proof (cases xs)
    case Nil': Nil
    then have "eventTCBList (EventTbl s e) = None" using assms(1) by (simp add: wait_rep_def dlist_def)
    moreover have "wait_in t [] [] (TCBTbl s) = TCBTbl s"
      using assms(3) by (auto simp: wait_in_def wait_free_def fun_eq_iff intro!: OSTCB.equality)
    ultimately show ?thesis using Nil' assms(4,5) by (simp add: wait_insert_prio_def)
  next
    case (Cons p ps)
    then have p: "priof s t < priof s p" "bs = p # ps" using Nil assms(4,5) by (auto split: if_splits)
    have h: "eventTCBList (EventTbl s e) = Some p" using assms(1) Cons by (simp add: wait_rep_def dlist_def)
    have "p \<noteq> t" using assms(2) Cons by auto
    then have "upd_tcb p (waitPrev_update (\<lambda>_. Some t)) (upd_tcb t (waitNext_update (\<lambda>_. Some p))
        (upd_ecb e (eventTCBList_update (\<lambda>_. Some t)) s)) = set_wait e (Some t) (wait_in t [] bs (TCBTbl s)) s"
      using p(2) assms(3) by (intro kernel.equality) (auto simp: fun_eq_iff wait_in_def wait_free_def)
    with h p(1) show ?thesis using Nil by (simp add: wait_insert_prio_def Let_def)
  qed
next
  case (Cons a as')
  then obtain ps where xs: "xs = a # ps" and pa: "\<not> priof s t < priof s a"
    using assms(4) by (cases xs) (auto split: if_splits)
  have h: "eventTCBList (EventTbl s e) = Some a" and ch: "dchain (wnext s) (wprev s) (Some a) ps None"
    and nx: "wnext s a = hd_ptr ps None"
    using assms(1) xs by (auto simp: wait_rep_def dlist_def)
  have xs2: "as @ bs = xs" unfolding assms(4,5) by simp
  have "distinct (as @ bs)" "t \<notin> set (as @ bs)"
    unfolding xs2 using assms(1,2) by (auto simp: wait_rep_def dlist_def)
  then have d: "distinct (as @ t # bs)" by auto
  obtain l where le: "last as = l" by blast
  have ne: "as \<noteq> []" using Cons by simp
  have l: "l \<noteq> t" "bs \<noteq> [] \<Longrightarrow> hd bs \<noteq> l" "bs \<noteq> [] \<Longrightarrow> hd bs \<noteq> t"
    using distinct_ends [OF d] ne le by auto
  have "wait_place s (priof s t) a (hd_ptr ps None) = Some (l, hd_ptr bs None)"
    using wait_place_chain [OF ch, of "priof s t" a] xs pa assms(4,5) le by (simp add: last_ptr_def split: if_splits)
  then have "wait_insert_prio e t s =
      Some (case hd_ptr bs None of None \<Rightarrow> upd_tcb t (waitNext_update (\<lambda>_. hd_ptr bs None))
         (upd_tcb t (waitPrev_update (\<lambda>_. Some l)) (upd_tcb l (waitNext_update (\<lambda>_. Some t)) s))
       | Some n \<Rightarrow> upd_tcb n (waitPrev_update (\<lambda>_. Some t)) (upd_tcb t (waitNext_update (\<lambda>_. hd_ptr bs None))
         (upd_tcb t (waitPrev_update (\<lambda>_. Some l)) (upd_tcb l (waitNext_update (\<lambda>_. Some t)) s))))"
    using h nx pa by (simp add: wait_insert_prio_def Let_def)
  also have "\<dots> = Some (set_wait e (Some a) (wait_in t as bs (TCBTbl s)) s)"
    using l h ne le by (cases bs; simp) (rule kernel.equality; auto simp: fun_eq_iff wait_in_def last_ptr_def)+
  finally show ?thesis using Cons by simp
qed

text \<open>
  \<open>wait_frame A e s s'\<close>: only the head of the waiting list of \<open>e\<close> and the waiting links and
  event identifiers of the tasks in \<open>A\<close> differ.
\<close>

definition wait_core :: "OSTCB \<Rightarrow> OSTCB" where
  "wait_core b = b\<lparr>waitNext := None, waitPrev := None, eventID := 0\<rparr>"

definition wait_frame :: "OS_TID set \<Rightarrow> OS_EventID \<Rightarrow> kernel \<Rightarrow> kernel \<Rightarrow> bool" where
  "wait_frame A e s s' \<longleftrightarrow> s'\<lparr>TCBTbl := TCBTbl s, EventTbl := EventTbl s\<rparr> = s \<and>
     (\<forall>t. (t \<notin> A \<longrightarrow> TCBTbl s' t = TCBTbl s t) \<and> wait_core (TCBTbl s' t) = wait_core (TCBTbl s t)) \<and>
     (\<forall>e'. (e' \<noteq> e \<longrightarrow> EventTbl s' e' = EventTbl s e') \<and>
           (EventTbl s' e')\<lparr>eventTCBList := None\<rparr> = (EventTbl s e')\<lparr>eventTCBList := None\<rparr>)"

lemma wait_core_upd [simp]:
  "wait_core (waitNext_update f b) = wait_core b" "wait_core (waitPrev_update f b) = wait_core b"
  "wait_core (eventID_update g b) = wait_core b"
  by (simp_all add: wait_core_def)

lemma wait_frameI:
  assumes "\<And>u. u \<notin> A \<Longrightarrow> T u = TCBTbl s u" and "\<And>u. wait_core (T u) = wait_core (TCBTbl s u)"
  shows "wait_frame A e s (set_wait e h T s)"
  using assms by (simp add: wait_frame_def)

lemma wait_in_core [simp]: "wait_core (wait_in t as bs T u) = wait_core (T u)"
  by (simp add: wait_in_def)

lemma wait_out_core [simp]: "wait_core (wait_out t as bs T u) = wait_core (T u)"
  by (simp add: wait_out_def)

lemma wait_in_outside: "u \<notin> insert t (set as \<union> set bs) \<Longrightarrow> wait_in t as bs T u = T u"
  by (auto simp: wait_in_def)

lemma wait_out_outside: "u \<notin> insert t (set as \<union> set bs) \<Longrightarrow> wait_out t as bs T u = T u"
  by (auto simp: wait_out_def)

lemma wait_insert_ok:
  assumes "wait_rep s e xs" and "t \<notin> set xs" and "wait_free s t"
    and "eventSortType (EventTbl s e) = EVENT_SORT_TYPE_FIFO \<or> eventSortType (EventTbl s e) = EVENT_SORT_TYPE_PRIO"
  shows "\<exists>as bs. as @ bs = xs \<and> wait_order s e t xs = as @ t # bs \<and>
    (if eventSortType (EventTbl s e) = EVENT_SORT_TYPE_FIFO then wait_insert_fifo e t s else wait_insert_prio e t s) =
      Some (set_wait e (hd_ptr (as @ t # bs) None) (wait_in t as bs (TCBTbl s)) s)"
proof (cases "eventSortType (EventTbl s e) = EVENT_SORT_TYPE_FIFO")
  case True
  with wait_insert_fifo_eq [OF assms(1-3)] show ?thesis
    by (intro exI [of _ xs] exI [of _ "[]"]) (simp add: wait_order_def)
next
  case False
  with wait_insert_prio_eq [OF assms(1-3) refl refl] show ?thesis
    by (intro exI [of _ "takeWhile (\<lambda>y. \<not> priof s t < priof s y) xs"]
        exI [of _ "dropWhile (\<lambda>y. \<not> priof s t < priof s y) xs"])
      (simp add: wait_order_def insort_after_split)
qed

lemma EventTaskToWait_ok:
  assumes "wait_rep s e xs" and "t \<notin> set xs" and "wait_free s t"
    and "eventSortType (EventTbl s e) = EVENT_SORT_TYPE_FIFO \<or> eventSortType (EventTbl s e) = EVENT_SORT_TYPE_PRIO"
  shows "\<exists>s1. EventTaskToWait unl e t s =
      unl (upd_tcb t (state_update (\<lambda>_. TASK_WAITING)) s1\<lparr>OSSchedLock := OSSchedLock s + 1, TaskSchedReq := True\<rparr>) \<and>
    wait_rep s1 e (wait_order s e t xs) \<and> eventID (TCBTbl s1 t) = ecb_id (EventTbl s e) \<and>
    wait_frame (insert t (set xs)) e s s1"
proof -
  let ?T = "(TCBTbl s)(t := (TCBTbl s t)\<lparr>eventID := ecb_id (EventTbl s e)\<rparr>)"
  let ?s0 = "s\<lparr>OSSchedLock := OSSchedLock s + 1, TCBTbl := ?T\<rparr>"
  have w: "wnext ?s0 = wnext s" "wprev ?s0 = wprev s" "priof ?s0 = priof s" by auto
  have r: "wait_rep ?s0 e xs" "wait_free ?s0 t" "wait_order ?s0 e t xs = wait_order s e t xs"
    using assms(1,3) unfolding wait_rep_def wait_free_def wait_order_def w by simp_all
  obtain as bs where ab: "as @ bs = xs" "wait_order s e t xs = as @ t # bs"
    "(if eventSortType (EventTbl s e) = EVENT_SORT_TYPE_FIFO then wait_insert_fifo e t ?s0 else wait_insert_prio e t ?s0) =
      Some (set_wait e (hd_ptr (as @ t # bs) None) (wait_in t as bs ?T) ?s0)"
    using wait_insert_ok [OF r(1) assms(2) r(2)] assms(4) r(3) by auto
  let ?s1 = "set_wait e (hd_ptr (as @ t # bs) None) (wait_in t as bs ?T) s"
  have "wait_rep ?s0 e (as @ bs)" "t \<notin> set (as @ bs)" using r(1) assms(2) ab(1) by simp_all
  from wait_rep_in [OF this] have "wait_rep ?s1 e (as @ t # bs)" by (simp add: wait_rep_def)
  moreover have "wait_frame (insert t (set xs)) e s ?s1"
    by (rule wait_frameI) (use ab(1) wait_in_outside [of _ t as bs] in auto)
  moreover have "eventID (TCBTbl ?s1 t) = ecb_id (EventTbl s e)" by (simp add: wait_in_def)
  moreover have "EventTaskToWait unl e t s =
      unl (upd_tcb t (state_update (\<lambda>_. TASK_WAITING)) ?s1\<lparr>OSSchedLock := OSSchedLock s + 1, TaskSchedReq := True\<rparr>)"
  proof -
    define s0 s2 where "s0 = ?s0" and "s2 = set_wait e (hd_ptr (as @ t # bs) None) (wait_in t as bs ?T) ?s0"
    have "upd_tcb t (eventID_update (\<lambda>_. ecb_id (EventTbl s e))) (OsSchedLock s) = s0"
      unfolding s0_def by (intro kernel.equality) (simp_all add: OsSchedLock_def)
    moreover have "EventTbl (OsSchedLock s) = EventTbl s" "EventTbl s0 = EventTbl s"
      by (simp_all add: s0_def OsSchedLock_def)
    moreover note ab(3) [folded s0_def s2_def]
    ultimately have "EventTaskToWait unl e t s = unl (upd_tcb t (state_update (\<lambda>_. TASK_WAITING)) s2\<lparr>TaskSchedReq := True\<rparr>)"
      using assms(4) by (auto simp: EventTaskToWait_def Let_def split: if_splits)
    then have "EventTaskToWait unl e t s = unl (upd_tcb t (state_update (\<lambda>_. TASK_WAITING))
        (set_wait e (hd_ptr (as @ t # bs) None) (wait_in t as bs ?T) ?s0)\<lparr>TaskSchedReq := True\<rparr>)"
      unfolding s2_def .
    also have "upd_tcb t (state_update (\<lambda>_. TASK_WAITING))
        (set_wait e (hd_ptr (as @ t # bs) None) (wait_in t as bs ?T) ?s0)\<lparr>TaskSchedReq := True\<rparr> =
      upd_tcb t (state_update (\<lambda>_. TASK_WAITING)) ?s1\<lparr>OSSchedLock := OSSchedLock s + 1, TaskSchedReq := True\<rparr>"
      by (intro kernel.equality) simp_all
    finally show ?thesis .
  qed
  ultimately show ?thesis using ab(2) by (intro exI [of _ ?s1]) (simp add: ab(2))
qed

section \<open>Removal\<close>

lemma RemoveEventWaittingList_ok:
  assumes "wait_rep s e (as @ t # bs)" and "eventID (TCBTbl s t) = e" and "unat e < CFG_MAX_EVENT c"
  shows "\<exists>s'. RemoveEventWaittingList c t s = Some s' \<and> wait_rep s' e (as @ bs) \<and> wait_free s' t \<and>
    eventID (TCBTbl s' t) = INVALID_ID \<and> wait_frame (insert t (set (as @ bs))) e s s'"
proof -
  have n: "waitNext (TCBTbl s t) = hd_ptr bs None" and p: "waitPrev (TCBTbl s t) = last_ptr None as"
    and d: "distinct (as @ t # bs)" and h: "eventTCBList (EventTbl s e) = hd_ptr (as @ t # bs) None"
    using assms(1) by (auto simp: wait_rep_def dlist_def)
  note x = distinct_ends [OF d]
  let ?T = "(wait_out t as bs (TCBTbl s))(t := (wait_out t as bs (TCBTbl s) t)\<lparr>eventID := INVALID_ID\<rparr>)"
  let ?s = "set_wait e (hd_ptr (as @ bs) None) ?T s"
  have "RemoveEventWaittingList c t s = Some ?s"
  proof (cases bs; cases as rule: rev_cases)
    assume e: "bs = []" "as = []"
    with n p assms(2,3) show ?thesis
      by (simp add: RemoveEventWaittingList_def ecb_ptr_def)
        (rule kernel.equality; simp add: fun_eq_iff wait_out_def)
  next
    fix ys y assume e: "bs = []" "as = ys @ [y]"
    with x(2) have "y \<noteq> t" by simp
    with e n p h assms(2,3) show ?thesis
      by (simp add: RemoveEventWaittingList_def ecb_ptr_def)
        (rule kernel.equality; simp add: fun_eq_iff wait_out_def)
  next
    fix z zs assume e: "bs = z # zs" "as = []"
    with x(4) have "z \<noteq> t" by simp
    with e n p h assms(2,3) show ?thesis
      by (simp add: RemoveEventWaittingList_def ecb_ptr_def)
        (rule kernel.equality; simp add: fun_eq_iff wait_out_def)
  next
    fix z zs ys y assume e: "bs = z # zs" "as = ys @ [y]"
    with x have "y \<noteq> t" "z \<noteq> t" "z \<noteq> y" by auto
    with e n p h assms(2,3) show ?thesis
      by (simp add: RemoveEventWaittingList_def ecb_ptr_def)
        (rule kernel.equality; simp add: fun_eq_iff wait_out_def)
  qed
  moreover have "wait_rep ?s e (as @ bs)"
    using wait_rep_out [OF assms(1)] d by (auto simp: wait_rep_def elim: dlist_cong [THEN iffD1, rotated 2])
  moreover have "wait_free ?s t" by (simp add: wait_free_def wait_out_def)
  moreover have "wait_frame (insert t (set (as @ bs))) e s ?s"
    by (rule wait_frameI) (use wait_out_outside [of _ t as bs] in auto)
  ultimately show ?thesis by (intro exI [of _ ?s]) simp
qed

section \<open>Waking\<close>

text \<open>What the event hands over depends on the event, the queues and the mail memory only.\<close>

lemma event_deliver_cong:
  assumes "event_deliver c e t s = Some sd"
    and "EventTbl s2 = (EventTbl s)(e := (EventTbl s e)\<lparr>eventTCBList := h\<rparr>)"
    and "QueueTbl s2 = QueueTbl s" and "mem s2 = mem s" and "pmail (TCBTbl s2 t) = pmail (TCBTbl s t)"
  shows "event_deliver c e t s2 =
    Some (s2\<lparr>TCBTbl := (TCBTbl s2)(t := (TCBTbl s2 t)\<lparr>pmail := pmail (TCBTbl sd t)\<rparr>),
             EventTbl := (EventTbl sd)(e := (EventTbl sd e)\<lparr>eventTCBList := h\<rparr>), QueueTbl := QueueTbl sd\<rparr>)"
proof (cases "eventType (EventTbl s e)")
  case EVENT_TYPE_QUEUE
  with assms obtain q where q: "the_qcb c (eventPtr (EventTbl s e)) = Some q"
    by (auto simp: event_deliver_def kernel_simps)
  with EVENT_TYPE_QUEUE assms show ?thesis
    by (auto simp: event_deliver_def qcb_take_def Let_def intro!: kernel.equality)
qed (use assms in \<open>auto simp: event_deliver_def Let_def intro!: kernel.equality\<close>)

lemma event_deliver_list [simp]:
  "event_deliver c e t s = Some sd \<Longrightarrow> eventTCBList (EventTbl sd e') = eventTCBList (EventTbl s e')"
  by (cases "eventType (EventTbl s e)"; cases "the_qcb c (eventPtr (EventTbl s e))")
    (auto simp: event_deliver_def qcb_take_def Let_def)

lemma event_deliver_outcome:
  assumes "event_deliver c e t s = Some sd"
  shows "eventType (EventTbl s e) = EVENT_TYPE_SEM \<Longrightarrow>
      pmail (TCBTbl sd t) = VPtr 0xffffffff \<and> QueueTbl sd = QueueTbl s \<and>
      EventTbl sd = (EventTbl s)(e := (EventTbl s e)\<lparr>eventCounter := eventCounter (EventTbl s e) - 1\<rparr>)"
    and "eventType (EventTbl s e) = EVENT_TYPE_MBOX \<Longrightarrow>
      pmail (TCBTbl sd t) = eventPtr (EventTbl s e) \<and> QueueTbl sd = QueueTbl s \<and>
      EventTbl sd = (EventTbl s)(e := (EventTbl s e)\<lparr>eventPtr := vnull,
        eventCounter := eventCounter (EventTbl s e) - 1\<rparr>)"
    and "eventType (EventTbl s e) = EVENT_TYPE_QUEUE \<Longrightarrow> eventPtr (EventTbl s e) = VQcb q \<Longrightarrow>
      pmail (TCBTbl sd t) = VPtr (mem s (qStart (QueueTbl s q) + 4 * ucast (qhead (QueueTbl s q)))) \<and>
      QueueTbl sd = (QueueTbl s)(q := (QueueTbl s q)\<lparr>
        qhead := (if qhead (QueueTbl s q) + 1 = qMaxSize (QueueTbl s q) then 0 else qhead (QueueTbl s q) + 1),
        qSize := qSize (QueueTbl s q) - 1\<rparr>) \<and> EventTbl sd = EventTbl s"
  using assms by (auto simp: event_deliver_def Let_def the_qcb_def qcb_take_def split: if_splits)

lemma wait_frame_lists: "wait_frame A e s s' \<Longrightarrow> same_lists s s'"
proof -
  assume f: "wait_frame A e s s'"
  have c: "wait_core (TCBTbl s' t) = wait_core (TCBTbl s t)" for t using f by (simp add: wait_frame_def)
  have "prio (TCBTbl s' t) = prio (TCBTbl s t)" "taskID (TCBTbl s' t) = taskID (TCBTbl s t)"
    "nextf s' t = nextf s t" "prevf s' t = prevf s t" "tickf s' t = tickf s t" for t
    using arg_cong [OF c [of t], of prio] arg_cong [OF c [of t], of taskID] arg_cong [OF c [of t], of TCBnext]
      arg_cong [OF c [of t], of TCBprev] arg_cong [OF c [of t], of delayTick]
    by (simp_all add: wait_core_def)
  moreover have "s'\<lparr>TCBTbl := TCBTbl s, EventTbl := EventTbl s\<rparr> = s" using f by (simp add: wait_frame_def)
  then have "TCBRdy s' = TCBRdy s" "PriNum s' = PriNum s" "ActivePri s' = ActivePri s"
    "RdyTaskPri s' = RdyTaskPri s" "RdyTaskPriInfo s' = RdyTaskPriInfo s" "DlyList s' = DlyList s"
    by (cases s; cases s'; simp)+
  ultimately show "same_lists s s'" by (simp add: same_lists_def)
qed

text \<open>\<open>EventTaskToRdy\<close> on an event that has waiting tasks.\<close>

lemma EventTaskToRdy_ok:
  assumes "wait_rep s e (t # xs)" and "lists_inv c s rs ds" and "sleeping c s rs ds t"
    and "TCBRunning s \<noteq> Some t" and "event_deliver c e t s = Some sd"
  shows "\<exists>s'. EventTaskToRdy c e s = Some s' \<and> wait_rep s' e xs \<and> wait_free s' t \<and>
    lists_inv c s' (insort_after (priof s) t rs) (filter (\<lambda>p. fst p \<noteq> t) ds) \<and>
    state (TCBTbl s' t) = TASK_READY \<and> eventID (TCBTbl s' t) = INVALID_ID \<and>
    delayTick (TCBTbl s' t) = INVALID_VALUE \<and> pmail (TCBTbl s' t) = pmail (TCBTbl sd t) \<and>
    EventTbl s' = (EventTbl sd)(e := (EventTbl sd e)\<lparr>eventTCBList := hd_ptr xs None\<rparr>) \<and>
    QueueTbl s' = QueueTbl sd"
proof -
  have h: "eventTCBList (EventTbl s e) = Some t" and n: "waitNext (TCBTbl s t) = hd_ptr xs None"
    and p: "waitPrev (TCBTbl s t) = None" and tx: "t \<notin> set xs"
    using assms(1) by (auto simp: wait_rep_def dlist_def)
  define s1 where "s1 = set_wait e (hd_ptr xs None)
    ((wait_out t [] xs (TCBTbl s))(t := (wait_out t [] xs (TCBTbl s) t)\<lparr>eventID := INVALID_ID\<rparr>)) s"
  have s1: "event_pop e t s = s1"
  proof (cases xs)
    case Nil
    with n p show ?thesis unfolding s1_def
      by (simp add: event_pop_def) (rule kernel.equality; simp add: fun_eq_iff wait_out_def)
  next
    case (Cons m ys)
    with tx have "m \<noteq> t" by auto
    with Cons n p show ?thesis unfolding s1_def
      by (simp add: event_pop_def) (rule kernel.equality; simp add: fun_eq_iff wait_out_def)
  qed
  define s2 where "s2 = stop_delay t s1"
  have "wait_frame (insert t (set xs)) e s s1"
    unfolding s1_def by (rule wait_frameI) (use wait_out_outside [of _ t "[]" xs] in auto)
  note sl = wait_frame_lists [OF this, THEN same_lists_cong(1)] wait_frame_lists [OF this, THEN same_lists_cong(2)]
  have L1: "lists_inv c s1 rs ds" "sleeping c s1 rs ds t" using assms(2,3) sl by simp_all
  note D = stop_delay_ok [OF L1, folded s2_def]
  have s1f: "EventTbl s1 = (EventTbl s)(e := (EventTbl s e)\<lparr>eventTCBList := hd_ptr xs None\<rparr>)"
    "QueueTbl s1 = QueueTbl s" "mem s1 = mem s" "pmail (TCBTbl s1 t) = pmail (TCBTbl s t)"
    "TCBRunning s1 = TCBRunning s" "priof s1 = priof s" "eventID (TCBTbl s1 t) = INVALID_ID"
    by (auto simp: s1_def wait_out_def fun_eq_iff)
  define s3 where "s3 = s2\<lparr>TCBTbl := (TCBTbl s2)(t := (TCBTbl s2 t)\<lparr>pmail := pmail (TCBTbl sd t)\<rparr>),
             EventTbl := (EventTbl sd)(e := (EventTbl sd e)\<lparr>eventTCBList := hd_ptr xs None\<rparr>), QueueTbl := QueueTbl sd\<rparr>"
  have dlv: "event_deliver c e t s2 = Some s3"
    unfolding s3_def by (rule event_deliver_cong [OF assms(5)])
      (simp_all add: dly_frame_rest [OF D(4)] dly_frame_simps [OF D(4)] s1f)
  have "same_lists s2 s3" by (simp add: same_lists_def s3_def)
  note sl3 = same_lists_cong [OF this]
  have notin: "t \<notin> set rs" using assms(3) by (simp add: sleeping_def)
  obtain s4 where s4: "InsertToTCBRdyList c t s3 = Some s4"
    "lists_inv c s4 (insort_after (priof s3) t rs) (filter (\<lambda>p. fst p \<noteq> t) ds)" "ins_frame t rs s3 s4"
    using lists_insert_ok [of c s3 rs "filter (\<lambda>p. fst p \<noteq> t) ds" t] D(1,2) sl3 notin by auto
  have pr: "priof s3 = priof s"
    using s1f(6) by (auto simp: s3_def dly_frame_simps [OF D(4)] fun_eq_iff)
  have "TCBRunning s3 \<noteq> Some t" using assms(4) s1f(5) by (simp add: s3_def dly_frame_rest [OF D(4)])
  then have "EventTaskToRdy c e s = Some s4"
    using s1 dlv s4(1) by (simp add: EventTaskToRdy_def h flip: s2_def)
  moreover have w1: "wait_rep s1 e xs" "wait_free s1 t"
  proof -
    have "wait_rep (set_wait e (hd_ptr xs None) (wait_out t [] xs (TCBTbl s)) s) e xs"
      using wait_rep_out [of s e "[]" t xs] assms(1) by simp
    moreover have "wait_rep s1 e xs = wait_rep (set_wait e (hd_ptr xs None) (wait_out t [] xs (TCBTbl s)) s) e xs"
      by (rule wait_rep_eqI) (simp_all add: s1_def)
    ultimately show "wait_rep s1 e xs" by simp
    show "wait_free s1 t" by (simp add: wait_free_def s1_def wait_out_def)
  qed
  have rf: "rdy_frame s3 s4" using s4(3) by (simp add: ins_frame_def)
  have E4: "EventTbl s4 = (EventTbl sd)(e := (EventTbl sd e)\<lparr>eventTCBList := hd_ptr xs None\<rparr>)" "QueueTbl s4 = QueueTbl sd"
    using rdy_frameD [OF rf] by (simp_all add: s3_def)
  have w4: "wnext s4 u = wnext s1 u" "wprev s4 u = wprev s1 u" for u
    by (simp_all add: ins_frame_tcb [OF s4(3)] s3_def dly_frame_simps [OF D(4)])
  have "wait_rep s4 e xs" using w1(1) unfolding wait_rep_def w4 E4 s1f by simp
  moreover have "wait_free s4 t" using w1(2) unfolding wait_free_def w4 by simp
  moreover have "state (TCBTbl s4 t) = TASK_READY" "eventID (TCBTbl s4 t) = INVALID_ID"
    "delayTick (TCBTbl s4 t) = INVALID_VALUE" "pmail (TCBTbl s4 t) = pmail (TCBTbl sd t)"
    using D(3) s1f(7) by (simp_all add: ins_frame_tcb [OF s4(3)] s3_def dly_frame_simps [OF D(4)])
  ultimately show ?thesis using s4(2) E4 pr by auto
qed

section \<open>What waking leaves alone\<close>

lemma stop_delay_rest [simp]: "dly_rest s (stop_delay t s') = dly_rest s s'"
  by (simp add: stop_delay_def)

definition ev_rest :: "kernel \<Rightarrow> kernel \<Rightarrow> bool" where
  "ev_rest s s' \<longleftrightarrow> mem s' = mem s \<and> OSSchedLock s' = OSSchedLock s \<and> OSIntNesting s' = OSIntNesting s \<and>
     IsrReq s' = IsrReq s \<and> TimeReq s' = TimeReq s \<and> TimerReq s' = TimerReq s \<and> ServiceReq s' = ServiceReq s \<and>
     TCBRunning s' = TCBRunning s \<and> TCBNext s' = TCBNext s"

lemma ev_rest_trans: "ev_rest s s' \<Longrightarrow> ev_rest s' s'' \<Longrightarrow> ev_rest s s''"
  by (simp add: ev_rest_def)

lemma dly_rest_ev: "dly_rest s s' \<Longrightarrow> ev_rest s s'"
  by (cases s; cases s'; simp add: dly_rest_def ev_rest_def)

lemma rdy_frame_ev: "rdy_frame s s' \<Longrightarrow> ev_rest s s'"
  using rdy_frameD [of s s'] by (simp add: ev_rest_def)

lemma event_pop_ev: "ev_rest s (event_pop e t s)"
  by (simp add: event_pop_def ev_rest_def Let_def split: option.split)

lemma event_deliver_ev: "event_deliver c e t s = Some s' \<Longrightarrow> ev_rest s s'"
  by (cases "eventType (EventTbl s e)"; cases "the_qcb c (eventPtr (EventTbl s e))")
    (auto simp: event_deliver_def qcb_take_def Let_def ev_rest_def split: if_splits)

lemma EventTaskToRdy_ev:
  assumes "EventTaskToRdy c e s = Some s'"
  shows "ev_rest s s'"
proof (cases "eventTCBList (EventTbl s e)")
  case None
  with assms show ?thesis by (simp add: EventTaskToRdy_def ev_rest_def)
next
  case (Some t)
  let ?s1 = "stop_delay t (event_pop e t s)"
  obtain s2 where s2: "event_deliver c e t ?s1 = Some s2"
    and s': "(if TCBRunning s2 = Some t then Some (upd_tcb t (state_update (\<lambda>_. TASK_RUNNING)) s2)
      else InsertToTCBRdyList c t s2) = Some s'"
    using assms Some by (auto simp: EventTaskToRdy_def Let_def kernel_simps)
  have "ev_rest s ?s1" using event_pop_ev dly_rest_ev ev_rest_trans stop_delay_rest dly_restI(1) by metis
  moreover have "ev_rest ?s1 s2" by (rule event_deliver_ev [OF s2])
  moreover have "ev_rest s2 s'"
    using s' InsertToTCBRdyList_frame rdy_frame_ev by (fastforce simp: ev_rest_def split: if_splits)
  ultimately show ?thesis using ev_rest_trans by blast
qed

section \<open>Properties\<close>

text \<open>
  A small state for concrete instances: tasks 2 and 1 are ready, task 4 runs, and task 3 waits for
  the semaphore in event block 0, with a time-out of 5 ticks.
\<close>

definition event_example :: kernel where
  "event_example = ready_example\<lparr>
     TCBTbl := (TCBTbl ready_example)(
       3 := OSTCB_zero\<lparr>taskID := 3, prio := 5, state := TASK_WAITING, delayTick := 5, eventID := 0\<rparr>,
       4 := OSTCB_zero\<lparr>taskID := 4, prio := 4, state := TASK_RUNNING, delayTick := INVALID_VALUE\<rparr>),
     DlyList := Some 3, TCBRunning := Some 4,
     EventTbl := (\<lambda>_. \<lparr>eventPtr = vnull, ecb_id = 0, eventType = EVENT_TYPE_SEM,
       eventSortType = EVENT_SORT_TYPE_PRIO, eventCounter = 1, initialEventCounter = 2,
       eventTCBList = Some 3\<rparr>)\<rparr>"

lemma event_example_wait: "wait_rep event_example 0 [3]" "wait_free event_example 4"
  by (simp_all add: wait_rep_def wait_free_def dlist_def event_example_def ready_example_defs)

lemma event_example_lists:
  "lists_inv OsConfig event_example [2, 1] [(3, 5)]" "sleeping OsConfig event_example [2, 1] [(3, 5)] 3"
  by (simp_all add: lists_inv_def sleeping_def rdy_inv_def rdy_list_def dly_rep_def delta_rep_def dlist_def
      event_example_def ready_example_defs INVALID_VALUE_def)

lemma event_example_simps:
  "eventSortType (EventTbl event_example 0) = EVENT_SORT_TYPE_PRIO" "ecb_id (EventTbl event_example 0) = 0"
  "priof event_example 3 = 5" "priof event_example 4 = 4" "eventID (TCBTbl event_example 3) = 0"
  "TCBRunning event_example = Some 4" "priof event_example 2 = 3" "priof event_example 1 = 5"
  "eventType (EventTbl event_example 0) = EVENT_TYPE_SEM" "eventCounter (EventTbl event_example 0) = 1"
  "event_deliver OsConfig 0 3 event_example =
     Some (upd_tcb 3 (pmail_update (\<lambda>_. VPtr 0xffffffff)) (upd_ecb 0 (eventCounter_update (\<lambda>n. n - 1)) event_example))"
  by (simp_all add: event_example_def ready_example_defs event_deliver_def)

text \<open>
  C19. \<open>EventTaskToWait\<close> puts the task into the waiting list of the event at the place that the
  sort type of the event asks for (at the end, or behind all tasks of equal or higher
  priority), names the event in the task, marks the task waiting, asks for a reschedule and
  leaves everything else alone, before it gives up the schedule lock it has taken.
\<close>

theorem event_wait_order:
  assumes "wait_rep s e xs" and "t \<notin> set xs" and "wait_free s t"
    and "eventSortType (EventTbl s e) = EVENT_SORT_TYPE_FIFO \<or> eventSortType (EventTbl s e) = EVENT_SORT_TYPE_PRIO"
  shows "\<exists>s1. EventTaskToWait unl e t s =
      unl (upd_tcb t (state_update (\<lambda>_. TASK_WAITING)) s1\<lparr>OSSchedLock := OSSchedLock s + 1, TaskSchedReq := True\<rparr>) \<and>
    wait_rep s1 e (wait_order s e t xs) \<and> eventID (TCBTbl s1 t) = ecb_id (EventTbl s e) \<and>
    wait_frame (insert t (set xs)) e s s1"
  using assms by (rule EventTaskToWait_ok)

theorem event_wait_order_witness:
  "\<exists>s1. EventTaskToWait Some 0 4 event_example =
      Some (upd_tcb 4 (state_update (\<lambda>_. TASK_WAITING)) s1\<lparr>OSSchedLock := OSSchedLock event_example + 1, TaskSchedReq := True\<rparr>) \<and>
    wait_rep s1 0 [4, 3]"
  using event_wait_order [OF event_example_wait(1) _ event_example_wait(2), of Some]
  by (auto simp: event_example_simps wait_order_def opt_defs)

text \<open>
  \<open>RemoveEventWaittingList\<close>, which ends a wait by time-out or deletion, takes exactly the
  given task out of the waiting list of its event, whatever its place, and clears its link.
\<close>

theorem event_wait_remove:
  assumes "wait_rep s e (as @ t # bs)" and "eventID (TCBTbl s t) = e" and "unat e < CFG_MAX_EVENT c"
  shows "\<exists>s'. RemoveEventWaittingList c t s = Some s' \<and> wait_rep s' e (as @ bs) \<and> wait_free s' t \<and>
    eventID (TCBTbl s' t) = INVALID_ID \<and> wait_frame (insert t (set (as @ bs))) e s s'"
  using assms by (rule RemoveEventWaittingList_ok)

theorem event_wait_remove_witness:
  "\<exists>s'. RemoveEventWaittingList OsConfig 3 event_example = Some s' \<and> wait_rep s' 0 []"
  using event_wait_remove [of event_example 0 "[]" 3 "[]" OsConfig] event_example_wait(1) event_example_simps(5)
  by (auto simp: OsConfig_def)

text \<open>
  C20. \<open>EventTaskToRdy\<close> wakes the first waiting task of an event: it leaves the waiting list and,
  if it had a time-out, the DELAY list, and it enters the READY list in priority order. It gets
  what the event holds, and the event loses it: a semaphore gives the mark \<open>0xffffffff\<close> and counts
  one down; a mailbox gives its mail, becomes empty and counts one down; a queue gives the word at
  its head, advances the head with wrap-around at the size of the queue and has one mail less.
  Every other event and every other queue is as before. Both task lists are well formed again.
\<close>

theorem event_wakes_first_waiter:
  assumes "wait_rep s e (t # xs)" and "lists_inv c s rs ds" and "sleeping c s rs ds t"
    and "TCBRunning s \<noteq> Some t"
    and "eventType (EventTbl s e) \<in> {EVENT_TYPE_SEM, EVENT_TYPE_MBOX} \<or>
      eventType (EventTbl s e) = EVENT_TYPE_QUEUE \<and> eventPtr (EventTbl s e) = VQcb q \<and> unat q < CFG_MAX_QUEUE c"
  shows "\<exists>s'. EventTaskToRdy c e s = Some s' \<and> wait_rep s' e xs \<and> wait_free s' t \<and>
    lists_inv c s' (insort_after (priof s) t rs) (filter (\<lambda>p. fst p \<noteq> t) ds) \<and>
    state (TCBTbl s' t) = TASK_READY \<and> eventID (TCBTbl s' t) = INVALID_ID \<and>
    delayTick (TCBTbl s' t) = INVALID_VALUE \<and> mem s' = mem s \<and>
    (eventType (EventTbl s e) = EVENT_TYPE_SEM \<longrightarrow>
       pmail (TCBTbl s' t) = VPtr 0xffffffff \<and> QueueTbl s' = QueueTbl s \<and>
       EventTbl s' = (EventTbl s)(e := (EventTbl s e)\<lparr>eventCounter := eventCounter (EventTbl s e) - 1,
         eventTCBList := hd_ptr xs None\<rparr>)) \<and>
    (eventType (EventTbl s e) = EVENT_TYPE_MBOX \<longrightarrow>
       pmail (TCBTbl s' t) = eventPtr (EventTbl s e) \<and> QueueTbl s' = QueueTbl s \<and>
       EventTbl s' = (EventTbl s)(e := (EventTbl s e)\<lparr>eventPtr := vnull,
         eventCounter := eventCounter (EventTbl s e) - 1, eventTCBList := hd_ptr xs None\<rparr>)) \<and>
    (eventType (EventTbl s e) = EVENT_TYPE_QUEUE \<longrightarrow>
       pmail (TCBTbl s' t) = VPtr (mem s (qStart (QueueTbl s q) + 4 * ucast (qhead (QueueTbl s q)))) \<and>
       QueueTbl s' = (QueueTbl s)(q := (QueueTbl s q)\<lparr>
         qhead := (if qhead (QueueTbl s q) + 1 = qMaxSize (QueueTbl s q) then 0 else qhead (QueueTbl s q) + 1),
         qSize := qSize (QueueTbl s q) - 1\<rparr>) \<and>
       EventTbl s' = (EventTbl s)(e := (EventTbl s e)\<lparr>eventTCBList := hd_ptr xs None\<rparr>))"
proof -
  obtain sd where sd: "event_deliver c e t s = Some sd"
    using assms(5) by (cases "qcb_take q s") (auto simp: event_deliver_def the_qcb_def Let_def)
  from EventTaskToRdy_ok [OF assms(1-4) sd] obtain s' where s': "EventTaskToRdy c e s = Some s'" "wait_rep s' e xs"
    "wait_free s' t" "lists_inv c s' (insort_after (priof s) t rs) (filter (\<lambda>p. fst p \<noteq> t) ds)"
    "state (TCBTbl s' t) = TASK_READY" "eventID (TCBTbl s' t) = INVALID_ID" "delayTick (TCBTbl s' t) = INVALID_VALUE"
    and d: "pmail (TCBTbl s' t) = pmail (TCBTbl sd t)" "QueueTbl s' = QueueTbl sd"
      "EventTbl s' = (EventTbl sd)(e := (EventTbl sd e)\<lparr>eventTCBList := hd_ptr xs None\<rparr>)"
    by blast
  have "mem s' = mem s" using EventTaskToRdy_ev [OF s'(1)] by (simp add: ev_rest_def)
  then show ?thesis using s' event_deliver_outcome [OF sd] assms(5) by (intro exI [of _ s']) (auto simp: d)
qed

theorem event_wakes_first_waiter_witness:
  "\<exists>s'. EventTaskToRdy OsConfig 0 event_example = Some s' \<and> wait_rep s' 0 [] \<and>
    lists_inv OsConfig s' [2, 1, 3] [] \<and> pmail (TCBTbl s' 3) = VPtr 0xffffffff \<and>
    eventCounter (EventTbl s' 0) = 0"
  using event_wakes_first_waiter [OF event_example_wait(1) event_example_lists, of 0]
  by (auto simp: event_example_simps)

end
