(* ===== verification/RingQueue.thy ===== *)
theory RingQueue
  imports CoOS_State
begin

text \<open>
  Ring buffers: the contents of a circular array as a list, and the interface of a bounded FIFO
  queue, which the mail queues and the service request queue provide.
\<close>

section \<open>Contents\<close>

definition ring_list :: "(nat \<Rightarrow> 'a) \<Rightarrow> nat \<Rightarrow> nat \<Rightarrow> nat \<Rightarrow> 'a list" where
  "ring_list cell N h n = map (\<lambda>i. cell ((h + i) mod N)) [0..<n]"

lemma length_ring_list [simp]: "length (ring_list cell N h n) = n"
  by (simp add: ring_list_def)

lemma ring_list_cong:
  assumes "\<And>i. i < N \<Longrightarrow> cell i = cell' i" and "0 < N"
  shows "ring_list cell N h n = ring_list cell' N h n"
  unfolding ring_list_def using assms by (intro map_cong) simp_all

lemma mod_add_inj:
  assumes "(h + i) mod N = (h + j) mod N" and "i < N" and "j < (N :: nat)"
  shows "i = j"
proof -
  have *: "i = j" if "i \<le> j" "(h + i) mod N = (h + j) mod N" "j < N" for i j :: nat
  proof -
    have "N dvd (h + j) - (h + i)" using that mod_eq_dvd_iff_nat [of "h + i" "h + j" N] by auto
    then have "N dvd j - i" by simp
    with that show ?thesis using dvd_imp_le [of N "j - i"] by (cases "j - i = 0") auto
  qed
  show ?thesis using * [of i j] * [of j i] assms by (cases "i \<le> j") auto
qed

lemma ring_list_put:
  assumes "n < N" and "cell' ((h + n) mod N) = x" and "\<And>i. i < N \<Longrightarrow> i \<noteq> (h + n) mod N \<Longrightarrow> cell' i = cell i"
  shows "ring_list cell' N h (Suc n) = ring_list cell N h n @ [x]"
proof -
  have "cell' ((h + i) mod N) = cell ((h + i) mod N)" if "i < n" for i
  proof (rule assms(3))
    show "(h + i) mod N < N" "(h + i) mod N \<noteq> (h + n) mod N"
      using assms(1) that mod_add_inj [of h i N n] by auto
  qed
  with assms(2) show ?thesis by (simp add: ring_list_def)
qed

lemma ring_list_take:
  assumes "0 < n" and "h < N"
  shows "ring_list cell N h n = cell h # ring_list cell N ((h + 1) mod N) (n - 1)"
proof -
  obtain m where n: "n = Suc m" using assms(1) by (cases n) auto
  have "[0..<Suc m] = 0 # map Suc [0..<m]" by (simp add: map_Suc_upt upt_conv_Cons)
  moreover have "((h + 1) mod N + i) mod N = (h + Suc i) mod N" for i by (simp add: mod_add_left_eq)
  ultimately show ?thesis using assms(2) by (simp add: ring_list_def n comp_def del: upt_Suc)
qed

section \<open>Interface\<close>

text \<open>Taking several elements, one after the other.\<close>

primrec take_all :: "('s \<Rightarrow> 'a \<times> 's) \<Rightarrow> nat \<Rightarrow> 's \<Rightarrow> 'a list \<times> 's" where
  "take_all tk 0 s = ([], s)"
| "take_all tk (Suc n) s = (let (x, s) = tk s; (xs, s) = take_all tk n s in (x # xs, s))"

locale fifo =
  fixes abs :: "'s \<Rightarrow> 'a list" and inv :: "'s \<Rightarrow> bool" and cap :: "'s \<Rightarrow> nat"
    and put :: "'a \<Rightarrow> 's \<Rightarrow> 's" and tak :: "'s \<Rightarrow> 'a \<times> 's"
  assumes put_ok: "inv s \<Longrightarrow> length (abs s) < cap s \<Longrightarrow>
      inv (put x s) \<and> abs (put x s) = abs s @ [x] \<and> cap (put x s) = cap s"
    and take_ok: "inv s \<Longrightarrow> abs s \<noteq> [] \<Longrightarrow> tak s = (x, s') \<Longrightarrow>
      inv s' \<and> abs s = x # abs s' \<and> cap s' = cap s"
    and bounded: "inv s \<Longrightarrow> length (abs s) \<le> cap s"
begin

lemma put_all_ok:
  assumes "inv s" and "length (abs s) + length xs \<le> cap s"
  shows "inv (fold put xs s) \<and> abs (fold put xs s) = abs s @ xs \<and> cap (fold put xs s) = cap s"
  using assms
proof (induction xs arbitrary: s)
  case (Cons x xs)
  with put_ok [of s x] have "inv (put x s)" "abs (put x s) = abs s @ [x]" "cap (put x s) = cap s" by auto
  with Cons.IH [of "put x s"] Cons.prems show ?case by simp
qed simp

lemma take_all_ok:
  assumes "inv s" and "n \<le> length (abs s)"
  shows "fst (take_all tak n s) = take n (abs s) \<and> inv (snd (take_all tak n s)) \<and> abs (snd (take_all tak n s)) = drop n (abs s)"
  using assms
proof (induction n arbitrary: s)
  case (Suc n)
  obtain x s' where "tak s = (x, s')" by (cases "tak s")
  moreover have "abs s \<noteq> []" using Suc.prems by auto
  ultimately have "inv s'" "abs s = x # abs s'" using take_ok [of s x s'] Suc.prems by auto
  with Suc.IH [of s'] Suc.prems \<open>tak s = (x, s')\<close> show ?case by (auto simp: split_beta)
qed simp

text \<open>What goes in comes out, in the same order.\<close>

lemma put_take_all:
  assumes "inv s" and "abs s = []" and "length xs \<le> cap s"
  shows "fst (take_all tak (length xs) (fold put xs s)) = xs \<and> abs (snd (take_all tak (length xs) (fold put xs s))) = []"
  using put_all_ok [of s xs] take_all_ok [of "fold put xs s" "length xs"] assms by simp

end

end
