(* ===== verification/ServiceQueue.thy ===== *)
theory ServiceQueue
  imports Scheduler RingQueue
begin

text \<open>
  The service request queue of \<open>serviceReq.c\<close>: a ring buffer in which an interrupt handler
  leaves the posts it may not make while the scheduler is locked. The code masks
  the interrupts around the insertion and around the removal of a cell, and each is one step here. In
  the insertion the mask is in fact lifted again by \<open>Inc8\<close>, which ends with \<open>CPSIE\<close> (see \<open>PortCode\<close>): a
  handler that interrupts the rest of it takes the next cell, since the count has gone up already, so
  the order of the cells is that of the counting.
\<close>

section \<open>Operations\<close>

definition InsertInSRQ :: "config \<Rightarrow> req_type \<Rightarrow> U8 \<Rightarrow> U32 \<Rightarrow> kernel \<Rightarrow> bool \<times> kernel" where
  "InsertInSRQ c ty i arg s =
     (if unat (srq_cnt (ServiceReq s)) \<ge> CFG_MAX_SERVICE_REQUEST c then (False, s)
      else
        let (cnt, cnt') = Inc8 (srq_cnt (ServiceReq s));
            s = s\<lparr>ServiceReq := (ServiceReq s)\<lparr>srq_cnt := cnt'\<rparr>\<rparr>;
            heed = srq_head (ServiceReq s);
            s = s\<lparr>IsrReq := True\<rparr>;
            pcell = (unat cnt + unat heed) mod CFG_MAX_SERVICE_REQUEST c;
            cells = (srq_cell (ServiceReq s))
              (pcell := \<lparr>sqc_type = ty, sqc_id = i, sqc_arg = arg\<rparr>)
        in (True, s\<lparr>ServiceReq := (ServiceReq s)\<lparr>srq_cell := cells\<rparr>\<rparr>))"

text \<open>The guarded section of the loop of \<open>RespondSRQ\<close>: take the cell at the head.\<close>

definition take_srq :: "config \<Rightarrow> kernel \<Rightarrow> SQC \<times> kernel" where
  "take_srq c s =
     (let q = ServiceReq s;
          cell = srq_cell q (unat (srq_head q));
          q = q\<lparr>srq_head := of_nat ((unat (srq_head q) + 1) mod CFG_MAX_SERVICE_REQUEST c)\<rparr>;
          q = q\<lparr>srq_cnt := srq_cnt q - 1\<rparr>
      in (cell, s\<lparr>ServiceReq := q\<rparr>))"

section \<open>The request queue is a bounded FIFO queue\<close>

definition srq_list :: "config \<Rightarrow> kernel \<Rightarrow> SQC list" where
  "srq_list c s = ring_list (srq_cell (ServiceReq s)) (CFG_MAX_SERVICE_REQUEST c)
     (unat (srq_head (ServiceReq s))) (unat (srq_cnt (ServiceReq s)))"

definition srq_inv :: "config \<Rightarrow> kernel \<Rightarrow> bool" where
  "srq_inv c s \<longleftrightarrow> CFG_MAX_SERVICE_REQUEST c \<le> 255 \<and>
     unat (srq_head (ServiceReq s)) < CFG_MAX_SERVICE_REQUEST c \<and>
     unat (srq_cnt (ServiceReq s)) \<le> CFG_MAX_SERVICE_REQUEST c"

definition srq_put :: "config \<Rightarrow> SQC \<Rightarrow> kernel \<Rightarrow> kernel" where
  "srq_put c x s = snd (InsertInSRQ c (sqc_type x) (sqc_id x) (sqc_arg x) s)"

lemma unat_Suc_U8: "unat (w :: U8) < 255 \<Longrightarrow> unat (w + 1) = Suc (unat w)"
  by (simp add: unat_word_ariths)

lemma Inc8_eq: "Inc8 d = (d, d + 1)"
proof -
  have "uint d mod 4294967296 = uint d" using uint_bounded [of d] by simp
  moreover have "ucast (ucast d :: U32) = d"
    by (rule bit_word_eqI) (simp add: bit_simps)
  ultimately have "ucast ((ucast d :: U32) + 1) = d + 1" "ucast (ucast d :: U32) = d"
    by (simp_all add: word_uint_eq_iff unsigned_ucast_eq take_bit_eq_mod uint_word_ariths mod_mod_cancel)
  then show ?thesis by (simp add: Inc8_def Let_def)
qed

lemma InsertInSRQ_ok:
  assumes "srq_inv c s" and "unat (srq_cnt (ServiceReq s)) < CFG_MAX_SERVICE_REQUEST c"
    and "InsertInSRQ c ty i arg s = (ok, s')"
  shows "ok" and "srq_inv c s'" and "srq_list c s' = srq_list c s @ [\<lparr>sqc_type = ty, sqc_id = i, sqc_arg = arg\<rparr>]"
    and "IsrReq s'" and "s'\<lparr>ServiceReq := ServiceReq s, IsrReq := IsrReq s\<rparr> = s"
proof -
  let ?q = "ServiceReq s" and ?N = "CFG_MAX_SERVICE_REQUEST c"
  have u: "unat (srq_cnt ?q + 1) = Suc (unat (srq_cnt ?q))"
    using assms(1,2) by (intro unat_Suc_U8) (simp add: srq_inv_def)
  have s': "s' = s\<lparr>IsrReq := True, ServiceReq := ?q\<lparr>srq_cnt := srq_cnt ?q + 1,
      srq_cell := (srq_cell ?q)((unat (srq_cnt ?q) + unat (srq_head ?q)) mod ?N :=
        \<lparr>sqc_type = ty, sqc_id = i, sqc_arg = arg\<rparr>)\<rparr>\<rparr>" and ok: "ok"
    using assms(2,3) by (auto simp: InsertInSRQ_def Inc8_eq Let_def)
  show "ok" by (rule ok)
  show "srq_inv c s'" using assms(1,2) u by (simp add: srq_inv_def s')
  show "srq_list c s' = srq_list c s @ [\<lparr>sqc_type = ty, sqc_id = i, sqc_arg = arg\<rparr>]"
    unfolding srq_list_def using assms(2) u
    by (simp add: s', intro ring_list_put) (simp_all add: add.commute)
  show "IsrReq s'" "s'\<lparr>ServiceReq := ?q, IsrReq := IsrReq s\<rparr> = s" by (simp_all add: s')
qed

lemma InsertInSRQ_full:
  "unat (srq_cnt (ServiceReq s)) \<ge> CFG_MAX_SERVICE_REQUEST c \<Longrightarrow> InsertInSRQ c ty i arg s = (False, s)"
  by (simp add: InsertInSRQ_def)

lemma take_srq_ok:
  assumes "srq_inv c s" and "srq_list c s \<noteq> []" and "take_srq c s = (x, s')"
  shows "srq_inv c s'" and "srq_list c s = x # srq_list c s'" and "s'\<lparr>ServiceReq := ServiceReq s\<rparr> = s"
proof -
  let ?q = "ServiceReq s" and ?N = "CFG_MAX_SERVICE_REQUEST c"
  have n: "0 < unat (srq_cnt ?q)" using assms(2) by (cases "unat (srq_cnt ?q)") (auto simp: srq_list_def ring_list_def)
  then have c1: "unat (srq_cnt ?q - 1) = unat (srq_cnt ?q) - 1" by (simp add: unat_gt_0 unat_minus_one)
  have h: "unat (srq_head ?q) < ?N" "?N \<le> 255" using assms(1) by (auto simp: srq_inv_def)
  have h1: "(unat (srq_head ?q) + 1) mod ?N < ?N" using h by (intro mod_less_divisor) simp
  then have h2: "unat (of_nat ((unat (srq_head ?q) + 1) mod ?N) :: U8) = (unat (srq_head ?q) + 1) mod ?N"
    using h(2) by (simp add: unat_of_nat del: of_nat_mod)
  have x: "x = srq_cell ?q (unat (srq_head ?q))" and s': "s' = s\<lparr>ServiceReq := ?q\<lparr>
      srq_head := of_nat ((unat (srq_head ?q) + 1) mod ?N), srq_cnt := srq_cnt ?q - 1\<rparr>\<rparr>"
    using assms(3) by (auto simp: take_srq_def Let_def)
  show "srq_inv c s'" using assms(1) c1 h1 h2 by (auto simp: srq_inv_def s' simp del: of_nat_mod)
  show "srq_list c s = x # srq_list c s'"
    unfolding srq_list_def x s' using ring_list_take [OF n h(1), of "srq_cell ?q"] c1 h2
    by (simp del: of_nat_mod)
  show "s'\<lparr>ServiceReq := ?q\<rparr> = s" by (simp add: s')
qed

interpretation srq: fifo "srq_list c" "srq_inv c" "\<lambda>_. CFG_MAX_SERVICE_REQUEST c" "srq_put c" "take_srq c" for c
proof
  show "srq_inv c (srq_put c x s) \<and> srq_list c (srq_put c x s) = srq_list c s @ [x] \<and>
      CFG_MAX_SERVICE_REQUEST c = CFG_MAX_SERVICE_REQUEST c"
    if "srq_inv c s" "length (srq_list c s) < CFG_MAX_SERVICE_REQUEST c" for s x
  proof -
    obtain ok s' where i: "InsertInSRQ c (sqc_type x) (sqc_id x) (sqc_arg x) s = (ok, s')" by fastforce
    then show ?thesis using InsertInSRQ_ok [OF that(1) _ i] that(2) by (simp add: srq_put_def srq_list_def)
  qed
  show "srq_inv c s' \<and> srq_list c s = x # srq_list c s' \<and> CFG_MAX_SERVICE_REQUEST c = CFG_MAX_SERVICE_REQUEST c"
    if "srq_inv c s" "srq_list c s \<noteq> []" "take_srq c s = (x, s')" for s x s'
    using take_srq_ok [OF that] by simp
  show "length (srq_list c s) \<le> CFG_MAX_SERVICE_REQUEST c" if "srq_inv c s" for s
    using that by (simp add: srq_list_def srq_inv_def)
qed

section \<open>Properties\<close>

text \<open>
  A request that an interrupt handler leaves in the service request queue is appended behind
  the earlier ones as long as a cell is free, and marks the queue as pending; a full queue is
  reported and left unchanged.
\<close>

theorem service_request_enqueue:
  assumes "srq_inv c s" and "InsertInSRQ c ty i arg s = (ok, s')"
  shows "if length (srq_list c s) < CFG_MAX_SERVICE_REQUEST c
    then ok \<and> srq_inv c s' \<and> srq_list c s' = srq_list c s @ [\<lparr>sqc_type = ty, sqc_id = i, sqc_arg = arg\<rparr>] \<and>
      IsrReq s' \<and> s'\<lparr>ServiceReq := ServiceReq s, IsrReq := IsrReq s\<rparr> = s
    else \<not> ok \<and> s' = s"
  using InsertInSRQ_ok [OF assms(1) _ assms(2)] InsertInSRQ_full [of c s ty i arg] assms(2)
  by (auto simp: srq_list_def not_less)

theorem service_request_enqueue_witness:
  "srq_list OsConfig (snd (InsertInSRQ OsConfig SEM_REQ 3 7 kernel_start)) = [\<lparr>sqc_type = SEM_REQ, sqc_id = 3, sqc_arg = 7\<rparr>]"
  using service_request_enqueue [of OsConfig kernel_start SEM_REQ 3 7]
  by (cases "InsertInSRQ OsConfig SEM_REQ 3 7 kernel_start")
    (auto simp: srq_inv_def srq_list_def ring_list_def kernel_start_def OsConfig_def)

text \<open>
  C23. Requests are served in the order the interrupt handlers made them: whatever fits into the
  empty queue comes out of \<open>RespondSRQ\<close>'s removal step cell by cell in the same order, and the
  queue is empty again.
\<close>

theorem service_requests_in_order:
  assumes "srq_inv c s" and "srq_list c s = []" and "length xs \<le> CFG_MAX_SERVICE_REQUEST c"
  shows "fst (take_all (take_srq c) (length xs) (fold (srq_put c) xs s)) = xs \<and>
    srq_list c (snd (take_all (take_srq c) (length xs) (fold (srq_put c) xs s))) = []"
  using assms by (rule srq.put_take_all)

theorem service_requests_in_order_witness:
  "fst (take_all (take_srq OsConfig) 2 (fold (srq_put OsConfig)
     [\<lparr>sqc_type = SEM_REQ, sqc_id = 1, sqc_arg = 0\<rparr>, \<lparr>sqc_type = FLAG_REQ, sqc_id = 2, sqc_arg = 0\<rparr>] kernel_start)) =
   [\<lparr>sqc_type = SEM_REQ, sqc_id = 1, sqc_arg = 0\<rparr>, \<lparr>sqc_type = FLAG_REQ, sqc_id = 2, sqc_arg = 0\<rparr>]"
  using service_requests_in_order [of OsConfig kernel_start
      "[\<lparr>sqc_type = SEM_REQ, sqc_id = 1, sqc_arg = 0\<rparr>, \<lparr>sqc_type = FLAG_REQ, sqc_id = 2, sqc_arg = 0\<rparr>]"]
  by (simp add: srq_inv_def srq_list_def ring_list_def kernel_start_def OsConfig_def numeral_2_eq_2)

end
