(* ===== verification/Sem.thy ===== *)
theory Sem
  imports EventCore ServiceQueue
begin

text \<open>\<open>sem.c\<close>: counting semaphores.\<close>

section \<open>Operations\<close>

definition CoCreateSem ::
  "config \<Rightarrow> (kernel \<Rightarrow> kernel option) \<Rightarrow> U16 \<Rightarrow> U16 \<Rightarrow> U8 \<Rightarrow> kernel \<Rightarrow> (U8 \<times> kernel) option" where
  "CoCreateSem c unl initCnt maxCnt sortType s =
     (if CFG_PAR_CHECKOUT_EN c \<and> initCnt > maxCnt then Some (E_CREATE_FAIL, s)
      else if CFG_PAR_CHECKOUT_EN c \<and>
              sortType \<noteq> EVENT_SORT_TYPE_FIFO \<and> sortType \<noteq> EVENT_SORT_TYPE_PRIO
      then Some (E_CREATE_FAIL, s)
      else do {
        (p, s) \<leftarrow> CreatEvent unl EVENT_TYPE_SEM sortType vnull s;
        case p of
          None \<Rightarrow> Some (E_CREATE_FAIL, s)
        | Some pecb \<Rightarrow>
            let s = upd_ecb pecb (eventCounter_update (\<lambda>_. initCnt)) s;
                s = upd_ecb pecb (initialEventCounter_update (\<lambda>_. maxCnt)) s
            in Some (ecb_id (EventTbl s pecb), s)
      })"

text \<open>The parameter check at the head of every call on an event of a given type.\<close>

definition bad_event :: "config \<Rightarrow> event_type \<Rightarrow> OS_EventID \<Rightarrow> kernel \<Rightarrow> bool" where
  "bad_event c et i s \<longleftrightarrow> CFG_PAR_CHECKOUT_EN c \<and>
     (unat i \<ge> CFG_MAX_EVENT c \<or> eventType (EventTbl s i) \<noteq> et)"

definition CoDelSem ::
  "config \<Rightarrow> (kernel \<Rightarrow> kernel option) \<Rightarrow> OS_EventID \<Rightarrow> U8 \<Rightarrow> kernel \<Rightarrow>
   (StatusType \<times> kernel) option" where
  "CoDelSem c unl i opt s =
     (if bad_event c EVENT_TYPE_SEM i s then Some (E_INVALID_ID, s)
      else do { pecb \<leftarrow> ecb_ptr c i; DeleteEvent c unl pecb opt s })"

definition CoAcceptSem ::
  "config \<Rightarrow> (kernel \<Rightarrow> kernel option) \<Rightarrow> OS_EventID \<Rightarrow> kernel \<Rightarrow> (StatusType \<times> kernel) option" where
  "CoAcceptSem c unl i s =
     (if bad_event c EVENT_TYPE_SEM i s then Some (E_INVALID_ID, s)
      else do {
        pecb \<leftarrow> ecb_ptr c i;
        let s = OsSchedLock s;
        if eventCounter (EventTbl s pecb) > 0 then do {
          let s = upd_ecb pecb (eventCounter_update (\<lambda>n. n - 1)) s;
          s \<leftarrow> unl s;
          Some (E_OK, s)
        } else do {
          s \<leftarrow> unl s;
          Some (E_SEM_EMPTY, s)
        }
      })"

text \<open>
  \<open>CoPendSem\<close> up to the point where the task gives up the processor, and the code behind that
  point, on the task \<open>curTCB\<close>.
\<close>

definition CoPendSem ::
  "config \<Rightarrow> (kernel \<Rightarrow> kernel option) \<Rightarrow> OS_EventID \<Rightarrow> U32 \<Rightarrow> kernel \<Rightarrow>
   (StatusType outcome \<times> kernel) option" where
  "CoPendSem c unl i timeout s =
     (if OSIntNesting s > 0 then Some (Ret E_CALL, s)
      else if bad_event c EVENT_TYPE_SEM i s then Some (Ret E_INVALID_ID, s)
      else do {
        pecb \<leftarrow> ecb_ptr c i;
        if OSSchedLock s \<noteq> 0 then Some (Ret E_OS_IN_LOCK, s)
        else do {
          let s = OsSchedLock s;
          if eventCounter (EventTbl s pecb) > 0 then do {
            let s = upd_ecb pecb (eventCounter_update (\<lambda>n. n - 1)) s;
            s \<leftarrow> unl s;
            Some (Ret E_OK, s)
          } else do {
            s \<leftarrow> unl s;
            curTCB \<leftarrow> TCBRunning s;
            if timeout = 0 then do {
              s \<leftarrow> EventTaskToWait unl pecb curTCB s;
              Some (Blocked, s)
            } else do {
              let s = OsSchedLock s;
              s \<leftarrow> EventTaskToWait unl pecb curTCB s;
              s \<leftarrow> InsertDelayList curTCB timeout s;
              s \<leftarrow> unl s;
              Some (Blocked, s)
            }
          }
        }
      })"

definition CoPendSem_resume :: "U32 \<Rightarrow> OS_TID \<Rightarrow> kernel \<Rightarrow> StatusType \<times> kernel" where
  "CoPendSem_resume timeout curTCB s =
     (if timeout = 0 then (E_OK, upd_tcb curTCB (pmail_update (\<lambda>_. vnull)) s)
      else if pmail (TCBTbl s curTCB) = vnull then (E_TIMEOUT, s)
      else (E_OK, upd_tcb curTCB (pmail_update (\<lambda>_. vnull)) s))"

definition CoPostSem ::
  "config \<Rightarrow> (kernel \<Rightarrow> kernel option) \<Rightarrow> OS_EventID \<Rightarrow> kernel \<Rightarrow> (StatusType \<times> kernel) option" where
  "CoPostSem c unl i s =
     (if bad_event c EVENT_TYPE_SEM i s then Some (E_INVALID_ID, s)
      else do {
        pecb \<leftarrow> ecb_ptr c i;
        if eventCounter (EventTbl s pecb) = initialEventCounter (EventTbl s pecb)
        then Some (E_SEM_FULL, s)
        else do {
          let s = OsSchedLock s;
          let s = upd_ecb pecb (eventCounter_update (\<lambda>n. n + 1)) s;
          s \<leftarrow> EventTaskToRdy c pecb s;
          s \<leftarrow> unl s;
          Some (E_OK, s)
        }
      })"

definition isr_PostSem ::
  "config \<Rightarrow> (kernel \<Rightarrow> kernel option) \<Rightarrow> OS_EventID \<Rightarrow> kernel \<Rightarrow> (StatusType \<times> kernel) option" where
  "isr_PostSem c unl i s =
     (if OSSchedLock s > 0 then
        let (ok, s) = InsertInSRQ c SEM_REQ i 0 s
        in Some (if \<not> ok then E_SEV_REQ_FULL else E_OK, s)
      else CoPostSem c unl i s)"

section \<open>Posting to a waiting task\<close>

lemma bad_event_ok:
  assumes "\<not> bad_event c et i s" and "CFG_PAR_CHECKOUT_EN c"
  shows "eventType (EventTbl s i) = et" and "unat i < CFG_MAX_EVENT c" and "ecb_ptr c i = Some i"
  using assms by (auto simp: bad_event_def ecb_ptr_def)

text \<open>
  The posts of the three modules have this shape: lock, put the event in (\<open>f\<close>), wake the first
  waiting task, unlock. The event is changed in fields that the waiting list does not depend on.
\<close>

lemma post_wakes:
  assumes "wait_rep s e (t # xs)" and "lists_inv c s rs ds" and "sleeping c s rs ds t"
    and "TCBRunning s \<noteq> Some t" and "event_deliver c e t s1 = Some sd"
    and "same_lists s s1" and "TCBRunning s1 = TCBRunning s" 
    and "eventTCBList (EventTbl s1 e) = eventTCBList (EventTbl s e)"
    and "\<And>u. wnext s1 u = wnext s u \<and> wprev s1 u = wprev s u"
  shows "\<exists>s'. EventTaskToRdy c e s1 = Some s' \<and> wait_rep s' e xs \<and>
    lists_inv c s' (insort_after (priof s) t rs) (filter (\<lambda>p. fst p \<noteq> t) ds) \<and>
    state (TCBTbl s' t) = TASK_READY \<and> pmail (TCBTbl s' t) = pmail (TCBTbl sd t) \<and>
    EventTbl s' = (EventTbl sd)(e := (EventTbl sd e)\<lparr>eventTCBList := hd_ptr xs None\<rparr>) \<and>
    QueueTbl s' = QueueTbl sd \<and> mem s' = mem s1"
proof -
  have "wait_rep s1 e (t # xs)" using assms(1,8,9) unfolding wait_rep_def by simp
  moreover have "priof s1 = priof s" using assms(6) by (auto simp: same_lists_def fun_eq_iff)
  ultimately show ?thesis
    using EventTaskToRdy_ok [of s1 e t xs c rs ds sd] EventTaskToRdy_ev [of c e s1]
      assms(2-7) same_lists_cong [OF assms(6)] by (auto simp: ev_rest_def)
qed

lemma EventTaskToRdy_none: "eventTCBList (EventTbl s e) = None \<Longrightarrow> EventTaskToRdy c e s = Some s"
  by (simp add: EventTaskToRdy_def)

lemma event_example_initial: "initialEventCounter (EventTbl event_example 0) = 2"
  by (simp add: event_example_def)

section \<open>Properties\<close>

text \<open>
  C21. \<open>CoPostSem\<close> on every branch, for a semaphore that passes the parameter check: a full
  semaphore is reported and nothing changes; without a waiting task the counter is raised by
  one; otherwise the counter stays and the first waiting task gets the unit, marked as woken
  by the event, and becomes ready in priority order, its time-out cancelled. In the last two
  cases the call ends with the release of the schedule lock it has taken.
\<close>

theorem semaphore_post:
  assumes "CFG_PAR_CHECKOUT_EN c" and "\<not> bad_event c EVENT_TYPE_SEM i s"
    and "wait_rep s i ws" and "lists_inv c s rs ds" 
    and "ws \<noteq> [] \<Longrightarrow> sleeping c s rs ds (hd ws) \<and> TCBRunning s \<noteq> Some (hd ws)"
  shows "if eventCounter (EventTbl s i) = initialEventCounter (EventTbl s i) then CoPostSem c unl i s = Some (E_SEM_FULL, s)
    else case ws of
      [] \<Rightarrow> CoPostSem c unl i s = map_option (Pair E_OK)
        (unl (upd_ecb i (eventCounter_update (\<lambda>n. n + 1)) (s\<lparr>OSSchedLock := OSSchedLock s + 1\<rparr>)))
    | t # ws' \<Rightarrow> \<exists>s'. CoPostSem c unl i s = map_option (Pair E_OK) (unl s') \<and> wait_rep s' i ws' \<and>
        lists_inv c s' (insort_after (priof s) t rs) (filter (\<lambda>p. fst p \<noteq> t) ds) \<and>
        state (TCBTbl s' t) = TASK_READY \<and> pmail (TCBTbl s' t) = VPtr 0xffffffff \<and>
        eventCounter (EventTbl s' i) = eventCounter (EventTbl s i)"
proof -
  note ok = bad_event_ok [OF assms(2,1)]
  let ?s1 = "upd_ecb i (eventCounter_update (\<lambda>n. n + 1)) (s\<lparr>OSSchedLock := OSSchedLock s + 1\<rparr>)"
  have bind: "Option.bind m (\<lambda>s. Some (E_OK, s)) = map_option (Pair E_OK) m" for m :: "kernel option" by (cases m) auto
  have post: "CoPostSem c unl i s = Option.bind (EventTaskToRdy c i ?s1) (\<lambda>s'. map_option (Pair E_OK) (unl s'))"
    if "eventCounter (EventTbl s i) \<noteq> initialEventCounter (EventTbl s i)"
    using that assms(2) ok(3) by (simp add: CoPostSem_def OsSchedLock_def Let_def bind)
  show ?thesis
  proof (cases "eventCounter (EventTbl s i) = initialEventCounter (EventTbl s i)")
    case True
    with assms(2) ok(3) show ?thesis by (simp add: CoPostSem_def)
  next
    case False
    show ?thesis
    proof (cases ws)
      case Nil
      then have "eventTCBList (EventTbl ?s1 i) = None" using assms(3) by (simp add: wait_rep_def dlist_def)
      with Nil False post show ?thesis by (simp add: EventTaskToRdy_none)
    next
      case (Cons t ws')
      let ?sd = "upd_tcb t (pmail_update (\<lambda>_. VPtr 0xffffffff)) (upd_ecb i (eventCounter_update (\<lambda>n. n - 1)) ?s1)"
      have "event_deliver c i t ?s1 = Some ?sd" using ok(1) by (simp add: event_deliver_def)
      moreover have "same_lists s ?s1" by (simp add: same_lists_def)
      ultimately have "\<exists>s'. EventTaskToRdy c i ?s1 = Some s' \<and> wait_rep s' i ws' \<and>
          lists_inv c s' (insort_after (priof s) t rs) (filter (\<lambda>p. fst p \<noteq> t) ds) \<and>
          state (TCBTbl s' t) = TASK_READY \<and> pmail (TCBTbl s' t) = pmail (TCBTbl ?sd t) \<and>
          EventTbl s' = (EventTbl ?sd)(i := (EventTbl ?sd i)\<lparr>eventTCBList := hd_ptr ws' None\<rparr>) \<and> QueueTbl s' = QueueTbl ?sd \<and> mem s' = mem ?s1"
        by (intro post_wakes [of s]) (use assms(3-5) Cons in simp_all)
      with Cons False post show ?thesis by auto
    qed
  qed
qed

theorem semaphore_post_witness:
  "\<exists>s'. CoPostSem OsConfig Some 0 event_example = Some (E_OK, s') \<and> wait_rep s' 0 [] \<and>
    lists_inv OsConfig s' [2, 1, 3] [] \<and> eventCounter (EventTbl s' 0) = 1"
  using semaphore_post [of OsConfig 0 event_example "[3]" "[2, 1]" "[(3, 5)]" Some]
    event_example_lists event_example_wait
  by (auto simp: bad_event_def event_example_simps event_example_initial OsConfig_def)

end
