(* ===== verification/Mbox.thy ===== *)
theory Mbox
  imports Sem
begin

text \<open>\<open>mbox.c\<close>: mailboxes that hold one mail. A call returns the mail and, through \<open>perr\<close>, a status.\<close>

section \<open>Operations\<close>

definition CoCreateMbox ::
  "(kernel \<Rightarrow> kernel option) \<Rightarrow> U8 \<Rightarrow> kernel \<Rightarrow> (U8 \<times> kernel) option" where
  "CoCreateMbox unl sortType s = do {
     (p, s) \<leftarrow> CreatEvent unl EVENT_TYPE_MBOX sortType vnull s;
     case p of
       None \<Rightarrow> Some (E_CREATE_FAIL, s)
     | Some pecb \<Rightarrow>
         let s = upd_ecb pecb (eventCounter_update (\<lambda>_. 0)) s
         in Some (ecb_id (EventTbl s pecb), s)
   }"

definition CoDelMbox ::
  "config \<Rightarrow> (kernel \<Rightarrow> kernel option) \<Rightarrow> OS_EventID \<Rightarrow> U8 \<Rightarrow> kernel \<Rightarrow>
   (StatusType \<times> kernel) option" where
  "CoDelMbox c unl i opt s =
     (if bad_event c EVENT_TYPE_MBOX i s then Some (E_INVALID_ID, s)
      else do { pecb \<leftarrow> ecb_ptr c i; DeleteEvent c unl pecb opt s })"

text \<open>Empty the mailbox: the statements shared by \<open>CoAcceptMail\<close> and \<open>CoPendMail\<close>.\<close>

definition mbox_take :: "OS_EventID \<Rightarrow> kernel \<Rightarrow> voidp \<times> kernel" where
  "mbox_take pecb s =
     (let m = eventPtr (EventTbl s pecb);
          s = upd_ecb pecb (eventPtr_update (\<lambda>_. vnull)) s;
          s = upd_ecb pecb (eventCounter_update (\<lambda>_. 0)) s
      in (m, s))"

definition CoAcceptMail ::
  "config \<Rightarrow> (kernel \<Rightarrow> kernel option) \<Rightarrow> OS_EventID \<Rightarrow> kernel \<Rightarrow>
   ((voidp \<times> StatusType) \<times> kernel) option" where
  "CoAcceptMail c unl i s =
     (if bad_event c EVENT_TYPE_MBOX i s then Some ((vnull, E_INVALID_ID), s)
      else do {
        pecb \<leftarrow> ecb_ptr c i;
        let s = OsSchedLock s;
        if eventCounter (EventTbl s pecb) = 1 then do {
          let (m, s) = mbox_take pecb s;
          s \<leftarrow> unl s;
          Some ((m, E_OK), s)
        } else do {
          s \<leftarrow> unl s;
          Some ((vnull, E_MBOX_EMPTY), s)
        }
      })"

definition CoPendMail ::
  "config \<Rightarrow> (kernel \<Rightarrow> kernel option) \<Rightarrow> OS_EventID \<Rightarrow> U32 \<Rightarrow> kernel \<Rightarrow>
   ((voidp \<times> StatusType) outcome \<times> kernel) option" where
  "CoPendMail c unl i timeout s =
     (if OSIntNesting s > 0 then Some (Ret (vnull, E_CALL), s)
      else if bad_event c EVENT_TYPE_MBOX i s then Some (Ret (vnull, E_INVALID_ID), s)
      else do {
        pecb \<leftarrow> ecb_ptr c i;
        if OSSchedLock s \<noteq> 0 then Some (Ret (vnull, E_OS_IN_LOCK), s)
        else do {
          let s = OsSchedLock s;
          if eventCounter (EventTbl s pecb) = 1 then do {
            let (m, s) = mbox_take pecb s;
            s \<leftarrow> unl s;
            Some (Ret (m, E_OK), s)
          } else do {
            s \<leftarrow> unl s;
            curTCB \<leftarrow> TCBRunning s;
            if timeout = 0 then do {
              s \<leftarrow> EventTaskToWait unl pecb curTCB s;
              Some (Blocked, s)
            } else do {
              let s = OsSchedLock s;
              s \<leftarrow> EventTaskToWait unl pecb curTCB s;
              s \<leftarrow> InsertDelayList curTCB timeout s;
              s \<leftarrow> unl s;
              Some (Blocked, s)
            }
          }
        }
      })"

text \<open>The code behind the wait, the same in \<open>CoPendMail\<close> and \<open>CoPendQueueMail\<close>.\<close>

definition CoPendMail_resume ::
  "U32 \<Rightarrow> OS_TID \<Rightarrow> kernel \<Rightarrow> (voidp \<times> StatusType) \<times> kernel" where
  "CoPendMail_resume timeout curTCB s =
     (if timeout \<noteq> 0 \<and> pmail (TCBTbl s curTCB) = vnull then ((vnull, E_TIMEOUT), s)
      else let m = pmail (TCBTbl s curTCB);
               s = upd_tcb curTCB (pmail_update (\<lambda>_. vnull)) s
           in ((m, E_OK), s))"

definition CoPostMail ::
  "config \<Rightarrow> (kernel \<Rightarrow> kernel option) \<Rightarrow> OS_EventID \<Rightarrow> U32 \<Rightarrow> kernel \<Rightarrow>
   (StatusType \<times> kernel) option" where
  "CoPostMail c unl i m s =
     (if bad_event c EVENT_TYPE_MBOX i s then Some (E_INVALID_ID, s)
      else do {
        pecb \<leftarrow> ecb_ptr c i;
        if eventCounter (EventTbl s pecb) = 0 then do {
          let s = OsSchedLock s;
          let s = upd_ecb pecb (eventPtr_update (\<lambda>_. VPtr m)) s;
          let s = upd_ecb pecb (eventCounter_update (\<lambda>_. 1)) s;
          s \<leftarrow> EventTaskToRdy c pecb s;
          s \<leftarrow> unl s;
          Some (E_OK, s)
        } else Some (E_MBOX_FULL, s)
      })"

definition isr_PostMail ::
  "config \<Rightarrow> (kernel \<Rightarrow> kernel option) \<Rightarrow> OS_EventID \<Rightarrow> U32 \<Rightarrow> kernel \<Rightarrow>
   (StatusType \<times> kernel) option" where
  "isr_PostMail c unl i m s =
     (if OSSchedLock s > 0 then
        let (ok, s) = InsertInSRQ c MBOX_REQ i m s
        in Some (if \<not> ok then E_SEV_REQ_FULL else E_OK, s)
      else CoPostMail c unl i m s)"

section \<open>Properties\<close>

text \<open>
  \<open>CoPostMail\<close> on every branch, for a mailbox that passes the parameter check: an occupied
  mailbox is reported and keeps its mail; an empty one without waiting tasks takes the mail;
  otherwise the first waiting task gets exactly this mail, becomes ready in priority order with
  its time-out cancelled, and the mailbox is empty.
\<close>

theorem mailbox_post:
  assumes "CFG_PAR_CHECKOUT_EN c" and "\<not> bad_event c EVENT_TYPE_MBOX i s"
    and "wait_rep s i ws" and "lists_inv c s rs ds"
    and "ws \<noteq> [] \<Longrightarrow> sleeping c s rs ds (hd ws) \<and> TCBRunning s \<noteq> Some (hd ws)"
  shows "if eventCounter (EventTbl s i) \<noteq> 0 then CoPostMail c unl i m s = Some (E_MBOX_FULL, s)
    else case ws of
      [] \<Rightarrow> CoPostMail c unl i m s = map_option (Pair E_OK)
        (unl (upd_ecb i (\<lambda>e. e\<lparr>eventPtr := VPtr m, eventCounter := 1\<rparr>) (s\<lparr>OSSchedLock := OSSchedLock s + 1\<rparr>)))
    | t # ws' \<Rightarrow> \<exists>s'. CoPostMail c unl i m s = map_option (Pair E_OK) (unl s') \<and> wait_rep s' i ws' \<and>
        lists_inv c s' (insort_after (priof s) t rs) (filter (\<lambda>p. fst p \<noteq> t) ds) \<and>
        state (TCBTbl s' t) = TASK_READY \<and> pmail (TCBTbl s' t) = VPtr m \<and>
        eventCounter (EventTbl s' i) = 0 \<and> eventPtr (EventTbl s' i) = vnull"
proof -
  note ok = bad_event_ok [OF assms(2,1)]
  let ?s1 = "upd_ecb i (\<lambda>e. e\<lparr>eventPtr := VPtr m, eventCounter := 1\<rparr>) (s\<lparr>OSSchedLock := OSSchedLock s + 1\<rparr>)"
  have bind: "Option.bind m (\<lambda>s. Some (E_OK, s)) = map_option (Pair E_OK) m" for m :: "kernel option" by (cases m) auto
  have "upd_ecb i (eventCounter_update (\<lambda>_. 1)) (upd_ecb i (eventPtr_update (\<lambda>_. VPtr m)) (OsSchedLock s)) = ?s1"
    by (rule kernel.equality) (simp_all add: OsSchedLock_def)
  then have post: "CoPostMail c unl i m s = Option.bind (EventTaskToRdy c i ?s1) (\<lambda>s'. map_option (Pair E_OK) (unl s'))"
    if "eventCounter (EventTbl s i) = 0"
    using that assms(2) ok(3) by (simp add: CoPostMail_def Let_def bind)
  show ?thesis
  proof (cases "eventCounter (EventTbl s i) = 0")
    case False
    with assms(2) ok(3) show ?thesis by (simp add: CoPostMail_def)
  next
    case True
    show ?thesis
    proof (cases ws)
      case Nil
      then have "eventTCBList (EventTbl ?s1 i) = None" using assms(3) by (simp add: wait_rep_def dlist_def)
      with Nil True post show ?thesis by (simp add: EventTaskToRdy_none)
    next
      case (Cons t ws')
      let ?sd = "upd_ecb i (eventCounter_update (\<lambda>n. n - 1)) (upd_ecb i (eventPtr_update (\<lambda>_. vnull))
        (upd_tcb t (pmail_update (\<lambda>_. VPtr m)) ?s1))"
      have "event_deliver c i t ?s1 = Some ?sd" using ok(1) by (simp add: event_deliver_def Let_def)
      moreover have "same_lists s ?s1" by (simp add: same_lists_def)
      ultimately have "\<exists>s'. EventTaskToRdy c i ?s1 = Some s' \<and> wait_rep s' i ws' \<and>
          lists_inv c s' (insort_after (priof s) t rs) (filter (\<lambda>p. fst p \<noteq> t) ds) \<and>
          state (TCBTbl s' t) = TASK_READY \<and> pmail (TCBTbl s' t) = pmail (TCBTbl ?sd t) \<and>
          EventTbl s' = (EventTbl ?sd)(i := (EventTbl ?sd i)\<lparr>eventTCBList := hd_ptr ws' None\<rparr>) \<and>
          QueueTbl s' = QueueTbl ?sd \<and> mem s' = mem ?s1"
        by (intro post_wakes [of s]) (use assms(3-5) Cons in simp_all)
      with Cons True post show ?thesis by auto
    qed
  qed
qed

definition mbox_example :: kernel where
  "mbox_example = upd_ecb 0 (\<lambda>e. e\<lparr>eventType := EVENT_TYPE_MBOX, eventCounter := 0\<rparr>) event_example"

lemma mbox_example_ok:
  "wait_rep mbox_example 0 [3]" "lists_inv OsConfig mbox_example [2, 1] [(3, 5)]"
  "sleeping OsConfig mbox_example [2, 1] [(3, 5)] 3" "TCBRunning mbox_example = Some 4"
  "\<not> bad_event OsConfig EVENT_TYPE_MBOX 0 mbox_example" "eventCounter (EventTbl mbox_example 0) = 0"
  "priof mbox_example = priof event_example"
proof -
  have sl: "same_lists event_example mbox_example" by (simp add: same_lists_def mbox_example_def)
  show "wait_rep mbox_example 0 [3]" using event_example_wait(1) by (simp add: wait_rep_def mbox_example_def)
  show "lists_inv OsConfig mbox_example [2, 1] [(3, 5)]" "sleeping OsConfig mbox_example [2, 1] [(3, 5)] 3"
    using event_example_lists same_lists_cong [OF sl] by simp_all
qed (simp_all add: mbox_example_def event_example_simps bad_event_def OsConfig_def)

theorem mailbox_post_witness:
  "\<exists>s'. CoPostMail OsConfig Some 0 77 mbox_example = Some (E_OK, s') \<and> pmail (TCBTbl s' 3) = VPtr 77 \<and>
    lists_inv OsConfig s' [2, 1, 3] []"
  using mailbox_post [of OsConfig 0 mbox_example "[3]" "[2, 1]" "[(3, 5)]" Some 77] mbox_example_ok
  by (auto simp: event_example_simps OsConfig_def)

text \<open>
  A mail that \<open>CoPostMail\<close> leaves in an empty mailbox is the mail the next \<open>CoAcceptMail\<close>
  returns, and the mailbox is then as empty as before; \<open>unl\<close> may be any release of the schedule
  lock that leaves the event control blocks alone.
\<close>

theorem mailbox_roundtrip:
  assumes "CFG_PAR_CHECKOUT_EN c" and "\<not> bad_event c EVENT_TYPE_MBOX i s"
    and "eventCounter (EventTbl s i) = 0" and "eventTCBList (EventTbl s i) = None"
    and "\<And>s. \<exists>s'. unl s = Some s' \<and> EventTbl s' = EventTbl s"
  shows "\<exists>s1 s2. CoPostMail c unl i m s = Some (E_OK, s1) \<and> CoAcceptMail c unl i s1 = Some ((VPtr m, E_OK), s2) \<and>
    eventCounter (EventTbl s2 i) = 0 \<and> eventPtr (EventTbl s2 i) = vnull"
proof -
  note ok = bad_event_ok [OF assms(2,1)]
  let ?sp = "upd_ecb i (eventCounter_update (\<lambda>_. 1)) (upd_ecb i (eventPtr_update (\<lambda>_. VPtr m)) (OsSchedLock s))"
  obtain s1 where s1: "unl ?sp = Some s1" "EventTbl s1 = EventTbl ?sp" using assms(5) by blast
  have "CoPostMail c unl i m s = Some (E_OK, s1)"
    using assms(2-4) ok(3) s1 by (simp add: CoPostMail_def EventTaskToRdy_none OsSchedLock_def Let_def)
  moreover have b: "\<not> bad_event c EVENT_TYPE_MBOX i s1" "eventCounter (EventTbl s1 i) = 1" "eventPtr (EventTbl s1 i) = VPtr m"
    using ok s1(2) by (simp_all add: bad_event_def OsSchedLock_def)
  let ?sq = "upd_ecb i (eventCounter_update (\<lambda>_. 0)) (upd_ecb i (eventPtr_update (\<lambda>_. vnull)) (OsSchedLock s1))"
  obtain s2 where s2: "unl ?sq = Some s2" "EventTbl s2 = EventTbl ?sq" using assms(5) by blast
  have "CoAcceptMail c unl i s1 = Some ((VPtr m, E_OK), s2)"
    using b ok(3) s2 by (simp add: CoAcceptMail_def mbox_take_def OsSchedLock_def Let_def)
  moreover have "eventCounter (EventTbl s2 i) = 0" "eventPtr (EventTbl s2 i) = vnull" using s2(2) by simp_all
  ultimately show ?thesis by blast
qed

theorem mailbox_roundtrip_witness:
  "\<exists>s1 s2. CoPostMail OsConfig (\<lambda>s. Some (s\<lparr>OSSchedLock := OSSchedLock s - 1\<rparr>)) 0 77
      (upd_ecb 0 (eventTCBList_update (\<lambda>_. None)) mbox_example) = Some (E_OK, s1) \<and>
    CoAcceptMail OsConfig (\<lambda>s. Some (s\<lparr>OSSchedLock := OSSchedLock s - 1\<rparr>)) 0 s1 = Some ((VPtr 77, E_OK), s2)"
  using mailbox_roundtrip [of OsConfig 0 "upd_ecb 0 (eventTCBList_update (\<lambda>_. None)) mbox_example"
      "\<lambda>s. Some (s\<lparr>OSSchedLock := OSSchedLock s - 1\<rparr>)" 77] mbox_example_ok
  by (auto simp: OsConfig_def bad_event_def)

end
