(* ===== verification/MailQueue.thy ===== *)
theory MailQueue
  imports Mbox
begin

text \<open>
  \<open>queue.c\<close>: mail queues, ring buffers of \<open>void*\<close> in memory of the application. \<open>QueueIDVessel\<close>
  has one bit for each queue control block in use.
\<close>

section \<open>Operations\<close>

text \<open>The search of \<open>CoCreateQueue\<close> for a free control block, from \<open>i\<close> on.\<close>

function find_free_id :: "nat \<Rightarrow> U32 \<Rightarrow> nat \<Rightarrow> nat option option" where
  "find_free_id n vessel i =
     (if i < n then do {
        b \<leftarrow> shl1 i;
        if vessel AND b = 0 then Some (Some i) else find_free_id n vessel (i + 1)
      } else Some None)"
  by pat_completeness auto
termination
  by (relation "measure (\<lambda>(n, vessel, i). n - i)") auto

declare find_free_id.simps [simp del]

definition CoCreateQueue ::
  "config \<Rightarrow> (kernel \<Rightarrow> kernel option) \<Rightarrow> U32 \<Rightarrow> U16 \<Rightarrow> U8 \<Rightarrow> kernel \<Rightarrow> (U8 \<times> kernel) option" where
  "CoCreateQueue c unl start sz sortType s =
     (if CFG_PAR_CHECKOUT_EN c \<and> (start = 0 \<or> sz = 0) then Some (E_CREATE_FAIL, s)
      else do {
        let s = OsSchedLock s;
        r \<leftarrow> find_free_id (CFG_MAX_QUEUE c) (QueueIDVessel s) 0;
        case r of
          Some i \<Rightarrow> do {
            b \<leftarrow> shl1 i;
            let s = s\<lparr>QueueIDVessel := QueueIDVessel s OR b\<rparr>;
            s \<leftarrow> unl s;
            let s = upd_qcb (of_nat i) (\<lambda>_. \<lparr>qStart = start, qcb_id = of_nat i, qhead = 0,
                      qtail = 0, qMaxSize = sz, qSize = 0\<rparr>) s;
            (p, s) \<leftarrow> CreatEvent unl EVENT_TYPE_QUEUE sortType (VQcb (of_nat i)) s;
            case p of
              None \<Rightarrow> Some (E_CREATE_FAIL, s)
            | Some pecb \<Rightarrow> Some (ecb_id (EventTbl s pecb), s)
          }
        | None \<Rightarrow> do { s \<leftarrow> unl s; Some (E_CREATE_FAIL, s) }
      })"

definition CoDelQueue ::
  "config \<Rightarrow> (kernel \<Rightarrow> kernel option) \<Rightarrow> OS_EventID \<Rightarrow> U8 \<Rightarrow> kernel \<Rightarrow>
   (StatusType \<times> kernel) option" where
  "CoDelQueue c unl i opt s =
     (if bad_event c EVENT_TYPE_QUEUE i s then Some (E_INVALID_ID, s)
      else do {
        pecb \<leftarrow> ecb_ptr c i;
        pqcb \<leftarrow> the_qcb c (eventPtr (EventTbl s pecb));
        (err, s) \<leftarrow> DeleteEvent c unl pecb opt s;
        if err = E_OK then do {
          b \<leftarrow> shl1 (unat (qcb_id (QueueTbl s pqcb)));
          let s = s\<lparr>QueueIDVessel := QueueIDVessel s AND NOT b\<rparr>;
          let s = upd_qcb pqcb (\<lambda>_. \<lparr>qStart = 0, qcb_id = 0, qhead = 0, qtail = 0,
                                     qMaxSize = 0, qSize = 0\<rparr>) s;
          Some (err, s)
        } else Some (err, s)
      })"

definition CoAcceptQueueMail ::
  "config \<Rightarrow> (kernel \<Rightarrow> kernel option) \<Rightarrow> OS_EventID \<Rightarrow> kernel \<Rightarrow>
   ((voidp \<times> StatusType) \<times> kernel) option" where
  "CoAcceptQueueMail c unl i s =
     (if bad_event c EVENT_TYPE_QUEUE i s then Some ((vnull, E_INVALID_ID), s)
      else do {
        pecb \<leftarrow> ecb_ptr c i;
        pqcb \<leftarrow> the_qcb c (eventPtr (EventTbl s pecb));
        let s = OsSchedLock s;
        if qSize (QueueTbl s pqcb) \<noteq> 0 then do {
          let (m, s) = qcb_take pqcb s;
          s \<leftarrow> unl s;
          Some ((VPtr m, E_OK), s)
        } else do {
          s \<leftarrow> unl s;
          Some ((vnull, E_QUEUE_EMPTY), s)
        }
      })"

definition CoPendQueueMail ::
  "config \<Rightarrow> (kernel \<Rightarrow> kernel option) \<Rightarrow> OS_EventID \<Rightarrow> U32 \<Rightarrow> kernel \<Rightarrow>
   ((voidp \<times> StatusType) outcome \<times> kernel) option" where
  "CoPendQueueMail c unl i timeout s =
     (if OSIntNesting s > 0 then Some (Ret (vnull, E_CALL), s)
      else if bad_event c EVENT_TYPE_QUEUE i s then Some (Ret (vnull, E_INVALID_ID), s)
      else do {
        pecb \<leftarrow> ecb_ptr c i;
        if OSSchedLock s \<noteq> 0 then Some (Ret (vnull, E_OS_IN_LOCK), s)
        else do {
          pqcb \<leftarrow> the_qcb c (eventPtr (EventTbl s pecb));
          let s = OsSchedLock s;
          if qSize (QueueTbl s pqcb) \<noteq> 0 then do {
            let (m, s) = qcb_take pqcb s;
            s \<leftarrow> unl s;
            Some (Ret (VPtr m, E_OK), s)
          } else do {
            s \<leftarrow> unl s;
            curTCB \<leftarrow> TCBRunning s;
            if timeout = 0 then do {
              s \<leftarrow> EventTaskToWait unl pecb curTCB s;
              Some (Blocked, s)
            } else do {
              let s = OsSchedLock s;
              s \<leftarrow> EventTaskToWait unl pecb curTCB s;
              s \<leftarrow> InsertDelayList curTCB timeout s;
              s \<leftarrow> unl s;
              Some (Blocked, s)
            }
          }
        }
      })"

definition CoPendQueueMail_resume ::
  "U32 \<Rightarrow> OS_TID \<Rightarrow> kernel \<Rightarrow> (voidp \<times> StatusType) \<times> kernel" where
  "CoPendQueueMail_resume = CoPendMail_resume"

text \<open>Append a mail at the tail of the ring buffer.\<close>

definition qcb_put :: "U8 \<Rightarrow> U32 \<Rightarrow> kernel \<Rightarrow> kernel" where
  "qcb_put pqcb m s =
     (let s = wr_mem (qStart (QueueTbl s pqcb) + 4 * ucast (qtail (QueueTbl s pqcb))) m s;
          s = upd_qcb pqcb (qtail_update (\<lambda>t. t + 1)) s;
          s = upd_qcb pqcb (qSize_update (\<lambda>n. n + 1)) s
      in if qtail (QueueTbl s pqcb) = qMaxSize (QueueTbl s pqcb)
         then upd_qcb pqcb (qtail_update (\<lambda>_. 0)) s else s)"

definition CoPostQueueMail ::
  "config \<Rightarrow> (kernel \<Rightarrow> kernel option) \<Rightarrow> OS_EventID \<Rightarrow> U32 \<Rightarrow> kernel \<Rightarrow>
   (StatusType \<times> kernel) option" where
  "CoPostQueueMail c unl i m s =
     (if bad_event c EVENT_TYPE_QUEUE i s then Some (E_INVALID_ID, s)
      else do {
        pecb \<leftarrow> ecb_ptr c i;
        pqcb \<leftarrow> the_qcb c (eventPtr (EventTbl s pecb));
        if qSize (QueueTbl s pqcb) = qMaxSize (QueueTbl s pqcb) then Some (E_QUEUE_FULL, s)
        else do {
          let s = OsSchedLock s;
          let s = qcb_put pqcb m s;
          s \<leftarrow> EventTaskToRdy c pecb s;
          s \<leftarrow> unl s;
          Some (E_OK, s)
        }
      })"

definition isr_PostQueueMail ::
  "config \<Rightarrow> (kernel \<Rightarrow> kernel option) \<Rightarrow> OS_EventID \<Rightarrow> U32 \<Rightarrow> kernel \<Rightarrow>
   (StatusType \<times> kernel) option" where
  "isr_PostQueueMail c unl i m s =
     (if OSSchedLock s > 0 then
        let (ok, s) = InsertInSRQ c QUEUE_REQ i m s
        in Some (if \<not> ok then E_SEV_REQ_FULL else E_OK, s)
      else CoPostQueueMail c unl i m s)"

section \<open>A mail queue is a bounded FIFO queue\<close>

definition mq_list :: "U8 \<Rightarrow> kernel \<Rightarrow> U32 list" where
  "mq_list q s = ring_list (\<lambda>i. mem s (qStart (QueueTbl s q) + 4 * of_nat i)) (unat (qMaxSize (QueueTbl s q)))
     (unat (qhead (QueueTbl s q))) (unat (qSize (QueueTbl s q)))"

definition mq_inv :: "U8 \<Rightarrow> kernel \<Rightarrow> bool" where
  "mq_inv q s \<longleftrightarrow> unat (qhead (QueueTbl s q)) < unat (qMaxSize (QueueTbl s q)) \<and>
     unat (qSize (QueueTbl s q)) \<le> unat (qMaxSize (QueueTbl s q)) \<and>
     unat (qtail (QueueTbl s q)) =
       (unat (qhead (QueueTbl s q)) + unat (qSize (QueueTbl s q))) mod unat (qMaxSize (QueueTbl s q))"

abbreviation mq_cap :: "U8 \<Rightarrow> kernel \<Rightarrow> nat" where
  "mq_cap q s \<equiv> unat (qMaxSize (QueueTbl s q))"

lemma cell_addr_inj:
  assumes "a + 4 * of_nat i = a + (4 * of_nat j :: U32)" and "i < 65536" and "j < 65536"
  shows "i = j"
proof -
  have "unat (4 * of_nat i :: U32) = 4 * i" "unat (4 * of_nat j :: U32) = 4 * j"
    using assms(2,3) by (simp_all add: unat_word_ariths unat_of_nat)
  with assms(1) show ?thesis by (metis add_left_cancel mult_left_cancel zero_neq_numeral)
qed

lemma unat_U16_less: "unat (w :: U16) < 65536"
proof -
  have "unat w < 2 ^ 16" using unsigned_less [of w] by simp
  then show ?thesis by simp
qed

text \<open>The advance of a ring index, with its wrap-around.\<close>

lemma next_index:
  assumes "unat (h :: U16) < unat N"
  shows "unat (if h + 1 = N then 0 else h + 1) = (unat h + 1) mod unat N"
proof -
  have "unat (h + 1) = Suc (unat h)"
    using assms unat_U16_less [of N] by (simp add: unat_word_ariths)
  moreover from this have "h + 1 = N \<longleftrightarrow> Suc (unat h) = unat N" by (metis word_unat_eq_iff)
  ultimately show ?thesis using assms by auto
qed

lemma qcb_put_ok:
  assumes "mq_inv q s" and "unat (qSize (QueueTbl s q)) < mq_cap q s"
  shows "mq_inv q (qcb_put q m s)" and "mq_list q (qcb_put q m s) = mq_list q s @ [m]"
    and "mq_cap q (qcb_put q m s) = mq_cap q s"
proof -
  let ?Q = "QueueTbl s q" let ?s = "qcb_put q m s" let ?N = "unat (qMaxSize ?Q)"
  let ?a = "qStart ?Q + 4 * ucast (qtail ?Q)"
  have t: "unat (qtail ?Q) < ?N" "unat (qtail ?Q) = (unat (qhead ?Q) + unat (qSize ?Q)) mod ?N"
    using assms by (auto simp: mq_inv_def)
  have sz: "unat (qSize ?Q + 1) = Suc (unat (qSize ?Q))"
    using assms(2) unat_U16_less [of "qMaxSize ?Q"] by (simp add: unat_word_ariths)
  have eq: "mem ?s = (mem s)(?a := m)"
    "QueueTbl ?s q = ?Q\<lparr>qtail := if qtail ?Q + 1 = qMaxSize ?Q then 0 else qtail ?Q + 1, qSize := qSize ?Q + 1\<rparr>"
    by (auto simp: qcb_put_def Let_def)
  have tl: "unat (if qtail ?Q + 1 = qMaxSize ?Q then 0 else qtail ?Q + 1) = (unat (qtail ?Q) + 1) mod ?N"
    by (rule next_index [OF t(1)])
  show "mq_inv q ?s" using assms sz tl t(2) by (auto simp: mq_inv_def eq mod_simps)
  have N: "?N < 65536" by (rule unat_U16_less)
  have inj: "qStart ?Q + 4 * of_nat i = ?a \<longleftrightarrow> i = unat (qtail ?Q)" if "i < ?N" for i
    using cell_addr_inj [of "qStart ?Q" i "unat (qtail ?Q)"] that t(1) N by auto
  show "mq_list q ?s = mq_list q s @ [m]"
    unfolding mq_list_def using assms(2) sz t inj
    by (simp add: eq) (rule ring_list_put; simp)
  show "mq_cap q ?s = mq_cap q s" by (simp add: eq)
qed

lemma qcb_take_ok:
  assumes "mq_inv q s" and "mq_list q s \<noteq> []" and "qcb_take q s = (m, s')"
  shows "mq_inv q s'" and "mq_list q s = m # mq_list q s'" and "mq_cap q s' = mq_cap q s"
proof -
  let ?Q = "QueueTbl s q" let ?N = "unat (qMaxSize ?Q)"
  have n: "0 < unat (qSize ?Q)" using assms(2) by (cases "unat (qSize ?Q)") (auto simp: mq_list_def ring_list_def)
  have h: "unat (qhead ?Q) < ?N" using assms(1) by (simp add: mq_inv_def)
  have eq: "mem s' = mem s" "m = mem s (qStart ?Q + 4 * ucast (qhead ?Q))"
    "QueueTbl s' q = ?Q\<lparr>qhead := if qhead ?Q + 1 = qMaxSize ?Q then 0 else qhead ?Q + 1, qSize := qSize ?Q - 1\<rparr>"
  proof -
    have p: "m = fst (qcb_take q s)" "s' = snd (qcb_take q s)" using assms(3) by simp_all
    show "mem s' = mem s" "m = mem s (qStart ?Q + 4 * ucast (qhead ?Q))"
      "QueueTbl s' q = ?Q\<lparr>qhead := if qhead ?Q + 1 = qMaxSize ?Q then 0 else qhead ?Q + 1, qSize := qSize ?Q - 1\<rparr>"
      unfolding p by (simp_all add: qcb_take_def Let_def)
  qed
  have sz: "unat (qSize ?Q - 1) = unat (qSize ?Q) - 1" using n by (simp add: unat_gt_0 unat_minus_one)
  note nh = next_index [OF h]
  have "((unat (qhead ?Q) + 1) mod ?N + (unat (qSize ?Q) - 1)) mod ?N = (unat (qhead ?Q) + 1 + (unat (qSize ?Q) - 1)) mod ?N"
    by (simp only: mod_add_left_eq)
  also have "unat (qhead ?Q) + 1 + (unat (qSize ?Q) - 1) = unat (qhead ?Q) + unat (qSize ?Q)" using n by simp
  finally show "mq_inv q s'" using assms(1) nh sz h by (auto simp: mq_inv_def eq simp del: One_nat_def)
  show "mq_list q s = m # mq_list q s'"
    unfolding mq_list_def using ring_list_take [OF n h, of "\<lambda>i. mem s (qStart ?Q + 4 * of_nat i)"] nh sz
    by (simp add: eq)
  show "mq_cap q s' = mq_cap q s" by (simp add: eq)
qed

interpretation mq: fifo "mq_list q" "mq_inv q" "mq_cap q" "qcb_put q" "qcb_take q" for q
proof
  show "mq_inv q (qcb_put q x s) \<and> mq_list q (qcb_put q x s) = mq_list q s @ [x] \<and> mq_cap q (qcb_put q x s) = mq_cap q s"
    if "mq_inv q s" "length (mq_list q s) < mq_cap q s" for s x
    using qcb_put_ok [OF that(1)] that(2) by (simp add: mq_list_def)
  show "mq_inv q s' \<and> mq_list q s = x # mq_list q s' \<and> mq_cap q s' = mq_cap q s"
    if "mq_inv q s" "mq_list q s \<noteq> []" "qcb_take q s = (x, s')" for s x s'
    using qcb_take_ok [OF that] by simp
  show "length (mq_list q s) \<le> mq_cap q s" if "mq_inv q s" for s
    using that by (simp add: mq_list_def mq_inv_def)
qed

section \<open>Properties\<close>

lemma mq_cong:
  assumes "QueueTbl s' q = QueueTbl s q" and "mem s' = mem s"
  shows "mq_list q s' = mq_list q s" and "mq_inv q s' = mq_inv q s"
  using assms by (simp_all add: mq_list_def mq_inv_def)

lemma qcb_put_rest:
  "same_lists s (qcb_put q m s)" "TCBRunning (qcb_put q m s) = TCBRunning s" "EventTbl (qcb_put q m s) = EventTbl s"
  "TCBTbl (qcb_put q m s) = TCBTbl s"
  by (simp_all add: qcb_put_def Let_def same_lists_def)

text \<open>
  C22. \<open>CoPostQueueMail\<close> on every branch, for a queue that passes the parameter check: a full queue
  is reported and left unchanged; without a waiting task the mail is appended behind the queued
  ones; otherwise the first waiting task becomes ready in priority order with its time-out
  cancelled and gets the oldest mail, the queue keeping the rest in order.
\<close>

theorem queue_post:
  assumes "CFG_PAR_CHECKOUT_EN c" and "\<not> bad_event c EVENT_TYPE_QUEUE i s"
    and "the_qcb c (eventPtr (EventTbl s i)) = Some q" and "mq_inv q s"
    and "wait_rep s i ws" and "lists_inv c s rs ds"
    and "ws \<noteq> [] \<Longrightarrow> sleeping c s rs ds (hd ws) \<and> TCBRunning s \<noteq> Some (hd ws)"
  shows "if length (mq_list q s) = mq_cap q s then CoPostQueueMail c unl i m s = Some (E_QUEUE_FULL, s)
    else case ws of
      [] \<Rightarrow> \<exists>s'. CoPostQueueMail c unl i m s = map_option (Pair E_OK) (unl s') \<and> mq_inv q s' \<and>
        mq_list q s' = mq_list q s @ [m]
    | t # ws' \<Rightarrow> \<exists>s' x. CoPostQueueMail c unl i m s = map_option (Pair E_OK) (unl s') \<and> wait_rep s' i ws' \<and>
        lists_inv c s' (insort_after (priof s) t rs) (filter (\<lambda>p. fst p \<noteq> t) ds) \<and>
        state (TCBTbl s' t) = TASK_READY \<and> pmail (TCBTbl s' t) = VPtr x \<and> mq_inv q s' \<and>
        mq_list q s @ [m] = x # mq_list q s'"
proof -
  note ok = bad_event_ok [OF assms(2,1)]
  let ?s0 = "s\<lparr>OSSchedLock := OSSchedLock s + 1\<rparr>"
  let ?s1 = "qcb_put q m ?s0"
  have len: "length (mq_list q s) = mq_cap q s \<longleftrightarrow> qSize (QueueTbl s q) = qMaxSize (QueueTbl s q)"
    by (simp add: mq_list_def word_unat_eq_iff)
  have bind: "Option.bind m (\<lambda>s. Some (E_OK, s)) = map_option (Pair E_OK) m" for m :: "kernel option" by (cases m) auto
  show ?thesis
  proof (cases "length (mq_list q s) = mq_cap q s")
    case True
    with len assms(2,3) ok(3) show ?thesis by (simp add: CoPostQueueMail_def)
  next
    case False
    then have lt: "unat (qSize (QueueTbl s q)) < mq_cap q s"
      using mq.bounded [OF assms(4)] by (simp add: mq_list_def)
    have i0: "mq_inv q ?s0" "mq_list q ?s0 = mq_list q s" using assms(4) mq_cong [of ?s0 q s] by simp_all
    have P: "mq_inv q ?s1" "mq_list q ?s1 = mq_list q s @ [m]"
      using qcb_put_ok [OF i0(1), of m] lt i0(2) by simp_all
    have post: "CoPostQueueMail c unl i m s = Option.bind (EventTaskToRdy c i ?s1) (\<lambda>s'. map_option (Pair E_OK) (unl s'))"
      using False len assms(2,3) ok(3) by (simp add: CoPostQueueMail_def OsSchedLock_def Let_def bind)
    show ?thesis
    proof (cases ws)
      case Nil
      then have "eventTCBList (EventTbl ?s1 i) = None"
        using assms(5) by (simp add: wait_rep_def dlist_def qcb_put_rest)
      with Nil False post P show ?thesis by (auto simp: EventTaskToRdy_none)
    next
      case (Cons t ws')
      obtain x s2 where tk: "qcb_take q ?s1 = (x, s2)" by fastforce
      note T = qcb_take_ok [OF P(1) _ tk]
      let ?sd = "upd_tcb t (pmail_update (\<lambda>_. VPtr x)) s2"
      have "event_deliver c i t ?s1 = Some ?sd"
        using ok(1) assms(3) tk by (simp add: event_deliver_def qcb_put_rest)
      moreover have "same_lists s ?s1" using qcb_put_rest(1) [of ?s0 q m] by (simp add: same_lists_def)
      ultimately have "\<exists>s'. EventTaskToRdy c i ?s1 = Some s' \<and> wait_rep s' i ws' \<and>
          lists_inv c s' (insort_after (priof s) t rs) (filter (\<lambda>p. fst p \<noteq> t) ds) \<and>
          state (TCBTbl s' t) = TASK_READY \<and> pmail (TCBTbl s' t) = pmail (TCBTbl ?sd t) \<and>
          EventTbl s' = (EventTbl ?sd)(i := (EventTbl ?sd i)\<lparr>eventTCBList := hd_ptr ws' None\<rparr>) \<and>
          QueueTbl s' = QueueTbl ?sd \<and> mem s' = mem ?s1"
        by (intro post_wakes [of s]) (use assms(5-7) Cons in \<open>simp_all add: qcb_put_rest\<close>)
      then obtain s' where s': "EventTaskToRdy c i ?s1 = Some s'" "wait_rep s' i ws'"
          "lists_inv c s' (insort_after (priof s) t rs) (filter (\<lambda>p. fst p \<noteq> t) ds)"
          "state (TCBTbl s' t) = TASK_READY" "pmail (TCBTbl s' t) = VPtr x" "QueueTbl s' = QueueTbl s2" "mem s' = mem ?s1"
        by auto
      have "mem s2 = mem ?s1" using tk by (auto simp: qcb_take_def Let_def split: if_splits)
      with s'(6,7) have "mq_list q s' = mq_list q s2" "mq_inv q s' = mq_inv q s2" using mq_cong [of s' q s2] by simp_all
      with s' T P post Cons False show ?thesis by auto
    qed
  qed
qed

definition queue_example :: kernel where
  "queue_example = (upd_ecb 0 (\<lambda>e. e\<lparr>eventType := EVENT_TYPE_QUEUE, eventPtr := VQcb 1\<rparr>) event_example)
     \<lparr>QueueTbl := (\<lambda>_. \<lparr>qStart = 0x20001000, qcb_id = 1, qhead = 2, qtail = 2, qMaxSize = 3, qSize = 0\<rparr>)\<rparr>"

lemma queue_example_ok:
  "wait_rep queue_example 0 [3]" "lists_inv OsConfig queue_example [2, 1] [(3, 5)]"
  "sleeping OsConfig queue_example [2, 1] [(3, 5)] 3" "TCBRunning queue_example = Some 4"
  "\<not> bad_event OsConfig EVENT_TYPE_QUEUE 0 queue_example" "priof queue_example = priof event_example"
  "the_qcb OsConfig (eventPtr (EventTbl queue_example 0)) = Some 1" "mq_inv 1 queue_example"
  "mq_list 1 queue_example = []" "mq_cap 1 queue_example = 3"
proof -
  have sl: "same_lists event_example queue_example" by (simp add: same_lists_def queue_example_def)
  show "wait_rep queue_example 0 [3]" using event_example_wait(1) by (simp add: wait_rep_def queue_example_def)
  show "lists_inv OsConfig queue_example [2, 1] [(3, 5)]" "sleeping OsConfig queue_example [2, 1] [(3, 5)] 3"
    using event_example_lists same_lists_cong [OF sl] by simp_all
qed (simp_all add: queue_example_def event_example_simps bad_event_def OsConfig_def the_qcb_def mq_inv_def mq_list_def ring_list_def)

theorem queue_post_witness:
  "\<exists>s'. CoPostQueueMail OsConfig Some 0 77 queue_example = Some (E_OK, s') \<and> pmail (TCBTbl s' 3) = VPtr 77 \<and>
    lists_inv OsConfig s' [2, 1, 3] [] \<and> mq_list 1 s' = []"
  using queue_post [of OsConfig 0 queue_example 1 "[3]" "[2, 1]" "[(3, 5)]" Some 77] queue_example_ok
  by (auto simp: event_example_simps OsConfig_def)

text \<open>
  A mail queue is a FIFO queue: mails put into an empty queue, as many as it holds, are taken
  out in the same order, through every wrap-around of the ring buffer, and leave it empty.
\<close>

theorem queue_fifo_order:
  assumes "mq_inv q s" and "mq_list q s = []" and "length ms \<le> mq_cap q s"
  shows "fst (take_all (qcb_take q) (length ms) (fold (qcb_put q) ms s)) = ms \<and>
    mq_list q (snd (take_all (qcb_take q) (length ms) (fold (qcb_put q) ms s))) = []"
  using assms by (rule mq.put_take_all)

theorem queue_fifo_order_witness:
  "fst (take_all (qcb_take 1) 3 (fold (qcb_put 1) [10, 20, 30] queue_example)) = [10, 20, 30]"
  using queue_fifo_order [of 1 queue_example "[10, 20, 30]"] queue_example_ok
  by (simp add: numeral_3_eq_3)

text \<open>
  The search for a free control block terminates and returns the least number whose bit is
  clear, or reports that all are taken; with at most 32 blocks no shift is out of range.
\<close>

theorem least_free_id:
  assumes "n \<le> 32"
  shows "find_free_id n v i = Some (if \<exists>j. i \<le> j \<and> j < n \<and> \<not> bit v j
    then Some (LEAST j. i \<le> j \<and> j < n \<and> \<not> bit v j) else None)"
  using assms
proof (induction n v i rule: find_free_id.induct)
  case (1 n v i)
  show ?case
  proof (cases "i < n")
    case True
    have b: "v AND push_bit i 1 = 0 \<longleftrightarrow> \<not> bit v i"
      using and_exp_eq_0_iff_not_bit [of v i] by (simp add: push_bit_eq_mult)
    have shl: "shl1 i = Some (push_bit i 1)" using True 1(2) by (intro shl1_Some) simp
    show ?thesis
    proof (cases "bit v i")
      case False
      then have "(LEAST j. i \<le> j \<and> j < n \<and> \<not> bit v j) = i" using True by (intro Least_equality) auto
      with False True b shl show ?thesis by (subst find_free_id.simps) auto
    next
      case bit: True
      have eq: "(i \<le> j \<and> j < n \<and> \<not> bit v j) = (i + 1 \<le> j \<and> j < n \<and> \<not> bit v j)" for j
        using bit by (cases "j = i") auto
      have "find_free_id n v i = find_free_id n v (i + 1)"
        using bit True b shl by (subst find_free_id.simps) simp
      with 1(1) [OF True shl] 1(2) bit b show ?thesis unfolding eq by simp
    qed
  next
    case False
    then show ?thesis by (subst find_free_id.simps) auto
  qed
qed

theorem least_free_id_witness: "find_free_id 2 1 0 = Some (Some 1)"
proof -
  have "\<exists>j. j < 2 \<and> \<not> bit (1 :: U32) j" by (intro exI [of _ 1]) simp
  moreover have "(LEAST j. j < 2 \<and> \<not> bit (1 :: U32) j) = 1"
    by (rule Least_equality) (auto simp: bit_simps le_less_Suc_eq Suc_le_eq intro: gr0I)
  ultimately show ?thesis using least_free_id [of 2 1 0] by simp
qed

end
