(* ===== verification/Flag.thy ===== *)
theory Flag
  imports MailQueue
begin

text \<open>
  \<open>flag.c\<close>: 32 event flags in one control block, and the list of the tasks that wait for some of
  them. The node of a waiting task is a local variable of its call, so it is named by the task.
\<close>

section \<open>Operations\<close>

abbreviation upd_fcb :: "(FCB \<Rightarrow> FCB) \<Rightarrow> kernel \<Rightarrow> kernel" where
  "upd_fcb f \<equiv> FlagCrl_update f"

definition FLAG_MAX_NUM :: nat where "FLAG_MAX_NUM = 32"

definition CoCreateFlag ::
  "(kernel \<Rightarrow> kernel option) \<Rightarrow> bool \<Rightarrow> bool \<Rightarrow> kernel \<Rightarrow> (U8 \<times> kernel) option" where
  "CoCreateFlag unl bAutoReset bInitialState s = do {
     let s = OsSchedLock s;
     r \<leftarrow> find_free_id FLAG_MAX_NUM (flagActive (FlagCrl s)) 0;
     case r of
       Some i \<Rightarrow> do {
         b \<leftarrow> shl1 i;
         let s = upd_fcb (flagActive_update (\<lambda>f. f OR b)) s;
         let s = upd_fcb (flagRdy_update (\<lambda>f. f OR push_bit i (of_bool bInitialState))) s;
         let s = upd_fcb (resetOpt_update (\<lambda>f. f OR push_bit i (of_bool bAutoReset))) s;
         s \<leftarrow> unl s;
         Some (of_nat i, s)
       }
     | None \<Rightarrow> do { s \<leftarrow> unl s; Some (E_CREATE_FAIL, s) }
   }"

definition RemoveLinkNode :: "OS_TID \<Rightarrow> kernel \<Rightarrow> kernel" where
  "RemoveLinkNode nd s =
     (let s =
        (case (nextNode (FlagNodes s nd), prevNode (FlagNodes s nd)) of
           (None, None) \<Rightarrow>
             let s = upd_fcb (headNode_update (\<lambda>_. None)) s
             in upd_fcb (tailNode_update (\<lambda>_. None)) s
         | (None, Some p) \<Rightarrow>
             let s = upd_fcb (tailNode_update (\<lambda>_. Some p)) s
             in upd_node p (nextNode_update (\<lambda>_. None)) s
         | (Some n, None) \<Rightarrow>
             let s = upd_fcb (headNode_update (\<lambda>_. Some n)) s
             in upd_node n (prevNode_update (\<lambda>_. None)) s
         | (Some n, Some p) \<Rightarrow>
             let s = upd_node n (prevNode_update (\<lambda>_. Some p)) s
             in upd_node p (nextNode_update (\<lambda>_. Some n)) s)
      in upd_tcb (waitTask (FlagNodes s nd)) (pnode_update (\<lambda>_. PNode_null)) s)"

definition RemoveFromLink ::
  "config \<Rightarrow> OS_TID \<Rightarrow> kernel \<Rightarrow> (OS_TID option \<times> kernel) option" where
  "RemoveFromLink c nd s = do {
     let s = RemoveLinkNode nd s;
     let ptcb = waitTask (FlagNodes s nd);
     let s = stop_delay ptcb s;
     let s = upd_tcb ptcb (pnode_update (\<lambda>_. PNode_woken)) s;
     s \<leftarrow> (if TCBRunning s = Some ptcb
           then Some (upd_tcb ptcb (state_update (\<lambda>_. TASK_RUNNING)) s)
           else InsertToTCBRdyList c ptcb s);
     Some (nextNode (FlagNodes s nd), s)
   }"

text \<open>
  The walk of \<open>CoDelFlag\<close> over the waiting nodes; \<open>b\<close> is \<open>1 << id\<close>. The result says whether
  the walk ended with the early return \<open>E_TASK_WAITING\<close>.
\<close>

partial_function (option) del_flag_loop ::
  "config \<Rightarrow> U32 \<Rightarrow> U8 \<Rightarrow> OS_TID option \<Rightarrow> kernel \<Rightarrow> (bool \<times> kernel) option" where
  "del_flag_loop c b opt pnd s =
     (case pnd of
        None \<Rightarrow> Some (False, s)
      | Some nd \<Rightarrow>
          if waitFlags (FlagNodes s nd) AND b \<noteq> 0 then
            if opt = OPT_DEL_NO_PEND then Some (True, s)
            else if opt = OPT_DEL_ANYWAY then
              if waitType (FlagNodes s nd) = OPT_WAIT_ALL \<and> waitFlags (FlagNodes s nd) \<noteq> b then
                let s = upd_node nd (waitFlags_update (\<lambda>f. f AND NOT b)) s
                in del_flag_loop c b opt (nextNode (FlagNodes s nd)) s
              else do {
                (pnd, s) \<leftarrow> RemoveFromLink c nd s;
                del_flag_loop c b opt pnd s
              }
            else del_flag_loop c b opt (nextNode (FlagNodes s nd)) s
          else del_flag_loop c b opt (nextNode (FlagNodes s nd)) s)"

definition CoDelFlag ::
  "config \<Rightarrow> (kernel \<Rightarrow> kernel option) \<Rightarrow> OS_FlagID \<Rightarrow> U8 \<Rightarrow> kernel \<Rightarrow>
   (StatusType \<times> kernel) option" where
  "CoDelFlag c unl i opt s =
     (if OSIntNesting s > 0 then Some (E_CALL, s)
      else do {
        b \<leftarrow> shl1 (unat i);
        if CFG_PAR_CHECKOUT_EN c \<and> flagActive (FlagCrl s) AND b = 0 then Some (E_INVALID_ID, s)
        else do {
          let s = OsSchedLock s;
          (waiting, s) \<leftarrow> del_flag_loop c b opt (headNode (FlagCrl s)) s;
          if waiting then do { s \<leftarrow> unl s; Some (E_TASK_WAITING, s) }
          else do {
            let s = upd_fcb (flagActive_update (\<lambda>f. f AND NOT b)) s;
            let s = upd_fcb (flagRdy_update (\<lambda>f. f AND NOT b)) s;
            let s = upd_fcb (resetOpt_update (\<lambda>f. f AND NOT b)) s;
            s \<leftarrow> unl s;
            Some (E_OK, s)
          }
        }
      })"

text \<open>The parameter check of the calls on one flag.\<close>

definition bad_flag :: "config \<Rightarrow> OS_FlagID \<Rightarrow> kernel \<Rightarrow> bool" where
  "bad_flag c i s \<longleftrightarrow> CFG_PAR_CHECKOUT_EN c \<and>
     (unat i \<ge> FLAG_MAX_NUM \<or> flagActive (FlagCrl s) AND push_bit (unat i) 1 = 0)"

definition CoAcceptSingleFlag ::
  "config \<Rightarrow> (kernel \<Rightarrow> kernel option) \<Rightarrow> OS_FlagID \<Rightarrow> kernel \<Rightarrow> (StatusType \<times> kernel) option" where
  "CoAcceptSingleFlag c unl i s =
     (if bad_flag c i s then Some (E_INVALID_ID, s)
      else do {
        b \<leftarrow> shl1 (unat i);
        if flagRdy (FlagCrl s) AND b \<noteq> 0 then do {
          let s = OsSchedLock s;
          let s = upd_fcb (flagRdy_update (\<lambda>f. f AND NOT (resetOpt (FlagCrl s) AND b))) s;
          s \<leftarrow> unl s;
          Some (E_OK, s)
        } else Some (E_FLAG_NOT_READY, s)
      })"

definition CoAcceptMultipleFlags ::
  "config \<Rightarrow> (kernel \<Rightarrow> kernel option) \<Rightarrow> U32 \<Rightarrow> U8 \<Rightarrow> kernel \<Rightarrow>
   ((U32 \<times> StatusType) \<times> kernel) option" where
  "CoAcceptMultipleFlags c unl flags wt s =
     (if CFG_PAR_CHECKOUT_EN c \<and> flags AND flagActive (FlagCrl s) \<noteq> flags
      then Some ((0, E_INVALID_PARAMETER), s)
      else do {
        let springFlag = flags AND flagRdy (FlagCrl s);
        let s = OsSchedLock s;
        if springFlag \<noteq> 0 \<and> wt = OPT_WAIT_ANY \<or> springFlag = flags \<and> wt = OPT_WAIT_ALL then do {
          let s = upd_fcb (flagRdy_update (\<lambda>f. f AND NOT (springFlag AND resetOpt (FlagCrl s)))) s;
          s \<leftarrow> unl s;
          Some ((springFlag, E_OK), s)
        } else do {
          s \<leftarrow> unl s;
          Some ((0, E_FLAG_NOT_READY), s)
        }
      })"

text \<open>\<open>FlagBlock\<close>: append the node of the running task to the list.\<close>

definition FlagBlock :: "U32 \<Rightarrow> U8 \<Rightarrow> kernel \<Rightarrow> kernel option" where
  "FlagBlock flags wt s = do {
     nd \<leftarrow> TCBRunning s;
     let s = upd_tcb nd (pnode_update (\<lambda>_. PNode nd)) s;
     let s = upd_node nd (\<lambda>n. n\<lparr>waitTask := nd, waitFlags := flags, waitType := wt\<rparr>) s;
     let s = (case tailNode (FlagCrl s) of
                None \<Rightarrow>
                  let s = upd_node nd (nextNode_update (\<lambda>_. None)) s;
                      s = upd_node nd (prevNode_update (\<lambda>_. None)) s
                  in upd_fcb (headNode_update (\<lambda>_. Some nd)) s
              | Some t \<Rightarrow>
                  let s = upd_node t (nextNode_update (\<lambda>_. Some nd)) s;
                      s = upd_node nd (prevNode_update (\<lambda>_. Some t)) s
                  in upd_node nd (nextNode_update (\<lambda>_. None)) s);
     Some (upd_fcb (tailNode_update (\<lambda>_. Some nd)) s)
   }"

definition flag_wait ::
  "(kernel \<Rightarrow> kernel option) \<Rightarrow> U32 \<Rightarrow> U8 \<Rightarrow> U32 \<Rightarrow> kernel \<Rightarrow> kernel option" where
  "flag_wait unl flags wt timeout s = do {
     curTCB \<leftarrow> TCBRunning s;
     s \<leftarrow> FlagBlock flags wt s;
     s \<leftarrow> (if timeout = 0 then
             let s = upd_tcb curTCB (state_update (\<lambda>_. TASK_WAITING)) s
             in Some (s\<lparr>TaskSchedReq := True\<rparr>)
           else InsertDelayList curTCB timeout s);
     unl s
   }"

definition CoWaitForSingleFlag ::
  "config \<Rightarrow> (kernel \<Rightarrow> kernel option) \<Rightarrow> OS_FlagID \<Rightarrow> U32 \<Rightarrow> kernel \<Rightarrow>
   (StatusType outcome \<times> kernel) option" where
  "CoWaitForSingleFlag c unl i timeout s =
     (if OSIntNesting s > 0 then Some (Ret E_CALL, s)
      else if OSSchedLock s \<noteq> 0 then Some (Ret E_OS_IN_LOCK, s)
      else if bad_flag c i s then Some (Ret E_INVALID_ID, s)
      else do {
        b \<leftarrow> shl1 (unat i);
        let s = OsSchedLock s;
        if flagRdy (FlagCrl s) AND b \<noteq> 0 then do {
          let s = upd_fcb (flagRdy_update (\<lambda>f. f AND NOT (resetOpt (FlagCrl s) AND b))) s;
          s \<leftarrow> unl s;
          Some (Ret E_OK, s)
        } else do {
          s \<leftarrow> flag_wait unl b OPT_WAIT_ONE timeout s;
          Some (Blocked, s)
        }
      })"

definition CoWaitForSingleFlag_resume ::
  "(kernel \<Rightarrow> kernel option) \<Rightarrow> OS_FlagID \<Rightarrow> U32 \<Rightarrow> OS_TID \<Rightarrow> kernel \<Rightarrow>
   (StatusType \<times> kernel) option" where
  "CoWaitForSingleFlag_resume unl i timeout curTCB s =
     (if timeout \<noteq> 0 \<and> pnode (TCBTbl s curTCB) = PNode_null then Some (E_TIMEOUT, s)
      else do {
        b \<leftarrow> shl1 (unat i);
        let s = upd_tcb curTCB (pnode_update (\<lambda>_. PNode_null)) s;
        let s = OsSchedLock s;
        let s = upd_fcb (flagRdy_update (\<lambda>f. f AND NOT (b AND resetOpt (FlagCrl s)))) s;
        s \<leftarrow> unl s;
        Some (E_OK, s)
      })"

definition CoWaitForMultipleFlags ::
  "config \<Rightarrow> (kernel \<Rightarrow> kernel option) \<Rightarrow> U32 \<Rightarrow> U8 \<Rightarrow> U32 \<Rightarrow> kernel \<Rightarrow>
   ((U32 \<times> StatusType) outcome \<times> kernel) option" where
  "CoWaitForMultipleFlags c unl flags wt timeout s =
     (if OSIntNesting s > 0 then Some (Ret (0, E_CALL), s)
      else if OSSchedLock s \<noteq> 0 then Some (Ret (0, E_OS_IN_LOCK), s)
      else if CFG_PAR_CHECKOUT_EN c \<and> flags AND flagActive (FlagCrl s) \<noteq> flags
      then Some (Ret (0, E_INVALID_PARAMETER), s)
      else do {
        let s = OsSchedLock s;
        let springFlag = flags AND flagRdy (FlagCrl s);
        if springFlag \<noteq> 0 \<and> wt = OPT_WAIT_ANY \<or> springFlag = flags \<and> wt = OPT_WAIT_ALL then do {
          let s = upd_fcb (flagRdy_update (\<lambda>f. f AND NOT (springFlag AND resetOpt (FlagCrl s)))) s;
          s \<leftarrow> unl s;
          Some (Ret (springFlag, E_OK), s)
        } else do {
          s \<leftarrow> flag_wait unl flags wt timeout s;
          Some (Blocked, s)
        }
      })"

definition CoWaitForMultipleFlags_resume ::
  "(kernel \<Rightarrow> kernel option) \<Rightarrow> U32 \<Rightarrow> U32 \<Rightarrow> OS_TID \<Rightarrow> kernel \<Rightarrow>
   ((U32 \<times> StatusType) \<times> kernel) option" where
  "CoWaitForMultipleFlags_resume unl flags timeout curTCB s =
     (if timeout \<noteq> 0 \<and> pnode (TCBTbl s curTCB) = PNode_null then Some ((0, E_TIMEOUT), s)
      else do {
        let s = upd_tcb curTCB (pnode_update (\<lambda>_. PNode_null)) s;
        let s = OsSchedLock s;
        let springFlag = flags AND flagRdy (FlagCrl s);
        let s = upd_fcb (flagRdy_update (\<lambda>f. f AND NOT (springFlag AND resetOpt (FlagCrl s)))) s;
        s \<leftarrow> unl s;
        Some ((springFlag, E_OK), s)
      })"

definition CoClearFlag :: "config \<Rightarrow> OS_FlagID \<Rightarrow> kernel \<Rightarrow> (StatusType \<times> kernel) option" where
  "CoClearFlag c i s =
     (if bad_flag c i s then Some (E_INVALID_ID, s)
      else do {
        b \<leftarrow> shl1 (unat i);
        Some (E_OK, upd_fcb (flagRdy_update (\<lambda>f. f AND NOT b)) s)
      })"

text \<open>The walk of \<open>CoSetFlag\<close>: wake every node whose condition holds, one only for a flag that resets itself.\<close>

definition node_ready :: "kernel \<Rightarrow> OS_TID \<Rightarrow> bool" where
  "node_ready s nd =
     (let w = waitFlags (FlagNodes s nd) AND flagRdy (FlagCrl s) in
      if waitType (FlagNodes s nd) = OPT_WAIT_ALL then w = waitFlags (FlagNodes s nd) else w \<noteq> 0)"

partial_function (option) set_flag_loop ::
  "config \<Rightarrow> U32 \<Rightarrow> OS_TID option \<Rightarrow> kernel \<Rightarrow> kernel option" where
  "set_flag_loop c b pnd s =
     (case pnd of
        None \<Rightarrow> Some s
      | Some nd \<Rightarrow>
          if node_ready s nd then do {
            (pnd, s) \<leftarrow> RemoveFromLink c nd s;
            if resetOpt (FlagCrl s) AND b \<noteq> 0 then Some s else set_flag_loop c b pnd s
          } else set_flag_loop c b (nextNode (FlagNodes s nd)) s)"

definition CoSetFlag ::
  "config \<Rightarrow> (kernel \<Rightarrow> kernel option) \<Rightarrow> OS_FlagID \<Rightarrow> kernel \<Rightarrow> (StatusType \<times> kernel) option" where
  "CoSetFlag c unl i s =
     (if bad_flag c i s then Some (E_INVALID_ID, s)
      else do {
        b \<leftarrow> shl1 (unat i);
        if flagRdy (FlagCrl s) AND b \<noteq> 0 then Some (E_OK, s)
        else do {
          let s = upd_fcb (flagRdy_update (\<lambda>f. f OR b)) s;
          let s = OsSchedLock s;
          s \<leftarrow> set_flag_loop c b (headNode (FlagCrl s)) s;
          s \<leftarrow> unl s;
          Some (E_OK, s)
        }
      })"

definition isr_SetFlag ::
  "config \<Rightarrow> (kernel \<Rightarrow> kernel option) \<Rightarrow> OS_FlagID \<Rightarrow> kernel \<Rightarrow> (StatusType \<times> kernel) option" where
  "isr_SetFlag c unl i s =
     (if OSSchedLock s > 0 then
        let (ok, s) = InsertInSRQ c FLAG_REQ i 0 s
        in Some (if \<not> ok then E_SEV_REQ_FULL else E_OK, s)
      else CoSetFlag c unl i s)"

end
