(* ===== verification/Timer.thy ===== *)
theory Timer
  imports Flag
begin

text \<open>
  \<open>timer.c\<close>: software timers. The running timers are linked through \<open>tmrNext\<close>/\<open>tmrPrev\<close> and
  headed by \<open>TmrList\<close>; \<open>tmrCnt\<close> is the difference to the timer in front, as in the DELAY list.
  A timer callback is code of the application: it is the parameter \<open>cb\<close>, applied to the address
  of the function.
\<close>

section \<open>Operations\<close>

definition insert_tmr_before :: "OS_TCID \<Rightarrow> OS_TCID \<Rightarrow> U32 \<Rightarrow> kernel \<Rightarrow> kernel option" where
  "insert_tmr_before tid pTmr deltaTicks s = do {
     s \<leftarrow> (case tmrPrev (TmrTbl s pTmr) of
             Some p \<Rightarrow>
               let s = upd_tmr p (tmrNext_update (\<lambda>_. Some tid)) s;
                   s = upd_tmr tid (tmrPrev_update (\<lambda>_. tmrPrev (TmrTbl s pTmr))) s;
                   s = upd_tmr tid (tmrNext_update (\<lambda>_. Some pTmr)) s
               in Some (upd_tmr pTmr (tmrPrev_update (\<lambda>_. Some tid)) s)
           | None \<Rightarrow> do {
               h \<leftarrow> TmrList s;
               let s = upd_tmr tid (tmrNext_update (\<lambda>_. Some h)) s;
               let s = upd_tmr h (tmrPrev_update (\<lambda>_. Some tid)) s;
               Some (s\<lparr>TmrList := Some tid\<rparr>)
             });
     n \<leftarrow> tmrNext (TmrTbl s tid);
     let s = upd_tmr tid (tmrCnt_update (\<lambda>_. tmrCnt (TmrTbl s n) + deltaTicks)) s;
     Some (upd_tmr n (tmrCnt_update (\<lambda>d. d - tmrCnt (TmrTbl s tid))) s)
   }"

partial_function (option) insert_tmr_loop ::
  "OS_TCID \<Rightarrow> OS_TCID \<Rightarrow> U32 \<Rightarrow> kernel \<Rightarrow> kernel option" where
  "insert_tmr_loop tid pTmr deltaTicks s =
     (let deltaTicks = deltaTicks - tmrCnt (TmrTbl s pTmr) in
      if sint deltaTicks < 0 then insert_tmr_before tid pTmr deltaTicks s
      else case tmrNext (TmrTbl s pTmr) of
             None \<Rightarrow>
               let s = upd_tmr tid (tmrPrev_update (\<lambda>_. Some pTmr)) s;
                   s = upd_tmr pTmr (tmrNext_update (\<lambda>_. Some tid)) s
               in Some (upd_tmr tid (tmrCnt_update (\<lambda>_. deltaTicks)) s)
           | Some n \<Rightarrow> insert_tmr_loop tid n deltaTicks s)"

definition InsertTmrList :: "(kernel \<Rightarrow> kernel option) \<Rightarrow> OS_TCID \<Rightarrow> kernel \<Rightarrow> kernel option" where
  "InsertTmrList unl tid s =
     (let cnt = tmrCnt (TmrTbl s tid) in
      if cnt = 0 then Some s
      else do {
        let s = OsSchedLock s;
        s \<leftarrow> (case TmrList s of
                None \<Rightarrow> Some (s\<lparr>TmrList := Some tid\<rparr>)
              | Some pTmr \<Rightarrow> insert_tmr_loop tid pTmr cnt s);
        unl s
      })"

definition unlink_tmr :: "OS_TCID \<Rightarrow> kernel \<Rightarrow> kernel" where
  "unlink_tmr pTmr s =
     (case (tmrPrev (TmrTbl s pTmr), tmrNext (TmrTbl s pTmr)) of
        (None, None) \<Rightarrow> s\<lparr>TmrList := None\<rparr>
      | (None, Some n) \<Rightarrow>
          let s = s\<lparr>TmrList := Some n\<rparr>;
              s = upd_tmr n (tmrPrev_update (\<lambda>_. None)) s;
              s = upd_tmr n (tmrCnt_update (\<lambda>d. d + tmrCnt (TmrTbl s pTmr))) s
          in upd_tmr pTmr (tmrNext_update (\<lambda>_. None)) s
      | (Some p, None) \<Rightarrow>
          let s = upd_tmr p (tmrNext_update (\<lambda>_. None)) s
          in upd_tmr pTmr (tmrPrev_update (\<lambda>_. None)) s
      | (Some p, Some n) \<Rightarrow>
          let s = upd_tmr p (tmrNext_update (\<lambda>_. Some n)) s;
              s = upd_tmr n (tmrPrev_update (\<lambda>_. Some p)) s;
              s = upd_tmr n (tmrCnt_update (\<lambda>d. d + tmrCnt (TmrTbl s pTmr))) s;
              s = upd_tmr pTmr (tmrNext_update (\<lambda>_. None)) s
          in upd_tmr pTmr (tmrPrev_update (\<lambda>_. None)) s)"

definition RemoveTmrList ::
  "config \<Rightarrow> (kernel \<Rightarrow> kernel option) \<Rightarrow> OS_TCID \<Rightarrow> kernel \<Rightarrow> kernel option" where
  "RemoveTmrList c unl tid s = do {
     pTmr \<leftarrow> tmr_ptr c tid;
     let s = OsSchedLock s;
     let s = unlink_tmr pTmr s;
     unl s
   }"

definition CoCreateTmr ::
  "config \<Rightarrow> (kernel \<Rightarrow> kernel option) \<Rightarrow> U8 \<Rightarrow> U32 \<Rightarrow> U32 \<Rightarrow> U32 \<Rightarrow> kernel \<Rightarrow>
   (U8 \<times> kernel) option" where
  "CoCreateTmr c unl ty cnt reload func s =
     (if CFG_PAR_CHECKOUT_EN c \<and> ty \<noteq> TMR_TYPE_ONE_SHOT \<and> ty \<noteq> TMR_TYPE_PERIODIC
      then Some (E_CREATE_FAIL, s)
      else if CFG_PAR_CHECKOUT_EN c \<and> func = 0 then Some (E_CREATE_FAIL, s)
      else do {
        let s = OsSchedLock s;
        r \<leftarrow> find_free_id (CFG_MAX_TMR c) (TmrIDVessel s) 0;
        case r of
          Some i \<Rightarrow> do {
            b \<leftarrow> shl1 i;
            let s = s\<lparr>TmrIDVessel := TmrIDVessel s OR b\<rparr>;
            s \<leftarrow> unl s;
            let s = upd_tmr (of_nat i) (\<lambda>_. \<lparr>tmrID = of_nat i, tmrType = ty,
                      tmrState = TMR_STATE_STOPPED, tmrCnt = cnt, tmrReload = reload,
                      tmrCallBack = func, tmrNext = None, tmrPrev = None\<rparr>) s;
            Some (of_nat i, s)
          }
        | None \<Rightarrow> do { s \<leftarrow> unl s; Some (E_CREATE_FAIL, s) }
      })"

text \<open>The parameter check of the calls on one timer.\<close>

definition bad_tmr :: "config \<Rightarrow> OS_TCID \<Rightarrow> kernel \<Rightarrow> bool" where
  "bad_tmr c tid s \<longleftrightarrow> CFG_PAR_CHECKOUT_EN c \<and>
     (unat tid \<ge> CFG_MAX_TMR c \<or> TmrIDVessel s AND push_bit (unat tid) 1 = 0)"

definition CoStartTmr ::
  "config \<Rightarrow> (kernel \<Rightarrow> kernel option) \<Rightarrow> OS_TCID \<Rightarrow> kernel \<Rightarrow> (StatusType \<times> kernel) option" where
  "CoStartTmr c unl tid s =
     (if bad_tmr c tid s then Some (E_INVALID_ID, s)
      else do {
        tid \<leftarrow> tmr_ptr c tid;
        if tmrState (TmrTbl s tid) = TMR_STATE_RUNNING then Some (E_OK, s)
        else do {
          let s = upd_tmr tid (tmrState_update (\<lambda>_. TMR_STATE_RUNNING)) s;
          s \<leftarrow> InsertTmrList unl tid s;
          Some (E_OK, s)
        }
      })"

definition CoStopTmr ::
  "config \<Rightarrow> (kernel \<Rightarrow> kernel option) \<Rightarrow> OS_TCID \<Rightarrow> kernel \<Rightarrow> (StatusType \<times> kernel) option" where
  "CoStopTmr c unl tid s =
     (if bad_tmr c tid s then Some (E_INVALID_ID, s)
      else do {
        tid \<leftarrow> tmr_ptr c tid;
        if tmrState (TmrTbl s tid) = TMR_STATE_STOPPED then Some (E_OK, s)
        else do {
          s \<leftarrow> RemoveTmrList c unl tid s;
          Some (E_OK, upd_tmr tid (tmrState_update (\<lambda>_. TMR_STATE_STOPPED)) s)
        }
      })"

definition CoDelTmr ::
  "config \<Rightarrow> (kernel \<Rightarrow> kernel option) \<Rightarrow> OS_TCID \<Rightarrow> kernel \<Rightarrow> (StatusType \<times> kernel) option" where
  "CoDelTmr c unl tid s =
     (if bad_tmr c tid s then Some (E_INVALID_ID, s)
      else do {
        tid \<leftarrow> tmr_ptr c tid;
        s \<leftarrow> (if tmrState (TmrTbl s tid) = TMR_STATE_RUNNING then RemoveTmrList c unl tid s
              else Some s);
        b \<leftarrow> shl1 (unat tid);
        Some (E_OK, s\<lparr>TmrIDVessel := TmrIDVessel s AND NOT b\<rparr>)
      })"

definition CoGetCurTmrCnt :: "config \<Rightarrow> OS_TCID \<Rightarrow> kernel \<Rightarrow> (U32 \<times> StatusType) option" where
  "CoGetCurTmrCnt c tid s =
     (if bad_tmr c tid s then Some (0, E_INVALID_ID)
      else do { tid \<leftarrow> tmr_ptr c tid; Some (tmrCnt (TmrTbl s tid), E_OK) })"

definition CoSetTmrCnt ::
  "config \<Rightarrow> (kernel \<Rightarrow> kernel option) \<Rightarrow> OS_TCID \<Rightarrow> U32 \<Rightarrow> U32 \<Rightarrow> kernel \<Rightarrow>
   (StatusType \<times> kernel) option" where
  "CoSetTmrCnt c unl tid cnt reload s =
     (if bad_tmr c tid s then Some (E_INVALID_ID, s)
      else do {
        tid \<leftarrow> tmr_ptr c tid;
        let s = upd_tmr tid (tmrCnt_update (\<lambda>_. cnt)) s;
        let s = upd_tmr tid (tmrReload_update (\<lambda>_. reload)) s;
        if tmrState (TmrTbl s tid) = TMR_STATE_RUNNING then do {
          s \<leftarrow> RemoveTmrList c unl tid s;
          s \<leftarrow> InsertTmrList unl tid s;
          Some (E_OK, s)
        } else Some (E_OK, s)
      })"

partial_function (option) TmrDispose ::
  "config \<Rightarrow> (U32 \<Rightarrow> kernel \<Rightarrow> kernel option) \<Rightarrow> (kernel \<Rightarrow> kernel option) \<Rightarrow> kernel \<Rightarrow>
   kernel option" where
  "TmrDispose c cb unl s =
     (case TmrList s of
        None \<Rightarrow> Some s
      | Some pTmr \<Rightarrow>
          if tmrCnt (TmrTbl s pTmr) = 0 then
            if tmrType (TmrTbl s pTmr) = TMR_TYPE_ONE_SHOT then do {
              s \<leftarrow> RemoveTmrList c unl (tmrID (TmrTbl s pTmr)) s;
              let s = upd_tmr pTmr (tmrState_update (\<lambda>_. TMR_STATE_STOPPED)) s;
              s \<leftarrow> cb (tmrCallBack (TmrTbl s pTmr)) s;
              TmrDispose c cb unl s
            }
            else if tmrType (TmrTbl s pTmr) = TMR_TYPE_PERIODIC then do {
              s \<leftarrow> RemoveTmrList c unl (tmrID (TmrTbl s pTmr)) s;
              let s = upd_tmr pTmr (tmrCnt_update (\<lambda>_. tmrReload (TmrTbl s pTmr))) s;
              s \<leftarrow> InsertTmrList unl (tmrID (TmrTbl s pTmr)) s;
              s \<leftarrow> cb (tmrCallBack (TmrTbl s pTmr)) s;
              TmrDispose c cb unl s
            }
            else TmrDispose c cb unl s
          else Some s)"

definition isr_TmrDispose ::
  "config \<Rightarrow> (U32 \<Rightarrow> kernel \<Rightarrow> kernel option) \<Rightarrow> (kernel \<Rightarrow> kernel option) \<Rightarrow> kernel \<Rightarrow>
   kernel option" where
  "isr_TmrDispose c cb unl s =
     (if OSSchedLock s > 1 then Some (s\<lparr>IsrReq := True, TimerReq := True\<rparr>)
      else TmrDispose c cb unl s)"

end
