(* ===== verification/Core.thy ===== *)
theory Core
  imports Timer
begin

text \<open>
  The core of the kernel: the expiry of delays (\<open>TimeDispose\<close> of \<open>time.c\<close>), the postponed
  requests (\<open>RespondSRQ\<close> of \<open>serviceReq.c\<close>), the schedule lock and the interrupt entry and exit
  of \<open>core.c\<close>, and the system tick and the initial stack frame of \<open>portable/arch.c\<close>.
\<close>

section \<open>Operations\<close>

definition flag_node :: "flag_ptr \<Rightarrow> OS_TID option" where
  "flag_node p = (case p of PNode n \<Rightarrow> Some n | _ \<Rightarrow> None)"

text \<open>One round of the loop of \<open>TimeDispose\<close>, for the task at the head of the list.\<close>

definition time_expire :: "config \<Rightarrow> OS_TID \<Rightarrow> kernel \<Rightarrow> kernel option" where
  "time_expire c dlyList s = do {
     s \<leftarrow> (if eventID (TCBTbl s dlyList) \<noteq> INVALID_ID then RemoveEventWaittingList c dlyList s
           else Some s);
     s \<leftarrow> (if pnode (TCBTbl s dlyList) \<noteq> PNode_null then do {
             nd \<leftarrow> flag_node (pnode (TCBTbl s dlyList));
             Some (RemoveLinkNode nd s)
           } else Some s);
     let s = upd_tcb dlyList (delayTick_update (\<lambda>_. INVALID_VALUE)) s;
     let s = s\<lparr>DlyList := TCBnext (TCBTbl s dlyList)\<rparr>;
     let s = upd_tcb dlyList (TCBnext_update (\<lambda>_. None)) s;
     s \<leftarrow> InsertToTCBRdyList c dlyList s;
     Some (case DlyList s of
             None \<Rightarrow> s
           | Some d \<Rightarrow> upd_tcb d (TCBprev_update (\<lambda>_. None)) s)
   }"

partial_function (option) TimeDispose :: "config \<Rightarrow> kernel \<Rightarrow> kernel option" where
  "TimeDispose c s =
     (case DlyList s of
        None \<Rightarrow> Some s
      | Some dlyList \<Rightarrow>
          if delayTick (TCBTbl s dlyList) = 0 then do {
            s \<leftarrow> time_expire c dlyList s;
            TimeDispose c s
          } else Some s)"

definition isr_TimeDispose :: "config \<Rightarrow> kernel \<Rightarrow> kernel option" where
  "isr_TimeDispose c s =
     (if OSSchedLock s > 1 then Some (s\<lparr>IsrReq := True, TimeReq := True\<rparr>)
      else TimeDispose c s)"

text \<open>The \<open>switch\<close> of \<open>RespondSRQ\<close>, and its loop over the postponed requests.\<close>

definition serve_cell ::
  "config \<Rightarrow> (kernel \<Rightarrow> kernel option) \<Rightarrow> SQC \<Rightarrow> kernel \<Rightarrow> kernel option" where
  "serve_cell c unl cell s =
     map_option snd
       (case sqc_type cell of
          SEM_REQ \<Rightarrow> CoPostSem c unl (sqc_id cell) s
        | MBOX_REQ \<Rightarrow> CoPostMail c unl (sqc_id cell) (sqc_arg cell) s
        | FLAG_REQ \<Rightarrow> CoSetFlag c unl (sqc_id cell) s
        | QUEUE_REQ \<Rightarrow> CoPostQueueMail c unl (sqc_id cell) (sqc_arg cell) s)"

partial_function (option) respond_loop ::
  "config \<Rightarrow> (kernel \<Rightarrow> kernel option) \<Rightarrow> kernel \<Rightarrow> kernel option" where
  "respond_loop c unl s =
     (if srq_cnt (ServiceReq s) \<noteq> 0 then do {
        let (cell, s) = take_srq c s;
        s \<leftarrow> serve_cell c unl cell s;
        respond_loop c unl s
      } else Some s)"

definition RespondSRQ ::
  "config \<Rightarrow> (U32 \<Rightarrow> kernel \<Rightarrow> kernel option) \<Rightarrow> (kernel \<Rightarrow> kernel option) \<Rightarrow> kernel \<Rightarrow>
   kernel option" where
  "RespondSRQ c cb unl s = do {
     s \<leftarrow> (if TimeReq s then do { s \<leftarrow> TimeDispose c s; Some (s\<lparr>TimeReq := False\<rparr>) } else Some s);
     s \<leftarrow> (if TimerReq s then do { s \<leftarrow> TmrDispose c cb unl s; Some (s\<lparr>TimerReq := False\<rparr>) }
           else Some s);
     s \<leftarrow> respond_loop c unl s;
     Some (if srq_cnt (ServiceReq s) = 0 then s\<lparr>IsrReq := False\<rparr> else s)
   }"

text \<open>
  \<open>OsSchedUnlock\<close> calls \<open>RespondSRQ\<close>, whose posts call \<open>OsSchedUnlock\<close> again. The nesting is
  bounded: the outer call runs with \<open>OSSchedLock = 1\<close>, so that an inner one, after the
  \<open>OsSchedLock\<close> of the post, sees a value above 1 and only decrements. The first argument is
  the nesting depth; two levels are enough for the kernel's own calls, and running out is
  \<open>None\<close>, never a normal result.
\<close>

primrec sched_unlock ::
  "nat \<Rightarrow> config \<Rightarrow> (U32 \<Rightarrow> kernel \<Rightarrow> kernel option) \<Rightarrow> kernel \<Rightarrow> kernel option" where
  "sched_unlock 0 c cb s = None"
| "sched_unlock (Suc n) c cb s =
     (if OSSchedLock s = 1 then do {
        s \<leftarrow> (if IsrReq s then RespondSRQ c cb (sched_unlock n c cb) s else Some s);
        s \<leftarrow> (if TaskSchedReq s then Schedule c s else Some s);
        Some (s\<lparr>OSSchedLock := 0\<rparr>)
      } else Some (s\<lparr>OSSchedLock := OSSchedLock s - 1\<rparr>))"

definition OsSchedUnlock ::
  "config \<Rightarrow> (U32 \<Rightarrow> kernel \<Rightarrow> kernel option) \<Rightarrow> kernel \<Rightarrow> kernel option" where
  "OsSchedUnlock c cb = sched_unlock 2 c cb"

definition CoSchedLock :: "kernel \<Rightarrow> kernel" where
  "CoSchedLock = OsSchedLock"

definition CoSchedUnlock ::
  "config \<Rightarrow> (U32 \<Rightarrow> kernel \<Rightarrow> kernel option) \<Rightarrow> kernel \<Rightarrow> kernel option" where
  "CoSchedUnlock c cb = OsSchedUnlock c cb"

definition CoGetOSVersion :: U16 where
  "CoGetOSVersion = 0x0114"

definition CoEnterISR :: "kernel \<Rightarrow> kernel" where
  "CoEnterISR s = s\<lparr>OSIntNesting := snd (Inc8 (OSIntNesting s))\<rparr>"

definition CoExitISR :: "config \<Rightarrow> kernel \<Rightarrow> kernel option" where
  "CoExitISR c s =
     (let s = s\<lparr>OSIntNesting := snd (Dec8 (OSIntNesting s))\<rparr> in
      if OSIntNesting s = 0 then
        if TaskSchedReq s then do {
          let s = s\<lparr>OSSchedLock := OSSchedLock s + 1\<rparr>;
          s \<leftarrow> Schedule c s;
          Some (s\<lparr>OSSchedLock := OSSchedLock s - 1\<rparr>)
        } else Some s
      else Some s)"

text \<open>\<open>InitTaskContext\<close>: the first stack frame of a task; 4 bytes for each stack word.\<close>

definition InitTaskContext :: "U32 \<Rightarrow> U32 \<Rightarrow> U32 \<Rightarrow> kernel \<Rightarrow> U32 \<times> kernel" where
  "InitTaskContext task param pstk s =
     (let context = pstk;
          s = wr_mem context 0x01000000 s;
          context = context - 4;
          s = wr_mem context task s;
          context = context - 4;
          s = wr_mem context 0xFFFFFFFE s;
          context = context - 4 * 5;
          s = wr_mem context param s;
          context = context - 4 * 8
      in (context, s))"

definition SysTick_Handler ::
  "config \<Rightarrow> (U32 \<Rightarrow> kernel \<Rightarrow> kernel option) \<Rightarrow> (kernel \<Rightarrow> kernel option) \<Rightarrow> kernel \<Rightarrow>
   kernel option" where
  "SysTick_Handler c cb unl s = do {
     let s = s\<lparr>OSSchedLock := OSSchedLock s + 1\<rparr>;
     let s = s\<lparr>OSTickCnt := OSTickCnt s + 1\<rparr>;
     s \<leftarrow> (case DlyList s of
             None \<Rightarrow> Some s
           | Some d \<Rightarrow>
               if delayTick (TCBTbl s d) > 1
               then Some (upd_tcb d (delayTick_update (\<lambda>n. n - 1)) s)
               else isr_TimeDispose c (upd_tcb d (delayTick_update (\<lambda>_. 0)) s));
     s \<leftarrow> (case TmrList s of
             None \<Rightarrow> Some s
           | Some t \<Rightarrow>
               if tmrCnt (TmrTbl s t) > 1
               then Some (upd_tmr t (tmrCnt_update (\<lambda>n. n - 1)) s)
               else isr_TmrDispose c cb unl (upd_tmr t (tmrCnt_update (\<lambda>_. 0)) s));
     let s = s\<lparr>TaskSchedReq := True\<rparr>;
     unl s
   }"

section \<open>The schedule lock\<close>

lemma unlock_nested: "OSSchedLock s \<noteq> 1 \<Longrightarrow> OsSchedUnlock c cb s = Some (s\<lparr>OSSchedLock := OSSchedLock s - 1\<rparr>)"
  by (simp add: OsSchedUnlock_def numeral_2_eq_2)

lemma unlock_outermost:
  assumes "OSSchedLock s = 1" and "\<not> IsrReq s"
  shows "OsSchedUnlock c cb s = map_option (\<lambda>s. s\<lparr>OSSchedLock := 0\<rparr>) (if TaskSchedReq s then Schedule c s else Some s)"
  using assms by (cases "Schedule c s") (simp_all add: OsSchedUnlock_def numeral_2_eq_2)

section \<open>Blocking\<close>

lemma wait_frame_rest:
  assumes "wait_frame A e s s'"
  shows "TCBRunning s' = TCBRunning s" "TCBNext s' = TCBNext s" "OSIntNesting s' = OSIntNesting s"
    "IsrReq s' = IsrReq s" "mem s' = mem s" "OSSchedLock s' = OSSchedLock s"
    "stkPtr (TCBTbl s' t) = stkPtr (TCBTbl s t)" "stack (TCBTbl s' t) = stack (TCBTbl s t)"
    "state (TCBTbl s' t) = state (TCBTbl s t)"
proof -
  have eq: "s'\<lparr>TCBTbl := TCBTbl s, EventTbl := EventTbl s\<rparr> = s"
    and c: "wait_core (TCBTbl s' t) = wait_core (TCBTbl s t)"
    using assms by (simp_all add: wait_frame_def)
  show "TCBRunning s' = TCBRunning s" "TCBNext s' = TCBNext s" "OSIntNesting s' = OSIntNesting s"
    "IsrReq s' = IsrReq s" "mem s' = mem s" "OSSchedLock s' = OSSchedLock s"
    using eq by (cases s; cases s'; simp)+
  show "stkPtr (TCBTbl s' t) = stkPtr (TCBTbl s t)" "stack (TCBTbl s' t) = stack (TCBTbl s t)"
    "state (TCBTbl s' t) = state (TCBTbl s t)"
    using arg_cong [OF c, of stkPtr] arg_cong [OF c, of stack] arg_cong [OF c, of state] by (simp_all add: wait_core_def)
qed

lemma dly_frame_stack:
  assumes "dly_frame A s s'"
  shows "stkPtr (TCBTbl s' t) = stkPtr (TCBTbl s t)" "stack (TCBTbl s' t) = stack (TCBTbl s t)"
proof -
  have c: "dly_core (TCBTbl s' t) = dly_core (TCBTbl s t)" using assms by (simp add: dly_frame_def)
  show "stkPtr (TCBTbl s' t) = stkPtr (TCBTbl s t)" "stack (TCBTbl s' t) = stack (TCBTbl s t)"
    using arg_cong [OF c, of stkPtr] arg_cong [OF c, of stack] by (simp_all add: dly_core_def)
qed

text \<open>
  The last step of every call that blocks: the running task has been put into its waiting list and
  the DELAY list, and the release of the lock hands the processor over.
\<close>

lemma unlock_switches:
  assumes "lists_inv c s (x # xs) ds" and "TCBRunning s = Some r" and "TCBNext s = Some r"
    and "OSIntNesting s = 0" and "OSSchedLock s = 1" and "\<not> IsrReq s" and "TaskSchedReq s"
    and "r \<notin> set (x # xs)" and "state (TCBTbl s r) = TASK_WAITING" and "no_overflow c r s"
  shows "\<exists>s'. OsSchedUnlock c cb s = Some s' \<and> lists_inv c s' xs ds \<and> (\<forall>e ws. wait_rep s' e ws = wait_rep s e ws) \<and>
    state (TCBTbl s' r) = TASK_WAITING \<and> state (TCBTbl s' x) = TASK_RUNNING \<and>
    TCBNext s' = Some x \<and> PendSVSet s' \<and> OSSchedLock s' = 0 \<and> EventTbl s' = EventTbl s"
proof -
  have "sched_ready c s r (x # xs)" using assms by (simp add: sched_ready_def lists_inv_def)
  then obtain s1 where s1: "Schedule c s = Some s1" "rdy_inv c s1 xs" "TCBNext s1 = Some x"
    "state (TCBTbl s1 x) = TASK_RUNNING" "state (TCBTbl s1 r) = TASK_WAITING" "PendSVSet s1"
    "links_only (set (x # xs)) ((TCBTbl s)(x := (TCBTbl s x)\<lparr>state := TASK_RUNNING\<rparr>)) (TCBTbl s1)"
    "EventTbl s1 = EventTbl s" "DlyList s1 = DlyList s"
    using Schedule_waiting [of c s r x xs] assms(9,10) by auto
  let ?s = "s1\<lparr>OSSchedLock := 0\<rparr>"
  have "OsSchedUnlock c cb s = Some ?s" using unlock_outermost [OF assms(5,6)] assms(7) s1(1) by simp
  moreover have "dly_rep ?s ds = dly_rep s ds"
  proof (rule dly_rep_eqI)
    fix u assume "u \<in> fst ` set ds"
    then have "u \<notin> set (x # xs)" using assms(1) by (auto simp: lists_inv_def)
    with links_only_outside [OF s1(7)] show "nextf ?s u = nextf s u \<and> prevf ?s u = prevf s u \<and> tickf ?s u = tickf s u"
      by simp
  qed (simp add: s1)
  then have "lists_inv c ?s xs ds" using assms(1) s1(2) by (auto simp: lists_inv_def)
  moreover have "wait_rep ?s e ws = wait_rep s e ws" for e ws
    by (rule wait_rep_eqI) (simp_all add: s1 links_onlyD [OF s1(7)])
  ultimately show ?thesis using s1 by auto
qed

section \<open>Expiry of delays\<close>

abbreviation tick_down :: "'a \<times> nat \<Rightarrow> 'a \<times> nat" where
  "tick_down \<equiv> (\<lambda>(t, n). (t, n - 1))"

lemma deltas_tick_down: "0 < b \<Longrightarrow> map tick_down (deltas f b xs) = deltas f (b - 1) xs"
  by (induction xs arbitrary: b) (simp_all add: add.commute)

text \<open>Counting the head of the list down counts every task down.\<close>

lemma dly_rep_tick_down:
  assumes "dly_rep s ((t, n) # ds)" and "0 < n"
  shows "dly_rep (upd_tcb t (delayTick_update (\<lambda>d. d - 1)) s) (map tick_down ((t, n) # ds))"
proof -
  let ?s = "upd_tcb t (delayTick_update (\<lambda>d. d - 1)) s" and ?xs = "map fst ds"
  have r: "dlist (nextf s) (prevf s) (DlyList s) (t # ?xs)" "(t, n) # ds = deltas (tickf s) 0 (t # ?xs)"
    "\<forall>p \<in> set ((t, n) # ds). snd p < 2 ^ 31"
    using assms(1) by (auto simp: dly_rep_def delta_rep_def)
  have n: "n = unat (tickf s t)" "ds = deltas (tickf s) n ?xs" using r(2) by auto
  have nt: "t \<notin> set ?xs" using r(1) by (auto simp: dlist_def)
  have u: "unat (tickf s t - 1) = n - 1" using n(1) assms(2) by (simp add: unat_minus_one unat_gt_0)
  have "deltas (tickf ?s) (n - 1) ?xs = deltas (tickf s) (n - 1) ?xs" by (rule deltas_cong) (use nt in auto)
  moreover have "map tick_down ds = deltas (tickf s) (n - 1) ?xs"
    by (subst n(2)) (rule deltas_tick_down [OF assms(2)])
  ultimately have eq: "map tick_down ((t, n) # ds) = deltas (tickf ?s) 0 (t # ?xs)" using u by simp
  have dl: "dlist (nextf ?s) (prevf ?s) (DlyList ?s) (t # ?xs)"
    using r(1) dlist_cong [of "t # ?xs" "nextf ?s" "nextf s" "prevf ?s" "prevf s" "DlyList s"] by auto
  show ?thesis unfolding dly_rep_def by (rule delta_repI [OF dl eq]) (use r(3) in auto)
qed

lemma time_expire_ok:
  assumes "lists_inv c s rs ((t, 0) # ds)" and "eventID (TCBTbl s t) = INVALID_ID" and "pnode (TCBTbl s t) = PNode_null"
    and "CFG_ORDER_LIST_SCHEDULE_EN c \<or> pri_active s (priof s t) \<and> valid_tid c s t"
  shows "\<exists>s'. time_expire c t s = Some s' \<and> lists_inv c s' (insort_after (priof s) t rs) ds \<and>
    rdy_frame s (s'\<lparr>DlyList := DlyList s\<rparr>) \<and>
    (\<forall>u. prio (TCBTbl s' u) = prio (TCBTbl s u) \<and> taskID (TCBTbl s' u) = taskID (TCBTbl s u) \<and>
         eventID (TCBTbl s' u) = eventID (TCBTbl s u) \<and> pnode (TCBTbl s' u) = pnode (TCBTbl s u) \<and>
         state (TCBTbl s' u) = (if u = t then TASK_READY else state (TCBTbl s u)) \<and>
         delayTick (TCBTbl s' u) = (if u = t then INVALID_VALUE else delayTick (TCBTbl s u))) \<and>
    tcb_frame (insert t (set rs \<union> fst ` set ds)) s s'"
proof -
  let ?xs = "map fst ds"
  have R: "dly_rep s ((t, 0) # ds)" and rs: "rdy_inv c s rs" "t \<notin> set rs" "set rs \<inter> fst ` set ds = {}"
    using assms(1) by (auto simp: lists_inv_def)
  have dl: "dlist (nextf s) (prevf s) (DlyList s) (t # ?xs)" and t0: "tickf s t = 0"
    using R by (auto simp: dly_rep_def delta_rep_def unat_eq_0)
  have l: "nextf s t = hd_ptr ?xs None" "prevf s t = None" "t \<notin> set ?xs" using dl by (auto simp: dlist_def)
  define s1 where "s1 = s\<lparr>TCBTbl := (TCBTbl s)(t := (TCBTbl s t)\<lparr>delayTick := INVALID_VALUE, TCBnext := None\<rparr>), DlyList := hd_ptr ?xs None\<rparr>"
  have r1: "rdy_inv c s1 rs"
  proof -
    have "rdy_inv c s1 rs = rdy_inv c s rs" by (rule rdy_inv_cong_on) (use rs(2) in \<open>auto simp: s1_def\<close>)
    with rs(1) show ?thesis by simp
  qed
  have a1: "admissible c s1 t"
    using assms(4) l(2) by (auto simp: s1_def admissible_def unlinked_def pri_active_def valid_tid_def)
  obtain s2 where s2: "InsertToTCBRdyList c t s1 = Some s2" "rdy_inv c s2 (insort_after (priof s1) t rs)" "ins_frame t rs s1 s2"
    using rq.ins_ok [OF r1 rs(2) a1] by blast
  have pr: "priof s1 = priof s" by (auto simp: s1_def fun_eq_iff)
  have fr: "rdy_frame s1 s2" using s2(3) by (simp add: ins_frame_def)
  have D2: "DlyList s2 = hd_ptr ?xs None" using rdy_frameD(11) [OF fr] by (simp add: s1_def)
  define s3 where "s3 = (case hd_ptr ?xs None of None \<Rightarrow> s2 | Some d \<Rightarrow> upd_tcb d (TCBprev_update (\<lambda>_. None)) s2)"
  have out: "TCBTbl s2 u = TCBTbl s u" if "u \<in> set ?xs" for u
  proof -
    have "u \<notin> insert t (set rs)" using that l(3) rs(3) by auto
    then show ?thesis using ins_frame_tcb(11) [OF s2(3), of u] by (simp add: s1_def)
  qed
  have tcb3: "TCBTbl s3 u = (if ?xs \<noteq> [] \<and> u = hd ?xs then (TCBTbl s2 u)\<lparr>TCBprev := None\<rparr> else TCBTbl s2 u)" for u
    by (cases ?xs) (simp_all add: s3_def)
  have rest: "rdy_frame s2 s3" by (cases ?xs) (simp_all add: s3_def)
  have hx: "hd ?xs \<in> set ?xs" if "?xs \<noteq> []" using that by (rule hd_in_set)
  have D3: "DlyList s3 = hd_ptr ?xs None" using D2 rdy_frameD(11) [OF rest] by simp
  have "delta_rep (nextf s3) (prevf s3) (tickf s3) (DlyList s3) ([] @ ds)"
  proof (rule delta_rep_remove [where xs = "[]" and t = t and d = 0 and as = "[]" and bs = "?xs" and
          nx = "nextf s" and pv = "prevf s" and dt = "tickf s" and h = "DlyList s"], goal_cases)
    case 1 show ?case using R by (simp add: dly_rep_def)
  next
    case (5 u)
    then show ?case using out [of u] by (auto simp: tcb3)
  next
    case (6 u)
    then show ?case using out [of u] by (auto simp: tcb3)
  next
    case (8 n zs)
    then have out_all: "tickf s3 u = tickf s u" if "u \<in> set ?xs" for u using out [OF that] by (auto simp: tcb3)
    show ?case using 8 out_all t0 by simp
  qed (simp_all add: D3)
  then have "dly_rep s3 ds" by (simp add: dly_rep_def)
  moreover have "rdy_inv c s3 (insort_after (priof s) t rs)"
  proof -
    have "rdy_inv c s3 (insort_after (priof s) t rs) = rdy_inv c s2 (insort_after (priof s) t rs)"
    proof (rule rdy_inv_cong_on)
      fix u assume "u \<in> set (insort_after (priof s) t rs)"
      then have "u \<notin> set ?xs" using l(3) rs(3) by auto
      then show "nextf s3 u = nextf s2 u \<and> prevf s3 u = prevf s2 u" using tcb3 hx by auto
    qed (cases ?xs; simp add: s3_def)+
    with s2(2) pr show ?thesis by simp
  qed
  moreover have "set (insort_after (priof s) t rs) \<inter> fst ` set ds = {}" using l(3) rs(3) by auto
  moreover have "time_expire c t s = Some s3"
  proof -
    have "upd_tcb t (TCBnext_update (\<lambda>_. None)) (upd_tcb t (delayTick_update (\<lambda>_. INVALID_VALUE)) s
        \<lparr>DlyList := TCBnext (TCBTbl (upd_tcb t (delayTick_update (\<lambda>_. INVALID_VALUE)) s) t)\<rparr>) = s1"
      by (rule kernel.equality) (simp_all add: s1_def l)
    then show ?thesis using assms(2,3) s2(1) D2 by (simp add: time_expire_def s3_def Let_def)
  qed
  moreover have "rdy_frame s (s3\<lparr>DlyList := DlyList s\<rparr>)"
    using fr rest by (simp add: s1_def) (cases s; cases s2; cases s3; simp add: rdy_frame_def)
  moreover have "prio (TCBTbl s3 u) = prio (TCBTbl s u) \<and> taskID (TCBTbl s3 u) = taskID (TCBTbl s u) \<and>
      eventID (TCBTbl s3 u) = eventID (TCBTbl s u) \<and> pnode (TCBTbl s3 u) = pnode (TCBTbl s u) \<and>
      state (TCBTbl s3 u) = (if u = t then TASK_READY else state (TCBTbl s u)) \<and>
      delayTick (TCBTbl s3 u) = (if u = t then INVALID_VALUE else delayTick (TCBTbl s u))" for u
    by (simp add: tcb3 ins_frame_tcb [OF s2(3)]) (simp add: s1_def)
  moreover have "tcb_frame (insert t (set rs \<union> fst ` set ds)) s s3"
  proof -
    let ?A = "insert t (set rs \<union> fst ` set ds)"
    have "tcb_frame {t} s s1" by (auto simp: tcb_frame_def s1_def)
    then have "tcb_frame ?A s s2" by (rule tcb_frame_trans [OF _ tcb_frame_ins [OF s2(3)]]) auto
    moreover have "tcb_frame (set ?xs) s2 s3" using hx by (auto simp: tcb_frame_def tcb3)
    ultimately show ?thesis by (rule tcb_frame_trans) auto
  qed
  ultimately show ?thesis by (auto simp: lists_inv_def)
qed

text \<open>A task that only waits for time, and whose priority is in the tables.\<close>

definition pure_delay :: "config \<Rightarrow> kernel \<Rightarrow> OS_TID \<Rightarrow> bool" where
  "pure_delay c s t \<longleftrightarrow> eventID (TCBTbl s t) = INVALID_ID \<and> pnode (TCBTbl s t) = PNode_null \<and>
     (CFG_ORDER_LIST_SCHEDULE_EN c \<or> pri_active s (priof s t) \<and> valid_tid c s t)"

lemma rdy_frame_DlyList_trans:
  assumes "rdy_frame s (s1\<lparr>DlyList := DlyList s\<rparr>)" and "rdy_frame s1 (s2\<lparr>DlyList := DlyList s1\<rparr>)"
  shows "rdy_frame s (s2\<lparr>DlyList := DlyList s\<rparr>)"
  using assms by (cases s; cases s1; cases s2; simp add: rdy_frame_def)

lemma TimeDispose_ok:
  assumes "lists_inv c s rs (map (\<lambda>t. (t, 0)) ts @ ds)" and "ds \<noteq> [] \<Longrightarrow> 0 < snd (hd ds)"
    and "\<And>t. t \<in> set ts \<Longrightarrow> pure_delay c s t"
  shows "\<exists>s'. TimeDispose c s = Some s' \<and> lists_inv c s' (fold (insort_after (priof s)) ts rs) ds \<and>
    rdy_frame s (s'\<lparr>DlyList := DlyList s\<rparr>) \<and> priof s' = priof s \<and>
    (\<forall>t. state (TCBTbl s' t) = (if t \<in> set ts then TASK_READY else state (TCBTbl s t)) \<and>
         delayTick (TCBTbl s' t) = (if t \<in> set ts then INVALID_VALUE else delayTick (TCBTbl s t))) \<and>
    tcb_frame (set ts \<union> set rs \<union> fst ` set ds) s s'"
  using assms
proof (induction ts arbitrary: s rs)
  case Nil
  have "TimeDispose c s = Some s"
  proof (cases ds)
    case Nil': Nil
    then have "DlyList s = None" using Nil.prems(1) by (simp add: lists_inv_def dly_rep_def delta_rep_def dlist_def)
    then show ?thesis by (subst TimeDispose.simps) simp
  next
    case (Cons p ps)
    then obtain t n where p: "ds = (t, n) # ps" by (cases p) auto
    then have "DlyList s = Some t" "tickf s t \<noteq> 0"
      using Nil.prems(1,2) by (auto simp: lists_inv_def dly_rep_def delta_rep_def dlist_def)
    then show ?thesis by (subst TimeDispose.simps) simp
  qed
  moreover have "rdy_frame s (s\<lparr>DlyList := DlyList s\<rparr>)" by simp
  ultimately show ?case using Nil.prems(1) by auto
next
  case (Cons t ts)
  let ?ds = "map (\<lambda>t. (t, 0)) ts @ ds"
  have L: "lists_inv c s rs ((t, 0) # ?ds)" using Cons.prems(1) by simp
  have h: "DlyList s = Some t" "tickf s t = 0"
    using L by (auto simp: lists_inv_def dly_rep_def delta_rep_def dlist_def unat_eq_0)
  obtain s1 where s1: "time_expire c t s = Some s1" "lists_inv c s1 (insort_after (priof s) t rs) ?ds"
    "rdy_frame s (s1\<lparr>DlyList := DlyList s\<rparr>)"
    and t1: "\<And>u. prio (TCBTbl s1 u) = prio (TCBTbl s u)" "\<And>u. taskID (TCBTbl s1 u) = taskID (TCBTbl s u)"
      "\<And>u. eventID (TCBTbl s1 u) = eventID (TCBTbl s u)" "\<And>u. pnode (TCBTbl s1 u) = pnode (TCBTbl s u)"
      "\<And>u. state (TCBTbl s1 u) = (if u = t then TASK_READY else state (TCBTbl s u))"
      "\<And>u. delayTick (TCBTbl s1 u) = (if u = t then INVALID_VALUE else delayTick (TCBTbl s u))"
    and f1: "tcb_frame (insert t (set rs \<union> fst ` set ?ds)) s s1"
    using time_expire_ok [OF L] Cons.prems(3) [of t] by (auto simp: pure_delay_def)
  have "PriNum s1 = PriNum s" "ActivePri s1 = ActivePri s" using rdy_frameD(4,5) [OF s1(3)] by simp_all
  then have "pure_delay c s1 u = pure_delay c s u" for u
    by (simp add: pure_delay_def t1 pri_active_def valid_tid_def)
  then obtain s' where s': "TimeDispose c s1 = Some s'"
    "lists_inv c s' (fold (insort_after (priof s1)) ts (insort_after (priof s) t rs)) ds"
    "rdy_frame s1 (s'\<lparr>DlyList := DlyList s1\<rparr>)" "priof s' = priof s1"
    "\<forall>u. state (TCBTbl s' u) = (if u \<in> set ts then TASK_READY else state (TCBTbl s1 u)) \<and>
         delayTick (TCBTbl s' u) = (if u \<in> set ts then INVALID_VALUE else delayTick (TCBTbl s1 u))"
    "tcb_frame (set ts \<union> set (insort_after (priof s) t rs) \<union> fst ` set ds) s1 s'"
    using Cons.IH [OF s1(2) Cons.prems(2)] Cons.prems(3) by auto
  have "TimeDispose c s = Some s'" using h s1(1) s'(1) by (subst TimeDispose.simps) simp
  moreover have "tcb_frame (set (t # ts) \<union> set rs \<union> fst ` set ds) s s'"
    by (rule tcb_frame_trans [OF f1 s'(6)]) auto
  ultimately show ?case using s' rdy_frame_DlyList_trans [OF s1(3) s'(3)] t1 by auto
qed

text \<open>The first tick of a list: the tasks with one tick to go expire, all others have one tick less.\<close>

abbreviation expiring :: "(OS_TID \<times> nat) list \<Rightarrow> OS_TID list" where
  "expiring ds \<equiv> map fst (takeWhile (\<lambda>p. snd p = 1) ds)"

abbreviation staying :: "(OS_TID \<times> nat) list \<Rightarrow> (OS_TID \<times> nat) list" where
  "staying ds \<equiv> map tick_down (dropWhile (\<lambda>p. snd p = 1) ds)"

lemma tick_down_split: "map tick_down ds = map (\<lambda>t. (t, 0)) (expiring ds) @ staying ds"
  by (induction ds) auto

lemma staying_positive:
  assumes "\<forall>p \<in> set ds. 0 < snd p" and "staying ds \<noteq> []"
  shows "0 < snd (hd (staying ds))"
  using assms by (induction ds) (auto split: if_splits)

lemma SysTick_delay:
  assumes "lists_inv c s rs ds" and "\<forall>p \<in> set ds. 0 < snd p" and "OSSchedLock s = 1"
    and "\<And>t. t \<in> set (expiring ds) \<Longrightarrow> pure_delay c s t"
  shows "\<exists>s'. (case DlyList s of None \<Rightarrow> Some s
      | Some d \<Rightarrow> if delayTick (TCBTbl s d) > 1 then Some (upd_tcb d (delayTick_update (\<lambda>n. n - 1)) s)
                 else isr_TimeDispose c (upd_tcb d (delayTick_update (\<lambda>_. 0)) s)) = Some s' \<and>
    lists_inv c s' (fold (insort_after (priof s)) (expiring ds) rs) (staying ds) \<and>
    rdy_frame s (s'\<lparr>DlyList := DlyList s\<rparr>) \<and>
    (\<forall>t. state (TCBTbl s' t) = (if t \<in> set (expiring ds) then TASK_READY else state (TCBTbl s t)) \<and>
         (t \<notin> fst ` set ds \<longrightarrow> delayTick (TCBTbl s' t) = delayTick (TCBTbl s t)) \<and>
         (t \<in> set (expiring ds) \<longrightarrow> delayTick (TCBTbl s' t) = INVALID_VALUE)) \<and>
    tcb_frame (set rs \<union> fst ` set ds) s s'"
proof (cases ds)
  case Nil
  then have "DlyList s = None" using assms(1) by (simp add: lists_inv_def dly_rep_def delta_rep_def dlist_def)
  moreover have "rdy_frame s (s\<lparr>DlyList := DlyList s\<rparr>)" by simp
  ultimately show ?thesis using Nil assms(1) by auto
next
  case (Cons p qs)
  then obtain d n where p: "ds = (d, n) # qs" by (cases p) auto
  have R: "dly_rep s ((d, n) # qs)" using assms(1) by (simp add: lists_inv_def p)
  then have h: "DlyList s = Some d" "n = unat (tickf s d)" by (auto simp: dly_rep_def delta_rep_def dlist_def)
  have n: "0 < n" using assms(2) by (simp add: p)
  let ?s = "upd_tcb d (delayTick_update (\<lambda>n. n - 1)) s"
  have "d \<notin> set rs" using assms(1) by (simp add: lists_inv_def p)
  have "rdy_inv c ?s rs = rdy_inv c s rs" by (rule rdy_inv_cong_on) auto
  moreover have "dly_rep ?s (map tick_down ds)" using dly_rep_tick_down [OF R n] by (simp add: p)
  ultimately have L: "lists_inv c ?s rs (map (\<lambda>t. (t, 0)) (expiring ds) @ staying ds)"
    using assms(1) unfolding tick_down_split [symmetric] by (auto simp: lists_inv_def split_def image_comp)
  have fr: "rdy_frame s (?s\<lparr>DlyList := DlyList s\<rparr>)" by simp
  have ps: "priof ?s = priof s" by (simp add: fun_eq_iff)
  have d: "d \<in> fst ` set ds" by (simp add: p)
  then have tf: "tcb_frame (set rs \<union> fst ` set ds) s ?s" by (intro tcb_frame_upd) simp_all
  have ts: "set (expiring ds) \<union> set rs \<union> fst ` set (staying ds) \<subseteq> set rs \<union> fst ` set ds"
    by (auto dest!: set_takeWhileD set_dropWhileD) (force dest: set_dropWhileD)+
  show ?thesis
  proof (cases "n = 1")
    case False
    then have "1 < tickf s d" using h(2) n by (simp add: word_less_nat_alt)
    moreover have "expiring ds = []" using False by (simp add: p)
    ultimately show ?thesis using L fr h(1) d tf by auto
  next
    case True
    then have t1: "tickf s d = 1" using h(2) by (simp add: word_unat_eq_iff)
    then have "upd_tcb d (delayTick_update (\<lambda>_. 0)) s = ?s" by (intro kernel.equality) (simp_all add: fun_eq_iff)
    moreover have "pure_delay c ?s t = pure_delay c s t" for t
      by (simp add: pure_delay_def pri_active_def valid_tid_def)
    then obtain s' where "TimeDispose c ?s = Some s'" "lists_inv c s' (fold (insort_after (priof s)) (expiring ds) rs) (staying ds)"
      "rdy_frame ?s (s'\<lparr>DlyList := DlyList ?s\<rparr>)"
      "\<forall>t. state (TCBTbl s' t) = (if t \<in> set (expiring ds) then TASK_READY else state (TCBTbl ?s t)) \<and>
         delayTick (TCBTbl s' t) = (if t \<in> set (expiring ds) then INVALID_VALUE else delayTick (TCBTbl ?s t))"
      "tcb_frame (set (expiring ds) \<union> set rs \<union> fst ` set (staying ds)) ?s s'"
      using TimeDispose_ok [OF L staying_positive [OF assms(2)]] assms(4) unfolding ps by blast
    moreover from this(5) have "tcb_frame (set rs \<union> fst ` set ds) s s'" by (rule tcb_frame_trans [OF tf _ subset_refl ts])
    moreover have "set (expiring ds) \<subseteq> fst ` set ds" by (auto dest!: set_takeWhileD)
    ultimately show ?thesis using h(1) t1 assms(3) rdy_frame_DlyList_trans [OF fr] d
      by (auto simp: isr_TimeDispose_def)
  qed
qed

lemma unlock_calm:
  assumes "\<not> IsrReq s" and "\<not> TaskSchedReq s"
  shows "OsSchedUnlock c cb s = Some (s\<lparr>OSSchedLock := OSSchedLock s - 1\<rparr>)"
  using assms unlock_nested [of s c cb] unlock_outermost [of s c cb] by (cases "OSSchedLock s = 1") simp_all

section \<open>Properties\<close>

text \<open>
  C24. A task that pends on an empty semaphore with a time-out blocks: it enters the waiting list
  of the semaphore at its place and the DELAY list at its time, it is marked waiting, the
  scheduler runs and the first task of the READY list is the next to run, and the schedule lock
  is free again. The interrupt requests must have been served first (see \<open>pend_loses_wakeup\<close>).
\<close>

theorem semaphore_pend_blocks:
  assumes "CFG_PAR_CHECKOUT_EN c" and "\<not> bad_event c EVENT_TYPE_SEM i s" and "eventCounter (EventTbl s i) = 0"
    and "eventSortType (EventTbl s i) = EVENT_SORT_TYPE_FIFO \<or> eventSortType (EventTbl s i) = EVENT_SORT_TYPE_PRIO"
    and "sched_ready c s r (x # xs)" and "state (TCBTbl s r) = TASK_RUNNING" and "no_overflow c r s"
    and "OSSchedLock s = 0" and "\<not> IsrReq s" and "\<not> TaskSchedReq s"
    and "wait_rep s i ws" and "r \<notin> set ws" and "wait_free s r"
    and "dly_rep s ds" and "r \<notin> fst ` set ds" and "set (x # xs) \<inter> fst ` set ds = {}"
    and "0 < n" and "unat n < 2 ^ 31"
  shows "\<exists>s'. CoPendSem c (OsSchedUnlock c cb) i n s = Some (Blocked, s') \<and>
    wait_rep s' i (wait_order s i r ws) \<and> dly_rep s' (insort_after snd (r, unat n) ds) \<and> rdy_inv c s' xs \<and>
    state (TCBTbl s' r) = TASK_WAITING \<and> state (TCBTbl s' x) = TASK_RUNNING \<and>
    TCBNext s' = Some x \<and> PendSVSet s' \<and> OSSchedLock s' = 0"
proof -
  note ok = bad_event_ok [OF assms(2,1)]
  let ?unl = "OsSchedUnlock c cb"
  have run: "TCBRunning s = Some r" "OSIntNesting s = 0" and ad: "admissible c s r"
    using assms(5,6) by (auto simp: sched_ready_def)
  have l1: "OSSchedLock (OsSchedLock s) = 1" by (simp add: OsSchedLock_def assms(8))
  have u1: "?unl (OsSchedLock s) = Some s"
    using unlock_outermost [of "OsSchedLock s" c cb] assms(8-10) by (simp add: OsSchedLock_def)
  let ?s0 = "OsSchedLock s"
  have w0: "wait_rep ?s0 i ws" "wait_free ?s0 r" "EventTbl ?s0 = EventTbl s" "wait_order ?s0 i r ws = wait_order s i r ws"
    using assms(11,13) by (simp_all add: OsSchedLock_def wait_rep_def wait_free_def wait_order_def)
  obtain s1 where s1: "EventTaskToWait ?unl i r ?s0 =
      ?unl (upd_tcb r (state_update (\<lambda>_. TASK_WAITING)) s1\<lparr>OSSchedLock := OSSchedLock ?s0 + 1, TaskSchedReq := True\<rparr>)"
    "wait_rep s1 i (wait_order s i r ws)" "wait_frame (insert r (set ws)) i ?s0 s1"
    using EventTaskToWait_ok [OF w0(1) assms(12) w0(2) assms(4) [folded w0(3)], of ?unl] unfolding w0(4) by blast
  let ?s2 = "upd_tcb r (state_update (\<lambda>_. TASK_WAITING)) s1\<lparr>OSSchedLock := 1, TaskSchedReq := True\<rparr>"
  have "OSSchedLock ?s0 + 1 = 2" by (simp add: l1)
  then have u2: "EventTaskToWait ?unl i r ?s0 = Some ?s2"
    unfolding s1(1) by (subst unlock_nested) simp_all
  note W = wait_frame_rest [OF s1(3)]
  have sl: "same_lists s ?s2"
    using wait_frame_lists [OF s1(3)] by (simp add: same_lists_def OsSchedLock_def)
  have L: "lists_inv c s (x # xs) ds" using assms(5,14,16) by (simp add: lists_inv_def sched_ready_def)
  have L2: "lists_inv c ?s2 (x # xs) ds" "admissible c ?s2 r" using L ad same_lists_cong(1,3) [OF sl] by blast+
  then have L3: "unlinked ?s2 r" "dly_rep ?s2 ds" unfolding lists_inv_def admissible_def by blast+
  obtain s3 where s3: "InsertDelayList r n ?s2 = Some (upd_tcb r (state_update (\<lambda>_. TASK_WAITING)) s3\<lparr>TaskSchedReq := True\<rparr>)"
    "dly_rep s3 (insort_after snd (r, unat n) ds)" "dly_frame (insert r (fst ` set ds)) ?s2 s3"
    using InsertDelayList_ok [OF L3(2) assms(15) L3(1) assms(17,18)] by blast
  let ?s4 = "upd_tcb r (state_update (\<lambda>_. TASK_WAITING)) s3\<lparr>TaskSchedReq := True\<rparr>"
  note D = dly_frame_rest [OF s3(3)] and Dt = dly_frame_simps [OF s3(3)] and Ds = dly_frame_stack [OF s3(3)]
  have rx: "r \<notin> set (x # xs)" using assms(5) by (simp add: sched_ready_def)
  have "rdy_inv c s3 (x # xs)"
    using rdy_inv_dly_frame [OF s3(3), of "x # xs" c] L2(1) assms(16) rx by (auto simp: lists_inv_def)
  then have "lists_inv c ?s4 (x # xs) (insort_after snd (r, unat n) ds)"
    using s3(2) assms(16) rx by (auto simp: lists_inv_def)
  moreover have "wait_rep ?s4 i (wait_order s i r ws)"
  proof -
    have "wait_rep ?s4 i (wait_order s i r ws) = wait_rep s1 i (wait_order s i r ws)"
      by (rule wait_rep_eqI) (simp_all add: D Dt)
    with s1(2) show ?thesis by simp
  qed
  moreover have "no_overflow c r ?s4"
    using assms(7) by (simp add: no_overflow_def stk_overflow_def D Ds W OsSchedLock_def)
  ultimately obtain s' where "?unl ?s4 = Some s'" "lists_inv c s' xs (insort_after snd (r, unat n) ds)"
    "wait_rep s' i (wait_order s i r ws)" "state (TCBTbl s' r) = TASK_WAITING" "state (TCBTbl s' x) = TASK_RUNNING"
    "TCBNext s' = Some x" "PendSVSet s'" "OSSchedLock s' = 0"
    using unlock_switches [of c ?s4 x xs "insort_after snd (r, unat n) ds" r cb] rx assms(5,9)
    by (auto simp: D W OsSchedLock_def sched_ready_def)
  moreover have "CoPendSem c ?unl i n s = map_option (Pair Blocked) (?unl ?s4)"
    using assms(2,3,8,17) ok(3) run u1 u2 s3(1) by (cases "?unl ?s4") (auto simp: CoPendSem_def w0(3) Let_def)
  ultimately show ?thesis by (auto simp: lists_inv_def)
qed

definition pend_example :: kernel where
  "pend_example = sched_example\<lparr>EventTbl := (\<lambda>_. \<lparr>eventPtr = vnull, ecb_id = 0, eventType = EVENT_TYPE_SEM,
     eventSortType = EVENT_SORT_TYPE_FIFO, eventCounter = 0, initialEventCounter = 2, eventTCBList = None\<rparr>)\<rparr>"

theorem semaphore_pend_blocks_witness:
  "\<exists>s'. CoPendSem OsConfig (OsSchedUnlock OsConfig (\<lambda>_. Some)) 0 10 pend_example = Some (Blocked, s') \<and>
    wait_rep s' 0 [4] \<and> dly_rep s' [(4, 10)] \<and> rdy_inv OsConfig s' [1] \<and> TCBNext s' = Some 2"
proof -
  have "sched_ready OsConfig pend_example 4 [2, 1]"
    using sched_example_ready sched_example_state by (simp add: sched_ready_def pend_example_def)
  moreover have "no_overflow OsConfig 4 pend_example" "state (TCBTbl pend_example 4) = TASK_RUNNING"
    using sched_example_state by (simp_all add: no_overflow_def stk_overflow_def pend_example_def)
  moreover have "wait_rep pend_example 0 []" "dly_rep pend_example []" "wait_free pend_example 4"
    "OSSchedLock pend_example = 0" "\<not> IsrReq pend_example" "\<not> TaskSchedReq pend_example"
    "\<not> bad_event OsConfig EVENT_TYPE_SEM 0 pend_example" "eventCounter (EventTbl pend_example 0) = 0"
    "eventSortType (EventTbl pend_example 0) = EVENT_SORT_TYPE_FIFO" "CFG_PAR_CHECKOUT_EN OsConfig"
    by (simp_all add: pend_example_def sched_example_def ready_example_defs wait_rep_def dlist_def dly_rep_def
        delta_rep_def wait_free_def bad_event_def)
  ultimately show ?thesis
    using semaphore_pend_blocks [of OsConfig 0 pend_example 4 2 "[1]" "[]" "[]" 10 "\<lambda>_. Some"]
    by (auto simp: wait_order_def)
qed

text \<open>
  Critical sections nest: inside a locked section, any further locks and as many unlocks give
  exactly the state back; nothing is scheduled and no request is served before the outermost
  unlock.
\<close>

theorem lock_nesting_roundtrip:
  assumes "0 < OSSchedLock s" and "unat (OSSchedLock s) + k < 256"
  shows "((\<lambda>m. m \<bind> OsSchedUnlock c cb) ^^ k) (Some ((OsSchedLock ^^ k) s)) = Some s"
  using assms
proof (induction k arbitrary: s)
  case (Suc k)
  let ?u = "\<lambda>m. m \<bind> OsSchedUnlock c cb"
  have pos: "0 < unat (OSSchedLock s)" using Suc.prems(1) by (simp add: unat_gt_0)
  have u: "unat (OSSchedLock (OsSchedLock s)) = Suc (unat (OSSchedLock s))"
    using Suc.prems(2) by (simp add: OsSchedLock_def unat_Suc_U8)
  then have "0 < OSSchedLock (OsSchedLock s)" "unat (OSSchedLock (OsSchedLock s)) + k < 256" "OSSchedLock (OsSchedLock s) \<noteq> 1"
    using Suc.prems(2) pos by (auto simp: word_less_nat_alt word_unat_eq_iff)
  moreover have "OsSchedLock s\<lparr>OSSchedLock := OSSchedLock (OsSchedLock s) - 1\<rparr> = s" by (simp add: OsSchedLock_def)
  ultimately have "OsSchedUnlock c cb (OsSchedLock s) = Some s"
    "(?u ^^ k) (Some ((OsSchedLock ^^ k) (OsSchedLock s))) = Some (OsSchedLock s)"
    using Suc.IH [of "OsSchedLock s"] unlock_nested [of "OsSchedLock s" c cb] by simp_all
  then show ?case by (simp add: funpow_swap1)
qed simp

theorem lock_nesting_roundtrip_witness:
  "((\<lambda>m. m \<bind> OsSchedUnlock OsConfig (\<lambda>_. Some)) ^^ 3) (Some ((OsSchedLock ^^ 3) (kernel_start\<lparr>OSSchedLock := 1\<rparr>))) =
   Some (kernel_start\<lparr>OSSchedLock := 1\<rparr>)"
  by (rule lock_nesting_roundtrip) simp_all

lemma rdy_inv_isr [simp]:
  "rdy_inv c (IsrReq_update f s) xs = rdy_inv c s xs" "rdy_inv c (ServiceReq_update g s) xs = rdy_inv c s xs"
  "admissible c (IsrReq_update f s) t = admissible c s t" "admissible c (ServiceReq_update g s) t = admissible c s t"
  by (rule rdy_inv_cong; simp)+

lemma respond_one_sem:
  assumes "OSSchedLock s = 1" and "\<not> TimeReq s" and "\<not> TimerReq s" and "srq_cnt (ServiceReq s) = 1"
    and "sqc_type (fst (take_srq c s)) = SEM_REQ" and "sqc_id (fst (take_srq c s)) = i"
    and "CFG_PAR_CHECKOUT_EN c" and "\<not> bad_event c EVENT_TYPE_SEM i s"
    and "eventCounter (EventTbl s i) \<noteq> initialEventCounter (EventTbl s i)" and "eventTCBList (EventTbl s i) = None"
  shows "RespondSRQ c cb (sched_unlock (Suc 0) c cb) s =
    Some (upd_ecb i (eventCounter_update (\<lambda>n. n + 1)) (snd (take_srq c s))\<lparr>IsrReq := False\<rparr>)"
proof -
  let ?s = "snd (take_srq c s)" and ?unl = "sched_unlock (Suc 0) c cb"
  have t: "EventTbl ?s = EventTbl s" "OSSchedLock ?s = 1" "srq_cnt (ServiceReq ?s) = 0"
    using assms(1,4) by (simp_all add: take_srq_def Let_def)
  have b: "\<not> bad_event c EVENT_TYPE_SEM i ?s" "ecb_ptr c i = Some i"
    using assms(8) bad_event_ok [OF assms(8,7)] t(1) by (simp_all add: bad_event_def)
  let ?p = "upd_ecb i (eventCounter_update (\<lambda>n. n + 1)) ?s"
  have "CoPostSem c ?unl i ?s = Some (E_OK, ?p)"
    using b assms(9,10) t by (simp add: CoPostSem_def OsSchedLock_def EventTaskToRdy_none Let_def)
  then have "serve_cell c ?unl (fst (take_srq c s)) ?s = Some ?p" using assms(5,6) by (simp add: serve_cell_def)
  moreover have "respond_loop c ?unl ?p = Some ?p" using t(3) by (subst respond_loop.simps) simp
  ultimately have "respond_loop c ?unl s = Some ?p"
    using assms(4) by (subst respond_loop.simps) (simp add: split_beta)
  then show ?thesis using assms(2,3) t(3) by (simp add: RespondSRQ_def)
qed

text \<open>
  C36. A wake-up can get lost. \<open>CoPendSem\<close> sees the counter at zero and then gives up the schedule
  lock before it puts the task into the waiting list; a post that an interrupt handler has left
  in the service request queue is served by that unlock and raises the counter, and the task
  still goes on to wait: it ends up waiting for a semaphore whose counter is 1.
\<close>

theorem pend_loses_wakeup:
  assumes "CFG_PAR_CHECKOUT_EN c" and "\<not> bad_event c EVENT_TYPE_SEM i s" and "eventCounter (EventTbl s i) = 0"
    and "initialEventCounter (EventTbl s i) \<noteq> 0" and "eventSortType (EventTbl s i) = EVENT_SORT_TYPE_FIFO"
    and "sched_ready c s r (x # xs)" and "state (TCBTbl s r) = TASK_RUNNING" and "no_overflow c r s"
    and "OSSchedLock s = 0" and "\<not> TaskSchedReq s" and "IsrReq s" and "\<not> TimeReq s" and "\<not> TimerReq s"
    and "srq_cnt (ServiceReq s) = 1" and "sqc_type (fst (take_srq c s)) = SEM_REQ" and "sqc_id (fst (take_srq c s)) = i"
    and "wait_rep s i []" and "wait_free s r" and "dly_rep s []"
  shows "\<exists>s'. CoPendSem c (OsSchedUnlock c cb) i 0 s = Some (Blocked, s') \<and> wait_rep s' i [r] \<and>
    eventCounter (EventTbl s' i) = 1 \<and> state (TCBTbl s' r) = TASK_WAITING \<and> TCBNext s' = Some x"
proof -
  note ok = bad_event_ok [OF assms(2,1)]
  let ?unl = "OsSchedUnlock c cb"
  have run: "TCBRunning s = Some r" "TCBNext s = Some r" "OSIntNesting s = 0" and ad: "admissible c s r"
    and rx: "r \<notin> set (x # xs)" and inv: "rdy_inv c s (x # xs)"
    using assms(6,7) by (auto simp: sched_ready_def)
  let ?s0 = "OsSchedLock s"
  define q where "q = ServiceReq (snd (take_srq c ?s0))"
  define s1 where "s1 = upd_ecb i (eventCounter_update (\<lambda>n. n + 1)) (s\<lparr>ServiceReq := q, IsrReq := False\<rparr>)"
  have tk: "fst (take_srq c (s\<lparr>OSSchedLock := v\<rparr>)) = fst (take_srq c s)" for v by (simp add: take_srq_def Let_def)
  have "RespondSRQ c cb (sched_unlock (Suc 0) c cb) ?s0 =
      Some (upd_ecb i (eventCounter_update (\<lambda>n. n + 1)) (snd (take_srq c ?s0))\<lparr>IsrReq := False\<rparr>)"
    by (rule respond_one_sem) (use assms ok in \<open>auto simp: OsSchedLock_def bad_event_def wait_rep_def dlist_def tk\<close>)
  also have "upd_ecb i (eventCounter_update (\<lambda>n. n + 1)) (snd (take_srq c ?s0))\<lparr>IsrReq := False\<rparr> = s1\<lparr>OSSchedLock := 1\<rparr>"
    using assms(9) by (simp add: s1_def q_def take_srq_def OsSchedLock_def Let_def)
  finally have rsp: "RespondSRQ c cb (sched_unlock (Suc 0) c cb) ?s0 = Some (s1\<lparr>OSSchedLock := 1\<rparr>)" .
  have "s1\<lparr>OSSchedLock := 0\<rparr> = s1" using assms(9) by (intro kernel.equality) (simp_all add: s1_def)
  moreover have "\<not> TaskSchedReq s1" "OSSchedLock ?s0 = 1" "IsrReq ?s0"
    using assms(9-11) by (simp_all add: s1_def OsSchedLock_def)
  ultimately have u1: "?unl ?s0 = Some s1" using rsp by (simp add: OsSchedUnlock_def numeral_2_eq_2)
  have w1: "wait_rep s1 i []" "wait_free s1 r" "wait_order s1 i r [] = [r]" "eventCounter (EventTbl s1 i) = 1"
    using assms(3,5,17,18) by (simp_all add: s1_def wait_rep_def wait_free_def wait_order_def)
  have st: "eventSortType (EventTbl s1 i) = EVENT_SORT_TYPE_FIFO \<or> eventSortType (EventTbl s1 i) = EVENT_SORT_TYPE_PRIO"
    using assms(5) by (simp add: s1_def)
  obtain s2 where s2: "EventTaskToWait ?unl i r s1 =
      ?unl (upd_tcb r (state_update (\<lambda>_. TASK_WAITING)) s2\<lparr>OSSchedLock := OSSchedLock s1 + 1, TaskSchedReq := True\<rparr>)"
    "wait_rep s2 i [r]" "wait_frame (insert r {}) i s1 s2"
    using EventTaskToWait_ok [OF w1(1) _ w1(2) st, of ?unl] w1(3) by auto
  let ?s3 = "upd_tcb r (state_update (\<lambda>_. TASK_WAITING)) s2\<lparr>OSSchedLock := OSSchedLock s1 + 1, TaskSchedReq := True\<rparr>"
  note W = wait_frame_rest [OF s2(3)]
  have "same_lists s ?s3" using wait_frame_lists [OF s2(3)] by (simp add: same_lists_def s1_def)
  moreover have "lists_inv c s (x # xs) []" using inv assms(19) by (simp add: lists_inv_def)
  ultimately have L: "lists_inv c ?s3 (x # xs) []" using same_lists_cong(1) by blast
  have no: "no_overflow c r ?s3" using assms(8) by (simp add: no_overflow_def stk_overflow_def W) (simp add: s1_def)
  have "wait_rep ?s3 i [r] = wait_rep s2 i [r]" by (rule wait_rep_eqI) simp_all
  moreover have "\<exists>s'. ?unl ?s3 = Some s' \<and> lists_inv c s' xs [] \<and> (\<forall>e ws. wait_rep s' e ws = wait_rep ?s3 e ws) \<and>
    state (TCBTbl s' r) = TASK_WAITING \<and> state (TCBTbl s' x) = TASK_RUNNING \<and>
    TCBNext s' = Some x \<and> PendSVSet s' \<and> OSSchedLock s' = 0 \<and> EventTbl s' = EventTbl ?s3"
    by (rule unlock_switches [OF L _ _ _ _ _ _ rx _ no]) (use run assms(9) in \<open>simp_all add: W s1_def\<close>)
  moreover have "eventCounter (EventTbl s2 i) = eventCounter (EventTbl s1 i)"
  proof -
    have "(EventTbl s2 i)\<lparr>eventTCBList := None\<rparr> = (EventTbl s1 i)\<lparr>eventTCBList := None\<rparr>"
      using s2(3) by (simp add: wait_frame_def)
    from arg_cong [OF this, of eventCounter] show ?thesis by simp
  qed
  ultimately obtain s' where s': "?unl ?s3 = Some s'" "wait_rep s' i [r]" "eventCounter (EventTbl s' i) = 1"
    "state (TCBTbl s' r) = TASK_WAITING" "TCBNext s' = Some x"
    using s2(2) w1(4) by auto
  have "TCBRunning s1 = Some r" using run(1) by (simp add: s1_def)
  then have "CoPendSem c ?unl i 0 s = Some (Blocked, s')"
    using assms(2,3,9) ok(3) run(3) u1 s2(1) s'(1) by (simp add: CoPendSem_def OsSchedLock_def)
  with s' show ?thesis by blast
qed

definition wakeup_example :: kernel where
  "wakeup_example = pend_example\<lparr>IsrReq := True, ServiceReq := \<lparr>srq_cnt = 1, srq_head = 0,
     srq_cell = (\<lambda>_. \<lparr>sqc_type = SEM_REQ, sqc_id = 0, sqc_arg = 0\<rparr>)\<rparr>\<rparr>"

theorem pend_loses_wakeup_witness:
  "\<exists>s'. CoPendSem OsConfig (OsSchedUnlock OsConfig (\<lambda>_. Some)) 0 0 wakeup_example = Some (Blocked, s') \<and>
    wait_rep s' 0 [4] \<and> eventCounter (EventTbl s' 0) = 1 \<and> state (TCBTbl s' 4) = TASK_WAITING"
proof -
  have "sched_ready OsConfig wakeup_example 4 [2, 1]"
    using sched_example_ready sched_example_state by (simp add: sched_ready_def wakeup_example_def pend_example_def)
  moreover have "no_overflow OsConfig 4 wakeup_example" "state (TCBTbl wakeup_example 4) = TASK_RUNNING"
    using sched_example_state by (simp_all add: no_overflow_def stk_overflow_def wakeup_example_def pend_example_def)
  ultimately show ?thesis
    using pend_loses_wakeup [of OsConfig 0 wakeup_example 4 2 "[1]" "\<lambda>_. Some"]
    by (auto simp: wakeup_example_def pend_example_def sched_example_def ready_example_defs wait_rep_def dlist_def
        dly_rep_def delta_rep_def wait_free_def bad_event_def take_srq_def)
qed

text \<open>
  For tasks that wait for time only (\<open>Timeouts\<close> has those that wait for events and flags too),
  \<open>TimeDispose\<close> ends, whatever the number of tasks whose time has come, and moves exactly these
  from the DELAY list to their places in the READY list, in the order of their expiry; every other
  task keeps its state and its remaining time.
\<close>

theorem time_dispose:
  assumes "lists_inv c s rs (map (\<lambda>t. (t, 0)) ts @ ds)" and "ds \<noteq> [] \<Longrightarrow> 0 < snd (hd ds)"
    and "\<And>t. t \<in> set ts \<Longrightarrow> pure_delay c s t"
  shows "\<exists>s'. TimeDispose c s = Some s' \<and> lists_inv c s' (fold (insort_after (priof s)) ts rs) ds \<and>
    (\<forall>t. state (TCBTbl s' t) = (if t \<in> set ts then TASK_READY else state (TCBTbl s t)))"
  using TimeDispose_ok [OF assms] by blast

text \<open>Tasks 3 and 5 sleep for one tick more, task 0 for three; task 4 runs, tasks 2 and 1 are ready.\<close>

definition tick_example :: kernel where
  "tick_example = sched_example\<lparr>TCBTbl := (TCBTbl sched_example)(
       0 := OSTCB_zero\<lparr>prio := 9, state := TASK_WAITING, eventID := INVALID_ID, delayTick := 2, TCBprev := Some 5\<rparr>,
       3 := OSTCB_zero\<lparr>taskID := 3, prio := 5, state := TASK_WAITING, eventID := INVALID_ID, delayTick := 1, TCBnext := Some 5\<rparr>,
       5 := OSTCB_zero\<lparr>taskID := 5, prio := 1, state := TASK_WAITING, eventID := INVALID_ID, delayTick := 0, TCBnext := Some 0, TCBprev := Some 3\<rparr>),
     DlyList := Some 3\<rparr>"

lemma tick_example_lists: "lists_inv OsConfig tick_example [2, 1] [(3, 1), (5, 1), (0, 3)]"
  by (simp add: lists_inv_def rdy_inv_def rdy_list_def dly_rep_def delta_rep_def dlist_def tick_example_def
      sched_example_def ready_example_defs)

theorem time_dispose_witness:
  "\<exists>s1. TimeDispose OsConfig (upd_tcb 3 (delayTick_update (\<lambda>n. n - 1)) tick_example) = Some s1 \<and>
     lists_inv OsConfig s1 [5, 2, 1, 3] [(0, 2)]"
proof -
  define s where "s = upd_tcb 3 (delayTick_update (\<lambda>n. n - 1)) tick_example"
  note ex = s_def tick_example_def sched_example_def ready_example_defs
  have "dly_rep s [(3, 0), (5, 0), (0, 2)]"
    using dly_rep_tick_down [of tick_example 3 1 "[(5, 1), (0, 3)]"] tick_example_lists by (simp add: lists_inv_def s_def)
  moreover have "rdy_inv OsConfig s [2, 1]" by (simp add: rdy_inv_def rdy_list_def dlist_def ex)
  ultimately have "lists_inv OsConfig s [2, 1] (map (\<lambda>t. (t, 0)) [3, 5] @ [(0, 2)])"
    by (simp add: lists_inv_def)
  moreover have "pure_delay OsConfig s t" if "t \<in> set [3, 5]" for t
    using that by (auto simp: pure_delay_def ex)
  ultimately have "\<exists>s1. TimeDispose OsConfig s = Some s1 \<and>
      lists_inv OsConfig s1 (fold (insort_after (priof s)) [3, 5] [2, 1]) [(0, 2)] \<and>
      (\<forall>t. state (TCBTbl s1 t) = (if t \<in> set [3, 5] then TASK_READY else state (TCBTbl s t)))"
    by (intro time_dispose) auto
  moreover have "fold (insort_after (priof s)) [3, 5] [2, 1] = [5, 2, 1, 3]"
    by (simp add: ex)
  ultimately show ?thesis by (auto simp: s_def)
qed

end
