(* ===== verification/Mutex.thy ===== *)
theory Mutex
  imports Core
begin

text \<open>
  \<open>mutex.c\<close>: mutexes with priority inheritance, and \<open>CoSetPriority\<close> of \<open>task.c\<close>, which the
  inheritance uses and which in turn looks at the mutex a task holds or waits for. The waiting
  list of a mutex is linked through \<open>TCBnext\<close>/\<open>TCBprev\<close> in arrival order.
\<close>

section \<open>Operations\<close>

text \<open>
  The walk over a mutex waiting list for the highest priority: it starts from priority \<open>pri\<close> and
  leaves the task found in \<open>hipriTaskID\<close>. Three places of the code have this loop.
\<close>

partial_function (option) hipri_scan ::
  "OS_MutexID \<Rightarrow> P_OSTCB \<Rightarrow> U8 \<Rightarrow> kernel \<Rightarrow> (U8 \<times> kernel) option" where
  "hipri_scan m ptcb pri s =
     (case ptcb of
        None \<Rightarrow> Some (pri, s)
      | Some t \<Rightarrow>
          if prio (TCBTbl s t) < pri
          then hipri_scan m (TCBnext (TCBTbl s t)) (prio (TCBTbl s t))
                 (upd_mutex m (hipriTaskID_update (\<lambda>_. taskID (TCBTbl s t))) s)
          else hipri_scan m (TCBnext (TCBTbl s t)) pri s)"

text \<open>In the binary scheme, one task moves from priority \<open>old\<close> to priority \<open>new\<close>.\<close>

definition move_task_pri :: "config \<Rightarrow> U8 \<Rightarrow> U8 \<Rightarrow> kernel \<Rightarrow> kernel option" where
  "move_task_pri c old new s =
     (if CFG_ORDER_LIST_SCHEDULE_EN c then Some s
      else do { s \<leftarrow> DeleteTaskPri old s; ActiveTaskPri new s })"

text \<open>
  The first part of \<open>CoSetPriority\<close>: a task that holds a mutex keeps an inherited priority, and
  the new one becomes the priority it returns to. The result says whether the call ends there.
\<close>

definition set_original_prio ::
  "config \<Rightarrow> OS_TID \<Rightarrow> U8 \<Rightarrow> kernel \<Rightarrow> (bool \<times> kernel) option" where
  "set_original_prio c ptcb priority s =
     (if mutexID (TCBTbl s ptcb) \<noteq> INVALID_ID then do {
        m \<leftarrow> mutex_ptr c (mutexID (TCBTbl s ptcb));
        if mtx_taskID (MutexTbl s m) = taskID (TCBTbl s ptcb) then
          let s = upd_mutex m (originalPrio_update (\<lambda>_. priority)) s
          in Some (prio (TCBTbl s ptcb) < priority, s)
        else Some (False, s)
      } else Some (False, s))"

text \<open>A task in an event waiting list ordered by priority is taken out and put in again.\<close>

definition requeue_event ::
  "config \<Rightarrow> (kernel \<Rightarrow> kernel option) \<Rightarrow> OS_TID \<Rightarrow> kernel \<Rightarrow> kernel option" where
  "requeue_event c unl ptcb s = do {
     pecb \<leftarrow> ecb_ptr c (eventID (TCBTbl s ptcb));
     if eventSortType (EventTbl s pecb) = EVENT_SORT_TYPE_PRIO then do {
       s \<leftarrow> RemoveEventWaittingList c ptcb s;
       EventTaskToWait unl pecb ptcb s
     } else Some s
   }"

text \<open>
  \<open>CoSetPriority\<close>. It calls itself for the owner of the mutex that the task waits for, so a
  cycle of owners would never return.
\<close>

partial_function (option) CoSetPriority ::
  "config \<Rightarrow> (kernel \<Rightarrow> kernel option) \<Rightarrow> OS_TID \<Rightarrow> U8 \<Rightarrow> kernel \<Rightarrow>
   (StatusType \<times> kernel) option" where
  "CoSetPriority c unl tid priority s =
     (if tid = 0 then Some (E_PROTECTED_TASK, s)
      else if CFG_PAR_CHECKOUT_EN c \<and> unat tid \<ge> task_max c then Some (E_INVALID_ID, s)
      else do {
        ptcb \<leftarrow> tcb_ptr c tid;
        if CFG_PAR_CHECKOUT_EN c \<and>
           (state (TCBTbl s ptcb) = TASK_DORMANT \<or> priority > CFG_LOWEST_PRIO c)
        then Some (E_INVALID_ID, s)
        else if prio (TCBTbl s ptcb) = priority then Some (E_OK, s)
        else do {
          (keep, s) \<leftarrow> set_original_prio c ptcb priority s;
          if keep then Some (E_OK, s)
          else do {
            s \<leftarrow> move_task_pri c (prio (TCBTbl s ptcb)) priority s;
            let s = upd_tcb ptcb (prio_update (\<lambda>_. priority)) s;
            if state (TCBTbl s ptcb) = TASK_READY then do {
              let s = OsSchedLock s;
              s \<leftarrow> RemoveFromTCBRdyList c ptcb s;
              s \<leftarrow> InsertToTCBRdyList c ptcb s;
              s \<leftarrow> unl s;
              Some (E_OK, s)
            }
            else if state (TCBTbl s ptcb) = TASK_RUNNING then
              if prio (TCBTbl s ptcb) > prio_at c s (TCBRdy s) then do {
                let s = OsSchedLock s;
                let s = s\<lparr>TaskSchedReq := True\<rparr>;
                s \<leftarrow> unl s;
                Some (E_OK, s)
              } else Some (E_OK, s)
            else do {
              s \<leftarrow> (if mutexID (TCBTbl s ptcb) \<noteq> INVALID_ID then do {
                      let s = OsSchedLock s;
                      m \<leftarrow> mutex_ptr c (mutexID (TCBTbl s ptcb));
                      let wl = waittingList (MutexTbl s m);
                      let pri = originalPrio (MutexTbl s m);
                      let s = upd_mutex m (hipriTaskID_update (\<lambda>_. mtx_taskID (MutexTbl s m))) s;
                      (pri, s) \<leftarrow> hipri_scan m wl pri s;
                      s \<leftarrow> unl s;
                      if originalPrio (MutexTbl s m) \<noteq> pri then do {
                        (_, s) \<leftarrow> CoSetPriority c unl (mtx_taskID (MutexTbl s m)) pri s;
                        Some s
                      } else Some s
                    } else Some s);
              s \<leftarrow> (if eventID (TCBTbl s ptcb) \<noteq> INVALID_ID then requeue_event c unl ptcb s
                    else Some s);
              Some (E_OK, s)
            }
          }
        }
      })"

definition CoCreateMutex ::
  "config \<Rightarrow> (kernel \<Rightarrow> kernel option) \<Rightarrow> kernel \<Rightarrow> (U8 \<times> kernel) option" where
  "CoCreateMutex c unl s =
     (let s = OsSchedLock s in
      if unat (MutexFreeID s) < CFG_MAX_MUTEX c then do {
        let m = MutexFreeID s;
        let s = s\<lparr>MutexFreeID := MutexFreeID s + 1\<rparr>;
        s \<leftarrow> unl s;
        let s = upd_mutex m (\<lambda>_. \<lparr>originalPrio = 0xff, mutexFlag = MUTEX_FREE,
                  mtx_taskID = INVALID_ID, hipriTaskID = INVALID_ID, waittingList = None\<rparr>) s;
        Some (m, s)
      } else do {
        s \<leftarrow> unl s;
        Some (E_CREATE_FAIL, s)
      })"

partial_function (option) mutex_tail :: "kernel \<Rightarrow> OS_TID \<Rightarrow> OS_TID option" where
  "mutex_tail s ptcb =
     (case TCBnext (TCBTbl s ptcb) of None \<Rightarrow> Some ptcb | Some n \<Rightarrow> mutex_tail s n)"

text \<open>The owner inherits the priority of the running task.\<close>

definition raise_owner ::
  "config \<Rightarrow> (kernel \<Rightarrow> kernel option) \<Rightarrow> OS_MutexID \<Rightarrow> OS_TID \<Rightarrow> OS_TID \<Rightarrow> kernel \<Rightarrow>
   kernel option" where
  "raise_owner c unl m ptcb pCurTcb s =
     (if prio (TCBTbl s ptcb) > prio (TCBTbl s pCurTcb) then do {
        s \<leftarrow> move_task_pri c (prio (TCBTbl s ptcb)) (prio (TCBTbl s pCurTcb)) s;
        let s = upd_tcb ptcb (prio_update (\<lambda>_. prio (TCBTbl s pCurTcb))) s;
        let s = upd_mutex m (hipriTaskID_update (\<lambda>_. taskID (TCBTbl s pCurTcb))) s;
        if state (TCBTbl s ptcb) = TASK_READY then do {
          s \<leftarrow> RemoveFromTCBRdyList c ptcb s;
          InsertToTCBRdyList c ptcb s
        }
        else if eventID (TCBTbl s ptcb) \<noteq> INVALID_ID then requeue_event c unl ptcb s
        else Some s
      } else Some s)"

text \<open>The running task goes to the end of the waiting list of mutex \<open>m\<close>.\<close>

definition mutex_enqueue :: "OS_MutexID \<Rightarrow> OS_TID \<Rightarrow> kernel \<Rightarrow> kernel option" where
  "mutex_enqueue m pCurTcb s = do {
     let s = upd_tcb pCurTcb (state_update (\<lambda>_. TASK_WAITING)) s;
     let s = s\<lparr>TaskSchedReq := True\<rparr>;
     let s = upd_tcb pCurTcb (TCBnext_update (\<lambda>_. None)) s;
     let s = upd_tcb pCurTcb (TCBprev_update (\<lambda>_. None)) s;
     case waittingList (MutexTbl s m) of
       None \<Rightarrow> Some (upd_mutex m (waittingList_update (\<lambda>_. Some pCurTcb)) s)
     | Some ptcb \<Rightarrow> do {
         ptcb \<leftarrow> mutex_tail s ptcb;
         let s = upd_tcb ptcb (TCBnext_update (\<lambda>_. Some pCurTcb)) s;
         let s = upd_tcb pCurTcb (TCBprev_update (\<lambda>_. Some ptcb)) s;
         Some (upd_tcb pCurTcb (TCBnext_update (\<lambda>_. None)) s)
       }
   }"

definition CoEnterMutexSection ::
  "config \<Rightarrow> (kernel \<Rightarrow> kernel option) \<Rightarrow> OS_MutexID \<Rightarrow> kernel \<Rightarrow>
   (StatusType \<times> kernel) option" where
  "CoEnterMutexSection c unl mid s =
     (if OSIntNesting s > 0 then Some (E_CALL, s)
      else if OSSchedLock s \<noteq> 0 then Some (E_OS_IN_LOCK, s)
      else if CFG_PAR_CHECKOUT_EN c \<and> mid \<ge> MutexFreeID s then Some (E_INVALID_ID, s)
      else do {
        let s = OsSchedLock s;
        pCurTcb \<leftarrow> TCBRunning s;
        m \<leftarrow> mutex_ptr c mid;
        let s = upd_tcb pCurTcb (mutexID_update (\<lambda>_. mid)) s;
        s \<leftarrow> (case mutexFlag (MutexTbl s m) of
                MUTEX_FREE \<Rightarrow>
                  Some (upd_mutex m (\<lambda>x. x\<lparr>originalPrio := prio (TCBTbl s pCurTcb),
                          mtx_taskID := taskID (TCBTbl s pCurTcb),
                          hipriTaskID := taskID (TCBTbl s pCurTcb),
                          mutexFlag := MUTEX_OCCUPY\<rparr>) s)
              | MUTEX_OCCUPY \<Rightarrow> do {
                  ptcb \<leftarrow> tcb_ptr c (mtx_taskID (MutexTbl s m));
                  s \<leftarrow> raise_owner c unl m ptcb pCurTcb s;
                  mutex_enqueue m pCurTcb s
                });
        s \<leftarrow> unl s;
        Some (E_OK, s)
      })"

text \<open>
  The second branch of \<open>CoLeaveMutexSection\<close>: the mutex goes to the first task of the waiting
  list, with the highest priority that waits.
\<close>

definition mutex_handover ::
  "config \<Rightarrow> (kernel \<Rightarrow> kernel option) \<Rightarrow> OS_MutexID \<Rightarrow> kernel \<Rightarrow> kernel option" where
  "mutex_handover c unl m s = do {
     let tid = mtx_taskID (MutexTbl s m);
     (pri, s) \<leftarrow>
       (if hipriTaskID (MutexTbl s m) = tid then do {
          w \<leftarrow> waittingList (MutexTbl s m);
          hipri_scan m (Some w) (prio (TCBTbl s w)) s
        } else do {
          t \<leftarrow> tcb_ptr c tid;
          Some (prio (TCBTbl s t), s)
        });
     let s = upd_mutex m (mtx_taskID_update (\<lambda>_. INVALID_ID)) s;
     (_, s) \<leftarrow> CoSetPriority c unl tid (originalPrio (MutexTbl s m)) s;
     ptcb \<leftarrow> waittingList (MutexTbl s m);
     let s = upd_mutex m (waittingList_update (\<lambda>_. TCBnext (TCBTbl s ptcb))) s;
     let s = upd_mutex m (originalPrio_update (\<lambda>_. prio (TCBTbl s ptcb))) s;
     let s = upd_mutex m (mtx_taskID_update (\<lambda>_. taskID (TCBTbl s ptcb))) s;
     s \<leftarrow> (if pri \<noteq> prio (TCBTbl s ptcb) then move_task_pri c (prio (TCBTbl s ptcb)) pri s else Some s);
     let s = upd_tcb ptcb (prio_update (\<lambda>_. pri)) s;
     let s = upd_tcb ptcb (TCBnext_update (\<lambda>_. None)) s;
     let s = upd_tcb ptcb (TCBprev_update (\<lambda>_. None)) s;
     InsertToTCBRdyList c ptcb s
   }"

definition CoLeaveMutexSection ::
  "config \<Rightarrow> (kernel \<Rightarrow> kernel option) \<Rightarrow> OS_MutexID \<Rightarrow> kernel \<Rightarrow>
   (StatusType \<times> kernel) option" where
  "CoLeaveMutexSection c unl mid s =
     (if OSIntNesting s > 0 then Some (E_CALL, s)
      else if CFG_PAR_CHECKOUT_EN c \<and> mid \<ge> MutexFreeID s then Some (E_INVALID_ID, s)
      else do {
        let s = OsSchedLock s;
        m \<leftarrow> mutex_ptr c mid;
        ptcb \<leftarrow> tcb_ptr c (mtx_taskID (MutexTbl s m));
        let s = upd_tcb ptcb (mutexID_update (\<lambda>_. INVALID_ID)) s;
        s \<leftarrow> (if waittingList (MutexTbl s m) = None then
                Some (upd_mutex m (\<lambda>x. x\<lparr>mutexFlag := MUTEX_FREE, mtx_taskID := INVALID_ID\<rparr>) s)
              else mutex_handover c unl m s);
        s \<leftarrow> unl s;
        Some (E_OK, s)
      })"

text \<open>The unlinking of \<open>RemoveMutexList\<close>; the third case does not touch \<open>waittingList\<close>.\<close>

definition unlink_mutex :: "OS_MutexID \<Rightarrow> OS_TID \<Rightarrow> kernel \<Rightarrow> kernel" where
  "unlink_mutex m ptcb s =
     (case (TCBnext (TCBTbl s ptcb), TCBprev (TCBTbl s ptcb)) of
        (None, None) \<Rightarrow> upd_mutex m (waittingList_update (\<lambda>_. None)) s
      | (None, Some p) \<Rightarrow>
          let s = upd_tcb p (TCBnext_update (\<lambda>_. None)) s
          in upd_tcb ptcb (TCBprev_update (\<lambda>_. None)) s
      | (Some n, None) \<Rightarrow>
          let s = upd_tcb n (TCBprev_update (\<lambda>_. None)) s
          in upd_tcb ptcb (TCBnext_update (\<lambda>_. None)) s
      | (Some n, Some p) \<Rightarrow>
          let s = upd_tcb n (TCBprev_update (\<lambda>_. Some p)) s;
              s = upd_tcb p (TCBnext_update (\<lambda>_. Some n)) s;
              s = upd_tcb ptcb (TCBprev_update (\<lambda>_. None)) s
          in upd_tcb ptcb (TCBnext_update (\<lambda>_. None)) s)"

definition RemoveMutexList ::
  "config \<Rightarrow> (kernel \<Rightarrow> kernel option) \<Rightarrow> OS_TID \<Rightarrow> kernel \<Rightarrow> kernel option" where
  "RemoveMutexList c unl ptcb s = do {
     m \<leftarrow> mutex_ptr c (mutexID (TCBTbl s ptcb));
     let s = unlink_mutex m ptcb s;
     let s = upd_tcb ptcb (mutexID_update (\<lambda>_. INVALID_ID)) s;
     if hipriTaskID (MutexTbl s m) = taskID (TCBTbl s ptcb) then do {
       let wl = waittingList (MutexTbl s m);
       let pri = originalPrio (MutexTbl s m);
       let s = upd_mutex m (hipriTaskID_update (\<lambda>_. mtx_taskID (MutexTbl s m))) s;
       (pri, s) \<leftarrow> hipri_scan m wl pri s;
       let tid = mtx_taskID (MutexTbl s m);
       let s = upd_mutex m (mtx_taskID_update (\<lambda>_. INVALID_ID)) s;
       (_, s) \<leftarrow> CoSetPriority c unl tid pri s;
       Some (upd_mutex m (mtx_taskID_update (\<lambda>_. tid)) s)
     } else Some s
   }"

end
