(* ===== verification/Task.thy ===== *)
theory Task
  imports Mutex
begin

text \<open>
  The task management of \<open>task.c\<close> (creation, deletion, suspension) and the start of the system
  in \<open>core.c\<close>.
\<close>

section \<open>Operations\<close>

definition CreateTCBList :: "config \<Rightarrow> kernel \<Rightarrow> kernel" where
  "CreateTCBList c s =
     (let n = task_max c - 1;
          s = (if CFG_ORDER_LIST_SCHEDULE_EN c then s else s\<lparr>PriNum := 0\<rparr>);
          s = fold (\<lambda>i s.
                let s = upd_tcb (of_nat i) (\<lambda>t. t\<lparr>taskID := of_nat i, state := TASK_DORMANT,
                          TCBnext := Some (of_nat (i + 1))\<rparr>) s
                in if CFG_ORDER_LIST_SCHEDULE_EN c then s
                   else s\<lparr>RdyTaskPri := (RdyTaskPri s)(i := INVALID_ID),
                          ActivePri := (ActivePri s)(i := INVALID_ID)\<rparr>) [0..<n] s;
          s = (if CFG_ORDER_LIST_SCHEDULE_EN c then s
               else s\<lparr>ActivePri := (ActivePri s)(n := INVALID_ID)\<rparr>);
          s = upd_tcb (of_nat n) (\<lambda>t. t\<lparr>taskID := of_nat n, TCBnext := None\<rparr>) s
      in s\<lparr>FreeTCB := Some 0\<rparr>)"

definition AssignTCB :: "(kernel \<Rightarrow> kernel option) \<Rightarrow> kernel \<Rightarrow> (P_OSTCB \<times> kernel) option" where
  "AssignTCB unl s =
     (let s = OsSchedLock s in
      case FreeTCB s of
        None \<Rightarrow> do { s \<leftarrow> unl s; Some (None, s) }
      | Some ptcb \<Rightarrow> do {
          let s = s\<lparr>FreeTCB := TCBnext (TCBTbl s ptcb)\<rparr>;
          s \<leftarrow> unl s;
          Some (Some ptcb, s)
        })"

text \<open>The control block of a new task.\<close>

definition init_tcb ::
  "config \<Rightarrow> U32 \<Rightarrow> U8 \<Rightarrow> U32 \<Rightarrow> U16 \<Rightarrow> OSTCB \<Rightarrow> OSTCB" where
  "init_tcb c stkTop pri bottom tslice t =
     (let t = t\<lparr>stkPtr := stkTop, prio := pri\<rparr>;
          t = (if CFG_STK_CHECKOUT_EN c then t\<lparr>stack := bottom\<rparr> else t);
          t = t\<lparr>delayTick := INVALID_VALUE, TCBnext := None, TCBprev := None\<rparr>;
          t = (if CFG_ROBIN_EN c then t\<lparr>timeSlice := (if tslice = 0 then CFG_TIME_SLICE c else tslice)\<rparr>
               else t)
      in t\<lparr>pnode := PNode_null, eventID := INVALID_ID, pmail := vnull, waitNext := None,
           waitPrev := None, mutexID := INVALID_ID\<rparr>)"

definition CreateTask ::
  "config \<Rightarrow> (kernel \<Rightarrow> kernel option) \<Rightarrow> U32 \<Rightarrow> U32 \<Rightarrow> U32 \<Rightarrow> U32 \<Rightarrow> kernel \<Rightarrow>
   (U8 \<times> kernel) option" where
  "CreateTask c unl task argv parameter stk s =
     (let sktSz = ucast (drop_bit 8 (parameter AND 0xfff00)) :: U16;
          pri = ucast (parameter AND 0xff) :: U8
      in
      if CFG_PAR_CHECKOUT_EN c \<and>
         (task = 0 \<or> stk = 0 \<or> pri > CFG_LOWEST_PRIO c \<or> CFG_STK_CHECKOUT_EN c \<and> sktSz < 20)
      then Some (E_CREATE_FAIL, s)
      else do {
        let (stkTopPtr, s) = InitTaskContext task argv stk s;
        (p, s) \<leftarrow> AssignTCB unl s;
        case p of
          None \<Rightarrow> Some (E_CREATE_FAIL, s)
        | Some ptcb \<Rightarrow> do {
            let bottom = stk + 4 - 4 * ucast sktSz;
            let s = upd_tcb ptcb (init_tcb c stkTopPtr pri bottom
                      (ucast (drop_bit 20 (parameter AND 0x7fff0000)))) s;
            let s = (if CFG_STK_CHECKOUT_EN c then wr_mem bottom MAGIC_WORD s else s);
            s \<leftarrow> (if CFG_ORDER_LIST_SCHEDULE_EN c then Some s else ActiveTaskPri pri s);
            s \<leftarrow> (if drop_bit 31 parameter = 0 then do {
                    let s = OsSchedLock s;
                    s \<leftarrow> InsertToTCBRdyList c ptcb s;
                    unl s
                  } else Some (upd_tcb ptcb (state_update (\<lambda>_. TASK_WAITING)) s));
            Some (taskID (TCBTbl s ptcb), s)
          }
      })"

text \<open>The macros \<open>CoCreateTask\<close> and \<open>CoCreateTaskEx\<close> of \<open>CoOS.h\<close>: they pack the parameter word.\<close>

definition CoCreateTask_param :: "U32 \<Rightarrow> U32 \<Rightarrow> U32" where
  "CoCreateTask_param pri stkSz = pri OR (push_bit 8 stkSz AND 0x000FFF00)"

definition CoCreateTaskEx_param :: "U32 \<Rightarrow> U32 \<Rightarrow> U32 \<Rightarrow> U32 \<Rightarrow> U32" where
  "CoCreateTaskEx_param pri stkSz tslice isWaitting =
     pri OR (push_bit 8 stkSz AND 0x000FFF00) OR (push_bit 20 tslice AND 0x7FF00000) OR
     (push_bit 31 isWaitting AND 0x80000000)"

text \<open>The part of \<open>CoDelTask\<close> that takes the task out of every list it is in.\<close>

definition leave_lists ::
  "config \<Rightarrow> (kernel \<Rightarrow> kernel option) \<Rightarrow> OS_TID \<Rightarrow> kernel \<Rightarrow> kernel option" where
  "leave_lists c unl ptcb s =
     (case state (TCBTbl s ptcb) of
        TASK_READY \<Rightarrow> RemoveFromTCBRdyList c ptcb s
      | TASK_WAITING \<Rightarrow> do {
          let s = stop_delay ptcb s;
          s \<leftarrow> (if eventID (TCBTbl s ptcb) \<noteq> INVALID_ID then RemoveEventWaittingList c ptcb s
                else Some s);
          s \<leftarrow> (if pnode (TCBTbl s ptcb) \<noteq> PNode_null then do {
                  nd \<leftarrow> flag_node (pnode (TCBTbl s ptcb));
                  Some (RemoveLinkNode nd s)
                } else Some s);
          if mutexID (TCBTbl s ptcb) \<noteq> INVALID_ID then RemoveMutexList c unl ptcb s else Some s
        }
      | _ \<Rightarrow> Some s)"

definition CoDelTask ::
  "config \<Rightarrow> (kernel \<Rightarrow> kernel option) \<Rightarrow> OS_TID \<Rightarrow> kernel \<Rightarrow> (StatusType \<times> kernel) option" where
  "CoDelTask c unl tid s =
     (if CFG_PAR_CHECKOUT_EN c \<and> unat tid \<ge> task_max c then Some (E_INVALID_ID, s)
      else do {
        ptcb \<leftarrow> tcb_ptr c tid;
        if CFG_PAR_CHECKOUT_EN c \<and> state (TCBTbl s ptcb) = TASK_DORMANT then Some (E_INVALID_ID, s)
        else if tid = 0 then Some (E_PROTECTED_TASK, s)
        else if state (TCBTbl s ptcb) = TASK_RUNNING \<and> OSSchedLock s \<noteq> 0 then Some (E_OS_IN_LOCK, s)
        else do {
          s \<leftarrow> (if mutexID (TCBTbl s ptcb) \<noteq> INVALID_ID then do {
                  m \<leftarrow> mutex_ptr c (mutexID (TCBTbl s ptcb));
                  if mtx_taskID (MutexTbl s m) = taskID (TCBTbl s ptcb) then do {
                    (_, s) \<leftarrow> CoLeaveMutexSection c unl (mutexID (TCBTbl s ptcb)) s;
                    Some s
                  } else Some s
                } else Some s);
          let s = OsSchedLock s;
          s \<leftarrow> leave_lists c unl ptcb s;
          let s = upd_tcb ptcb (state_update (\<lambda>_. TASK_DORMANT)) s;
          let s = s\<lparr>TaskSchedReq := True\<rparr>;
          s \<leftarrow> (if CFG_ORDER_LIST_SCHEDULE_EN c then Some s
                else DeleteTaskPri (prio (TCBTbl s ptcb)) s);
          let s = upd_tcb ptcb (TCBnext_update (\<lambda>_. FreeTCB s)) s;
          let s = s\<lparr>FreeTCB := Some ptcb\<rparr>;
          s \<leftarrow> unl s;
          Some (E_OK, s)
        }
      })"

definition CoExitTask ::
  "config \<Rightarrow> (kernel \<Rightarrow> kernel option) \<Rightarrow> kernel \<Rightarrow> kernel option" where
  "CoExitTask c unl s = do {
     t \<leftarrow> TCBRunning s;
     (_, s) \<leftarrow> CoDelTask c unl (taskID (TCBTbl s t)) s;
     Some s
   }"

definition CoGetCurTaskID :: "kernel \<Rightarrow> OS_TID option" where
  "CoGetCurTaskID s = do { t \<leftarrow> TCBRunning s; Some (taskID (TCBTbl s t)) }"

definition CoSuspendTask ::
  "config \<Rightarrow> (kernel \<Rightarrow> kernel option) \<Rightarrow> OS_TID \<Rightarrow> kernel \<Rightarrow> (StatusType \<times> kernel) option" where
  "CoSuspendTask c unl tid s =
     (if tid = 0 then Some (E_PROTECTED_TASK, s)
      else if CFG_PAR_CHECKOUT_EN c \<and> unat tid \<ge> task_max c then Some (E_INVALID_ID, s)
      else do {
        ptcb \<leftarrow> tcb_ptr c tid;
        if CFG_PAR_CHECKOUT_EN c \<and> state (TCBTbl s ptcb) = TASK_DORMANT then Some (E_INVALID_ID, s)
        else if OSSchedLock s \<noteq> 0 then Some (E_OS_IN_LOCK, s)
        else if state (TCBTbl s ptcb) = TASK_WAITING then Some (E_ALREADY_IN_WAITING, s)
        else do {
          let s = OsSchedLock s;
          s \<leftarrow> (if Some ptcb \<noteq> TCBRunning s then RemoveFromTCBRdyList c ptcb s
                else Some (s\<lparr>TaskSchedReq := True\<rparr>));
          let s = upd_tcb ptcb (state_update (\<lambda>_. TASK_WAITING)) s;
          s \<leftarrow> unl s;
          Some (E_OK, s)
        }
      })"

definition CoAwakeTask ::
  "config \<Rightarrow> (kernel \<Rightarrow> kernel option) \<Rightarrow> OS_TID \<Rightarrow> kernel \<Rightarrow> (StatusType \<times> kernel) option" where
  "CoAwakeTask c unl tid s =
     (if tid = 0 then Some (E_PROTECTED_TASK, s)
      else if CFG_PAR_CHECKOUT_EN c \<and> unat tid \<ge> task_max c then Some (E_INVALID_ID, s)
      else do {
        ptcb \<leftarrow> tcb_ptr c tid;
        if CFG_PAR_CHECKOUT_EN c \<and> state (TCBTbl s ptcb) = TASK_DORMANT then Some (E_INVALID_ID, s)
        else if state (TCBTbl s ptcb) \<noteq> TASK_WAITING then Some (E_TASK_NOT_WAITING, s)
        else if delayTick (TCBTbl s ptcb) \<noteq> INVALID_VALUE \<or> pnode (TCBTbl s ptcb) \<noteq> PNode_null \<or>
                eventID (TCBTbl s ptcb) \<noteq> INVALID_ID \<or> mutexID (TCBTbl s ptcb) \<noteq> INVALID_ID
        then Some (E_TASK_WAIT_OTHER, s)
        else do {
          let s = OsSchedLock s;
          s \<leftarrow> InsertToTCBRdyList c ptcb s;
          s \<leftarrow> unl s;
          Some (E_OK, s)
        }
      })"

section \<open>System start\<close>

text \<open>The idle task, which never returns.\<close>

partial_function (option) CoIdleTask :: "kernel \<Rightarrow> unit option" where
  "CoIdleTask s = CoIdleTask s"

definition CoStartOS ::
  "config \<Rightarrow> (kernel \<Rightarrow> kernel option) \<Rightarrow> kernel \<Rightarrow> kernel option" where
  "CoStartOS c unl s = do {
     let s = s\<lparr>TCBRunning := Some 0\<rparr>;
     let s = s\<lparr>TCBNext := TCBRunning s\<rparr>;
     let s = upd_tcb 0 (state_update (\<lambda>_. TASK_RUNNING)) s;
     s \<leftarrow> RemoveFromTCBRdyList c 0 s;
     unl s
   }"

end
