(* ===== verification/Partition.thy ===== *)
theory Partition
  imports Task
begin

text \<open>
  Fixed-size memory partitions (\<open>mm.c\<close>). The free blocks of a partition are chained inside the
  memory they manage, so the operations read and write the word store through addresses. An
  access through a null or unaligned pointer is \<open>None\<close>.
\<close>

section \<open>Memory access\<close>

definition bad_addr :: "U32 \<Rightarrow> bool" where
  "bad_addr a \<longleftrightarrow> a = 0 \<or> a AND 3 \<noteq> 0"

text \<open>Read and write the word at offset \<open>off\<close> of the structure at \<open>a\<close>.\<close>

definition rd :: "U32 \<Rightarrow> U32 \<Rightarrow> kernel \<Rightarrow> U32 option" where
  "rd a off s = (if bad_addr a then None else Some (mem s (a + off)))"

definition wr :: "U32 \<Rightarrow> U32 \<Rightarrow> U32 \<Rightarrow> kernel \<Rightarrow> kernel option" where
  "wr a off v s = (if bad_addr a then None else Some (wr_mem (a + off) v s))"

section \<open>Partitions\<close>

text \<open>
  The loop that chains the blocks. Its counter is a \<open>U8\<close> compared with the \<open>U32\<close> value
  \<open>blockNum - 1\<close>.
\<close>

partial_function (option) chain_blocks ::
  "U32 \<Rightarrow> U32 \<Rightarrow> U8 \<Rightarrow> U32 \<Rightarrow> U32 \<Rightarrow> kernel \<Rightarrow> (U32 \<times> kernel) option" where
  "chain_blocks bsize bnum j memory memBlk s =
     (if ucast j < bnum - 1 then do {
        let memory = memory + bsize;
        s \<leftarrow> wr memBlk 0 memory s;
        memBlk \<leftarrow> rd memBlk 0 s;
        chain_blocks bsize bnum (j + 1) memory memBlk s
      } else Some (memBlk, s))"

definition CoCreateMemPartition ::
  "config \<Rightarrow> (kernel \<Rightarrow> kernel option) \<Rightarrow> U32 \<Rightarrow> U32 \<Rightarrow> U32 \<Rightarrow> kernel \<Rightarrow> (U8 \<times> kernel) option" where
  "CoCreateMemPartition c unl memBuf bsize bnum s =
     (if CFG_PAR_CHECKOUT_EN c \<and> (memBuf = 0 \<or> bsize = 0 \<or> bsize AND 3 \<noteq> 0 \<or> bnum \<le> 1)
      then Some (E_CREATE_FAIL, s)
      else do {
        let s = OsSchedLock s;
        r \<leftarrow> find_free_id (CFG_MAX_MM c) (MemoryIDVessel s) 0;
        case r of
          Some i \<Rightarrow> do {
            b \<leftarrow> shl1 i;
            let s = s\<lparr>MemoryIDVessel := MemoryIDVessel s OR b\<rparr>;
            s \<leftarrow> unl s;
            let s = upd_mm (of_nat i) (\<lambda>_. \<lparr>memAddr = memBuf, freeBlock = memBuf,
                                            blockSize = bsize, blockNum = bnum\<rparr>) s;
            (memBlk, s) \<leftarrow> chain_blocks bsize bnum 0 memBuf memBuf s;
            s \<leftarrow> wr memBlk 0 0 s;
            Some (of_nat i, s)
          }
        | None \<Rightarrow> do { s \<leftarrow> unl s; Some (E_CREATE_FAIL, s) }
      })"

text \<open>The parameter check of the calls on one partition.\<close>

definition bad_mm :: "config \<Rightarrow> OS_MMID \<Rightarrow> kernel \<Rightarrow> bool" where
  "bad_mm c i s \<longleftrightarrow> CFG_PAR_CHECKOUT_EN c \<and>
     (unat i \<ge> CFG_MAX_MM c \<or> push_bit (unat i) 1 AND MemoryIDVessel s = 0)"

definition CoDelMemoryPartition ::
  "config \<Rightarrow> (kernel \<Rightarrow> kernel option) \<Rightarrow> OS_MMID \<Rightarrow> kernel \<Rightarrow> (StatusType \<times> kernel) option" where
  "CoDelMemoryPartition c unl i s =
     (if bad_mm c i s then Some (E_INVALID_ID, s)
      else do {
        let s = OsSchedLock s;
        i \<leftarrow> mm_ptr c i;
        b \<leftarrow> shl1 (unat i);
        let s = s\<lparr>MemoryIDVessel := MemoryIDVessel s AND NOT b\<rparr>;
        s \<leftarrow> unl s;
        Some (E_OK, upd_mm i (\<lambda>_. \<lparr>memAddr = 0, freeBlock = 0, blockSize = 0, blockNum = 0\<rparr>) s)
      })"

partial_function (option) count_blocks :: "U32 \<Rightarrow> U32 \<Rightarrow> kernel \<Rightarrow> U32 option" where
  "count_blocks memBlk fbNum s =
     (if memBlk \<noteq> 0 then do {
        n \<leftarrow> rd memBlk 0 s;
        count_blocks n (fbNum + 1) s
      } else Some fbNum)"

definition CoGetFreeBlockNum ::
  "config \<Rightarrow> (kernel \<Rightarrow> kernel option) \<Rightarrow> OS_MMID \<Rightarrow> kernel \<Rightarrow>
   ((U32 \<times> StatusType) \<times> kernel) option" where
  "CoGetFreeBlockNum c unl i s =
     (if bad_mm c i s then Some ((0, E_INVALID_ID), s)
      else do {
        i \<leftarrow> mm_ptr c i;
        let s = OsSchedLock s;
        n \<leftarrow> count_blocks (freeBlock (MemoryTbl s i)) 0 s;
        s \<leftarrow> unl s;
        Some ((n, E_OK), s)
      })"

definition CoGetMemoryBuffer ::
  "config \<Rightarrow> (kernel \<Rightarrow> kernel option) \<Rightarrow> OS_MMID \<Rightarrow> kernel \<Rightarrow> (U32 \<times> kernel) option" where
  "CoGetMemoryBuffer c unl i s =
     (if bad_mm c i s then Some (0, s)
      else do {
        i \<leftarrow> mm_ptr c i;
        let s = OsSchedLock s;
        if freeBlock (MemoryTbl s i) = 0 then do { s \<leftarrow> unl s; Some (0, s) }
        else do {
          let memBlk = freeBlock (MemoryTbl s i);
          n \<leftarrow> rd memBlk 0 s;
          let s = upd_mm i (freeBlock_update (\<lambda>_. n)) s;
          s \<leftarrow> unl s;
          Some (memBlk, s)
        }
      })"

definition CoFreeMemoryBuffer ::
  "config \<Rightarrow> (kernel \<Rightarrow> kernel option) \<Rightarrow> OS_MMID \<Rightarrow> U32 \<Rightarrow> kernel \<Rightarrow>
   (StatusType \<times> kernel) option" where
  "CoFreeMemoryBuffer c unl i buf s =
     (if bad_mm c i s then Some (E_INVALID_ID, s)
      else if CFG_PAR_CHECKOUT_EN c \<and> buf = 0 then Some (E_INVALID_PARAMETER, s)
      else do {
        i \<leftarrow> mm_ptr c i;
        let memCtl = MemoryTbl s i;
        if CFG_PAR_CHECKOUT_EN c \<and>
           (buf < memAddr memCtl \<or> buf > memAddr memCtl + blockSize memCtl * blockNum memCtl \<or>
            (buf - memAddr memCtl) mod blockSize memCtl \<noteq> 0)
        then Some (E_INVALID_PARAMETER, s)
        else do {
          let s = OsSchedLock s;
          s \<leftarrow> wr buf 0 (freeBlock (MemoryTbl s i)) s;
          let s = upd_mm i (freeBlock_update (\<lambda>_. buf)) s;
          s \<leftarrow> unl s;
          Some (E_OK, s)
        }
      })"

section \<open>Free lists\<close>

lemma and_3: "a AND 3 = (0 :: U32) \<longleftrightarrow> unat a mod 4 = 0"
proof -
  have "a AND 3 = a mod 4" using take_bit_eq_mask [of 2 a] take_bit_eq_mod [of 2 a] by (simp add: mask_eq_exp_minus_1)
  then have "unat (a AND 3) = unat a mod 4" by (simp add: unat_mod_distrib)
  then show ?thesis by (metis unat_0 word_unat_eq_iff)
qed

lemma bad_addr_unat: "bad_addr a \<longleftrightarrow> unat a = 0 \<or> unat a mod 4 \<noteq> 0"
  by (simp add: bad_addr_def and_3 unat_eq_0)

text \<open>\<open>flist m h bs\<close>: the blocks \<open>bs\<close> are chained from \<open>h\<close> in the memory \<open>m\<close>.\<close>

fun flist :: "(U32 \<Rightarrow> U32) \<Rightarrow> U32 \<Rightarrow> U32 list \<Rightarrow> bool" where
  "flist m h [] \<longleftrightarrow> h = 0"
| "flist m h (b # bs) \<longleftrightarrow> h = b \<and> \<not> bad_addr b \<and> flist m (m b) bs"

lemma flist_upd [simp]: "a \<notin> set bs \<Longrightarrow> flist (m(a := v)) h bs = flist m h bs"
  by (induction bs arbitrary: h) auto

lemma flist_agree: "(\<And>x. x \<in> set bs \<Longrightarrow> m x = m' x) \<Longrightarrow> flist m h bs = flist m' h bs"
  by (induction bs arbitrary: h) auto

lemma flist_0: "flist m 0 bs \<longleftrightarrow> bs = []"
  by (cases bs) (auto simp: bad_addr_def)

definition part_rep :: "OS_MMID \<Rightarrow> kernel \<Rightarrow> U32 list \<Rightarrow> bool" where
  "part_rep i s bs \<longleftrightarrow> flist (mem s) (freeBlock (MemoryTbl s i)) bs \<and> distinct bs"

lemma count_blocks_ok:
  assumes "flist (mem s) h bs"
  shows "count_blocks h n s = Some (n + of_nat (length bs))"
  using assms
proof (induction bs arbitrary: h n)
  case Nil
  then show ?case by (simp add: count_blocks.simps)
next
  case (Cons b bs)
  then have "count_blocks (mem s b) (n + 1) s = Some (n + 1 + of_nat (length bs))" by simp
  with Cons.prems show ?case by (subst count_blocks.simps) (simp add: rd_def bad_addr_def ac_simps)
qed

section \<open>Chaining the blocks\<close>

abbreviation blk :: "U32 \<Rightarrow> U32 \<Rightarrow> nat \<Rightarrow> U32" where
  "blk a z k \<equiv> a + of_nat k * z"

text \<open>A buffer for \<open>n\<close> aligned blocks that does not reach over the end of the address space.\<close>

definition fits :: "U32 \<Rightarrow> U32 \<Rightarrow> nat \<Rightarrow> bool" where
  "fits a z n \<longleftrightarrow> 0 < unat a \<and> unat a mod 4 = 0 \<and> 0 < unat z \<and> unat z mod 4 = 0 \<and> unat a + n * unat z < 2 ^ 32"

lemma unat_blk:
  assumes "fits a z n" and "k < n"
  shows "unat (blk a z k) = unat a + k * unat z"
proof -
  have "Suc k * unat z \<le> n * unat z" using assms(2) by (intro mult_le_mono1) simp
  then have lt: "unat a + k * unat z < 2 ^ 32" using assms(1) unfolding fits_def mult_Suc by linarith
  have "k \<le> k * unat z" using assms(1) by (simp add: fits_def)
  then have "k < 2 ^ 32" using lt by linarith
  then have "unat (of_nat k * z) = k * unat z" using lt by (simp add: unat_word_ariths unat_of_nat)
  then show ?thesis using lt by (simp add: unat_word_ariths)
qed

lemma blk_ok:
  assumes "fits a z n" and "k < n"
  shows "\<not> bad_addr (blk a z k)" and "j < n \<Longrightarrow> blk a z j = blk a z k \<longleftrightarrow> j = k"
proof -
  have "(unat a + k * unat z) mod 4 = 0" using assms(1) by (auto simp: fits_def mod_eq_0_iff_dvd)
  with unat_blk [OF assms] assms(1) show "\<not> bad_addr (blk a z k)" by (simp add: bad_addr_unat fits_def)
  show "blk a z j = blk a z k \<longleftrightarrow> j = k" if "j < n"
  proof -
    have "blk a z j = blk a z k \<longleftrightarrow> unat a + j * unat z = unat a + k * unat z"
      using unat_blk [OF assms(1) that] unat_blk [OF assms] by (metis word_unat_eq_iff)
    then show ?thesis using assms(1) by (auto simp: fits_def)
  qed
qed

lemma chain_blocks_ok:
  assumes "fits a z (unat bnum)" and "unat bnum \<le> 256" and "j < unat bnum"
  shows "\<exists>s'. chain_blocks z bnum (of_nat j) (blk a z j) (blk a z j) s = Some (blk a z (unat bnum - 1), s') \<and>
    (\<forall>k. j \<le> k \<and> Suc k < unat bnum \<longrightarrow> mem s' (blk a z k) = blk a z (Suc k)) \<and>
    (\<forall>x. (\<forall>k. j \<le> k \<and> Suc k < unat bnum \<longrightarrow> x \<noteq> blk a z k) \<longrightarrow> mem s' x = mem s x) \<and>
    s'\<lparr>mem := mem s\<rparr> = s"
  using assms(3)
proof (induction "unat bnum - j" arbitrary: j s)
  case 0
  then show ?case by simp
next
  case (Suc d)
  have j8: "unat (of_nat j :: U8) = j" using Suc.prems assms(2) by (simp add: unat_of_nat)
  have b1: "unat (bnum - 1) = unat bnum - 1" using Suc.prems by (intro unat_minus_one) auto
  have lt: "(ucast (of_nat j :: U8) :: U32) < bnum - 1 \<longleftrightarrow> Suc j < unat bnum"
    using j8 b1 Suc.prems assms(2) by (auto simp: word_less_nat_alt unsigned_ucast_eq take_bit_nat_eq_self)
  show ?case
  proof (cases "Suc j < unat bnum")
    case False
    then have "j = unat bnum - 1" using Suc.prems by simp
    with False lt show ?thesis by (subst chain_blocks.simps) auto
  next
    case True
    let ?s = "wr_mem (blk a z j) (blk a z (Suc j)) s"
    have nb: "\<not> bad_addr (blk a z j)" by (rule blk_ok(1) [OF assms(1) Suc.prems])
    have step: "chain_blocks z bnum (of_nat j) (blk a z j) (blk a z j) s =
        chain_blocks z bnum (of_nat (Suc j)) (blk a z (Suc j)) (blk a z (Suc j)) ?s"
      using lt True nb by (subst chain_blocks.simps) (simp add: wr_def rd_def Let_def algebra_simps)
    obtain s' where s': "chain_blocks z bnum (of_nat (Suc j)) (blk a z (Suc j)) (blk a z (Suc j)) ?s =
        Some (blk a z (unat bnum - 1), s')"
      "\<forall>k. Suc j \<le> k \<and> Suc k < unat bnum \<longrightarrow> mem s' (blk a z k) = blk a z (Suc k)"
      "\<forall>x. (\<forall>k. Suc j \<le> k \<and> Suc k < unat bnum \<longrightarrow> x \<noteq> blk a z k) \<longrightarrow> mem s' x = mem ?s x"
      "s'\<lparr>mem := mem ?s\<rparr> = ?s"
    proof -
      have "d = unat bnum - Suc j" using Suc.hyps(2) by simp
      from Suc.hyps(1) [OF this True, of ?s] that show thesis by blast
    qed
    have "blk a z j \<noteq> blk a z k" if "Suc j \<le> k" "Suc k < unat bnum" for k
      using blk_ok(2) [OF assms(1), of k j] Suc.prems that by auto
    then have mj: "mem s' (blk a z j) = blk a z (Suc j)" using s'(3) by simp
    have "mem s' x = mem s x" if "\<forall>k. j \<le> k \<and> Suc k < unat bnum \<longrightarrow> x \<noteq> blk a z k" for x
    proof -
      have "x \<noteq> blk a z j" using that True by blast
      moreover have "\<forall>k. Suc j \<le> k \<and> Suc k < unat bnum \<longrightarrow> x \<noteq> blk a z k" using that by auto
      ultimately show ?thesis using s'(3) by simp
    qed
    moreover have "mem s' (blk a z k) = blk a z (Suc k)" if "j \<le> k" "Suc k < unat bnum" for k
      using that s'(2) mj by (cases "k = j") auto
    moreover have "s'\<lparr>mem := mem s\<rparr> = s" using arg_cong [OF s'(4), of "mem_update (\<lambda>_. mem s)"] by simp
    ultimately show ?thesis using step s'(1) by auto
  qed
qed

lemma flist_blocks:
  assumes "fits a z n" and "\<And>k. Suc k < n \<Longrightarrow> m (blk a z k) = blk a z (Suc k)" and "m (blk a z (n - 1)) = 0"
    and "j < n"
  shows "flist m (blk a z j) (map (blk a z) [j..<n])"
  using assms(4)
proof (induction "n - j" arbitrary: j)
  case (Suc d)
  have nb: "\<not> bad_addr (blk a z j)" by (rule blk_ok(1) [OF assms(1) Suc.prems])
  show ?case
  proof (cases "Suc j < n")
    case True
    with Suc.hyps(1) [of "Suc j"] Suc.hyps(2) have "flist m (blk a z (Suc j)) (map (blk a z) [Suc j..<n])" by simp
    with nb assms(2) [OF True] show ?thesis using Suc.prems by (simp add: upt_conv_Cons)
  next
    case False
    then have "j = n - 1" "[j..<n] = [j]" using Suc.prems by (auto simp: upt_conv_Cons)
    with nb assms(3) show ?thesis by simp
  qed
qed simp

lemma block_in_range:
  assumes "fits a z (unat n)" and "k < unat n"
  shows "\<not> blk a z k < a" and "\<not> a + z * n < blk a z k" and "(blk a z k - a) mod z = 0"
proof -
  note u = unat_blk [OF assms]
  have le: "k * unat z \<le> unat n * unat z" using assms(2) by (intro mult_le_mono1) simp
  have lt: "unat a + unat n * unat z < 2 ^ 32" using assms(1) by (simp add: fits_def)
  then have "unat (a + z * n) = unat a + unat n * unat z" by (simp add: unat_word_ariths mult.commute)
  with u le show "\<not> blk a z k < a" "\<not> a + z * n < blk a z k" by (auto simp: word_less_nat_alt)
  have "a \<le> blk a z k" unfolding word_le_nat_alt u by simp
  then have "unat (blk a z k - a) = k * unat z" using unat_sub [of a "blk a z k"] u by (simp only: add_diff_cancel_left')
  then have "unat ((blk a z k - a) mod z) = 0" by (simp only: unat_mod_distrib mod_mult_self2_is_0)
  then show "(blk a z k - a) mod z = 0" by (simp only: unat_eq_0)
qed

lemma distinct_blocks: "fits a z n \<Longrightarrow> distinct (map (blk a z) [0..<n])"
  using blk_ok(2) [of a z n] by (auto simp: distinct_map inj_on_def)

section \<open>Properties\<close>

text \<open>
  C33. \<open>CoCreateMemPartition\<close> returns for 2 to 256 blocks of an aligned buffer and leaves a free
  list of exactly these blocks, in address order, under the least free partition number; the
  loop that chains the blocks ends.
\<close>

theorem partition_create:
  assumes "CFG_PAR_CHECKOUT_EN c" and "CFG_MAX_MM c \<le> 32" and "fits a z (unat n)" and "2 \<le> unat n" and "unat n \<le> 256"
    and "find_free_id (CFG_MAX_MM c) (MemoryIDVessel s) 0 = Some (Some i)"
    and "unl (s\<lparr>OSSchedLock := OSSchedLock s + 1, MemoryIDVessel := MemoryIDVessel s OR push_bit i 1\<rparr>) = Some s0"
    and "i < CFG_MAX_MM c"
  shows "\<exists>s'. CoCreateMemPartition c unl a z n s = Some (of_nat i, s') \<and>
    part_rep (of_nat i) s' (map (blk a z) [0..<unat n]) \<and>
    MemoryTbl s' (of_nat i) = \<lparr>memAddr = a, freeBlock = a, blockSize = z, blockNum = n\<rparr>"
proof -
  let ?m = "\<lparr>memAddr = a, freeBlock = a, blockSize = z, blockNum = n\<rparr>"
  have pos: "0 < unat n" "unat n - 1 < unat n" using assms(4) by simp_all
  obtain s1 where s1: "chain_blocks z n 0 a a (upd_mm (of_nat i) (\<lambda>_. ?m) s0) = Some (blk a z (unat n - 1), s1)"
    "\<And>k. Suc k < unat n \<Longrightarrow> mem s1 (blk a z k) = blk a z (Suc k)"
    "s1\<lparr>mem := mem (upd_mm (of_nat i) (\<lambda>_. ?m) s0)\<rparr> = upd_mm (of_nat i) (\<lambda>_. ?m) s0"
    using chain_blocks_ok [OF assms(3,5) pos(1), of "upd_mm (of_nat i) (\<lambda>_. ?m) s0"] by auto
  let ?s' = "wr_mem (blk a z (unat n - 1)) 0 s1"
  have nb: "\<not> bad_addr (blk a z (unat n - 1))" by (rule blk_ok(1) [OF assms(3) pos(2)])
  have tbl: "MemoryTbl s1 (of_nat i) = ?m" using arg_cong [OF s1(3), of MemoryTbl] by simp
  have z: "a \<noteq> 0" "z \<noteq> 0" "z AND 3 = 0" "\<not> n \<le> 1"
    using assms(3,4) by (auto simp: fits_def and_3 word_le_nat_alt)
  have "shl1 i = Some (push_bit i 1)" using assms(2,8) by (intro shl1_Some) simp
  then have "CoCreateMemPartition c unl a z n s = Some (of_nat i, ?s')"
    using assms(1,6,7) z s1(1) nb by (simp add: CoCreateMemPartition_def OsSchedLock_def wr_def)
  moreover have "flist (mem ?s') (blk a z 0) (map (blk a z) [0..<unat n])"
  proof (rule flist_blocks [OF assms(3)])
    show "mem ?s' (blk a z k) = blk a z (Suc k)" if "Suc k < unat n" for k
      using s1(2) [OF that] blk_ok(2) [OF assms(3) pos(2), of k] that by auto
  qed (use pos in simp_all)
  ultimately show ?thesis using tbl distinct_blocks [OF assms(3)] by (simp add: part_rep_def)
qed

theorem partition_create_witness:
  "\<exists>s'. CoCreateMemPartition OsConfig Some 0x20001000 32 4 kernel_start = Some (0, s') \<and>
    part_rep 0 s' (map (blk 0x20001000 32) [0..<4])"
proof -
  have "find_free_id 2 0 0 = Some (Some 0)" by (simp add: find_free_id.simps)
  moreover have start: "MemoryIDVessel kernel_start = 0" "CFG_MAX_MM OsConfig = 2" "CFG_PAR_CHECKOUT_EN OsConfig"
    by (simp_all add: kernel_start_def OsConfig_def)
  ultimately show ?thesis
    using partition_create [where c = OsConfig and a = "0x20001000" and z = "32" and n = "4" and s = kernel_start and i = "0" and unl = Some]
    by (auto simp: fits_def start)
qed

text \<open>
  C35. A partition of more than 256 blocks is never created: the loop counter of
  \<open>CoCreateMemPartition\<close> is a \<open>U8\<close> that is compared with the 32-bit block count, so it wraps
  around before it gets there and the loop does not end.
\<close>

theorem partition_too_large_never_returns:
  assumes "256 < unat n" and "find_free_id (CFG_MAX_MM c) (MemoryIDVessel s) 0 = Some (Some i)"
    and "a \<noteq> 0" and "z \<noteq> 0" and "z AND 3 = 0"
  shows "CoCreateMemPartition c unl a z n s = None"
proof -
  have lt: "(ucast (j :: U8) :: U32) < n - 1" for j
  proof -
    have "unat (n - 1) = unat n - 1" using assms(1) by (intro unat_minus_one) auto
    moreover have "unat j < 2 ^ 8" using unsigned_less [of j] by simp
    then have "unat (ucast j :: U32) = unat j" "unat j < 256"
      by (simp_all add: unsigned_ucast_eq take_bit_nat_eq_self)
    ultimately show ?thesis using assms(1) by (simp add: word_less_nat_alt)
  qed
  have loop: "chain_blocks z n j m b t = None" for j m b t
  proof -
    have False if "chain_blocks z n j m b t = Some y" for y
    proof -
      have "n = n \<longrightarrow> z = z \<longrightarrow> False"
      proof (rule chain_blocks.raw_induct [where P = "\<lambda>z' n' _ _ _ _ _. n' = n \<longrightarrow> z' = z \<longrightarrow> False", OF _ that])
        fix loop :: "U32 \<Rightarrow> U32 \<Rightarrow> U8 \<Rightarrow> U32 \<Rightarrow> U32 \<Rightarrow> kernel \<Rightarrow> (U32 \<times> kernel) option"
          and z' n' j m b t y
        assume IH: "\<And>z' n' j m b t y. loop z' n' j m b t = Some y \<Longrightarrow> n' = n \<longrightarrow> z' = z \<longrightarrow> False"
          and eq: "(if ucast j < n' - 1 then let m = m + z' in wr b 0 m t \<bind> (\<lambda>s. rd b 0 s \<bind> (\<lambda>b. loop z' n' (j + 1) m b s))
            else Some (b, t)) = Some y"
        show "n' = n \<longrightarrow> z' = z \<longrightarrow> False"
        proof (intro impI)
          assume "n' = n" "z' = z"
          with eq lt [of j] obtain b1 s1 where "loop z' n' (j + 1) (m + z') b1 s1 = Some y"
            by (auto simp: Let_def kernel_simps)
          from IH [OF this] \<open>n' = n\<close> \<open>z' = z\<close> show False by simp
        qed
      qed
      then show False by simp
    qed
    then show ?thesis by (cases "chain_blocks z n j m b t") auto
  qed
  have "\<not> n \<le> 1" using assms(1) by (auto simp: word_le_nat_alt)
  then show ?thesis using assms(2-5) loop
    by (cases "shl1 i") (auto simp: CoCreateMemPartition_def OsSchedLock_def Let_def split: Option.bind_splits)
qed

theorem partition_too_large_never_returns_witness:
  "CoCreateMemPartition OsConfig Some 0x20001000 32 300 kernel_start = None"
proof -
  have "find_free_id 2 0 0 = Some (Some 0)" by (simp add: find_free_id.simps)
  then show ?thesis
    by (intro partition_too_large_never_returns) (simp_all add: OsConfig_def kernel_start_def)
qed

lemma bad_mm_ok: "\<not> bad_mm c i s \<Longrightarrow> CFG_PAR_CHECKOUT_EN c \<Longrightarrow> mm_ptr c i = Some i"
  by (auto simp: bad_mm_def mm_ptr_def)

end
