(* ===== verification/Memory.thy ===== *)
theory Memory
  imports Partition
begin

text \<open>
  The kernel heap (\<open>kernelHeap.c\<close>), a first-fit allocator whose block headers live in the word
  store, and \<open>CoInitOS\<close>, which sets up all the modules.
\<close>

section \<open>Kernel heap\<close>

text \<open>
  The blocks of the heap. A used block starts with \<open>nextMB\<close> and \<open>preMB\<close>, a free block with
  \<open>nextFMB\<close>, \<open>nextUMB\<close> and \<open>preUMB\<close>. A pointer to a used block has its lowest bit set.
\<close>

definition off_nextMB :: U32 where "off_nextMB = 0"
definition off_preMB :: U32 where "off_preMB = 4"
definition off_nextFMB :: U32 where "off_nextFMB = 0"
definition off_nextUMB :: U32 where "off_nextUMB = 4"
definition off_preUMB :: U32 where "off_preUMB = 8"

lemmas off_defs =
  off_nextMB_def off_preMB_def off_nextFMB_def off_nextUMB_def off_preUMB_def

definition CoCreateKheap :: "config \<Rightarrow> kernel \<Rightarrow> kernel option" where
  "CoCreateKheap c s = do {
     let s = s\<lparr>Kheap := \<lparr>startAddr = KernelHeap c,
                          endAddr = KernelHeap c + of_nat (KHEAP_SIZE c) * 4\<rparr>\<rparr>;
     let s = s\<lparr>FMBlist := KernelHeap c\<rparr>;
     s \<leftarrow> wr (FMBlist s) off_nextFMB 0 s;
     s \<leftarrow> wr (FMBlist s) off_nextUMB 0 s;
     wr (FMBlist s) off_preUMB 0 s
   }"

text \<open>Set the \<open>nextFMB\<close> of the free block in front, or the list head if there is none.\<close>

definition set_next_fmb :: "U32 \<Rightarrow> U32 \<Rightarrow> kernel \<Rightarrow> kernel option" where
  "set_next_fmb preFMB v s =
     (if preFMB \<noteq> 0 then wr preFMB off_nextFMB v s else Some (s\<lparr>FMBlist := v\<rparr>))"

text \<open>
  Let the used blocks next to a block, given by their tagged addresses, point to \<open>v\<close> if there are any.
\<close>

definition set_pre_mb :: "U32 \<Rightarrow> U32 \<Rightarrow> kernel \<Rightarrow> kernel option" where
  "set_pre_mb nextUMB v s = (if nextUMB \<noteq> 0 then wr (nextUMB - 1) off_preMB v s else Some s)"

definition set_next_mb :: "U32 \<Rightarrow> U32 \<Rightarrow> kernel \<Rightarrow> kernel option" where
  "set_next_mb preUMB v s = (if preUMB \<noteq> 0 then wr (preUMB - 1) off_nextMB v s else Some s)"

text \<open>The body of \<open>CoKmalloc\<close> for a free block that is large enough.\<close>

definition kmalloc_take :: "U32 \<Rightarrow> U32 \<Rightarrow> U32 \<Rightarrow> U32 \<Rightarrow> kernel \<Rightarrow> kernel option" where
  "kmalloc_take sz freeMB preFMB freeSize s = do {
     let usedMB = freeMB;
     s \<leftarrow> (if freeSize - sz < 12 then do {
             nFMB \<leftarrow> rd freeMB off_nextFMB s;
             s \<leftarrow> set_next_fmb preFMB nFMB s;
             nUMB \<leftarrow> rd freeMB off_nextUMB s;
             s \<leftarrow> set_pre_mb nUMB (usedMB OR 1) s;
             nUMB \<leftarrow> rd freeMB off_nextUMB s;
             s \<leftarrow> wr usedMB off_nextMB nUMB s;
             pUMB \<leftarrow> rd freeMB off_preUMB s;
             wr usedMB off_preMB pUMB s
           } else do {
             let newFMB = freeMB + sz;
             s \<leftarrow> set_next_fmb preFMB newFMB s;
             s \<leftarrow> wr newFMB off_preUMB (usedMB OR 1) s;
             nUMB \<leftarrow> rd freeMB off_nextUMB s;
             s \<leftarrow> wr newFMB off_nextUMB nUMB s;
             nFMB \<leftarrow> rd freeMB off_nextFMB s;
             s \<leftarrow> wr newFMB off_nextFMB nFMB s;
             nUMB \<leftarrow> rd freeMB off_nextUMB s;
             s \<leftarrow> set_pre_mb nUMB newFMB s;
             s \<leftarrow> wr usedMB off_nextMB newFMB s;
             pUMB \<leftarrow> rd freeMB off_preUMB s;
             wr usedMB off_preMB pUMB s
           });
     pUMB \<leftarrow> rd freeMB off_preUMB s;
     set_next_mb pUMB (usedMB OR 1) s
   }"

partial_function (option) kmalloc_loop ::
  "U32 \<Rightarrow> U32 \<Rightarrow> U32 \<Rightarrow> U32 \<Rightarrow> kernel \<Rightarrow> (U32 \<times> kernel) option" where
  "kmalloc_loop sz kheapAddr freeMB preFMB s =
     (if freeMB \<noteq> 0 then do {
        nUMB \<leftarrow> rd freeMB off_nextUMB s;
        let freeSize = (if nUMB = 0 then kheapAddr - freeMB else nUMB - 1 - freeMB);
        if freeSize \<ge> sz then do {
          s \<leftarrow> kmalloc_take sz freeMB preFMB freeSize s;
          Some (freeMB + 8, s)
        } else do {
          n \<leftarrow> rd freeMB off_nextFMB s;
          kmalloc_loop sz kheapAddr n freeMB s
        }
      } else Some (0, s))"

definition CoKmalloc ::
  "config \<Rightarrow> (kernel \<Rightarrow> kernel option) \<Rightarrow> U32 \<Rightarrow> kernel \<Rightarrow> (U32 \<times> kernel) option" where
  "CoKmalloc c unl sz s =
     (if CFG_PAR_CHECKOUT_EN c \<and> sz = 0 then Some (0, s)
      else do {
        let sz = push_bit 2 (drop_bit 2 (sz + 3)) + 8;
        let kheapAddr = endAddr (Kheap s);
        let s = OsSchedLock s;
        (a, s) \<leftarrow> kmalloc_loop sz kheapAddr (FMBlist s) 0 s;
        s \<leftarrow> unl s;
        Some (a, s)
      })"

partial_function (option) GetPreFMB :: "U32 \<Rightarrow> kernel \<Rightarrow> U32 option" where
  "GetPreFMB preUMB s = do {
     p \<leftarrow> rd preUMB off_preMB s;
     if p AND 1 \<noteq> 0 then GetPreFMB (p - 1) s else Some p
   }"

text \<open>
  The two searches by which \<open>CoKfree\<close> makes sure that \<open>usedMB\<close> is a block in use, backwards
  from the first free block and forwards from it.
\<close>

partial_function (option) kfree_back :: "U32 \<Rightarrow> U32 \<Rightarrow> kernel \<Rightarrow> bool option" where
  "kfree_back usedMB preUMB s =
     (if preUMB \<noteq> usedMB then
        if preUMB = 0 then Some False
        else do {
          p \<leftarrow> rd preUMB off_preMB s;
          kfree_back usedMB (p - 1) s
        }
      else Some True)"

partial_function (option) kfree_fwd :: "U32 \<Rightarrow> U32 \<Rightarrow> kernel \<Rightarrow> bool option" where
  "kfree_fwd usedMB nextUMB s =
     (if nextUMB \<noteq> usedMB then
        if nextUMB = 0 then Some False
        else do {
          n \<leftarrow> rd nextUMB off_nextMB s;
          if n AND 1 = 0 then do {
            u \<leftarrow> rd n off_nextUMB s;
            kfree_fwd usedMB (u - 1) s
          } else kfree_fwd usedMB (n - 1) s
        }
      else Some True)"

definition kfree_check :: "U32 \<Rightarrow> kernel \<Rightarrow> bool option" where
  "kfree_check usedMB s =
     (if usedMB < FMBlist s then do {
        p \<leftarrow> rd (FMBlist s) off_preUMB s;
        kfree_back usedMB (p - 1) s
      } else do {
        nextUMB \<leftarrow>
          (if FMBlist s = 0 then Some (startAddr (Kheap s))
           else do {
             u \<leftarrow> rd (FMBlist s) off_nextUMB s;
             Some (if u \<noteq> 0 then u - 1 else 0)
           });
        kfree_fwd usedMB nextUMB s
      })"

text \<open>
  The four cases of \<open>CoKfree\<close>, by the kinds of the two neighbours. Each returns the free block
  \<open>curFMB\<close> that the released memory has become part of.
\<close>

definition kfree_both_free :: "U32 \<Rightarrow> kernel \<Rightarrow> (U32 \<times> kernel) option" where
  "kfree_both_free usedMB s = do {
     nMB \<leftarrow> rd usedMB off_nextMB s;
     pMB \<leftarrow> rd usedMB off_preMB s;
     if nMB = 0 \<and> pMB = 0 then do {
       let curFMB = usedMB;
       s \<leftarrow> wr curFMB off_nextFMB 0 s;
       s \<leftarrow> wr curFMB off_nextUMB 0 s;
       s \<leftarrow> wr curFMB off_preUMB 0 s;
       Some (curFMB, s\<lparr>FMBlist := curFMB\<rparr>)
     }
     else if pMB = 0 then do {
       let curFMB = usedMB;
       let nextFMB = nMB;
       n \<leftarrow> rd nextFMB off_nextFMB s;
       s \<leftarrow> wr curFMB off_nextFMB n s;
       u \<leftarrow> rd nextFMB off_nextUMB s;
       s \<leftarrow> wr curFMB off_nextUMB u s;
       s \<leftarrow> wr curFMB off_preUMB 0 s;
       Some (curFMB, s\<lparr>FMBlist := curFMB\<rparr>)
     }
     else if nMB = 0 then do {
       let curFMB = pMB;
       s \<leftarrow> wr curFMB off_nextFMB 0 s;
       s \<leftarrow> wr curFMB off_nextUMB 0 s;
       Some (curFMB, s)
     }
     else do {
       let nextFMB = nMB;
       let curFMB = pMB;
       n \<leftarrow> rd nextFMB off_nextFMB s;
       s \<leftarrow> wr curFMB off_nextFMB n s;
       u \<leftarrow> rd nextFMB off_nextUMB s;
       s \<leftarrow> wr curFMB off_nextUMB u s;
       Some (curFMB, s)
     }
   }"

definition kfree_pre_free :: "U32 \<Rightarrow> kernel \<Rightarrow> (U32 \<times> kernel) option" where
  "kfree_pre_free usedMB s = do {
     pMB \<leftarrow> rd usedMB off_preMB s;
     nextUMB \<leftarrow> rd usedMB off_nextMB s;
     if pMB = 0 then do {
       let curFMB = usedMB;
       s \<leftarrow> wr curFMB off_nextUMB nextUMB s;
       s \<leftarrow> wr curFMB off_preUMB 0 s;
       s \<leftarrow> wr curFMB off_nextFMB (FMBlist s) s;
       Some (curFMB, s\<lparr>FMBlist := curFMB\<rparr>)
     } else do {
       let curFMB = pMB;
       s \<leftarrow> wr curFMB off_nextUMB nextUMB s;
       Some (curFMB, s)
     }
   }"

text \<open>Link \<open>curFMB\<close> behind \<open>preFMB\<close>, or at the head; the result is the free block behind it.\<close>

definition kfree_link :: "U32 \<Rightarrow> U32 \<Rightarrow> kernel \<Rightarrow> (U32 \<times> kernel) option" where
  "kfree_link curFMB preFMB s =
     (if preFMB = 0 then Some (FMBlist s, s\<lparr>FMBlist := curFMB\<rparr>)
      else do {
        n \<leftarrow> rd preFMB off_nextFMB s;
        s \<leftarrow> wr preFMB off_nextFMB curFMB s;
        Some (n, s)
      })"

definition kfree_next_free :: "U32 \<Rightarrow> kernel \<Rightarrow> (U32 \<times> kernel) option" where
  "kfree_next_free usedMB s = do {
     preUMB \<leftarrow> rd usedMB off_preMB s;
     let curFMB = usedMB;
     preFMB \<leftarrow> GetPreFMB usedMB s;
     (nextFMB, s) \<leftarrow> kfree_link curFMB preFMB s;
     if nextFMB = 0 then do {
       s \<leftarrow> wr curFMB off_preUMB preUMB s;
       s \<leftarrow> wr curFMB off_nextUMB 0 s;
       s \<leftarrow> wr curFMB off_nextFMB 0 s;
       Some (curFMB, s)
     } else do {
       s \<leftarrow> wr curFMB off_preUMB preUMB s;
       u \<leftarrow> rd nextFMB off_nextUMB s;
       s \<leftarrow> wr curFMB off_nextUMB u s;
       n \<leftarrow> rd nextFMB off_nextFMB s;
       s \<leftarrow> wr curFMB off_nextFMB n s;
       Some (curFMB, s)
     }
   }"

definition kfree_none_free :: "U32 \<Rightarrow> kernel \<Rightarrow> (U32 \<times> kernel) option" where
  "kfree_none_free usedMB s = do {
     let curFMB = usedMB;
     preFMB \<leftarrow> GetPreFMB usedMB s;
     preUMB \<leftarrow> rd usedMB off_preMB s;
     nextUMB \<leftarrow> rd usedMB off_nextMB s;
     (nextFMB, s) \<leftarrow> kfree_link curFMB preFMB s;
     s \<leftarrow> wr curFMB off_preUMB preUMB s;
     s \<leftarrow> wr curFMB off_nextUMB nextUMB s;
     s \<leftarrow> wr curFMB off_nextFMB nextFMB s;
     Some (curFMB, s)
   }"

definition kfree_merge :: "U32 \<Rightarrow> kernel \<Rightarrow> (U32 \<times> kernel) option" where
  "kfree_merge usedMB s = do {
     nMB \<leftarrow> rd usedMB off_nextMB s;
     pMB \<leftarrow> rd usedMB off_preMB s;
     if nMB AND 1 = 0 \<and> pMB AND 1 = 0 then kfree_both_free usedMB s
     else if pMB AND 1 = 0 then kfree_pre_free usedMB s
     else if nMB AND 1 = 0 then kfree_next_free usedMB s
     else kfree_none_free usedMB s
   }"

text \<open>The neighbours of the free block \<open>curFMB\<close> are linked to it.\<close>

definition kfree_release :: "U32 \<Rightarrow> kernel \<Rightarrow> kernel option" where
  "kfree_release usedMB s = do {
     (curFMB, s) \<leftarrow> kfree_merge usedMB s;
     p \<leftarrow> rd curFMB off_preUMB s;
     s \<leftarrow> set_next_mb p curFMB s;
     n \<leftarrow> rd curFMB off_nextUMB s;
     set_pre_mb n curFMB s
   }"

definition CoKfree ::
  "config \<Rightarrow> (kernel \<Rightarrow> kernel option) \<Rightarrow> U32 \<Rightarrow> kernel \<Rightarrow> kernel option" where
  "CoKfree c unl memBuf s =
     (if CFG_PAR_CHECKOUT_EN c \<and>
         (memBuf = 0 \<or> memBuf < startAddr (Kheap s) \<or> memBuf > endAddr (Kheap s))
      then Some s
      else do {
        let usedMB = memBuf - 8;
        let s = OsSchedLock s;
        ok \<leftarrow> (if CFG_PAR_CHECKOUT_EN c then kfree_check usedMB s else Some True);
        s \<leftarrow> (if ok then kfree_release usedMB s else Some s);
        unl s
      })"

section \<open>System initialisation\<close>

text \<open>
  \<open>CoInitOS\<close> of \<open>core.c\<close>. \<open>InitSysTick\<close> and \<open>InitInt\<close> write timer and interrupt-priority
  registers only and have no effect on the kernel state.
\<close>

definition CoInitOS ::
  "config \<Rightarrow> (kernel \<Rightarrow> kernel option) \<Rightarrow> cpu \<times> kernel \<Rightarrow> (cpu \<times> kernel) option" where
  "CoInitOS c unl = (\<lambda>(p, s). do {
     let s = CreateTCBList c s;
     let s = CreateEventList c s;
     s \<leftarrow> CoCreateKheap c s;
     let s = OsSchedLock s;
     let stk = idle_stk c + 4 * of_nat (CFG_IDLE_STACK_SIZE c - 1);
     (_, s) \<leftarrow> CreateTask c unl (CoIdleTask_entry c) 0
                (CoCreateTask_param (ucast (CFG_LOWEST_PRIO c)) (of_nat (CFG_IDLE_STACK_SIZE c)))
                stk s;
     Some (SetEnvironment stk p, s)
   })"

end
