(* ===== verification/LwipPort.thy ===== *)
theory LwipPort
  imports Memory
begin

unbundle bit_operations_syntax

text \<open>
  The operating system layer that lwIP 1.3.1 needs, on top of the kernel
  (\<open>port/CoOS/arch/sys_arch.c\<close>): mailboxes are mail queues whose storage comes from a memory
  partition, semaphores are kernel semaphores, and every lwIP thread has a slot of timeouts.
\<close>

section \<open>State\<close>

definition LWIP_TASK_MAX :: nat where "LWIP_TASK_MAX = 3"
definition LWIP_MAX_QUEUE :: U32 where "LWIP_MAX_QUEUE = 10"
definition LWIP_SIZE_QUEUE :: U32 where "LWIP_SIZE_QUEUE = 10"
definition OS_SEM_MAX_STATE :: U16 where "OS_SEM_MAX_STATE = 0xFFFF"
definition SYS_MBOX_NULL :: OS_EventID where "SYS_MBOX_NULL = 255"
definition SYS_ARCH_TIMEOUT :: U32 where "SYS_ARCH_TIMEOUT = 0xffffffff"

datatype err_t = ERR_OK | ERR_MEM

text \<open>
  The variables of the file beside the kernel's. The \<open>timeouts\<close> lists belong to lwIP; the port only
  hands out the address of a slot, so that a slot is its index. \<open>pool_addr\<close> is the address of
  \<open>queue_memory_pool\<close>, which the linker chooses.
\<close>

record lwip =
  kern :: kernel
  queue_pool :: OS_MMID
  timeout_tid :: "nat \<Rightarrow> OS_TID"
  current_task :: U8

abbreviation upd_slot :: "nat \<Rightarrow> OS_TID \<Rightarrow> lwip \<Rightarrow> lwip" where
  "upd_slot i t \<equiv> timeout_tid_update (\<lambda>f. f(i := t))"

section \<open>Mailboxes\<close>

definition sys_mbox_new :: "config \<Rightarrow> (kernel \<Rightarrow> kernel option) \<Rightarrow> lwip \<Rightarrow> (OS_EventID \<times> lwip) option" where
  "sys_mbox_new c unl p =
     (if queue_pool p \<noteq> E_CREATE_FAIL then do {
        (qstart, s) \<leftarrow> CoGetMemoryBuffer c unl (queue_pool p) (kern p);
        if qstart \<noteq> 0 then do {
          (mbox, s) \<leftarrow> CoCreateQueue c unl qstart (ucast LWIP_SIZE_QUEUE) EVENT_SORT_TYPE_PRIO s;
          s \<leftarrow> (if mbox = E_CREATE_FAIL
                then map_option snd (CoFreeMemoryBuffer c unl (queue_pool p) qstart s)
                else Some s);
          Some (mbox, p\<lparr>kern := s\<rparr>)
        } else Some (SYS_MBOX_NULL, p\<lparr>kern := s\<rparr>)
      } else Some (SYS_MBOX_NULL, p))"

definition sys_mbox_free :: "config \<Rightarrow> (kernel \<Rightarrow> kernel option) \<Rightarrow> OS_EventID \<Rightarrow> lwip \<Rightarrow> lwip option" where
  "sys_mbox_free c unl mbox p =
     (if mbox = SYS_MBOX_NULL then Some p
      else do {
        pecb \<leftarrow> ecb_ptr c mbox;
        pqcb \<leftarrow> the_qcb c (eventPtr (EventTbl (kern p) pecb));
        let mbuf = qStart (QueueTbl (kern p) pqcb);
        (_, s) \<leftarrow> CoDelQueue c unl mbox OPT_DEL_ANYWAY (kern p);
        (_, s) \<leftarrow> CoFreeMemoryBuffer c unl (queue_pool p) mbuf s;
        Some (p\<lparr>kern := s\<rparr>)
      })"

definition sys_mbox_post :: "config \<Rightarrow> (kernel \<Rightarrow> kernel option) \<Rightarrow> OS_EventID \<Rightarrow> U32 \<Rightarrow> lwip \<Rightarrow> lwip option" where
  "sys_mbox_post c unl mbox data p = do {
     (_, s) \<leftarrow> CoPostQueueMail c unl mbox data (kern p);
     Some (p\<lparr>kern := s\<rparr>)
   }"

definition sys_mbox_trypost ::
  "config \<Rightarrow> (kernel \<Rightarrow> kernel option) \<Rightarrow> OS_EventID \<Rightarrow> U32 \<Rightarrow> lwip \<Rightarrow> (err_t \<times> lwip) option" where
  "sys_mbox_trypost c unl mbox msg p = do {
     (r, s) \<leftarrow> CoPostQueueMail c unl mbox msg (kern p);
     Some (if r \<noteq> E_OK then ERR_MEM else ERR_OK, p\<lparr>kern := s\<rparr>)
   }"

text \<open>The conversions between milliseconds and ticks, in 32-bit arithmetic.\<close>

definition ms_to_ticks :: "config \<Rightarrow> U32 \<Rightarrow> U32" where
  "ms_to_ticks c timeout =
     (let timeoutTick = timeout * of_nat (CFG_SYSTICK_FREQ c) div 1000
      in if timeoutTick = 0 \<and> timeout \<noteq> 0 then 1 else timeoutTick)"

definition elapsed_ms :: "config \<Rightarrow> U32 \<Rightarrow> U32 \<Rightarrow> U32" where
  "elapsed_ms c startTick endTick = (endTick - startTick) * 1000 div of_nat (CFG_SYSTICK_FREQ c)"

text \<open>
  \<open>sys_arch_mbox_fetch\<close> up to the point where the pend blocks, and the code behind it. The result is
  the return value and what is stored through \<open>msg\<close>.
\<close>

definition mbox_fetch_end ::
  "config \<Rightarrow> U32 \<Rightarrow> U32 \<Rightarrow> voidp \<Rightarrow> StatusType \<Rightarrow> kernel \<Rightarrow> U32 \<times> voidp" where
  "mbox_fetch_end c timeoutTick startTick data result s =
     (if timeoutTick \<noteq> 0 \<and> result \<noteq> E_OK then (SYS_ARCH_TIMEOUT, vnull)
      else (elapsed_ms c startTick (ucast (CoGetOSTime s)), data))"

definition sys_arch_mbox_fetch ::
  "config \<Rightarrow> (kernel \<Rightarrow> kernel option) \<Rightarrow> OS_EventID \<Rightarrow> U32 \<Rightarrow> lwip \<Rightarrow> ((U32 \<times> voidp) outcome \<times> lwip) option" where
  "sys_arch_mbox_fetch c unl mbox timeout p = do {
     let timeoutTick = ms_to_ticks c timeout;
     let startTick = ucast (CoGetOSTime (kern p));
     (r, s) \<leftarrow> CoPendQueueMail c unl mbox timeoutTick (kern p);
     Some (case r of
             Ret (data, result) \<Rightarrow> (Ret (mbox_fetch_end c timeoutTick startTick data result s), p\<lparr>kern := s\<rparr>)
           | Blocked \<Rightarrow> (Blocked, p\<lparr>kern := s\<rparr>))
   }"

definition sys_arch_mbox_fetch_resume ::
  "config \<Rightarrow> U32 \<Rightarrow> U32 \<Rightarrow> OS_TID \<Rightarrow> lwip \<Rightarrow> (U32 \<times> voidp) \<times> lwip" where
  "sys_arch_mbox_fetch_resume c timeout startTick curTCB p =
     (let timeoutTick = ms_to_ticks c timeout;
          ((data, result), s) = CoPendQueueMail_resume timeoutTick curTCB (kern p)
      in (mbox_fetch_end c timeoutTick startTick data result s, p\<lparr>kern := s\<rparr>))"

definition sys_arch_mbox_tryfetch ::
  "config \<Rightarrow> (kernel \<Rightarrow> kernel option) \<Rightarrow> OS_EventID \<Rightarrow> lwip \<Rightarrow> ((U32 \<times> voidp) \<times> lwip) option" where
  "sys_arch_mbox_tryfetch c unl mbox p = do {
     ((data, result), s) \<leftarrow> CoAcceptQueueMail c unl mbox (kern p);
     Some (if result = E_OK then (0, data) else (SYS_ARCH_TIMEOUT, vnull), p\<lparr>kern := s\<rparr>)
   }"

section \<open>Semaphores\<close>

definition sys_sem_new ::
  "config \<Rightarrow> (kernel \<Rightarrow> kernel option) \<Rightarrow> U8 \<Rightarrow> lwip \<Rightarrow> (OS_EventID \<times> lwip) option" where
  "sys_sem_new c unl count p = do {
     (sem, s) \<leftarrow> CoCreateSem c unl (ucast count) OS_SEM_MAX_STATE EVENT_SORT_TYPE_PRIO (kern p);
     Some (sem, p\<lparr>kern := s\<rparr>)
   }"

definition sem_timeout :: "config \<Rightarrow> U32 \<Rightarrow> U32" where
  "sem_timeout c timeout =
     (let timeoutTick = ms_to_ticks c timeout in if timeoutTick > 0xFFFF then 0xFFFF else timeoutTick)"

definition sem_wait_end :: "config \<Rightarrow> U32 \<Rightarrow> U32 \<Rightarrow> StatusType \<Rightarrow> kernel \<Rightarrow> U32" where
  "sem_wait_end c timeoutTick startTick result s =
     (if timeoutTick \<noteq> 0 \<and> result \<noteq> E_OK then SYS_ARCH_TIMEOUT
      else elapsed_ms c startTick (ucast (CoGetOSTime s)))"

definition sys_arch_sem_wait ::
  "config \<Rightarrow> (kernel \<Rightarrow> kernel option) \<Rightarrow> OS_EventID \<Rightarrow> U32 \<Rightarrow> lwip \<Rightarrow> (U32 outcome \<times> lwip) option" where
  "sys_arch_sem_wait c unl sem timeout p = do {
     let timeoutTick = sem_timeout c timeout;
     let startTick = ucast (CoGetOSTime (kern p));
     (r, s) \<leftarrow> CoPendSem c unl sem timeoutTick (kern p);
     Some (case r of
             Ret result \<Rightarrow> (Ret (sem_wait_end c timeoutTick startTick result s), p\<lparr>kern := s\<rparr>)
           | Blocked \<Rightarrow> (Blocked, p\<lparr>kern := s\<rparr>))
   }"

definition sys_arch_sem_wait_resume ::
  "config \<Rightarrow> U32 \<Rightarrow> U32 \<Rightarrow> OS_TID \<Rightarrow> lwip \<Rightarrow> U32 \<times> lwip" where
  "sys_arch_sem_wait_resume c timeout startTick curTCB p =
     (let timeoutTick = sem_timeout c timeout;
          (result, s) = CoPendSem_resume timeoutTick curTCB (kern p)
      in (sem_wait_end c timeoutTick startTick result s, p\<lparr>kern := s\<rparr>))"

definition sys_sem_signal :: "config \<Rightarrow> (kernel \<Rightarrow> kernel option) \<Rightarrow> OS_EventID \<Rightarrow> lwip \<Rightarrow> lwip option" where
  "sys_sem_signal c unl sem p = do { (_, s) \<leftarrow> CoPostSem c unl sem (kern p); Some (p\<lparr>kern := s\<rparr>) }"

definition sys_sem_free :: "config \<Rightarrow> (kernel \<Rightarrow> kernel option) \<Rightarrow> OS_EventID \<Rightarrow> lwip \<Rightarrow> lwip option" where
  "sys_sem_free c unl sem p = do {
     (_, s) \<leftarrow> CoDelSem c unl sem OPT_DEL_ANYWAY (kern p);
     Some (p\<lparr>kern := s\<rparr>)
   }"

section \<open>Threads\<close>

definition sys_init :: "config \<Rightarrow> (kernel \<Rightarrow> kernel option) \<Rightarrow> U32 \<Rightarrow> lwip \<Rightarrow> lwip option" where
  "sys_init c unl pool_addr p = do {
     let p = p\<lparr>current_task := 0\<rparr>;
     let p = fold (\<lambda>i. upd_slot i E_CREATE_FAIL) [0..<LWIP_TASK_MAX] p;
     (pool, s) \<leftarrow> CoCreateMemPartition c unl pool_addr (LWIP_SIZE_QUEUE * 4) LWIP_MAX_QUEUE (kern p);
     Some (p\<lparr>kern := s, queue_pool := pool\<rparr>)
   }"

text \<open>The slot of the running task, \<open>None\<close> for the null pointer at the end.\<close>

definition sys_arch_timeouts :: "lwip \<Rightarrow> (nat option \<times> lwip) option" where
  "sys_arch_timeouts p = do {
     tsk \<leftarrow> CoGetCurTaskID (kern p);
     Some (case find (\<lambda>i. timeout_tid p i = tsk) [0..<LWIP_TASK_MAX] of
             Some i \<Rightarrow> (Some i, p)
           | None \<Rightarrow>
               if unat (current_task p) < LWIP_TASK_MAX then
                 let p = upd_slot (unat (current_task p)) tsk p;
                     p = p\<lparr>current_task := current_task p + 1\<rparr>
                 in (Some (unat (current_task p) - 1), p)
               else (None, p))
   }"

definition sys_thread_new ::
  "config \<Rightarrow> (kernel \<Rightarrow> kernel option) \<Rightarrow> U32 \<Rightarrow> U32 \<Rightarrow> U32 \<Rightarrow> U32 \<Rightarrow> lwip \<Rightarrow> (OS_TID \<times> lwip) option" where
  "sys_thread_new c unl thread arg stacksize pri p =
     (if unat (current_task p) < LWIP_TASK_MAX then do {
        (tsk, s) \<leftarrow> CreateTask c unl thread 0 (CoCreateTask_param pri stacksize) arg (kern p);
        let p = p\<lparr>kern := s\<rparr>;
        if tsk \<noteq> E_CREATE_FAIL then
          let p = upd_slot (unat (current_task p)) tsk p;
              p = p\<lparr>current_task := current_task p + 1\<rparr>
          in Some (tsk, p)
        else Some (E_CREATE_FAIL, p)
      } else Some (E_CREATE_FAIL, p))"

definition sys_arch_protect :: "lwip \<Rightarrow> U32 \<times> lwip" where
  "sys_arch_protect p = (0, p)"

definition sys_arch_unprotect :: "U32 \<Rightarrow> lwip \<Rightarrow> lwip" where
  "sys_arch_unprotect pval p = p"

text \<open>\<open>sys_assert\<close> never returns.\<close>

partial_function (option) sys_assert :: "lwip \<Rightarrow> lwip option" where
  "sys_assert p = sys_assert p"

section \<open>Lemmas\<close>

lemma find_free_id_bound: "find_free_id n v i = Some (Some q) \<Longrightarrow> q < n \<and> q < 32 \<and> \<not> bit v q"
proof (induction n v i rule: find_free_id.induct)
  case (1 n v i)
  show ?case
  proof (cases "i < n \<and> i < 32")
    case True
    then have b: "shl1 i = Some (push_bit i 1)" "v AND push_bit i 1 = 0 \<longleftrightarrow> \<not> bit v i"
      using and_exp_eq_0_iff_not_bit [of v i] by (simp_all add: push_bit_eq_mult)
    then show ?thesis using 1 True by (subst (asm) (2) find_free_id.simps) (auto split: if_splits)
  next
    case False
    then show ?thesis using 1(2) by (subst (asm) find_free_id.simps) (auto simp: shl1_def split: if_splits)
  qed
qed

lemma set_clear_bit: "\<not> bit v q \<Longrightarrow> (v OR push_bit q 1) AND NOT (push_bit q 1) = (v :: U32)"
  by (rule bit_eqI) (auto simp: bit_simps)

text \<open>The slots in use are the first ones, and no task has two of them.\<close>

definition slots_ok :: "lwip \<Rightarrow> bool" where
  "slots_ok p \<longleftrightarrow> unat (current_task p) \<le> LWIP_TASK_MAX \<and> inj_on (timeout_tid p) {0..<unat (current_task p)} \<and>
     (\<forall>i. unat (current_task p) \<le> i \<and> i < LWIP_TASK_MAX \<longrightarrow> timeout_tid p i = E_CREATE_FAIL)"

lemma sys_init_slots:
  assumes "sys_init c unl a p = Some p'"
  shows "slots_ok p'"
proof -
  obtain m s where "p' = fold (\<lambda>i. upd_slot i E_CREATE_FAIL) [0..<LWIP_TASK_MAX] (p\<lparr>current_task := 0\<rparr>)\<lparr>kern := s, queue_pool := m\<rparr>"
    using assms by (auto simp: sys_init_def Let_def split: bind_splits)
  moreover have "[0..<LWIP_TASK_MAX] = [0, 1, 2]" by (simp add: LWIP_TASK_MAX_def upt_rec)
  ultimately show ?thesis by (auto simp: slots_ok_def LWIP_TASK_MAX_def)
qed

section \<open>Properties\<close>

text \<open>
  C38. A mailbox that is created and freed again leaves no trace in the resources: the new mailbox
  is an empty queue for 10 messages in a block of the pool, and afterwards the block, the event
  control block and the queue number are free again, in the same order.
\<close>

theorem lwip_mbox_new_free:
  assumes "CFG_PAR_CHECKOUT_EN c" and "\<not> IsrReq (kern p)" and "\<not> TaskSchedReq (kern p)"
    and "queue_pool p \<noteq> E_CREATE_FAIL" and "\<not> bad_mm c (queue_pool p) (kern p)" and "part_rep (queue_pool p) (kern p) (b # bs)"
    and "fits (memAddr (MemoryTbl (kern p) (queue_pool p))) (blockSize (MemoryTbl (kern p) (queue_pool p))) (unat (blockNum (MemoryTbl (kern p) (queue_pool p))))"
    and "b \<in> blk (memAddr (MemoryTbl (kern p) (queue_pool p))) (blockSize (MemoryTbl (kern p) (queue_pool p))) ` {0..<unat (blockNum (MemoryTbl (kern p) (queue_pool p)))}"
    and "find_free_id (CFG_MAX_QUEUE c) (QueueIDVessel (kern p)) 0 = Some (Some q)" and "CFG_MAX_QUEUE c \<le> 32"
    and "FreeEventList (kern p) = Some e" and "eventPtr (EventTbl (kern p) e) = ecb_to_void f"
    and "ecb_id (EventTbl (kern p) e) = e" and "unat e < CFG_MAX_EVENT c" and "e \<noteq> 255"
  shows "\<exists>p1 p2. sys_mbox_new c (OsSchedUnlock c cb) p = Some (e, p1) \<and>
    mq_inv (of_nat q) (kern p1) \<and> mq_list (of_nat q) (kern p1) = [] \<and> mq_cap (of_nat q) (kern p1) = 10 \<and>
    part_rep (queue_pool p) (kern p1) bs \<and>
    sys_mbox_free c (OsSchedUnlock c cb) e p1 = Some p2 \<and> part_rep (queue_pool p) (kern p2) (b # bs) \<and>
    FreeEventList (kern p2) = Some e \<and> eventPtr (EventTbl (kern p2) e) = ecb_to_void f \<and>
    QueueIDVessel (kern p2) = QueueIDVessel (kern p)"
proof -
  define s where "s = kern p"
  let ?i = "queue_pool p" and ?unl = "OsSchedUnlock c cb" and ?q = "of_nat q :: U8" let ?m = "MemoryTbl s ?i"
  have q: "q < CFG_MAX_QUEUE c" "q < 32" "\<not> bit (QueueIDVessel s) q" using find_free_id_bound assms(9) unfolding s_def by blast+
  have uq: "unat ?q = q" using q(2) by (simp add: unat_of_nat)
  have r: "\<not> IsrReq s" "\<not> TaskSchedReq s" "\<not> bad_mm c ?i s" using assms(2,3,5) by (simp_all add: s_def)
  have mp: "mm_ptr c ?i = Some ?i" using bad_mm_ok [OF r(3) assms(1)] .
  have b: "freeBlock ?m = b" "\<not> bad_addr b" "flist (mem s) (mem s b) bs" "b \<notin> set bs" "distinct bs" "b \<noteq> 0"
    using assms(6) by (auto simp: part_rep_def s_def bad_addr_def)
  define s1 where "s1 = upd_mm ?i (freeBlock_update (\<lambda>_. mem s b)) s"
  have get: "CoGetMemoryBuffer c ?unl ?i s = Some (b, s1)"
    using r mp b by (simp add: CoGetMemoryBuffer_def OsSchedLock_def rd_def unlock_calm s1_def)
  define s2 where "s2 = upd_ecb e (\<lambda>x. x\<lparr>eventType := EVENT_TYPE_QUEUE, eventSortType := EVENT_SORT_TYPE_PRIO, eventPtr := VQcb ?q, eventTCBList := None\<rparr>)
    (upd_qcb ?q (\<lambda>_. \<lparr>qStart = b, qcb_id = ?q, qhead = 0, qtail = 0, qMaxSize = 10, qSize = 0\<rparr>)
      (s1\<lparr>QueueIDVessel := QueueIDVessel s OR push_bit q 1, FreeEventList := f\<rparr>))"
  have vf: "void_to_ecb (ecb_to_void f) = Some f" by (cases f) (simp_all add: void_to_ecb_def ecb_to_void_def)
  have ff: "find_free_id (CFG_MAX_QUEUE c) (QueueIDVessel s) 0 = Some (Some q)" using assms(9) by (simp add: s_def)
  have create: "CoCreateQueue c ?unl b 10 EVENT_SORT_TYPE_PRIO s1 = Some (e, s2)"
    using r b(6) q(2) assms(11-13) ff vf
    by (simp add: CoCreateQueue_def CreatEvent_def OsSchedLock_def unlock_calm s1_def s2_def s_def [symmetric])
  have new: "sys_mbox_new c ?unl p = Some (e, p\<lparr>kern := s2\<rparr>)"
    using get create assms(4,15) b(6) by (simp add: sys_mbox_new_def LWIP_SIZE_QUEUE_def E_CREATE_FAIL_def s_def [symmetric])
  define s3 where "s3 = upd_qcb ?q (\<lambda>_. \<lparr>qStart = 0, qcb_id = 0, qhead = 0, qtail = 0, qMaxSize = 0, qSize = 0\<rparr>)
    (upd_ecb e (\<lambda>x. x\<lparr>eventType := EVENT_TYPE_INVALID, eventPtr := ecb_to_void f\<rparr>) s2
      \<lparr>FreeEventList := Some e, QueueIDVessel := QueueIDVessel s\<rparr>)"
  have e2: "ecb_ptr c e = Some e" "the_qcb c (VQcb ?q) = Some ?q" "\<not> bad_event c EVENT_TYPE_QUEUE e s2"
    using assms(14) uq q(1) by (simp_all add: ecb_ptr_def the_qcb_def bad_event_def s2_def)
  have dl: "delete_event_loop c e (OsSchedLock s2) = Some (OsSchedLock s2)"
    by (subst delete_event_loop.simps) (simp add: s2_def OsSchedLock_def)
  have q2: "\<not> IsrReq s2" "\<not> TaskSchedReq s2" "eventPtr (EventTbl s2 e) = VQcb ?q" "FreeEventList s2 = f"
    "QueueTbl s2 ?q = \<lparr>qStart = b, qcb_id = ?q, qhead = 0, qtail = 0, qMaxSize = 10, qSize = 0\<rparr>"
    "QueueIDVessel s2 = QueueIDVessel s OR push_bit q 1"
    "mem s2 = mem s" "MemoryTbl s2 = (MemoryTbl s)(?i := ?m\<lparr>freeBlock := mem s b\<rparr>)" "MemoryIDVessel s2 = MemoryIDVessel s"
    using r by (simp_all add: s2_def s1_def)
  have del: "CoDelQueue c ?unl e OPT_DEL_ANYWAY s2 = Some (E_OK, s3)"
  proof -
    have "DeleteEvent c ?unl e OPT_DEL_ANYWAY s2 =
        Some (E_OK, upd_ecb e (\<lambda>x. x\<lparr>eventType := EVENT_TYPE_INVALID, eventPtr := ecb_to_void f\<rparr>) s2\<lparr>FreeEventList := Some e\<rparr>)"
      using dl q2 by (simp add: DeleteEvent_def ReleaseECB_def unlock_calm opt_defs Let_def) (simp add: OsSchedLock_def unlock_calm comp_def)
    then show ?thesis using e2 q2 uq q(2,3) set_clear_bit [OF q(3)]
      by (simp add: CoDelQueue_def Let_def s3_def)
  qed
  have q3: "\<not> IsrReq s3" "\<not> TaskSchedReq s3" "mem s3 = mem s" "MemoryTbl s3 = (MemoryTbl s)(?i := ?m\<lparr>freeBlock := mem s b\<rparr>)"
    "MemoryIDVessel s3 = MemoryIDVessel s"
    using q2 by (simp_all add: s3_def)
  define s4 where "s4 = upd_mm ?i (freeBlock_update (\<lambda>_. b)) (wr_mem b (mem s b) s3)"
  have free: "CoFreeMemoryBuffer c ?unl ?i b s3 = Some (E_OK, s4)"
  proof -
    obtain k where k: "k < unat (blockNum ?m)" "b = blk (memAddr ?m) (blockSize ?m) k" using assms(8) by (auto simp: s_def)
    have "\<not> b < memAddr ?m" "\<not> memAddr ?m + blockSize ?m * blockNum ?m < b" "(b - memAddr ?m) mod blockSize ?m = 0"
      using block_in_range [OF _ k(1)] assms(7) k(2) by (simp_all add: s_def)
    moreover have "\<not> bad_mm c ?i s3" using r(3) q3(5) by (simp add: bad_mm_def)
    ultimately show ?thesis using q3 mp b(2,6)
      by (simp add: CoFreeMemoryBuffer_def OsSchedLock_def wr_def Let_def unlock_calm s4_def)
  qed
  have fin: "sys_mbox_free c ?unl e (p\<lparr>kern := s2\<rparr>) = Some (p\<lparr>kern := s4\<rparr>)"
    using assms(15) e2 q2 del free by (simp add: sys_mbox_free_def SYS_MBOX_NULL_def Let_def)
  have "part_rep ?i s2 bs" "part_rep ?i s4 (b # bs)"
    using b q2 q3 by (simp_all add: part_rep_def s4_def)
  moreover have "mq_inv ?q s2" "mq_list ?q s2 = []" "mq_cap ?q s2 = 10"
    using q2(5) by (simp_all add: mq_inv_def mq_list_def ring_list_def)
  moreover have "FreeEventList s4 = Some e" "eventPtr (EventTbl s4 e) = ecb_to_void f" "QueueIDVessel s4 = QueueIDVessel (kern p)"
    by (simp_all add: s4_def s3_def s_def)
  ultimately show ?thesis using new fin by auto
qed

text \<open>
  A pool of two blocks of 40 bytes, one free event control block and free queue numbers.
\<close>

definition lwip_example :: lwip where
  "lwip_example = \<lparr>kern = kernel_start\<lparr>MemoryTbl := (\<lambda>_. \<lparr>memAddr = 0x20001000, freeBlock = 0x20001000, blockSize = 40, blockNum = 2\<rparr>),
     MemoryIDVessel := 1, mem := (\<lambda>_. 0)(0x20001000 := 0x20001028), FreeEventList := Some 0, EventTbl := (\<lambda>_. \<lparr>eventPtr = vnull, ecb_id = 0, eventType = EVENT_TYPE_INVALID,
     eventSortType = EVENT_SORT_TYPE_FIFO, eventCounter = 0, initialEventCounter = 0, eventTCBList = None\<rparr>)\<rparr>,
     queue_pool = 0, timeout_tid = (\<lambda>_. E_CREATE_FAIL), current_task = 0\<rparr>"

theorem lwip_mbox_new_free_witness:
  "\<exists>p1 p2. sys_mbox_new OsConfig (OsSchedUnlock OsConfig (\<lambda>_. Some)) lwip_example = Some (0, p1) \<and>
     mq_list 0 (kern p1) = [] \<and> part_rep 0 (kern p1) [0x20001028] \<and>
     sys_mbox_free OsConfig (OsSchedUnlock OsConfig (\<lambda>_. Some)) 0 p1 = Some p2 \<and> part_rep 0 (kern p2) [0x20001000, 0x20001028]"
proof -
  note ex = lwip_example_def kernel_start_def OsConfig_def
  have "\<not> IsrReq (kern lwip_example)" "\<not> TaskSchedReq (kern lwip_example)" "queue_pool lwip_example \<noteq> E_CREATE_FAIL"
    "CFG_PAR_CHECKOUT_EN OsConfig" "CFG_MAX_QUEUE OsConfig \<le> 32" "FreeEventList (kern lwip_example) = Some 0"
    "eventPtr (EventTbl (kern lwip_example) 0) = ecb_to_void None" "ecb_id (EventTbl (kern lwip_example) 0) = 0"
    "unat (0 :: U8) < CFG_MAX_EVENT OsConfig" "queue_pool lwip_example = 0"
    by (simp_all add: ex E_CREATE_FAIL_def ecb_to_void_def)
  moreover have "\<not> bad_mm OsConfig 0 (kern lwip_example)" by (simp add: bad_mm_def ex)
  moreover have "part_rep 0 (kern lwip_example) [0x20001000, 0x20001028]" by (simp add: part_rep_def ex bad_addr_unat)
  moreover have "fits 0x20001000 40 2" by (simp add: fits_def)
  moreover have "0x20001000 \<in> blk 0x20001000 40 ` {0..<2}" by (rule image_eqI [of _ _ 0]) simp_all
  moreover have "find_free_id (CFG_MAX_QUEUE OsConfig) (QueueIDVessel (kern lwip_example)) 0 = Some (Some 0)"
    by (subst find_free_id.simps) (simp add: ex)
  moreover have "MemoryTbl (kern lwip_example) 0 = \<lparr>memAddr = 0x20001000, freeBlock = 0x20001000, blockSize = 40, blockNum = 2\<rparr>"
    by (simp add: ex)
  ultimately show ?thesis
    using lwip_mbox_new_free [where c = OsConfig and p = lwip_example and b = "0x20001000" and bs = "[0x20001028]" and q = 0 and e = 0 and f = None and cb = "\<lambda>_. Some"] by auto
qed

text \<open>
  C40. Every lwIP thread has one slot of timeouts: asked again, the port gives a task the slot it
  has, a task without a slot gets the next free one and no other slot changes, and only when all
  slots are taken by other tasks the result is the null pointer.
\<close>

theorem lwip_timeout_slots:
  assumes "slots_ok p" and "CoGetCurTaskID (kern p) = Some t" and "t \<noteq> E_CREATE_FAIL"
  shows "\<exists>r p'. sys_arch_timeouts p = Some (r, p') \<and> slots_ok p' \<and> kern p' = kern p \<and>
    (\<forall>i < unat (current_task p). timeout_tid p' i = timeout_tid p i) \<and>
    (case r of
       Some i \<Rightarrow> i < LWIP_TASK_MAX \<and> timeout_tid p' i = t \<and> sys_arch_timeouts p' = Some (Some i, p')
     | None \<Rightarrow> p' = p \<and> unat (current_task p) = LWIP_TASK_MAX \<and> (\<forall>i < LWIP_TASK_MAX. timeout_tid p i \<noteq> t))"
proof (cases "find (\<lambda>i. timeout_tid p i = t) [0..<LWIP_TASK_MAX]")
  case (Some i)
  then have "i < LWIP_TASK_MAX" "timeout_tid p i = t" by (auto simp: find_Some_iff)
  with Some assms show ?thesis by (simp add: sys_arch_timeouts_def)
next
  case None
  then have no: "timeout_tid p i \<noteq> t" if "i < LWIP_TASK_MAX" for i using that by (auto simp: find_None_iff)
  let ?n = "unat (current_task p)"
  show ?thesis
  proof (cases "?n < LWIP_TASK_MAX")
    case False
    then have "?n = LWIP_TASK_MAX" using assms(1) by (simp add: slots_ok_def)
    with None no assms show ?thesis by (auto simp: sys_arch_timeouts_def)
  next
    case True
    let ?p = "upd_slot ?n t p\<lparr>current_task := current_task p + 1\<rparr>"
    have u: "unat (current_task p + 1) = Suc ?n" using True by (intro unat_Suc_U8) (simp add: LWIP_TASK_MAX_def)
    have "inj_on (timeout_tid ?p) {0..<Suc ?n}"
    proof -
      have fresh: "t \<notin> timeout_tid p ` {0..<?n}"
      proof
        assume "t \<in> timeout_tid p ` {0..<?n}"
        then obtain i where "i < ?n" "timeout_tid p i = t" by auto
        with no [of i] True show False by simp
      qed
      then have "inj_on ((timeout_tid p)(?n := t)) {0..<?n}"
        using assms(1) by (intro inj_on_fun_updI) (auto simp: slots_ok_def dest: sym)
      moreover have "t \<notin> ((timeout_tid p)(?n := t)) ` {0..<?n}" using fresh by auto
      ultimately show ?thesis by (simp add: atLeast0_lessThan_Suc)
    qed
    then have "slots_ok ?p" using assms(1) True u by (auto simp: slots_ok_def)
    moreover have "find (\<lambda>i. timeout_tid ?p i = t) [0..<LWIP_TASK_MAX] = Some ?n"
      unfolding find_Some_iff using no True by (intro exI [of _ ?n]) auto
    ultimately show ?thesis using None True assms(2) u by (simp add: sys_arch_timeouts_def Let_def)
  qed
qed

theorem lwip_timeout_slots_witness:
  "\<exists>p'. sys_arch_timeouts (lwip_example\<lparr>kern := sched_example\<rparr>) = Some (Some 0, p') \<and>
     sys_arch_timeouts p' = Some (Some 0, p')"
proof -
  let ?p = "lwip_example\<lparr>kern := sched_example\<rparr>"
  have "slots_ok ?p" by (simp add: slots_ok_def lwip_example_def)
  moreover have "CoGetCurTaskID (kern ?p) = Some 4" by (simp add: CoGetCurTaskID_def sched_example_def)
  moreover have "(4 :: U8) \<noteq> E_CREATE_FAIL" by (simp add: E_CREATE_FAIL_def)
  ultimately obtain r p' where "sys_arch_timeouts ?p = Some (r, p')" "(case r of
       Some i \<Rightarrow> i < LWIP_TASK_MAX \<and> timeout_tid p' i = 4 \<and> sys_arch_timeouts p' = Some (Some i, p')
     | None \<Rightarrow> p' = ?p \<and> unat (current_task ?p) = LWIP_TASK_MAX \<and> (\<forall>i < LWIP_TASK_MAX. timeout_tid ?p i \<noteq> 4))"
    using lwip_timeout_slots [of ?p 4] by blast
  moreover have "find (\<lambda>i. timeout_tid ?p i = 4) [0..<LWIP_TASK_MAX] = None"
    by (simp add: find_None_iff lwip_example_def E_CREATE_FAIL_def)
  then have "\<exists>p'. sys_arch_timeouts ?p = Some (Some 0, p')"
    using \<open>CoGetCurTaskID (kern ?p) = Some 4\<close> by (simp add: sys_arch_timeouts_def lwip_example_def LWIP_TASK_MAX_def)
  ultimately show ?thesis by (auto split: option.splits)
qed

text \<open>
  The time-out of a semaphore wait in ticks: it is between 1 and 65535 for every time-out but
  0, which means to wait for ever and stays 0; when the multiplication does not wrap around, the
  wait is the requested time rounded down, one tick at least and 65535 ticks at most.
\<close>

theorem lwip_sem_timeout_bounds:
  assumes "config_ok c"
  shows "sem_timeout c ms \<le> 0xFFFF \<and> (sem_timeout c ms = 0 \<longleftrightarrow> ms = 0) \<and>
    (ms \<noteq> 0 \<longrightarrow> unat ms * CFG_SYSTICK_FREQ c < 2 ^ 32 \<longrightarrow>
      unat (sem_timeout c ms) = min 0xFFFF (max 1 (unat ms * CFG_SYSTICK_FREQ c div 1000)))"
proof -
  let ?t = "ms * of_nat (CFG_SYSTICK_FREQ c) div 1000 :: U32"
  have "unat ?t = unat ms * CFG_SYSTICK_FREQ c div 1000" if "unat ms * CFG_SYSTICK_FREQ c < 2 ^ 32"
  proof -
    have "CFG_SYSTICK_FREQ c < 2 ^ 32" using assms by (simp add: config_ok_def)
    then have "unat (ms * of_nat (CFG_SYSTICK_FREQ c)) = unat ms * CFG_SYSTICK_FREQ c"
      using that by (simp add: unat_word_ariths unat_of_nat)
    then show ?thesis by (simp add: unat_div_distrib)
  qed
  moreover have "ms_to_ticks c 0 = 0" by (simp add: ms_to_ticks_def)
  moreover have "?t = 0 \<longleftrightarrow> unat ?t = 0" by (simp add: unat_eq_0)
  ultimately show ?thesis
    by (auto simp: sem_timeout_def ms_to_ticks_def Let_def word_less_nat_alt word_le_nat_alt max_def)
qed

theorem lwip_sem_timeout_bounds_witness:
  "config_ok OsConfig \<and> unat (sem_timeout OsConfig 250) = CFG_SYSTICK_FREQ OsConfig div 4"
  using lwip_sem_timeout_bounds [of OsConfig 250] config_ok_OsConfig by (simp add: OsConfig_def)

end
