(* ===== verification/PartitionPool.thy ===== *)
theory PartitionPool
  imports Core Partition
begin

unbundle bit_operations_syntax

text \<open>
  The memory partitions under the kernel's own release of the schedule lock: taking blocks from a
  partition and giving them back. The release has nothing to do when the caller holds the lock
  itself, or when neither an interrupt request nor a reschedule is pending.
\<close>

definition unlock_idle :: "kernel \<Rightarrow> bool" where
  "unlock_idle s \<longleftrightarrow> OSSchedLock s \<noteq> 0 \<or> \<not> IsrReq s \<and> \<not> TaskSchedReq s"

lemma unlock_idle:
  assumes "unlock_idle s" and "OSSchedLock s' = OSSchedLock s + 1" and "IsrReq s' = IsrReq s" and "TaskSchedReq s' = TaskSchedReq s"
  shows "OsSchedUnlock c cb s' = Some (s'\<lparr>OSSchedLock := OSSchedLock s\<rparr>)"
  using assms unlock_calm [of s' c cb] unlock_nested [of s' c cb] by (auto simp: unlock_idle_def)

lemma lock_fields [simp]:
  "MemoryTbl (OsSchedLock s) = MemoryTbl s" "mem (OsSchedLock s) = mem s"
  by (simp_all add: OsSchedLock_def)

text \<open>Locking, changing the partitions and unlocking changes the partitions only.\<close>

lemma unlock_idle_simps [simp]:
  assumes "unlock_idle s"
  shows "OsSchedUnlock c cb (OsSchedLock s) = Some s"
    and "OsSchedUnlock c cb (upd_mm i f (OsSchedLock s)) = Some (upd_mm i f s)"
    and "OsSchedUnlock c cb (upd_mm i f (wr_mem a v (OsSchedLock s))) = Some (upd_mm i f (wr_mem a v s))"
  using unlock_idle [OF assms, of "OsSchedLock s"] unlock_idle [OF assms, of "upd_mm i f (OsSchedLock s)"]
    unlock_idle [OF assms, of "upd_mm i f (wr_mem a v (OsSchedLock s))"]
  by (simp_all add: OsSchedLock_def)

lemma get_block:
  assumes "CFG_PAR_CHECKOUT_EN c" and "\<not> bad_mm c i s" and "part_rep i s (b # bs)" and "unlock_idle s"
  shows "CoGetMemoryBuffer c (OsSchedUnlock c cb) i s = Some (b, upd_mm i (freeBlock_update (\<lambda>_. mem s b)) s)"
    and "part_rep i (upd_mm i (freeBlock_update (\<lambda>_. mem s b)) s) bs"
proof -
  have b: "freeBlock (MemoryTbl s i) = b" "\<not> bad_addr b" "b \<noteq> 0"
    using assms(3) by (auto simp: part_rep_def bad_addr_def)
  then show "CoGetMemoryBuffer c (OsSchedUnlock c cb) i s = Some (b, upd_mm i (freeBlock_update (\<lambda>_. mem s b)) s)"
    using assms(1,2,4) bad_mm_ok [OF assms(2,1)] by (simp add: CoGetMemoryBuffer_def rd_def Let_def)
  show "part_rep i (upd_mm i (freeBlock_update (\<lambda>_. mem s b)) s) bs"
    using assms(3) by (simp add: part_rep_def)
qed

lemma free_block:
  assumes "CFG_PAR_CHECKOUT_EN c" and "\<not> bad_mm c i s" and "part_rep i s bs" and "unlock_idle s"
    and "fits (memAddr (MemoryTbl s i)) (blockSize (MemoryTbl s i)) (unat (blockNum (MemoryTbl s i)))"
    and "b \<in> blk (memAddr (MemoryTbl s i)) (blockSize (MemoryTbl s i)) ` {0..<unat (blockNum (MemoryTbl s i))}"
    and "b \<notin> set bs"
  shows "CoFreeMemoryBuffer c (OsSchedUnlock c cb) i b s =
      Some (E_OK, upd_mm i (freeBlock_update (\<lambda>_. b)) (wr_mem b (freeBlock (MemoryTbl s i)) s))"
    and "part_rep i (upd_mm i (freeBlock_update (\<lambda>_. b)) (wr_mem b (freeBlock (MemoryTbl s i)) s)) (b # bs)"
proof -
  obtain k where k: "k < unat (blockNum (MemoryTbl s i))"
    "b = blk (memAddr (MemoryTbl s i)) (blockSize (MemoryTbl s i)) k" using assms(6) by auto
  note in_range = block_in_range [OF assms(5) k(1), folded k(2)]
  have b: "\<not> bad_addr b" using blk_ok [OF assms(5) k(1)] k(2) by simp
  then have "b \<noteq> 0" by (simp add: bad_addr_def)
  then show "CoFreeMemoryBuffer c (OsSchedUnlock c cb) i b s =
      Some (E_OK, upd_mm i (freeBlock_update (\<lambda>_. b)) (wr_mem b (freeBlock (MemoryTbl s i)) s))"
    using assms(1,2,4) bad_mm_ok [OF assms(2,1)] in_range b by (simp add: CoFreeMemoryBuffer_def wr_def Let_def)
  show "part_rep i (upd_mm i (freeBlock_update (\<lambda>_. b)) (wr_mem b (freeBlock (MemoryTbl s i)) s)) (b # bs)"
    using assms(3,7) b by (simp add: part_rep_def)
qed


definition partition_example :: kernel where
  "partition_example = kernel_start\<lparr>MemoryIDVessel := 1, mem := (\<lambda>_. 0)(0x20001000 := 0x20001020),
     MemoryTbl := (\<lambda>_. \<lparr>memAddr = 0x20001000, freeBlock = 0x20001000, blockSize = 32, blockNum = 3\<rparr>)\<rparr>"


end
