(* ===== verification/LwipKinetis.thy ===== *)
theory LwipKinetis
  imports LwipPort PartitionPool
begin

unbundle bit_operations_syntax

text \<open>
  The operating system layer that lwIP 1.4.1 needs, for the Kinetis boards
  (\<open>Example/Freescale/Kinetis/lwip_port/arch/sys_arch.c\<close>). The calls get pointers to the handles of
  mailboxes and semaphores and return error codes, the stacks of the threads come from the kernel
  heap, and the critical regions mask the interrupts. The conversions of time and the limits are the
  same as in the port of lwIP 1.3.1.
\<close>

section \<open>State\<close>

text \<open>
  The variables of the file beside the kernel's, and the interrupt mask of the processor. What a call
  stores through a pointer is part of its result; a handle that is not written keeps its old value,
  which is then an argument.
\<close>

record klwip =
  kkern :: kernel
  kqueue_pool :: OS_MMID
  kcurrent_task :: U8
  PRIMASK :: U32

section \<open>Mailboxes\<close>

definition k_mbox_new ::
  "config \<Rightarrow> (kernel \<Rightarrow> kernel option) \<Rightarrow> OS_EventID \<Rightarrow> klwip \<Rightarrow> ((err_t \<times> OS_EventID) \<times> klwip) option" where
  "k_mbox_new c unl mbox p =
     (if kqueue_pool p \<noteq> E_CREATE_FAIL then do {
        (qstart, s) \<leftarrow> CoGetMemoryBuffer c unl (kqueue_pool p) (kkern p);
        if qstart \<noteq> 0 then do {
          (mbox, s) \<leftarrow> CoCreateQueue c unl qstart (ucast LWIP_SIZE_QUEUE) EVENT_SORT_TYPE_PRIO s;
          s \<leftarrow> (if mbox = E_CREATE_FAIL
                then map_option snd (CoFreeMemoryBuffer c unl (kqueue_pool p) qstart s)
                else Some s);
          Some ((ERR_OK, mbox), p\<lparr>kkern := s\<rparr>)
        } else Some ((ERR_MEM, mbox), p\<lparr>kkern := s\<rparr>)
      } else Some ((ERR_MEM, mbox), p))"

definition k_mbox_free :: "config \<Rightarrow> (kernel \<Rightarrow> kernel option) \<Rightarrow> OS_EventID \<Rightarrow> klwip \<Rightarrow> klwip option" where
  "k_mbox_free c unl mbox p =
     (if mbox \<noteq> SYS_MBOX_NULL then do {
        pecb \<leftarrow> ecb_ptr c mbox;
        pqcb \<leftarrow> the_qcb c (eventPtr (EventTbl (kkern p) pecb));
        let mbuf = qStart (QueueTbl (kkern p) pqcb);
        (_, s) \<leftarrow> CoDelQueue c unl mbox OPT_DEL_ANYWAY (kkern p);
        (_, s) \<leftarrow> CoFreeMemoryBuffer c unl (kqueue_pool p) mbuf s;
        Some (p\<lparr>kkern := s\<rparr>)
      } else Some p)"

definition k_mbox_post :: "config \<Rightarrow> (kernel \<Rightarrow> kernel option) \<Rightarrow> OS_EventID \<Rightarrow> U32 \<Rightarrow> klwip \<Rightarrow> klwip option" where
  "k_mbox_post c unl mbox msg p = do {
     (_, s) \<leftarrow> CoPostQueueMail c unl mbox msg (kkern p);
     Some (p\<lparr>kkern := s\<rparr>)
   }"

definition k_mbox_trypost ::
  "config \<Rightarrow> (kernel \<Rightarrow> kernel option) \<Rightarrow> OS_EventID \<Rightarrow> U32 \<Rightarrow> klwip \<Rightarrow> (err_t \<times> klwip) option" where
  "k_mbox_trypost c unl mbox msg p = do {
     (r, s) \<leftarrow> CoPostQueueMail c unl mbox msg (kkern p);
     Some (if r \<noteq> E_OK then ERR_MEM else ERR_OK, p\<lparr>kkern := s\<rparr>)
   }"

text \<open>\<open>sys_arch_mbox_fetch\<close> up to the point where the pend blocks, and the code behind it.\<close>

definition k_mbox_fetch ::
  "config \<Rightarrow> (kernel \<Rightarrow> kernel option) \<Rightarrow> OS_EventID \<Rightarrow> U32 \<Rightarrow> klwip \<Rightarrow> ((U32 \<times> voidp) outcome \<times> klwip) option" where
  "k_mbox_fetch c unl mbox timeout p = do {
     let timeoutTick = ms_to_ticks c timeout;
     let startTick = ucast (CoGetOSTime (kkern p));
     (r, s) \<leftarrow> CoPendQueueMail c unl mbox timeoutTick (kkern p);
     Some (case r of
             Ret (data, err) \<Rightarrow> (Ret (mbox_fetch_end c timeoutTick startTick data err s), p\<lparr>kkern := s\<rparr>)
           | Blocked \<Rightarrow> (Blocked, p\<lparr>kkern := s\<rparr>))
   }"

definition k_mbox_fetch_resume :: "config \<Rightarrow> U32 \<Rightarrow> U32 \<Rightarrow> OS_TID \<Rightarrow> klwip \<Rightarrow> (U32 \<times> voidp) \<times> klwip" where
  "k_mbox_fetch_resume c timeout startTick curTCB p =
     (let timeoutTick = ms_to_ticks c timeout;
          ((data, err), s) = CoPendQueueMail_resume timeoutTick curTCB (kkern p)
      in (mbox_fetch_end c timeoutTick startTick data err s, p\<lparr>kkern := s\<rparr>))"

definition k_mbox_tryfetch ::
  "config \<Rightarrow> (kernel \<Rightarrow> kernel option) \<Rightarrow> OS_EventID \<Rightarrow> klwip \<Rightarrow> ((U32 \<times> voidp) \<times> klwip) option" where
  "k_mbox_tryfetch c unl mbox p = do {
     ((data, err), s) \<leftarrow> CoAcceptQueueMail c unl mbox (kkern p);
     Some (if err = E_OK then (0, data) else (SYS_ARCH_TIMEOUT, vnull), p\<lparr>kkern := s\<rparr>)
   }"

definition k_mbox_valid :: "config \<Rightarrow> OS_EventID \<Rightarrow> klwip \<Rightarrow> bool option" where
  "k_mbox_valid c mbox p = do {
     pecb \<leftarrow> ecb_ptr c mbox;
     Some (eventType (EventTbl (kkern p) pecb) = EVENT_TYPE_QUEUE)
   }"

definition k_mbox_set_invalid :: "OS_EventID \<Rightarrow> klwip \<Rightarrow> klwip" where
  "k_mbox_set_invalid mbox p = p"

section \<open>Semaphores\<close>

definition k_sem_new ::
  "config \<Rightarrow> (kernel \<Rightarrow> kernel option) \<Rightarrow> U8 \<Rightarrow> klwip \<Rightarrow> ((err_t \<times> OS_EventID) \<times> klwip) option" where
  "k_sem_new c unl count p = do {
     (sem, s) \<leftarrow> CoCreateSem c unl (ucast count) OS_SEM_MAX_STATE EVENT_SORT_TYPE_PRIO (kkern p);
     Some ((if sem \<noteq> E_CREATE_FAIL then ERR_OK else ERR_MEM, sem), p\<lparr>kkern := s\<rparr>)
   }"

definition k_sem_wait ::
  "config \<Rightarrow> (kernel \<Rightarrow> kernel option) \<Rightarrow> OS_EventID \<Rightarrow> U32 \<Rightarrow> klwip \<Rightarrow> (U32 outcome \<times> klwip) option" where
  "k_sem_wait c unl sem timeout p = do {
     let timeoutTick = sem_timeout c timeout;
     let startTick = ucast (CoGetOSTime (kkern p));
     (r, s) \<leftarrow> CoPendSem c unl sem timeoutTick (kkern p);
     Some (case r of
             Ret result \<Rightarrow> (Ret (sem_wait_end c timeoutTick startTick result s), p\<lparr>kkern := s\<rparr>)
           | Blocked \<Rightarrow> (Blocked, p\<lparr>kkern := s\<rparr>))
   }"

definition k_sem_wait_resume :: "config \<Rightarrow> U32 \<Rightarrow> U32 \<Rightarrow> OS_TID \<Rightarrow> klwip \<Rightarrow> U32 \<times> klwip" where
  "k_sem_wait_resume c timeout startTick curTCB p =
     (let timeoutTick = sem_timeout c timeout;
          (result, s) = CoPendSem_resume timeoutTick curTCB (kkern p)
      in (sem_wait_end c timeoutTick startTick result s, p\<lparr>kkern := s\<rparr>))"

definition k_sem_signal :: "config \<Rightarrow> (kernel \<Rightarrow> kernel option) \<Rightarrow> OS_EventID \<Rightarrow> klwip \<Rightarrow> klwip option" where
  "k_sem_signal c unl sem p = do { (_, s) \<leftarrow> CoPostSem c unl sem (kkern p); Some (p\<lparr>kkern := s\<rparr>) }"

definition k_sem_free :: "config \<Rightarrow> (kernel \<Rightarrow> kernel option) \<Rightarrow> OS_EventID \<Rightarrow> klwip \<Rightarrow> klwip option" where
  "k_sem_free c unl sem p = do {
     (_, s) \<leftarrow> CoDelSem c unl sem OPT_DEL_ANYWAY (kkern p);
     Some (p\<lparr>kkern := s\<rparr>)
   }"

definition k_sem_valid :: "config \<Rightarrow> OS_EventID \<Rightarrow> klwip \<Rightarrow> bool option" where
  "k_sem_valid c sem p = do {
     pecb \<leftarrow> ecb_ptr c sem;
     Some (eventType (EventTbl (kkern p) pecb) = EVENT_TYPE_SEM)
   }"

definition k_sem_set_invalid :: "OS_EventID \<Rightarrow> klwip \<Rightarrow> klwip" where
  "k_sem_set_invalid sem p = p"

section \<open>Threads and critical regions\<close>

definition k_sys_init :: "config \<Rightarrow> (kernel \<Rightarrow> kernel option) \<Rightarrow> U32 \<Rightarrow> klwip \<Rightarrow> klwip option" where
  "k_sys_init c unl pool_addr p = do {
     let p = p\<lparr>kcurrent_task := 0\<rparr>;
     (pool, s) \<leftarrow> CoCreateMemPartition c unl pool_addr (LWIP_SIZE_QUEUE * 4) LWIP_MAX_QUEUE (kkern p);
     Some (p\<lparr>kkern := s, kqueue_pool := pool\<rparr>)
   }"

definition k_thread_new ::
  "config \<Rightarrow> (kernel \<Rightarrow> kernel option) \<Rightarrow> U32 \<Rightarrow> U32 \<Rightarrow> U32 \<Rightarrow> U32 \<Rightarrow> klwip \<Rightarrow> (OS_TID \<times> klwip) option" where
  "k_thread_new c unl thread arg stacksize pri p =
     (if unat (kcurrent_task p) < LWIP_TASK_MAX then do {
        (stack, s) \<leftarrow> CoKmalloc c unl stacksize (kkern p);
        let p = p\<lparr>kkern := s\<rparr>;
        if stack \<noteq> 0 then do {
          (tsk, s) \<leftarrow> CreateTask c unl thread arg (CoCreateTask_param pri (stacksize div 4))
                       (stack + 4 * (stacksize div 4 - 1)) (kkern p);
          let p = p\<lparr>kkern := s\<rparr>;
          if tsk \<noteq> E_CREATE_FAIL then Some (tsk, p\<lparr>kcurrent_task := kcurrent_task p + 1\<rparr>)
          else Some (E_CREATE_FAIL, p)
        } else Some (E_CREATE_FAIL, p)
      } else Some (E_CREATE_FAIL, p))"

definition k_protect :: "klwip \<Rightarrow> U32 \<times> klwip" where
  "k_protect p = (let res = PRIMASK p in (res, p\<lparr>PRIMASK := 1\<rparr>))"

definition k_unprotect :: "U32 \<Rightarrow> klwip \<Rightarrow> klwip" where
  "k_unprotect pval p = p\<lparr>PRIMASK := pval AND 1\<rparr>"

section \<open>Properties\<close>

text \<open>A critical region inside others: the outermost one decides when the interrupts come back.\<close>

fun k_regions :: "nat \<Rightarrow> klwip \<Rightarrow> U32 list \<times> klwip" where
  "k_regions 0 p = ([], p)"
| "k_regions (Suc n) p = (let (v, p) = k_protect p; (vs, p) = k_regions n p in (v # vs, p))"

lemma k_regions_mask:
  "k_regions n p = (case n of 0 \<Rightarrow> ([], p) | Suc k \<Rightarrow> (PRIMASK p # replicate k 1, p\<lparr>PRIMASK := 1\<rparr>))"
  by (induction n arbitrary: p) (simp_all add: k_protect_def Let_def split: nat.split)

lemma k_regions_restore:
  assumes "k_regions n p = (vs, q)" and "PRIMASK p \<in> {0, 1}"
  shows "fold k_unprotect (rev vs) q = p"
proof (cases n)
  case 0
  then show ?thesis using assms(1) by simp
next
  case (Suc k)
  have "fold k_unprotect (replicate k 1) r = (if k = 0 then r else r\<lparr>PRIMASK := 1\<rparr>)" for r
    by (induction k arbitrary: r) (auto simp: k_unprotect_def)
  then show ?thesis using k_regions_mask [of n p] assms Suc by (auto simp: k_unprotect_def)
qed

lemma find_free_id_find:
  assumes "n \<le> 32"
  shows "find_free_id n v i = Some (find (\<lambda>k. \<not> bit v k) [i..<n])"
  using assms
proof (induction n v i rule: find_free_id.induct)
  case (1 n v i)
  show ?case
  proof (cases "i < n")
    case True
    then have "shl1 i = Some (push_bit i 1)" "v AND push_bit i 1 = 0 \<longleftrightarrow> \<not> bit v i"
      using and_exp_eq_0_iff_not_bit [of v i] "1.prems" by (simp_all add: push_bit_eq_mult shl1_def)
    then show ?thesis using 1 True by (subst find_free_id.simps) (simp add: upt_conv_Cons)
  qed (subst find_free_id.simps, simp)
qed

text \<open>The storage of a new queue is not free memory: whatever fails, the partitions are as before.\<close>

lemma create_queue_fails:
  assumes "unlock_idle s" and "CFG_MAX_QUEUE c \<le> 32" and "a \<noteq> 0" and "z \<noteq> 0"
    and "r = find (\<lambda>k. \<not> bit (QueueIDVessel s) k) [0..<CFG_MAX_QUEUE c]" and "r = None \<or> FreeEventList s = None"
  shows "\<exists>s'. CoCreateQueue c (OsSchedUnlock c cb) a z st s = Some (E_CREATE_FAIL, s') \<and> unlock_idle s' \<and>
    mem s' = mem s \<and> MemoryTbl s' = MemoryTbl s \<and> MemoryIDVessel s' = MemoryIDVessel s \<and>
    QueueIDVessel s' = (case r of None \<Rightarrow> QueueIDVessel s | Some q \<Rightarrow> QueueIDVessel s OR push_bit q 1)"
proof (cases r)
  case None
  have "find_free_id (CFG_MAX_QUEUE c) (QueueIDVessel s) 0 = Some None"
    using find_free_id_find [OF assms(2)] assms(5) None by simp
  moreover have "QueueIDVessel (OsSchedLock s) = QueueIDVessel s" by (simp add: OsSchedLock_def)
  ultimately show ?thesis using None assms(1,3,4) by (intro exI [of _ s]) (simp add: CoCreateQueue_def Let_def)
next
  case (Some q)
  define s1 where "s1 = s\<lparr>QueueIDVessel := QueueIDVessel s OR push_bit q 1\<rparr>"
  define s2 where "s2 = upd_qcb (of_nat q) (\<lambda>_. \<lparr>qStart = a, qcb_id = of_nat q, qhead = 0, qtail = 0, qMaxSize = z, qSize = 0\<rparr>) s1"
  have ff: "find_free_id (CFG_MAX_QUEUE c) (QueueIDVessel s) 0 = Some (Some q)"
    using find_free_id_find [OF assms(2)] assms(5) Some by simp
  with find_free_id_bound have q: "shl1 q = Some (push_bit q 1)" by (auto simp: shl1_def)
  have fe: "FreeEventList s = None" using assms(6) Some by simp
  have "unlock_idle s1" "unlock_idle s2" using assms(1) by (simp_all add: unlock_idle_def s1_def s2_def)
  note u = unlock_idle_simps(1) [OF this(1)] unlock_idle_simps(1) [OF this(2)] this
  have "(OsSchedLock s)\<lparr>QueueIDVessel := QueueIDVessel s OR push_bit q 1\<rparr> = OsSchedLock s1"
    by (simp add: OsSchedLock_def s1_def)
  moreover have "FreeEventList (OsSchedLock s2) = None" using fe by (simp add: OsSchedLock_def s2_def s1_def)
  moreover have "QueueIDVessel (OsSchedLock s) = QueueIDVessel s" by (simp add: OsSchedLock_def)
  ultimately have "CoCreateQueue c (OsSchedUnlock c cb) a z st s = Some (E_CREATE_FAIL, s2)"
    using ff q assms(3,4) u by (simp add: CoCreateQueue_def CreatEvent_def Let_def flip: s2_def)
  then show ?thesis using u(4) Some by (intro exI [of _ s2]) (simp add: s2_def s1_def)
qed

text \<open>
  C39. When every queue number is in use, or no event control block is left, \<open>sys_mbox_new\<close> of the
  Kinetis port gives the storage back but reports success: it returns \<open>ERR_OK\<close> with a handle that is
  no event, so that the check with \<open>sys_mbox_valid\<close> reads behind the table of events. When only the
  event control blocks are used up, the first free queue number stays in use. (A block of the
  partition must be free, and the schedule lock be held by the caller or nothing be pending.)
\<close>

theorem kinetis_mbox_new_false_success:
  assumes "CFG_PAR_CHECKOUT_EN c" and "CFG_MAX_EVENT c \<le> 255" and "CFG_MAX_QUEUE c \<le> 32" and "unlock_idle (kkern p)"
    and "kqueue_pool p \<noteq> E_CREATE_FAIL" and "\<not> bad_mm c (kqueue_pool p) (kkern p)" and "part_rep (kqueue_pool p) (kkern p) (b # bs)"
    and "fits (memAddr (MemoryTbl (kkern p) (kqueue_pool p))) (blockSize (MemoryTbl (kkern p) (kqueue_pool p))) (unat (blockNum (MemoryTbl (kkern p) (kqueue_pool p))))"
    and "b \<in> blk (memAddr (MemoryTbl (kkern p) (kqueue_pool p))) (blockSize (MemoryTbl (kkern p) (kqueue_pool p))) ` {0..<unat (blockNum (MemoryTbl (kkern p) (kqueue_pool p)))}"
    and "(\<forall>k < CFG_MAX_QUEUE c. bit (QueueIDVessel (kkern p)) k) \<or> FreeEventList (kkern p) = None"
  shows "\<exists>p'. k_mbox_new c (OsSchedUnlock c cb) mbox p = Some ((ERR_OK, E_CREATE_FAIL), p') \<and>
    part_rep (kqueue_pool p) (kkern p') (b # bs) \<and> k_mbox_valid c E_CREATE_FAIL p' = None \<and>
    QueueIDVessel (kkern p') = (case find (\<lambda>k. \<not> bit (QueueIDVessel (kkern p)) k) [0..<CFG_MAX_QUEUE c] of
        None \<Rightarrow> QueueIDVessel (kkern p) | Some q \<Rightarrow> QueueIDVessel (kkern p) OR push_bit q 1)"
proof -
  let ?i = "kqueue_pool p" and ?unl = "OsSchedUnlock c cb" and ?s = "kkern p"
  define s1 where "s1 = upd_mm ?i (freeBlock_update (\<lambda>_. mem ?s b)) ?s"
  have get: "CoGetMemoryBuffer c ?unl ?i ?s = Some (b, s1)" and r1: "part_rep ?i s1 bs"
    using get_block [OF assms(1,6,7,4)] by (simp_all add: s1_def)
  have b: "b \<noteq> 0" "b \<notin> set bs" using assms(7) by (auto simp: part_rep_def bad_addr_def)
  define r where "r = find (\<lambda>k. \<not> bit (QueueIDVessel s1) k) [0..<CFG_MAX_QUEUE c]"
  have "r = None \<or> FreeEventList s1 = None" using assms(10) by (auto simp: r_def s1_def find_None_iff)
  moreover have "unlock_idle s1" using assms(4) by (simp add: unlock_idle_def s1_def)
  ultimately obtain s2 where create: "CoCreateQueue c ?unl b 10 EVENT_SORT_TYPE_PRIO s1 = Some (E_CREATE_FAIL, s2)" "unlock_idle s2"
    "mem s2 = mem s1" "MemoryTbl s2 = MemoryTbl s1" "MemoryIDVessel s2 = MemoryIDVessel s1"
    "QueueIDVessel s2 = (case r of None \<Rightarrow> QueueIDVessel s1 | Some q \<Rightarrow> QueueIDVessel s1 OR push_bit q 1)"
    using create_queue_fails [OF _ assms(3) b(1), of s1 10] r_def by fastforce
  have "\<not> bad_mm c ?i s2" "part_rep ?i s2 bs" using assms(6) r1 create(3-5) by (simp_all add: bad_mm_def part_rep_def s1_def)
  note free = free_block [OF assms(1) this create(2) _ _ b(2)]
  obtain s3 where s3: "CoFreeMemoryBuffer c ?unl ?i b s2 = Some (E_OK, s3)" "part_rep ?i s3 (b # bs)" "QueueIDVessel s3 = QueueIDVessel s2"
    using free assms(8,9) create(4) by (simp add: s1_def)
  have "k_mbox_new c ?unl mbox p = Some ((ERR_OK, E_CREATE_FAIL), p\<lparr>kkern := s3\<rparr>)"
    using get create(1) s3(1) assms(5) b(1) by (simp add: k_mbox_new_def LWIP_SIZE_QUEUE_def)
  moreover have "ecb_ptr c E_CREATE_FAIL = None" using assms(2) by (simp add: ecb_ptr_def E_CREATE_FAIL_def)
  moreover have v: "QueueIDVessel s1 = QueueIDVessel (kkern p)" by (simp add: s1_def)
  ultimately show ?thesis using s3(2,3) create(6) unfolding r_def v by (auto simp: k_mbox_valid_def)
qed

text \<open>Both queue numbers are in use.\<close>

theorem kinetis_mbox_new_false_success_witness:
  "\<exists>p'. k_mbox_new OsConfig (OsSchedUnlock OsConfig (\<lambda>_. Some)) 7
       \<lparr>kkern = kern lwip_example\<lparr>QueueIDVessel := 3\<rparr>, kqueue_pool = 0, kcurrent_task = 0, PRIMASK = 0\<rparr> =
       Some ((ERR_OK, E_CREATE_FAIL), p') \<and> part_rep 0 (kkern p') [0x20001000, 0x20001028] \<and> QueueIDVessel (kkern p') = 3"
proof -
  let ?p = "\<lparr>kkern = kern lwip_example\<lparr>QueueIDVessel := 3\<rparr>, kqueue_pool = 0, kcurrent_task = 0, PRIMASK = 0\<rparr>"
  note ex = lwip_example_def kernel_start_def OsConfig_def
  have "unlock_idle (kkern ?p)" "kqueue_pool ?p \<noteq> E_CREATE_FAIL" "CFG_PAR_CHECKOUT_EN OsConfig"
    "CFG_MAX_QUEUE OsConfig \<le> 32" "CFG_MAX_EVENT OsConfig \<le> 255" "QueueIDVessel (kkern ?p) = 3"
    by (simp_all add: ex E_CREATE_FAIL_def unlock_idle_def)
  moreover have "\<not> bad_mm OsConfig 0 (kkern ?p)" by (simp add: bad_mm_def ex)
  moreover have "part_rep 0 (kkern ?p) [0x20001000, 0x20001028]" by (simp add: part_rep_def ex bad_addr_unat)
  moreover have "fits 0x20001000 40 2" by (simp add: fits_def)
  moreover have "0x20001000 \<in> blk 0x20001000 40 ` {0..<2}" by (rule image_eqI [of _ _ 0]) simp_all
  moreover have "find (\<lambda>k. \<not> bit (3 :: U32) k) [0..<CFG_MAX_QUEUE OsConfig] = None" by code_simp
  moreover from this have "\<forall>k < CFG_MAX_QUEUE OsConfig. bit (3 :: U32) k" by (auto simp: find_None_iff)
  moreover have "MemoryTbl (kkern ?p) 0 = \<lparr>memAddr = 0x20001000, freeBlock = 0x20001000, blockSize = 40, blockNum = 2\<rparr>"
    by (simp add: ex)
  ultimately show ?thesis
    using kinetis_mbox_new_false_success [where c = OsConfig and p = ?p and b = "0x20001000" and bs = "[0x20001028]" and cb = "\<lambda>_. Some" and mbox = 7] by auto
qed

end
