(* ===== verification/TimerList.thy ===== *)
theory TimerList
  imports Core
begin

text \<open>
  The timer list of \<open>timer.c\<close> is a delta list like the DELAY list: insertion and removal keep the
  remaining time of every other timer, and \<open>TmrDispose\<close> stops or reloads exactly the timers whose
  time has come.
\<close>

section \<open>Representation\<close>

abbreviation tnext :: "kernel \<Rightarrow> OS_TCID \<Rightarrow> OS_TCID option" where
  "tnext s \<equiv> (\<lambda>t. tmrNext (TmrTbl s t))"

abbreviation tprev :: "kernel \<Rightarrow> OS_TCID \<Rightarrow> OS_TCID option" where
  "tprev s \<equiv> (\<lambda>t. tmrPrev (TmrTbl s t))"

abbreviation tcnt :: "kernel \<Rightarrow> OS_TCID \<Rightarrow> U32" where
  "tcnt s \<equiv> (\<lambda>t. tmrCnt (TmrTbl s t))"

definition tmr_rep :: "kernel \<Rightarrow> (OS_TCID \<times> nat) list \<Rightarrow> bool" where
  "tmr_rep s ds \<longleftrightarrow> delta_rep (tnext s) (tprev s) (tcnt s) (TmrList s) ds"

definition tmr_unlinked :: "kernel \<Rightarrow> OS_TCID \<Rightarrow> bool" where
  "tmr_unlinked s t \<longleftrightarrow> tnext s t = None \<and> tprev s t = None"

text \<open>\<open>tmr_frame A s s'\<close>: only the head of the list and the links and counters of the timers in \<open>A\<close> differ.\<close>

definition tmr_core :: "TmrCtrl \<Rightarrow> TmrCtrl" where
  "tmr_core b = b\<lparr>tmrNext := None, tmrPrev := None, tmrCnt := 0\<rparr>"

definition tmr_frame :: "OS_TCID set \<Rightarrow> kernel \<Rightarrow> kernel \<Rightarrow> bool" where
  "tmr_frame A s s' \<longleftrightarrow> s'\<lparr>TmrTbl := TmrTbl s, TmrList := TmrList s\<rparr> = s \<and>
     (\<forall>t. (t \<notin> A \<longrightarrow> TmrTbl s' t = TmrTbl s t) \<and> tmr_core (TmrTbl s' t) = tmr_core (TmrTbl s t))"

lemma tmr_core_upd [simp]:
  "tmr_core (tmrNext_update f b) = tmr_core b" "tmr_core (tmrPrev_update f b) = tmr_core b"
  "tmr_core (tmrCnt_update g b) = tmr_core b"
  by (simp_all add: tmr_core_def)

lemma tmr_frameI:
  assumes "s'\<lparr>TmrTbl := TmrTbl s, TmrList := TmrList s\<rparr> = s"
    and "\<And>t. t \<notin> A \<Longrightarrow> TmrTbl s' t = TmrTbl s t"
    and "\<And>t. tmr_core (TmrTbl s' t) = tmr_core (TmrTbl s t)"
  shows "tmr_frame A s s'"
  using assms by (simp add: tmr_frame_def)

lemma tmr_frame_simps:
  assumes "tmr_frame A s s'"
  shows "tmrState (TmrTbl s' t) = tmrState (TmrTbl s t)" "tmrType (TmrTbl s' t) = tmrType (TmrTbl s t)"
    "tmrReload (TmrTbl s' t) = tmrReload (TmrTbl s t)" "tmrID (TmrTbl s' t) = tmrID (TmrTbl s t)"
    "tmrCallBack (TmrTbl s' t) = tmrCallBack (TmrTbl s t)"
    "OSSchedLock s' = OSSchedLock s" "IsrReq s' = IsrReq s" "TaskSchedReq s' = TaskSchedReq s"
proof -
  have c: "tmr_core (TmrTbl s' t) = tmr_core (TmrTbl s t)" using assms by (simp add: tmr_frame_def)
  show "tmrState (TmrTbl s' t) = tmrState (TmrTbl s t)" "tmrType (TmrTbl s' t) = tmrType (TmrTbl s t)"
    "tmrReload (TmrTbl s' t) = tmrReload (TmrTbl s t)" "tmrID (TmrTbl s' t) = tmrID (TmrTbl s t)"
    "tmrCallBack (TmrTbl s' t) = tmrCallBack (TmrTbl s t)"
    using arg_cong [OF c, of tmrState] arg_cong [OF c, of tmrType] arg_cong [OF c, of tmrReload]
      arg_cong [OF c, of tmrID] arg_cong [OF c, of tmrCallBack] by (simp_all add: tmr_core_def)
  have eq: "s'\<lparr>TmrTbl := TmrTbl s, TmrList := TmrList s\<rparr> = s" using assms by (simp add: tmr_frame_def)
  show "OSSchedLock s' = OSSchedLock s" "IsrReq s' = IsrReq s" "TaskSchedReq s' = TaskSchedReq s"
    using arg_cong [OF eq, of OSSchedLock] arg_cong [OF eq, of IsrReq] arg_cong [OF eq, of TaskSchedReq] by simp_all
qed

lemma tmr_rep_eqI:
  assumes "TmrList s' = TmrList s"
    and "\<And>t. t \<in> fst ` set ds \<Longrightarrow> tnext s' t = tnext s t \<and> tprev s' t = tprev s t \<and> tcnt s' t = tcnt s t"
  shows "tmr_rep s' ds = tmr_rep s ds"
  unfolding tmr_rep_def assms(1) by (rule delta_rep_cong) (use assms(2) in blast)

lemma tmr_rep_lock [simp]: "tmr_rep (OSSchedLock_update f s) ds = tmr_rep s ds"
  "tmr_unlinked (OSSchedLock_update f s) t = tmr_unlinked s t"
  by (simp_all add: tmr_rep_def tmr_unlinked_def)

lemma tmr_rep_state [simp]: "tmr_rep (upd_tmr t (tmrState_update f) s) ds = tmr_rep s ds"
  by (rule tmr_rep_eqI) auto

section \<open>Insertion\<close>

lemma insert_tmr_before_eq:
  assumes "dlist (tnext s) (tprev s) (TmrList s) (as @ n # bs)" and "t \<notin> set (as @ n # bs)"
    and "tmr_unlinked s t"
  shows "insert_tmr_before t n w s =
    Some (s\<lparr>TmrList := hd_ptr (as @ [t]) None,
      TmrTbl := (\<lambda>x. if x = t then (TmrTbl s t)\<lparr>tmrNext := Some n, tmrPrev := last_ptr None as, tmrCnt := tcnt s n + w\<rparr>
                 else if x = n then (TmrTbl s n)\<lparr>tmrPrev := Some t, tmrCnt := - w\<rparr>
                 else if as \<noteq> [] \<and> x = last as then (TmrTbl s x)\<lparr>tmrNext := Some t\<rparr>
                 else TmrTbl s x)\<rparr>)"
proof -
  have p: "tmrPrev (TmrTbl s n) = last_ptr None as" and h: "TmrList s = hd_ptr (as @ n # bs) None"
    using assms(1) by (auto simp: dlist_def)
  have u: "tmrNext (TmrTbl s t) = None" "tmrPrev (TmrTbl s t) = None"
    using assms(3) by (simp_all add: tmr_unlinked_def)
  have d: "distinct (as @ n # bs)" using assms(1) by (rule dlist_distinct)
  have nt: "n \<noteq> t" using assms(2) by auto
  show ?thesis
  proof (cases as rule: rev_cases)
    case Nil
    with p h u nt show ?thesis
      by (simp add: insert_tmr_before_def) (rule kernel.equality; simp add: fun_eq_iff)
  next
    case (snoc zs z)
    then have "z \<noteq> t" "z \<noteq> n" using assms(2) d by auto
    moreover have "TmrList s = hd_ptr zs (Some z)" using snoc h by simp
    ultimately show ?thesis using snoc p u nt
      by (simp add: insert_tmr_before_def) (rule kernel.equality; simp add: fun_eq_iff)
  qed
qed

abbreviation insert_tmr_behind :: "OS_TCID \<Rightarrow> OS_TCID \<Rightarrow> U32 \<Rightarrow> kernel \<Rightarrow> kernel" where
  "insert_tmr_behind t n w s \<equiv>
     upd_tmr t (tmrCnt_update (\<lambda>_. w)) (upd_tmr n (tmrNext_update (\<lambda>_. Some t)) (upd_tmr t (tmrPrev_update (\<lambda>_. Some n)) s))"

interpretation tlp: delta_loop tnext tprev tcnt TmrList insert_tmr_before insert_tmr_behind insert_tmr_loop tmr_frame
proof (unfold_locales, goal_cases)
  case (1 t n w s)
  show ?case by (subst insert_tmr_loop.simps) (simp add: Let_def split: option.split)
next
  case (2 s as n bs t w)
  then have u: "tmr_unlinked s t" and d: "distinct (as @ n # bs)" by (auto simp: tmr_unlinked_def dlist_def)
  note eq = insert_tmr_before_eq [OF 2(1,2) u, of w]
  have l: "last as \<in> set as" if "as \<noteq> []" using that by simp
  have nt: "t \<noteq> n" "t \<notin> set as" "t \<notin> set bs" using 2(2) by auto
  let ?s = "the (insert_tmr_before t n w s)"
  have "tmr_frame (insert t (set (as @ n # bs))) s ?s"
    unfolding eq option.sel
  proof (rule tmr_frameI, goal_cases)
    case (2 u)
    then have "u \<noteq> t" "u \<noteq> n" "as \<noteq> [] \<Longrightarrow> u \<noteq> last as" using l by auto
    then show ?case by auto
  qed simp_all
  moreover have "spliced (tnext s) (tprev s) (tcnt s) (tnext ?s) (tprev ?s) (tcnt ?s) (TmrList ?s) as t (n # bs)"
    unfolding eq option.sel spliced_def using nt d l by auto
  ultimately show ?case using nt(1) by (simp add: eq)
next
  case (3 s as n t w)
  let ?s = "insert_tmr_behind t n w s"
  have nt: "t \<noteq> n" "t \<notin> set as" "n \<notin> set as" using 3(1,2) by (auto simp: dlist_def)
  have "tmr_frame (insert t (set (as @ [n]))) s ?s" by (rule tmr_frameI) (simp_all add: nt)
  moreover have "spliced (tnext s) (tprev s) (tcnt s) (tnext ?s) (tprev ?s) (tcnt ?s) (TmrList ?s) (as @ [n]) t []"
    unfolding spliced_def using nt 3 by (auto simp: dlist_def)
  ultimately show ?case using nt(1) by simp
qed

lemma InsertTmrList_ok:
  assumes "tmr_rep s ds" and "t \<notin> fst ` set ds" and "tmr_unlinked s t" and "tcnt s t = n" and "0 < n" and "unat n < 2 ^ 31"
  shows "\<exists>s'. InsertTmrList unl t s = unl s' \<and> tmr_rep s' (insort_after snd (t, unat n) ds) \<and>
    tmr_frame (insert t (fst ` set ds)) (OsSchedLock s) s'"
proof -
  let ?l = "OsSchedLock s"
  have lk: "tnext ?l = tnext s" "tprev ?l = tprev s" "tcnt ?l = tcnt s" "TmrList ?l = TmrList s" "TmrTbl ?l = TmrTbl s"
    by (simp_all add: OsSchedLock_def)
  obtain xs where xs: "dlist (tnext s) (tprev s) (TmrList s) xs" "ds = deltas (tcnt s) 0 xs"
    "map fst ds = xs" "total (tcnt s) xs < 2 ^ 31"
    using assms(1) unfolding tmr_rep_def by (rule delta_repE)
  have st: "fst ` set ds = set xs" using xs(3) by (metis set_map)
  have nz: "n \<noteq> 0" using assms(5) by auto
  show ?thesis
  proof (cases xs)
    case Nil
    let ?s = "?l\<lparr>TmrList := Some t\<rparr>"
    have "tmr_rep ?s (insort_after snd (t, unat n) (deltas (tcnt s) 0 ([] @ [])))"
      unfolding tmr_rep_def
      by (rule delta_rep_insert [of "tnext s" "tprev s" "TmrList s"])
        (use xs(1) Nil assms(3,4,6) in \<open>auto simp: dlist_def tmr_unlinked_def lk\<close>)
    moreover have "tmr_frame (insert t (fst ` set ds)) ?l ?s" by (rule tmr_frameI) auto
    moreover have "TmrList s = None" using xs(1) Nil by (simp add: dlist_def)
    moreover from this nz assms(4) have "InsertTmrList unl t s = unl ?s"
      by (simp add: InsertTmrList_def lk)
    ultimately show ?thesis using xs(2) Nil by (intro exI [of _ ?s] conjI) simp_all
  next
    case (Cons p ps)
    have "TmrList s = Some p" using xs(1) Cons by (simp add: dlist_def)
    moreover have "\<exists>s'. insert_tmr_loop t p n ?l = Some s' \<and> tmr_frame (insert t (set ([] @ p # ps))) ?l s' \<and>
        delta_rep (tnext s') (tprev s') (tcnt s') (TmrList s') (insort_after snd (t, unat n) (deltas (tcnt ?l) 0 ([] @ p # ps)))"
      by (rule tlp.loop_ok) (use xs Cons assms st in \<open>auto simp: tmr_unlinked_def lk\<close>)
    ultimately show ?thesis using nz xs(2) st Cons assms(4)
      by (auto simp: InsertTmrList_def tmr_rep_def lk)
  qed
qed

section \<open>Removal\<close>

lemma unlink_tmr_eq:
  assumes "dlist (tnext s) (tprev s) (TmrList s) (as @ t # bs)"
  shows "unlink_tmr t s =
    s\<lparr>TmrList := hd_ptr (as @ bs) None,
      TmrTbl := (\<lambda>x. if x = t then (TmrTbl s t)\<lparr>tmrNext := None, tmrPrev := None\<rparr>
                 else if bs \<noteq> [] \<and> x = hd bs
                 then (TmrTbl s x)\<lparr>tmrPrev := last_ptr None as, tmrCnt := tcnt s x + tcnt s t\<rparr>
                 else if as \<noteq> [] \<and> x = last as then (TmrTbl s x)\<lparr>tmrNext := hd_ptr bs None\<rparr>
                 else TmrTbl s x)\<rparr>"
proof -
  have n: "tmrNext (TmrTbl s t) = hd_ptr bs None" and p: "tmrPrev (TmrTbl s t) = last_ptr None as"
    using dlist_links [OF assms] by simp_all
  have d: "distinct (as @ t # bs)" and h: "TmrList s = hd_ptr (as @ t # bs) None"
    using assms by (auto simp: dlist_def)
  show ?thesis
  proof (cases bs; cases as rule: rev_cases)
    assume "bs = []" "as = []"
    with n p h show ?thesis
      by (simp add: unlink_tmr_def) (rule kernel.equality; simp add: fun_eq_iff)
  next
    fix ys y assume e: "bs = []" "as = ys @ [y]"
    with d have "t \<noteq> y" by auto
    with e n p h show ?thesis
      by (simp add: unlink_tmr_def) (rule kernel.equality; simp add: fun_eq_iff)
  next
    fix z zs assume e: "bs = z # zs" "as = []"
    with d have "t \<noteq> z" by auto
    with e n p h show ?thesis
      by (simp add: unlink_tmr_def) (rule kernel.equality; simp add: fun_eq_iff)
  next
    fix z zs ys y assume e: "bs = z # zs" "as = ys @ [y]"
    with d have "t \<noteq> y" "t \<noteq> z" "z \<noteq> y" by auto
    with e n p h show ?thesis
      by (simp add: unlink_tmr_def Let_def) (rule kernel.equality; simp add: fun_eq_iff)
  qed
qed

lemma unlink_tmr_ok:
  assumes "tmr_rep s (xs @ (t, d) # ys)"
  shows "tmr_rep (unlink_tmr t s) (xs @ ys)" and "tmr_unlinked (unlink_tmr t s) t"
    and "tmr_frame (insert t (fst ` set (xs @ ys))) s (unlink_tmr t s)"
proof -
  define as bs where ab: "as = map fst xs" "bs = map fst ys"
  have dl: "dlist (tnext s) (tprev s) (TmrList s) (as @ t # bs)"
    using assms by (simp add: tmr_rep_def delta_rep_def ab)
  have d: "distinct (as @ t # bs)" using dl by (rule dlist_distinct)
  note eq = unlink_tmr_eq [OF dl]
  have l: "as \<noteq> [] \<Longrightarrow> last as \<in> set as" "bs \<noteq> [] \<Longrightarrow> hd bs \<in> set bs" by simp_all
  have st: "insert t (fst ` set (xs @ ys)) = insert t (set as \<union> set bs)" by (auto simp: ab)
  have "taken_out (tnext s) (tprev s) (tcnt s) (tnext (unlink_tmr t s)) (tprev (unlink_tmr t s))
      (tcnt (unlink_tmr t s)) (TmrList (unlink_tmr t s)) as t bs"
    by (rule taken_outI [OF d]) (auto simp: eq)
  then show "tmr_rep (unlink_tmr t s) (xs @ ys)"
    using delta_rep_taken_out [OF assms [unfolded tmr_rep_def]] unfolding ab tmr_rep_def by blast
  show "tmr_unlinked (unlink_tmr t s) t" by (simp add: eq tmr_unlinked_def)
  show "tmr_frame (insert t (fst ` set (xs @ ys))) s (unlink_tmr t s)"
    unfolding st eq
  proof (rule tmr_frameI, goal_cases)
    case (2 u)
    then have "u \<noteq> t" "bs \<noteq> [] \<Longrightarrow> u \<noteq> hd bs" "as \<noteq> [] \<Longrightarrow> u \<noteq> last as" using l by auto
    then show ?case by auto
  qed simp_all
qed

section \<open>The lock around the list operations\<close>

text \<open>
  The calls lock the scheduler themselves. In a section that is locked already their unlock only
  counts down, which is how \<open>TmrDispose\<close> runs them; outside, with nothing requested, it opens the
  lock. In both cases the timer list keeps the contract of a delta list.
\<close>

definition held :: "kernel \<Rightarrow> bool" where
  "held s \<longleftrightarrow> 0 < OSSchedLock s \<and> OSSchedLock s < 255"

definition calm :: "kernel \<Rightarrow> bool" where
  "calm s \<longleftrightarrow> held s \<or> OSSchedLock s = 0 \<and> \<not> IsrReq s \<and> \<not> TaskSchedReq s"

lemma calm_unlock:
  assumes "calm s" and "tmr_frame A (OsSchedLock s) s'"
  shows "OsSchedUnlock c cb s' = Some (s'\<lparr>OSSchedLock := OSSchedLock s\<rparr>)"
proof -
  note f = tmr_frame_simps(6-8) [OF assms(2)]
  show ?thesis
  proof (cases "OSSchedLock s = 0")
    case True
    with f have "OSSchedLock s' = 1" by (simp add: OsSchedLock_def)
    moreover have "\<not> IsrReq s'" "\<not> TaskSchedReq s'" using f assms(1) True by (auto simp: calm_def held_def OsSchedLock_def)
    ultimately show ?thesis using unlock_outermost [of s' c cb] True by simp
  next
    case False
    then have "OSSchedLock s' \<noteq> 1" using assms(1) f by (auto simp: calm_def held_def OsSchedLock_def)
    then show ?thesis using unlock_nested [of s' c cb] f by (simp add: OsSchedLock_def)
  qed
qed

lemma tmr_frame_held: "tmr_frame A s s' \<Longrightarrow> held s' = held s"
  using tmr_frame_simps(6) by (simp add: held_def)

lemma tmr_frame_calm: "tmr_frame A s s' \<Longrightarrow> calm s' = calm s"
  using tmr_frame_simps(6-8) by (simp add: calm_def held_def)

lemma InsertTmrList_calm:
  assumes "tmr_rep s ds" and "t \<notin> fst ` set ds" and "tmr_unlinked s t" and "tcnt s t = n" and "0 < n" and "unat n < 2 ^ 31"
    and "calm s"
  shows "\<exists>s'. InsertTmrList (OsSchedUnlock c cb) t s = Some s' \<and> tmr_rep s' (insort_after snd (t, unat n) ds) \<and>
    tmr_frame (insert t (fst ` set ds)) s s'"
proof -
  obtain s1 where s1: "InsertTmrList (OsSchedUnlock c cb) t s = OsSchedUnlock c cb s1"
    "tmr_rep s1 (insort_after snd (t, unat n) ds)" "tmr_frame (insert t (fst ` set ds)) (OsSchedLock s) s1"
    using InsertTmrList_ok [OF assms(1-6)] by blast
  have "tmr_frame (insert t (fst ` set ds)) s (s1\<lparr>OSSchedLock := OSSchedLock s\<rparr>)"
    using s1(3) by (cases s; cases s1) (simp add: tmr_frame_def OsSchedLock_def)
  then show ?thesis using s1(1,2) calm_unlock [OF assms(7) s1(3)] by auto
qed

lemma RemoveTmrList_calm:
  assumes "tmr_rep s (xs @ (t, d) # ys)" and "unat t < CFG_MAX_TMR c" and "calm s"
  shows "\<exists>s'. RemoveTmrList c (OsSchedUnlock c cb) t s = Some s' \<and> tmr_rep s' (xs @ ys) \<and> tmr_unlinked s' t \<and>
    tmr_frame (insert t (fst ` set (xs @ ys))) s s'"
proof -
  have "tmr_rep (OsSchedLock s) (xs @ (t, d) # ys)" using assms(1) by (simp add: OsSchedLock_def)
  note U = unlink_tmr_ok [OF this]
  let ?s = "unlink_tmr t (OsSchedLock s)"
  have "tmr_frame (insert t (fst ` set (xs @ ys))) s (?s\<lparr>OSSchedLock := OSSchedLock s\<rparr>)"
    using U(3) by (cases s; cases ?s) (simp add: tmr_frame_def OsSchedLock_def)
  then show ?thesis using U(1,2) calm_unlock [OF assms(3) U(3)] assms(2) by (auto simp: RemoveTmrList_def tmr_ptr_def)
qed

definition calm_rep :: "config \<Rightarrow> kernel \<Rightarrow> (OS_TCID \<times> nat) list \<Rightarrow> bool" where
  "calm_rep c s ds \<longleftrightarrow> tmr_rep s ds \<and> calm s \<and> (\<forall>p \<in> set ds. unat (fst p) < CFG_MAX_TMR c)"

abbreviation start_for :: "config \<Rightarrow> (U32 \<Rightarrow> kernel \<Rightarrow> kernel option) \<Rightarrow> OS_TCID \<Rightarrow> U32 \<Rightarrow> kernel \<Rightarrow> kernel option" where
  "start_for c cb t n s \<equiv> InsertTmrList (OsSchedUnlock c cb) t (upd_tmr t (tmrCnt_update (\<lambda>_. n)) s)"

interpretation tl: delta_list "calm_rep c" "\<lambda>s t. tmr_unlinked s t \<and> unat t < CFG_MAX_TMR c"
  "start_for c cb" "RemoveTmrList c (OsSchedUnlock c cb)" for c cb
proof (unfold_locales, goal_cases)
  case (1 s ds)
  then show ?case using delta_rep_sorted unfolding calm_rep_def tmr_rep_def by blast
next
  case (2 s ds)
  then show ?case using delta_rep_distinct unfolding calm_rep_def tmr_rep_def by blast
next
  case (3 s ds t n)
  let ?s = "upd_tmr t (tmrCnt_update (\<lambda>_. n)) s"
  have "tmr_rep ?s ds = tmr_rep s ds" by (rule tmr_rep_eqI) (use 3(2) in auto)
  then have "\<exists>s'. start_for c cb t n s = Some s' \<and> tmr_rep s' (insort_after snd (t, unat n) ds) \<and>
      tmr_frame (insert t (fst ` set ds)) ?s s'"
    by (intro InsertTmrList_calm) (use 3 in \<open>auto simp: calm_rep_def tmr_unlinked_def calm_def held_def\<close>)
  then obtain s' where s': "start_for c cb t n s = Some s'" "tmr_rep s' (insort_after snd (t, unat n) ds)"
    "tmr_frame (insert t (fst ` set ds)) ?s s'" by blast
  have "calm s'" using 3(1) tmr_frame_calm [OF s'(3)] by (simp add: calm_rep_def calm_def held_def)
  with s'(1,2) 3 show ?case by (auto simp: calm_rep_def)
next
  case (4 s as t d bs)
  then obtain s' where s': "RemoveTmrList c (OsSchedUnlock c cb) t s = Some s'" "tmr_rep s' (as @ bs)" "tmr_unlinked s' t"
    "tmr_frame (insert t (fst ` set (as @ bs))) s s'"
    using RemoveTmrList_calm [of s as t d bs c cb] by (auto simp: calm_rep_def)
  have "calm s'" using 4 tmr_frame_calm [OF s'(4)] by (simp add: calm_rep_def)
  with s' 4 show ?case by (auto simp: calm_rep_def)
qed

section \<open>Expiry\<close>

text \<open>
  A timer as \<open>CoCreateTmr\<close> makes it, one-shot or periodic, with a reload value that the signed
  comparison of the list can order.
\<close>

definition tmr_ok :: "config \<Rightarrow> kernel \<Rightarrow> OS_TCID \<Rightarrow> bool" where
  "tmr_ok c s t \<longleftrightarrow> unat t < CFG_MAX_TMR c \<and> tmrID (TmrTbl s t) = t \<and>
     (tmrType (TmrTbl s t) = TMR_TYPE_ONE_SHOT \<or>
      tmrType (TmrTbl s t) = TMR_TYPE_PERIODIC \<and> unat (tmrReload (TmrTbl s t)) < 2 ^ 31)"

text \<open>
  What the expiry of timer \<open>t\<close> does to the running timers: a periodic timer comes back with its
  reload time. With a reload value of 0 it does not, since \<open>InsertTmrList\<close> returns without linking it.
\<close>

definition restart :: "kernel \<Rightarrow> OS_TCID \<Rightarrow> (OS_TCID \<times> nat) list \<Rightarrow> (OS_TCID \<times> nat) list" where
  "restart s t ds = (if tmrType (TmrTbl s t) = TMR_TYPE_PERIODIC \<and> tmrReload (TmrTbl s t) \<noteq> 0
     then insort_after snd (t, unat (tmrReload (TmrTbl s t))) ds else ds)"

text \<open>
  What is asked of the callbacks of the timers \<open>ts\<close>, which are code of the application: called under
  the schedule lock, one after the other, each returns and leaves the timers and the lock alone
  (posting from the callback, as \<open>isr_PostMail\<close> does under the lock, is such a call). \<open>Q xs\<close> is what
  the application knows of the rest of the kernel when the callbacks of \<open>xs\<close> have run.
\<close>

definition callbacks_ok ::
  "(U32 \<Rightarrow> kernel \<Rightarrow> kernel option) \<Rightarrow> (OS_TCID list \<Rightarrow> kernel \<Rightarrow> bool) \<Rightarrow> (OS_TCID \<Rightarrow> U32) \<Rightarrow> OS_TCID list \<Rightarrow> bool" where
  "callbacks_ok cb Q f ts \<longleftrightarrow>
     (\<forall>xs x T L. Q xs x \<longrightarrow> Q xs (x\<lparr>TmrTbl := T, TmrList := L\<rparr>)) \<and>
     (\<forall>xs t ys x. ts = xs @ t # ys \<and> held x \<and> Q xs x \<longrightarrow>
        (\<exists>x'. cb (f t) x = Some x' \<and> Q (xs @ [t]) x' \<and> TmrTbl x' = TmrTbl x \<and> TmrList x' = TmrList x \<and>
           OSSchedLock x' = OSSchedLock x))"

lemma callbacks_okD:
  assumes "callbacks_ok cb Q f (xs @ t # ys)" and "held s" and "Q xs s"
  shows "\<exists>s'. cb (f t) s = Some s' \<and> Q (xs @ [t]) s' \<and> TmrTbl s' = TmrTbl s \<and> (\<forall>ds. tmr_rep s' ds = tmr_rep s ds) \<and> held s'"
proof -
  obtain s' where "cb (f t) s = Some s'" "Q (xs @ [t]) s'" "TmrTbl s' = TmrTbl s" "TmrList s' = TmrList s" "OSSchedLock s' = OSSchedLock s"
    using assms unfolding callbacks_ok_def by blast
  with assms(2) show ?thesis by (auto simp: tmr_rep_def held_def)
qed

lemma callbacks_ok_frame:
  assumes "callbacks_ok cb Q f ts" and "tmr_frame A s s'" and "Q xs s"
  shows "Q xs s'"
proof -
  have "s'\<lparr>TmrTbl := TmrTbl s, TmrList := TmrList s\<rparr> = s" using assms(2) by (simp add: tmr_frame_def)
  then have "s' = s\<lparr>TmrTbl := TmrTbl s', TmrList := TmrList s'\<rparr>" by (cases s; cases s'; simp)
  then show ?thesis using assms(1,3) unfolding callbacks_ok_def by metis
qed

lemma callbacks_ok_upd: "callbacks_ok cb Q f ts \<Longrightarrow> Q xs s \<Longrightarrow> Q xs (TmrTbl_update g s)"
proof -
  assume "callbacks_ok cb Q f ts" "Q xs s"
  moreover have "TmrTbl_update g s = s\<lparr>TmrTbl := g (TmrTbl s), TmrList := TmrList s\<rparr>" by simp
  ultimately show ?thesis unfolding callbacks_ok_def by metis
qed

lemma insort_after_zeros:
  "0 < (n :: nat) \<Longrightarrow> insort_after snd (t, n) (map (\<lambda>t. (t, 0)) ts @ ds) = map (\<lambda>t. (t, 0)) ts @ insort_after snd (t, n) ds"
  by (induction ts) simp_all

text \<open>One round of the loop.\<close>

lemma tmr_expire:
  assumes "tmr_rep s ((t, 0) # map (\<lambda>t. (t, 0)) ts @ ds)" and "tmr_ok c s t" and "held s"
    and "callbacks_ok cb Q f (xs @ t # ys)" and "Q xs s" and "tmrCallBack (TmrTbl s t) = f t"
  shows "\<exists>s'. TmrDispose c cb (OsSchedUnlock c cb) s = TmrDispose c cb (OsSchedUnlock c cb) s' \<and> held s' \<and> Q (xs @ [t]) s' \<and>
    tmr_rep s' (map (\<lambda>t. (t, 0)) ts @ restart s t ds) \<and>
    (\<forall>u. tmrType (TmrTbl s' u) = tmrType (TmrTbl s u) \<and> tmrReload (TmrTbl s' u) = tmrReload (TmrTbl s u) \<and>
      tmrID (TmrTbl s' u) = tmrID (TmrTbl s u) \<and> tmrCallBack (TmrTbl s' u) = tmrCallBack (TmrTbl s u) \<and> tmrState (TmrTbl s' u) =
        (if u = t \<and> tmrType (TmrTbl s t) = TMR_TYPE_ONE_SHOT then TMR_STATE_STOPPED else tmrState (TmrTbl s u)))"
proof -
  let ?zs = "map (\<lambda>t. (t, 0)) ts @ ds" and ?unl = "OsSchedUnlock c cb"
  have h: "TmrList s = Some t" "tcnt s t = 0"
    using assms(1) by (auto simp: tmr_rep_def delta_rep_def dlist_def unat_eq_0)
  have "distinct (map fst ((t, 0) # ?zs))" using assms(1) delta_rep_distinct unfolding tmr_rep_def by blast
  then have tz: "t \<notin> fst ` set ?zs" by auto
  obtain s1 where s1: "RemoveTmrList c ?unl t s = Some s1" "tmr_rep s1 ?zs" "tmr_unlinked s1 t"
    "tmr_frame (insert t (fst ` set ?zs)) s s1"
    using RemoveTmrList_calm [of s "[]" t 0 ?zs c cb] assms(1-3) by (auto simp: tmr_ok_def calm_def)
  note f1 = tmr_frame_simps(1-5) [OF s1(4)] and c1 = tmr_frame_held [OF s1(4)]
  have q1: "Q xs s1" by (rule callbacks_ok_frame [OF assms(4) s1(4) assms(5)])
  consider (one) "tmrType (TmrTbl s t) = TMR_TYPE_ONE_SHOT"
    | (per) "tmrType (TmrTbl s t) = TMR_TYPE_PERIODIC" "unat (tmrReload (TmrTbl s t)) < 2 ^ 31"
    using assms(2) by (auto simp: tmr_ok_def)
  then show ?thesis
  proof cases
    case one
    let ?s = "upd_tmr t (tmrState_update (\<lambda>_. TMR_STATE_STOPPED)) s1"
    have "held ?s" "Q xs ?s" using c1 assms(3) callbacks_ok_upd [OF assms(4) q1] by (simp_all add: held_def)
    then obtain s2 where s2: "cb (f t) ?s = Some s2" "Q (xs @ [t]) s2" "TmrTbl s2 = TmrTbl ?s"
        "\<And>ds. tmr_rep s2 ds = tmr_rep ?s ds" "held s2"
      using callbacks_okD [OF assms(4)] by blast
    have "TmrDispose c cb ?unl s = TmrDispose c cb ?unl s2"
      using h one assms(2,6) s1(1) s2(1) f1(5) by (subst TmrDispose.simps) (simp add: tmr_ok_def)
    then show ?thesis using s2 s1(2) f1 one by (auto simp: restart_def TMR_TYPE_ONE_SHOT_def TMR_TYPE_PERIODIC_def)
  next
    case per
    let ?n = "tmrReload (TmrTbl s t)"
    let ?s = "upd_tmr t (tmrCnt_update (\<lambda>_. ?n)) s1"
    have "tmr_rep ?s ?zs = tmr_rep s1 ?zs" by (rule tmr_rep_eqI) (use tz in auto)
    with s1(2) have zs: "tmr_rep ?s ?zs" by simp
    have hs: "held ?s" "Q xs ?s" using c1 assms(3) callbacks_ok_upd [OF assms(4) q1] by (simp_all add: held_def)
    obtain s2 where s2: "InsertTmrList ?unl t ?s = Some s2" "tmr_rep s2 (map (\<lambda>t. (t, 0)) ts @ restart s t ds)"
      "tmr_frame (insert t (fst ` set ?zs)) ?s s2"
    proof (cases "?n = 0")
      case True
      then have "InsertTmrList ?unl t ?s = Some ?s" by (simp add: InsertTmrList_def)
      then show thesis using that zs True by (auto simp: restart_def tmr_frame_def)
    next
      case False
      then have "\<exists>s'. InsertTmrList ?unl t ?s = Some s' \<and> tmr_rep s' (insort_after snd (t, unat ?n) ?zs) \<and>
          tmr_frame (insert t (fst ` set ?zs)) ?s s'"
        by (intro InsertTmrList_calm) (use tz s1 zs per hs in \<open>auto simp: tmr_unlinked_def calm_def word_neq_0_conv\<close>)
      moreover have "0 < unat ?n" using False by (simp add: unat_gt_0)
      ultimately show thesis using that False per(1) by (auto simp: restart_def insort_after_zeros)
    qed
    note f2 = tmr_frame_simps(1-5) [OF s2(3)]
    have "held s2" "Q xs s2" using tmr_frame_held [OF s2(3)] hs callbacks_ok_frame [OF assms(4) s2(3)] by simp_all
    then obtain s3 where s3: "cb (f t) s2 = Some s3" "Q (xs @ [t]) s3" "TmrTbl s3 = TmrTbl s2"
        "\<And>ds. tmr_rep s3 ds = tmr_rep s2 ds" "held s3"
      using callbacks_okD [OF assms(4)] by blast
    have id: "tmrID (TmrTbl s t) = t" using assms(2) by (simp add: tmr_ok_def)
    have cbk: "tmrCallBack (TmrTbl s2 t) = f t" using f1 f2 assms(6) by simp
    have "TmrDispose c cb ?unl s = TmrDispose c cb ?unl s3"
      using h per id s1(1) s2(1) s3(1) f1 cbk by (subst TmrDispose.simps) (simp add: TMR_TYPE_ONE_SHOT_def TMR_TYPE_PERIODIC_def)
    then show ?thesis using s3 s2(2) f1 f2 per by (auto simp: TMR_TYPE_ONE_SHOT_def TMR_TYPE_PERIODIC_def)
  qed
qed

lemma restart_positive:
  assumes "ds \<noteq> [] \<longrightarrow> 0 < snd (hd ds)"
  shows "restart s t ds \<noteq> [] \<longrightarrow> 0 < snd (hd (restart s t ds))"
  using assms by (cases ds) (auto simp: restart_def unat_gt_0)

lemma TmrDispose_ok:
  assumes "tmr_rep s (map (\<lambda>t. (t, 0)) ts @ ds)" and "ds \<noteq> [] \<longrightarrow> 0 < snd (hd ds)"
    and "\<And>t. t \<in> set ts \<Longrightarrow> tmr_ok c s t" and "held s"
    and "callbacks_ok cb Q f (xs @ ts)" and "Q xs s" and "\<And>t. t \<in> set ts \<Longrightarrow> tmrCallBack (TmrTbl s t) = f t"
  shows "\<exists>s'. TmrDispose c cb (OsSchedUnlock c cb) s = Some s' \<and> tmr_rep s' (fold (restart s) ts ds) \<and> Q (xs @ ts) s' \<and>
    (\<forall>t. tmrState (TmrTbl s' t) = (if t \<in> set ts \<and> tmrType (TmrTbl s t) = TMR_TYPE_ONE_SHOT
                                  then TMR_STATE_STOPPED else tmrState (TmrTbl s t)))"
  using assms
proof (induction ts arbitrary: s ds xs)
  case Nil
  have "TmrDispose c cb (OsSchedUnlock c cb) s = Some s"
  proof (cases ds)
    case Nil': Nil
    then have "TmrList s = None" using Nil.prems(1) by (simp add: tmr_rep_def delta_rep_def dlist_def)
    then show ?thesis by (subst TmrDispose.simps) simp
  next
    case (Cons p ps)
    then obtain t n where p: "ds = (t, n) # ps" by (cases p) auto
    then have "TmrList s = Some t" "tcnt s t \<noteq> 0"
      using Nil.prems(1,2) by (auto simp: tmr_rep_def delta_rep_def dlist_def)
    then show ?thesis by (subst TmrDispose.simps) simp
  qed
  with Nil.prems(1,6) show ?case by auto
next
  case (Cons t ts)
  have "tmr_rep s ((t, 0) # map (\<lambda>t. (t, 0)) ts @ ds)" "tmr_ok c s t" "tmrCallBack (TmrTbl s t) = f t"
    using Cons.prems(1,3,7) by simp_all
  from tmr_expire [OF this(1,2) Cons.prems(4-6) this(3)] obtain s1 where
    s1: "TmrDispose c cb (OsSchedUnlock c cb) s = TmrDispose c cb (OsSchedUnlock c cb) s1" "held s1" "Q (xs @ [t]) s1"
    "tmr_rep s1 (map (\<lambda>t. (t, 0)) ts @ restart s t ds)"
    and fr: "\<And>u. tmrType (TmrTbl s1 u) = tmrType (TmrTbl s u)" "\<And>u. tmrReload (TmrTbl s1 u) = tmrReload (TmrTbl s u)"
      "\<And>u. tmrID (TmrTbl s1 u) = tmrID (TmrTbl s u)" "\<And>u. tmrCallBack (TmrTbl s1 u) = tmrCallBack (TmrTbl s u)"
      "\<And>u. tmrState (TmrTbl s1 u) = (if u = t \<and> tmrType (TmrTbl s t) = TMR_TYPE_ONE_SHOT then TMR_STATE_STOPPED else tmrState (TmrTbl s u))"
    by blast
  have r: "restart s1 = restart s" unfolding restart_def fun_eq_iff fr by simp
  have "tmr_ok c s1 u = tmr_ok c s u" for u by (simp add: tmr_ok_def fr)
  moreover have "callbacks_ok cb Q f ((xs @ [t]) @ ts)" using Cons.prems(5) by simp
  ultimately obtain s' where "TmrDispose c cb (OsSchedUnlock c cb) s1 = Some s'" "tmr_rep s' (fold (restart s) ts (restart s t ds))"
    "Q ((xs @ [t]) @ ts) s'"
    "\<forall>u. tmrState (TmrTbl s' u) = (if u \<in> set ts \<and> tmrType (TmrTbl s u) = TMR_TYPE_ONE_SHOT then TMR_STATE_STOPPED else tmrState (TmrTbl s1 u))"
    using Cons.IH [OF s1(4) restart_positive [OF Cons.prems(2)] _ s1(2) _ s1(3)] Cons.prems(3,7) unfolding r fr by auto
  with s1(1) fr(5) show ?case by auto
qed

section \<open>Properties\<close>

text \<open>
  C31. Starting a stopped timer puts it at its time into the timer list, behind the timers that
  expire at the same tick, and leaves the remaining time of all others as it was; stopping it
  again restores the list. Both calls succeed, inside a locked section and outside.
\<close>

theorem timer_start_stop:
  assumes "CFG_PAR_CHECKOUT_EN c" and "\<not> bad_tmr c t s" and "tmrState (TmrTbl s t) = TMR_STATE_STOPPED"
    and "tmr_rep s ds" and "t \<notin> fst ` set ds" and "tmr_unlinked s t" and "calm s"
    and "0 < tmrCnt (TmrTbl s t)" and "unat (tmrCnt (TmrTbl s t)) < 2 ^ 31"
  shows "\<exists>s1 s2. CoStartTmr c (OsSchedUnlock c cb) t s = Some (E_OK, s1) \<and>
    tmr_rep s1 (insort_after snd (t, unat (tmrCnt (TmrTbl s t))) ds) \<and> tmrState (TmrTbl s1 t) = TMR_STATE_RUNNING \<and>
    CoStopTmr c (OsSchedUnlock c cb) t s1 = Some (E_OK, s2) \<and> tmr_rep s2 ds \<and>
    tmrState (TmrTbl s2 t) = TMR_STATE_STOPPED \<and> OSSchedLock s2 = OSSchedLock s"
proof -
  let ?unl = "OsSchedUnlock c cb" and ?n = "tmrCnt (TmrTbl s t)"
  let ?s = "upd_tmr t (tmrState_update (\<lambda>_. TMR_STATE_RUNNING)) s"
  have t: "unat t < CFG_MAX_TMR c" using assms(1,2) by (simp add: bad_tmr_def)
  have "\<exists>s'. InsertTmrList ?unl t ?s = Some s' \<and> tmr_rep s' (insort_after snd (t, unat ?n) ds) \<and>
      tmr_frame (insert t (fst ` set ds)) ?s s'"
    by (rule InsertTmrList_calm) (use assms in \<open>auto simp: tmr_unlinked_def calm_def held_def\<close>)
  then obtain s1 where s1: "InsertTmrList ?unl t ?s = Some s1" "tmr_rep s1 (insort_after snd (t, unat ?n) ds)"
    "tmr_frame (insert t (fst ` set ds)) ?s s1" by blast
  note f1 = tmr_frame_simps [OF s1(3)]
  have start: "CoStartTmr c ?unl t s = Some (E_OK, s1)"
    using assms(2,3) t s1(1) by (simp add: CoStartTmr_def tmr_ptr_def)
  have run: "tmrState (TmrTbl s1 t) = TMR_STATE_RUNNING" by (simp add: f1)
  let ?P = "\<lambda>y. \<not> snd (t, unat ?n) < snd y"
  have sp: "insort_after snd (t, unat ?n) ds = takeWhile ?P ds @ (t, unat ?n) # dropWhile ?P ds"
    by (rule insort_after_split)
  have "calm s1" using tmr_frame_calm [OF s1(3)] assms(7) by (simp add: calm_def held_def)
  then obtain s2 where s2: "RemoveTmrList c ?unl t s1 = Some s2" "tmr_rep s2 (takeWhile ?P ds @ dropWhile ?P ds)"
    "tmr_frame (insert t (fst ` set (takeWhile ?P ds @ dropWhile ?P ds))) s1 s2"
    using RemoveTmrList_calm [OF s1(2) [unfolded sp] t] by blast
  have "TmrIDVessel s1 = TmrIDVessel ?s"
  proof -
    have "TmrIDVessel (s1\<lparr>TmrTbl := TmrTbl ?s, TmrList := TmrList ?s\<rparr>) = TmrIDVessel ?s"
      using s1(3) unfolding tmr_frame_def by simp
    then show ?thesis by simp
  qed
  then have "\<not> bad_tmr c t s1" using assms(2) by (simp add: bad_tmr_def)
  then have "CoStopTmr c ?unl t s1 = Some (E_OK, upd_tmr t (tmrState_update (\<lambda>_. TMR_STATE_STOPPED)) s2)"
    using run t s2(1) by (simp add: CoStopTmr_def tmr_ptr_def)
  moreover have "OSSchedLock s2 = OSSchedLock s" using tmr_frame_simps(6) [OF s2(3)] f1(6) by simp
  ultimately show ?thesis using start run s1(2) s2(2) by auto
qed

text \<open>Timer 0 has 4 ticks to go and timer 2 has 7; timer 1 is stopped and set to 6 ticks.\<close>

definition tmr_example :: kernel where
  "tmr_example = kernel_start\<lparr>TmrTbl := (\<lambda>i. \<lparr>tmrID = i, tmrType = (if i = 0 then TMR_TYPE_ONE_SHOT else TMR_TYPE_PERIODIC),
       tmrState = (if i = 1 then TMR_STATE_STOPPED else TMR_STATE_RUNNING), tmrCnt = (if i = 0 then 4 else if i = 1 then 6 else 3),
       tmrReload = 5, tmrCallBack = 100, tmrNext = (if i = 0 then Some 2 else None), tmrPrev = (if i = 2 then Some 0 else None)\<rparr>),
     TmrList := Some 0, TmrIDVessel := 7\<rparr>"

definition tmr_config :: config where
  "tmr_config = OsConfig\<lparr>CFG_MAX_TMR := 4\<rparr>"

lemma tmr_example_rep: "tmr_rep tmr_example [(0, 4), (2, 7)]"
  by (simp add: tmr_rep_def delta_rep_def dlist_def tmr_example_def)

theorem timer_start_stop_witness:
  "\<exists>s1 s2. CoStartTmr tmr_config (OsSchedUnlock tmr_config (\<lambda>_. Some)) 1 tmr_example = Some (E_OK, s1) \<and>
    tmr_rep s1 [(0, 4), (1, 6), (2, 7)] \<and>
    CoStopTmr tmr_config (OsSchedUnlock tmr_config (\<lambda>_. Some)) 1 s1 = Some (E_OK, s2) \<and> tmr_rep s2 [(0, 4), (2, 7)]"
proof -
  have "(7 :: U32) AND 2 \<noteq> 0" by code_simp
  then have "\<not> bad_tmr tmr_config 1 tmr_example"
    by (simp add: bad_tmr_def tmr_example_def tmr_config_def OsConfig_def push_bit_eq_mult)
  moreover have "tmr_unlinked tmr_example 1" "calm tmr_example" "CFG_PAR_CHECKOUT_EN tmr_config"
    "tmrState (TmrTbl tmr_example 1) = TMR_STATE_STOPPED" "tmrCnt (TmrTbl tmr_example 1) = 6"
    by (simp_all add: tmr_example_def tmr_unlinked_def calm_def held_def kernel_start_def tmr_config_def OsConfig_def)
  ultimately show ?thesis
    using timer_start_stop [of tmr_config 1 tmr_example "[(0, 4), (2, 7)]" "\<lambda>_. Some"] tmr_example_rep by auto
qed

text \<open>
  C32. \<open>TmrDispose\<close>, run under the schedule lock, ends whatever the number of timers whose time has
  come, if the callbacks of these timers return and leave the timers and the lock alone: every
  expired one-shot timer is stopped and leaves the list, every expired periodic timer is back in the
  list with its reload time (or out of the list for good, but still marked running, if its reload
  value is 0), all other timers keep their remaining time and state, and the callbacks of exactly the
  expired timers have been called, in the order of the list. Reload values are below \<open>2 ^ 31\<close>.
\<close>

theorem timer_dispose:
  assumes "tmr_rep s (map (\<lambda>t. (t, 0)) ts @ ds)" and "ds \<noteq> [] \<longrightarrow> 0 < snd (hd ds)"
    and "\<And>t. t \<in> set ts \<Longrightarrow> tmr_ok c s t" and "held s"
    and "callbacks_ok cb Q (\<lambda>t. tmrCallBack (TmrTbl s t)) ts" and "Q [] s"
  shows "\<exists>s'. TmrDispose c cb (OsSchedUnlock c cb) s = Some s' \<and> tmr_rep s' (fold (restart s) ts ds) \<and> Q ts s' \<and>
    (\<forall>t. tmrState (TmrTbl s' t) = (if t \<in> set ts \<and> tmrType (TmrTbl s t) = TMR_TYPE_ONE_SHOT
                                  then TMR_STATE_STOPPED else tmrState (TmrTbl s t)))"
  using TmrDispose_ok [of s ts ds c cb Q "\<lambda>t. tmrCallBack (TmrTbl s t)" "[]"] assms by simp

text \<open>
  Timers 0 and 2 have both expired, and the callback posts a mail to mailbox 6, as the timer test of
  the repository does: two requests are in the queue afterwards.
\<close>

definition post_callback :: "U32 \<Rightarrow> kernel \<Rightarrow> kernel option" where
  "post_callback f s = map_option snd (isr_PostMail tmr_config Some 6 f s)"

lemma post_callback_ok:
  "callbacks_ok post_callback (\<lambda>xs x. unat (srq_cnt (ServiceReq x)) = length xs) f [0, 2]"
  unfolding callbacks_ok_def
proof (intro conjI allI impI; (elim conjE)?)
  fix xs ys and t :: OS_TCID and x :: kernel
  assume "[0, 2] = xs @ t # ys" "held x" and n: "unat (srq_cnt (ServiceReq x)) = length xs"
  from arg_cong [OF this(1), of length] have "length xs < 2" by simp
  moreover have "unat (srq_cnt (ServiceReq x) + 1) = length xs + 1" 
    using n calculation by (simp add: unat_word_ariths)
  ultimately show "\<exists>x'. post_callback (f t) x = Some x' \<and> unat (srq_cnt (ServiceReq x')) = length (xs @ [t]) \<and>
      TmrTbl x' = TmrTbl x \<and> TmrList x' = TmrList x \<and> OSSchedLock x' = OSSchedLock x"
    using \<open>held x\<close> n by (simp add: post_callback_def isr_PostMail_def InsertInSRQ_def Inc8_eq held_def tmr_config_def OsConfig_def Let_def)
qed simp_all

theorem timer_dispose_witness:
  "\<exists>s'. TmrDispose tmr_config post_callback (OsSchedUnlock tmr_config post_callback)
      (tmr_example\<lparr>OSSchedLock := 1, TmrTbl := (\<lambda>i. (TmrTbl tmr_example i)\<lparr>tmrCnt := 0\<rparr>)\<rparr>) = Some s' \<and>
    tmr_rep s' [(2, 5)] \<and> tmrState (TmrTbl s' 0) = TMR_STATE_STOPPED \<and> unat (srq_cnt (ServiceReq s')) = 2"
proof -
  let ?s = "tmr_example\<lparr>OSSchedLock := 1, TmrTbl := (\<lambda>i. (TmrTbl tmr_example i)\<lparr>tmrCnt := 0\<rparr>)\<rparr>"
  note ex = tmr_example_def kernel_start_def tmr_config_def OsConfig_def TMR_TYPE_ONE_SHOT_def TMR_TYPE_PERIODIC_def
  have "tmr_rep ?s (map (\<lambda>t. (t, 0)) [0, 2] @ [])" by (simp add: tmr_rep_def delta_rep_def dlist_def tmr_example_def)
  moreover have "tmr_ok tmr_config ?s t" if "t \<in> set [0, 2]" for t using that by (auto simp: tmr_ok_def ex)
  moreover have "held ?s" by (simp add: held_def)
  moreover have "unat (srq_cnt (ServiceReq ?s)) = length ([] :: OS_TCID list)" by (simp add: ex)
  ultimately have "\<exists>s'. TmrDispose tmr_config post_callback (OsSchedUnlock tmr_config post_callback) ?s = Some s' \<and>
    tmr_rep s' (fold (restart ?s) [0, 2] []) \<and> unat (srq_cnt (ServiceReq s')) = length [0, 2 :: OS_TCID] \<and>
    (\<forall>t. tmrState (TmrTbl s' t) = (if t \<in> set [0, 2] \<and> tmrType (TmrTbl ?s t) = TMR_TYPE_ONE_SHOT
                                  then TMR_STATE_STOPPED else tmrState (TmrTbl ?s t)))"
    by (intro timer_dispose [OF _ _ _ _ post_callback_ok]) auto
  moreover have "fold (restart ?s) [0, 2] [] = [(2, 5)]" by (simp add: restart_def ex)
  ultimately show ?thesis by (auto simp: ex)
qed

end
