(* ===== verification/Inheritance.thy ===== *)
theory Inheritance
  imports Mutex
begin

text \<open>
  Priority inheritance of the mutexes of \<open>mutex.c\<close>: what entering and leaving a section does to
  the owner, the waiting tasks and the READY list, in the ordered-list configuration.
\<close>

section \<open>The waiting list of a mutex\<close>

text \<open>
  The tasks are linked through \<open>TCBnext\<close>, first come first. The back link of the first task is
  not used and may be stale: \<open>CoLeaveMutexSection\<close> takes the head off without clearing it.
\<close>

definition mutex_rep :: "kernel \<Rightarrow> OS_MutexID \<Rightarrow> OS_TID list \<Rightarrow> bool" where
  "mutex_rep s m ws \<longleftrightarrow> waittingList (MutexTbl s m) = hd_ptr ws None \<and> distinct ws \<and>
     (\<exists>p. dchain (nextf s) (prevf s) p ws None)"

lemma mutex_rep_eqI:
  assumes "waittingList (MutexTbl s' m) = waittingList (MutexTbl s m)"
    and "\<And>t. t \<in> set ws \<Longrightarrow> nextf s' t = nextf s t \<and> prevf s' t = prevf s t"
  shows "mutex_rep s' m ws = mutex_rep s m ws"
proof -
  have "dchain (nextf s') (prevf s') p ws None = dchain (nextf s) (prevf s) p ws None" for p
    by (rule dchain_cong) (use assms(2) in auto)
  with assms(1) show ?thesis by (simp add: mutex_rep_def)
qed

lemma mutex_tail_last:
  assumes "dchain (nextf s) (prevf s) p (w # ws) None"
  shows "mutex_tail s w = Some (last (w # ws))"
  using assms by (induction ws arbitrary: w p) (subst mutex_tail.simps, auto)+

definition mutex_joined :: "OS_MutexID \<Rightarrow> OS_TID \<Rightarrow> OS_TID list \<Rightarrow> kernel \<Rightarrow> kernel" where
  "mutex_joined m r ws s = s\<lparr>TaskSchedReq := True,
     TCBTbl := (\<lambda>t. if t = r then (TCBTbl s r)\<lparr>state := TASK_WAITING, TCBnext := None, TCBprev := last_ptr None ws\<rparr>
                else if ws \<noteq> [] \<and> t = last ws then (TCBTbl s t)\<lparr>TCBnext := Some r\<rparr> else TCBTbl s t),
     MutexTbl := (if ws = [] then (MutexTbl s)(m := (MutexTbl s m)\<lparr>waittingList := Some r\<rparr>) else MutexTbl s)\<rparr>"

lemma mutex_enqueue_ok:
  assumes "mutex_rep s m ws" and "r \<notin> set ws"
  shows "mutex_enqueue m r s = Some (mutex_joined m r ws s)" and "mutex_rep (mutex_joined m r ws s) m (ws @ [r])"
proof -
  obtain p where w: "waittingList (MutexTbl s m) = hd_ptr ws None" "distinct ws" "dchain (nextf s) (prevf s) p ws None"
    using assms(1) by (auto simp: mutex_rep_def)
  show "mutex_enqueue m r s = Some (mutex_joined m r ws s)"
  proof (cases ws)
    case Nil
    with w(1) show ?thesis by (simp add: mutex_enqueue_def mutex_joined_def Let_def fun_upd_def cong: if_cong)
  next
    case (Cons x xs)
    let ?s = "upd_tcb r (TCBprev_update (\<lambda>_. None)) (upd_tcb r (TCBnext_update (\<lambda>_. None))
      (upd_tcb r (state_update (\<lambda>_. TASK_WAITING)) s\<lparr>TaskSchedReq := True\<rparr>))"
    have "dchain (nextf ?s) (prevf ?s) p ws None = dchain (nextf s) (prevf s) p ws None"
      by (rule dchain_cong) (use assms(2) in auto)
    then have tl: "mutex_tail ?s x = Some (last ws)" using w(3) Cons mutex_tail_last [of ?s p x xs] by simp
    obtain z where z: "last ws = z" "last_ptr None ws = Some z" "z \<noteq> r" "ws \<noteq> []"
      using assms(2) Cons by (metis last_in_set last_ptr_def list.distinct(1))
    have "waittingList (MutexTbl s m) = Some x" using w(1) Cons by simp
    then have "mutex_enqueue m r s = Some (upd_tcb r (TCBnext_update (\<lambda>_. None)) (upd_tcb r (TCBprev_update (\<lambda>_. Some z))
        (upd_tcb z (TCBnext_update (\<lambda>_. Some r)) ?s)))"
      using tl z(1) by (simp add: mutex_enqueue_def Let_def)
    also have "\<dots> = Some (mutex_joined m r ws s)"
      using z by simp (rule kernel.equality; simp add: mutex_joined_def fun_eq_iff)
    finally show ?thesis .
  qed
  let ?s = "mutex_joined m r ws s"
  have "dchain (nextf ?s) (prevf ?s) (if ws = [] then None else p) (ws @ [r]) None"
  proof (cases ws)
    case (Cons x xs)
    have "dchain (nextf ?s) (prevf ?s) p (ws @ [r]) None"
      by (rule dchain_insert [where nx = "nextf s" and pv = "prevf s"])
        (use w assms(2) Cons in \<open>auto simp: mutex_joined_def\<close>)
    then show ?thesis using Cons by simp
  qed (simp add: mutex_joined_def)
  then have "\<exists>p. dchain (nextf ?s) (prevf ?s) p (ws @ [r]) None" by blast
  moreover have "waittingList (MutexTbl ?s m) = hd_ptr (ws @ [r]) None"
    using w(1) by (cases ws) (simp_all add: mutex_joined_def)
  ultimately show "mutex_rep ?s m (ws @ [r])" using w(2) assms(2) by (simp add: mutex_rep_def)
qed

section \<open>Changing the priority of a ready task\<close>

lemma ready_change_prio:
  assumes "CFG_ORDER_LIST_SCHEDULE_EN c" and "rdy_inv c s rs" and "t \<in> set rs"
    and "s1 = upd_tcb t (prio_update (\<lambda>_. v)) s"
  shows "\<exists>s'. (RemoveFromTCBRdyList c t s1 \<bind> InsertToTCBRdyList c t) = Some s' \<and>
    rdy_inv c s' (insort_after (priof s1) t (remove1 t rs)) \<and> rdy_frame s s' \<and>
    links_only (set rs) ((TCBTbl s1)(t := (TCBTbl s1 t)\<lparr>state := TASK_READY\<rparr>)) (TCBTbl s')"
proof -
  obtain as bs where xs: "rs = as @ t # bs" "t \<notin> set as" using split_list_first [OF assms(3)] by auto
  have R: "remove1 t rs = as @ bs" using xs by (simp add: remove1_append)
  have l: "rdy_list s (as @ t # bs)" and so: "sorted (map (priof s) (as @ t # bs))"
    using assms(2) xs by (simp_all add: rdy_inv_def)
  have nt: "t \<notin> set (as @ bs)" using l by (auto simp: rdy_list_def dlist_def)
  have "rdy_list s1 (as @ t # bs) = rdy_list s (as @ t # bs)"
    unfolding rdy_list_def assms(4) by (simp, rule dlist_cong) auto
  note U = rdy_list_unlink [OF this [THEN iffD2, OF l]]
  let ?s2 = "unlink_rdy t s1"
  have "set_option (nextf s1 t) \<subseteq> set rs" "set_option (prevf s1 t) \<subseteq> set rs"
    using dlist_links [OF l [unfolded rdy_list_def]] xs(1) assms(4)
    by (cases bs; cases as rule: rev_cases; simp)+
  then have F: "links_only (set rs) (TCBTbl s1) (TCBTbl ?s2)" using assms(3) by (intro unlink_rdy_frame)
  have "sorted (map (priof s1) (as @ bs))"
  proof -
    have "map (priof s1) (as @ bs) = map (priof s) (as @ bs)" using nt assms(4) by auto
    moreover have "sorted (map (priof s) (as @ bs))" using so by (auto simp: sorted_append)
    ultimately show ?thesis by metis
  qed
  then have I: "rdy_inv c ?s2 (as @ bs)" "priof ?s2 = priof s1" and A: "admissible c ?s2 t"
    using U assms(1) links_onlyD(1) [OF F] by (simp_all add: rdy_inv_def admissible_def)
  obtain s' where s': "InsertToTCBRdyList c t ?s2 = Some s'" "rdy_inv c s' (insort_after (priof s1) t (as @ bs))" "ins_frame t (as @ bs) ?s2 s'"
    using rq.ins_ok [OF I(1) nt A] unfolding I(2) by blast
  have f: "rdy_frame s s'"
  proof -
    have "rdy_frame s ?s2" by (simp add: assms(4))
    then show ?thesis using s'(3) rdy_frame_trans unfolding ins_frame_def by blast
  qed
  have "insert t (set (as @ bs)) = set rs" using xs(1) by auto
  then have "links_only (set rs) ((TCBTbl ?s2)(t := (TCBTbl ?s2 t)\<lparr>state := TASK_READY\<rparr>)) (TCBTbl s')"
    using s'(3) by (simp add: ins_frame_def)
  moreover have "links_only (set rs) ((TCBTbl s1)(t := (TCBTbl s1 t)\<lparr>state := TASK_READY\<rparr>)) ((TCBTbl ?s2)(t := (TCBTbl ?s2 t)\<lparr>state := TASK_READY\<rparr>))"
    unfolding links_only_def
    by (intro allI conjI impI OSTCB.equality) (use links_only_outside [OF F] in \<open>auto simp: links_onlyD [OF F]\<close>)
  ultimately show ?thesis using s'(1,2) f R assms(1) links_only_trans [of "set rs" _ _ "set rs" _ "set rs"] by (auto simp: RemoveFromTCBRdyList_def)
qed

section \<open>Inheritance\<close>

lemma raise_owner_ok:
  assumes "CFG_ORDER_LIST_SCHEDULE_EN c" and "rdy_inv c s rs" and "t \<in> set rs" and "state (TCBTbl s t) = TASK_READY"
    and "r \<notin> set rs"
  shows "\<exists>s'. raise_owner c unl m t r s = Some s' \<and>
    rdy_inv c s' (if priof s r < priof s t then insort_after (priof s') t (remove1 t rs) else rs) \<and>
    priof s' = (priof s)(t := min (priof s t) (priof s r)) \<and> TCBRunning s' = TCBRunning s \<and>
    (\<forall>u. u \<notin> set rs \<longrightarrow> TCBTbl s' u = TCBTbl s u) \<and> OSSchedLock s' = OSSchedLock s \<and>
    (\<forall>u. state (TCBTbl s' u) = state (TCBTbl s u)) \<and>
    MutexTbl s' = (if priof s r < priof s t then (MutexTbl s)(m := (MutexTbl s m)\<lparr>hipriTaskID := taskID (TCBTbl s r)\<rparr>) else MutexTbl s)"
proof (cases "priof s r < priof s t")
  case False
  then have "(priof s)(t := min (priof s t) (priof s r)) = priof s" by (auto simp: fun_eq_iff min_def)
  with False assms(2) show ?thesis by (auto simp: raise_owner_def)
next
  case True
  let ?v = "priof s r"
  define s0 where "s0 = upd_mutex m (hipriTaskID_update (\<lambda>_. taskID (TCBTbl s r))) s"
  let ?s1 = "upd_tcb t (prio_update (\<lambda>_. ?v)) s0"
  have "rdy_inv c s0 rs = rdy_inv c s rs" by (rule rdy_inv_cong) (simp_all add: s0_def)
  with assms(2) have i0: "rdy_inv c s0 rs" by simp
  obtain s' where s': "(RemoveFromTCBRdyList c t ?s1 \<bind> InsertToTCBRdyList c t) = Some s'"
    "rdy_inv c s' (insort_after (priof ?s1) t (remove1 t rs))" "rdy_frame s0 s'"
    "links_only (set rs) ((TCBTbl ?s1)(t := (TCBTbl ?s1 t)\<lparr>state := TASK_READY\<rparr>)) (TCBTbl s')"
    using ready_change_prio [OF assms(1) i0 assms(3) refl] by blast
  have rt: "r \<noteq> t" using assms(3,5) by auto
  have st: "upd_mutex m (hipriTaskID_update (\<lambda>_. taskID (TCBTbl s r))) (upd_tcb t (prio_update (\<lambda>_. ?v)) s) = ?s1"
    by (rule kernel.equality) (simp_all add: s0_def)
  have "raise_owner c unl m t r s = Some s'"
    using True rt assms(1,4) s'(1) st by (simp add: raise_owner_def move_task_pri_def Let_def)
  moreover have "priof s' = priof ?s1" by (simp add: fun_eq_iff links_onlyD [OF s'(4)])
  moreover have "priof ?s1 = (priof s)(t := min (priof s t) (priof s r))"
    using True by (auto simp: fun_eq_iff s0_def min_def)
  moreover have "TCBTbl s' u = TCBTbl s u" if "u \<notin> set rs" for u
    using links_only_outside [OF s'(4) that] that assms(3) by (auto simp: s0_def)
  moreover have "state (TCBTbl s' u) = state (TCBTbl s u)" for u
    using assms(4) by (simp add: links_onlyD [OF s'(4)]) (simp add: s0_def)
  moreover have "MutexTbl s' = MutexTbl s0" "TCBRunning s' = TCBRunning s" "OSSchedLock s' = OSSchedLock s"
    using rdy_frameD [OF s'(3)] by (simp_all add: s0_def)
  ultimately show ?thesis using True s'(2) by (auto simp: s0_def)
qed

section \<open>Handing the mutex over\<close>

text \<open>
  The scan finds the smallest value, and names the first task that has it if it is smaller than the
  value at the start; otherwise the name stays as it was.
\<close>

definition scan_name :: "kernel \<Rightarrow> OS_TID list \<Rightarrow> U8 \<Rightarrow> OS_TID \<Rightarrow> OS_TID" where
  "scan_name s ws v h =
     (let b = fold min (map (priof s) ws) v in
      if b < v then taskID (TCBTbl s (hd (filter (\<lambda>u. priof s u = b) ws))) else h)"

lemma fold_min_le: "fold min xs v \<le> (v :: 'a :: linorder)"
  by (induction xs arbitrary: v) (auto intro: order_trans [OF _ min.cobounded2])

lemma scan_name_Cons:
  "scan_name s (w # ws) v h =
    (if priof s w < v then scan_name s ws (priof s w) (taskID (TCBTbl s w)) else scan_name s ws v h)"
proof (cases "priof s w < v")
  case True
  then have "min (priof s w) v = priof s w" by (auto simp: min_def)
  with True fold_min_le [of "map (priof s) ws" "priof s w"] show ?thesis by (auto simp: scan_name_def Let_def)
next
  case False
  then have "min (priof s w) v = v" by (simp add: min_def not_less)
  with False show ?thesis by (auto simp: scan_name_def Let_def)
qed

lemma scan_name_upd [simp]: "scan_name (upd_mutex m f s) = scan_name s"
  by (simp add: scan_name_def fun_eq_iff Let_def)

lemma hipri_scan_ok:
  assumes "dchain (nextf s) (prevf s) p ws None"
  shows "hipri_scan m (hd_ptr ws None) v s = Some (fold min (map (priof s) ws) v,
    upd_mutex m (hipriTaskID_update (\<lambda>_. scan_name s ws v (hipriTaskID (MutexTbl s m)))) s)"
  using assms
proof (induction ws arbitrary: v s p)
  case Nil
  have "upd_mutex m (hipriTaskID_update (\<lambda>_. hipriTaskID (MutexTbl s m))) s = s" by (rule kernel.equality) simp_all
  then show ?case by (subst hipri_scan.simps) (simp add: scan_name_def)
next
  case (Cons w ws)
  let ?s = "upd_mutex m (hipriTaskID_update (\<lambda>_. taskID (TCBTbl s w))) s"
  have n: "nextf s w = hd_ptr ws None" and d: "dchain (nextf s) (prevf s) (Some w) ws None" using Cons.prems by simp_all
  show ?case
  proof (cases "priof s w < v")
    case True
    have ih: "hipri_scan m (hd_ptr ws None) (priof s w) ?s = Some (fold min (map (priof ?s) ws) (priof s w),
        upd_mutex m (hipriTaskID_update (\<lambda>_. scan_name ?s ws (priof s w) (hipriTaskID (MutexTbl ?s m)))) ?s)"
      by (rule Cons.IH [of ?s "Some w" "priof s w"]) (use d in simp)
    have u: "upd_mutex m (hipriTaskID_update (\<lambda>_. h)) ?s = upd_mutex m (hipriTaskID_update (\<lambda>_. h)) s" for h
      by (rule kernel.equality) simp_all
    have e: "map (priof ?s) ws = map (priof s) ws" "hipriTaskID (MutexTbl ?s m) = taskID (TCBTbl s w)" by simp_all
    have st: "hipri_scan m (hd_ptr (w # ws) None) v s = hipri_scan m (hd_ptr ws None) (priof s w) ?s"
      using True n by (subst hipri_scan.simps) simp
    have f: "fold min (map (priof s) (w # ws)) v = fold min (map (priof s) ws) (priof s w)"
      using True by (simp add: min_absorb1)
    show ?thesis unfolding st ih u e scan_name_upd scan_name_Cons f by (simp only: True if_True)
  next
    case False
    then have f: "fold min (map (priof s) (w # ws)) v = fold min (map (priof s) ws) v" by (simp add: min_absorb2)
    have st: "hipri_scan m (hd_ptr (w # ws) None) v s = hipri_scan m (hd_ptr ws None) v s"
      using False n by (subst hipri_scan.simps) simp
    show ?thesis unfolding st Cons.IH [OF d] scan_name_Cons f by (simp only: False if_False)
  qed
qed

text \<open>The priority of the running task goes down; the caller holds the lock.\<close>

lemma CoSetPriority_running:
  assumes "t \<noteq> 0" and "unat t < task_max c" and "state (TCBTbl s t) = TASK_RUNNING" and "v \<le> CFG_LOWEST_PRIO c"
    and "mutexID (TCBTbl s t) = INVALID_ID" and "CFG_ORDER_LIST_SCHEDULE_EN c" and "OSSchedLock s = 1"
  shows "\<exists>q. CoSetPriority c (OsSchedUnlock c cb) t v s =
    Some (E_OK, upd_tcb t (prio_update (\<lambda>_. v)) s\<lparr>TaskSchedReq := q\<rparr>)"
proof (cases "priof s t = v")
  case True
  then have "upd_tcb t (prio_update (\<lambda>_. v)) s\<lparr>TaskSchedReq := TaskSchedReq s\<rparr> = s"
    by (intro kernel.equality) (simp_all add: fun_eq_iff)
  then show ?thesis using True assms
    by (subst CoSetPriority.simps) (rule exI [of _ "TaskSchedReq s"], simp add: tcb_ptr_def not_less)
next
  case False
  let ?s = "upd_tcb t (prio_update (\<lambda>_. v)) s"
  have eq: "?s\<lparr>OSSchedLock := OSSchedLock ?s\<rparr> = ?s" by simp
  have u: "OsSchedUnlock c cb (OsSchedLock ?s\<lparr>TaskSchedReq := True\<rparr>) = Some (?s\<lparr>TaskSchedReq := True\<rparr>)"
  proof -
    have "OSSchedLock (OsSchedLock ?s\<lparr>TaskSchedReq := True\<rparr>) \<noteq> 1" using assms(7) by (simp add: OsSchedLock_def)
    then show ?thesis using assms(7) unlock_nested [of "OsSchedLock ?s\<lparr>TaskSchedReq := True\<rparr>" c cb]
      by (simp add: OsSchedLock_def)
  qed
  have "CoSetPriority c (OsSchedUnlock c cb) t v s =
      Some (E_OK, if v > prio_at c ?s (TCBRdy ?s) then ?s\<lparr>TaskSchedReq := True\<rparr> else ?s)"
    using False assms u
    by (subst CoSetPriority.simps) (simp add: Let_def tcb_ptr_def not_less set_original_prio_def move_task_pri_def)
  also have "(if v > prio_at c ?s (TCBRdy ?s) then ?s\<lparr>TaskSchedReq := True\<rparr> else ?s) =
      ?s\<lparr>TaskSchedReq := (v > prio_at c ?s (TCBRdy ?s) \<or> TaskSchedReq s)\<rparr>" by simp
  finally show ?thesis by blast
qed

lemma rdy_inv_order_cong:
  assumes "CFG_ORDER_LIST_SCHEDULE_EN c" and "TCBRdy s' = TCBRdy s"
    and "\<And>u. u \<in> set rs \<Longrightarrow> TCBTbl s' u = TCBTbl s u"
  shows "rdy_inv c s' rs = rdy_inv c s rs"
proof -
  have "rdy_list s' rs = rdy_list s rs" unfolding rdy_list_def assms(2) by (rule dlist_cong) (use assms(3) in auto)
  moreover have "map (priof s') rs = map (priof s) rs" using assms(3) by simp
  ultimately show ?thesis using assms(1) unfolding rdy_inv_def by metis
qed

text \<open>The priority at which the next owner runs.\<close>

abbreviation best_prio :: "kernel \<Rightarrow> OS_TID list \<Rightarrow> U8" where
  "best_prio s ws \<equiv> Min (priof s ` set ws)"

lemma fold_min_best: "fold min (map (priof s) ws) (priof s w) = best_prio s (w # ws)"
  using Min.set_eq_fold [of "priof s w" "map (priof s) ws"] by simp

text \<open>
  The priority that goes to the next owner and the task that is recorded as the cause of it: when
  the record names the owner (no inheritance), the best priority that waits and the first task
  behind the next owner that has it, if that is better than the next owner's own; otherwise the
  priority of the owner, and the record stays.
\<close>

definition next_prio :: "kernel \<Rightarrow> OS_MutexID \<Rightarrow> OS_TID list \<Rightarrow> U8" where
  "next_prio s m ws = (if hipriTaskID (MutexTbl s m) = mtx_taskID (MutexTbl s m) then best_prio s ws
     else priof s (mtx_taskID (MutexTbl s m)))"

definition next_hipri :: "kernel \<Rightarrow> OS_MutexID \<Rightarrow> OS_TID list \<Rightarrow> OS_TID" where
  "next_hipri s m ws =
     (if hipriTaskID (MutexTbl s m) = mtx_taskID (MutexTbl s m) \<and> best_prio s ws < priof s (hd ws)
      then taskID (TCBTbl s (hd (filter (\<lambda>u. priof s u = best_prio s ws) ws))) else hipriTaskID (MutexTbl s m))"

lemma handover_prio:
  assumes "mutex_rep s m (w # ws)" and "mtx_taskID (MutexTbl s m) = t" and "unat t < task_max c"
  shows "(if hipriTaskID (MutexTbl s m) = t then do {
          w \<leftarrow> waittingList (MutexTbl s m);
          hipri_scan m (Some w) (prio (TCBTbl s w)) s
        } else do {
          t \<leftarrow> tcb_ptr c t;
          Some (prio (TCBTbl s t), s)
        }) = Some (next_prio s m (w # ws), upd_mutex m (hipriTaskID_update (\<lambda>_. next_hipri s m (w # ws))) s)"
proof (cases "hipriTaskID (MutexTbl s m) = t")
  case True
  obtain p where d: "dchain (nextf s) (prevf s) p (w # ws) None" and h: "waittingList (MutexTbl s m) = Some w"
    using assms(1) by (auto simp: mutex_rep_def)
  have f: "fold min (map (priof s) (w # ws)) (priof s w) = best_prio s (w # ws)"
    using fold_min_best [of s ws w] by simp
  have "scan_name s (w # ws) (priof s w) (hipriTaskID (MutexTbl s m)) = next_hipri s m (w # ws)"
    unfolding scan_name_def next_hipri_def f Let_def using True assms(2) by simp
  with hipri_scan_ok [OF d, of m "priof s w"] f True assms(2) h show ?thesis by (simp add: next_prio_def)
next
  case False
  have "upd_mutex m (hipriTaskID_update (\<lambda>_. hipriTaskID (MutexTbl s m))) s = s" by (rule kernel.equality) simp_all
  then show ?thesis using False assms(2,3) by (simp add: tcb_ptr_def next_prio_def next_hipri_def)
qed

text \<open>Leaving a section that tasks wait for.\<close>

lemma CoLeaveMutexSection_handover:
  assumes "CFG_ORDER_LIST_SCHEDULE_EN c" and "OSIntNesting s = 0" and "OSSchedLock s = 0"
    and "m < MutexFreeID s" and "unat m < CFG_MAX_MUTEX c"
    and "mtx_taskID (MutexTbl s m) = t" and "t \<noteq> 0" and "unat t < task_max c" and "state (TCBTbl s t) = TASK_RUNNING"
    and "originalPrio (MutexTbl s m) \<le> CFG_LOWEST_PRIO c"
    and "rdy_inv c s rs" and "mutex_rep s m (w # ws)" and "t \<notin> set (w # ws)" and "t \<notin> set rs"
    and "set (w # ws) \<inter> set rs = {}" and "taskID (TCBTbl s w) = w"
  shows "\<exists>s'. CoLeaveMutexSection c (OsSchedUnlock c cb) m s = map_option (Pair E_OK) (OsSchedUnlock c cb s') \<and>
    mtx_taskID (MutexTbl s' m) = w \<and> originalPrio (MutexTbl s' m) = priof s w \<and>
    priof s' = (priof s)(t := originalPrio (MutexTbl s m),
      w := if hipriTaskID (MutexTbl s m) = t then Min (priof s ` set (w # ws)) else priof s t) \<and>
    hipriTaskID (MutexTbl s' m) =
      (if hipriTaskID (MutexTbl s m) = t \<and> Min (priof s ` set (w # ws)) < priof s w
       then taskID (TCBTbl s (hd (filter (\<lambda>u. priof s u = Min (priof s ` set (w # ws))) ws)))
       else hipriTaskID (MutexTbl s m)) \<and>
    rdy_inv c s' (insort_after (priof s') w rs) \<and> mutex_rep s' m ws \<and>
    state (TCBTbl s' w) = TASK_READY \<and> state (TCBTbl s' t) = TASK_RUNNING \<and> OSSchedLock s' = 1"
proof -
  let ?unl = "OsSchedUnlock c cb" and ?b = "next_prio s m (w # ws)" and ?o = "originalPrio (MutexTbl s m)"
  define s0 where "s0 = upd_tcb t (mutexID_update (\<lambda>_. INVALID_ID)) (OsSchedLock s)"
  have p0: "prio (TCBTbl s0 u) = prio (TCBTbl s u)" for u by (simp add: s0_def OsSchedLock_def)
  have M0: "MutexTbl s0 = MutexTbl s" by (simp add: s0_def OsSchedLock_def)
  have w0: "mutex_rep s0 m (w # ws)"
    using assms(12) mutex_rep_eqI [of s0 m s "w # ws"] by (simp add: s0_def OsSchedLock_def)
  have tm: "mtx_taskID (MutexTbl s0 m) = t" using assms(6) M0 by simp
  define h where "h = next_hipri s m (w # ws)"
  have T0: "taskID (TCBTbl s0 u) = taskID (TCBTbl s u)" for u by (simp add: s0_def OsSchedLock_def)
  have n0: "next_prio s0 m xs = next_prio s m xs" "next_hipri s0 m xs = next_hipri s m xs" for xs
    unfolding next_prio_def next_hipri_def p0 M0 T0 by (rule refl)+
  note h = handover_prio [OF w0 tm assms(8), unfolded n0, folded h_def]
  let ?s2 = "upd_mutex m (mtx_taskID_update (\<lambda>_. INVALID_ID)) (upd_mutex m (hipriTaskID_update (\<lambda>_. h)) s0)"
  have "\<exists>q. CoSetPriority c ?unl t ?o ?s2 = Some (E_OK, upd_tcb t (prio_update (\<lambda>_. ?o)) ?s2\<lparr>TaskSchedReq := q\<rparr>)"
    by (rule CoSetPriority_running) (use assms in \<open>simp_all add: s0_def OsSchedLock_def\<close>)
  then obtain q where q: "CoSetPriority c ?unl t ?o ?s2 = Some (E_OK, upd_tcb t (prio_update (\<lambda>_. ?o)) ?s2\<lparr>TaskSchedReq := q\<rparr>)" by (rule exE)
  have lw: "waittingList (MutexTbl s m) = Some w" "TCBnext (TCBTbl s w) = hd_ptr ws None" "w \<noteq> t" "w \<notin> set rs" "w \<notin> set ws"
    using assms(12,13,15) by (auto simp: mutex_rep_def)
  define s5 where "s5 = s0\<lparr>TaskSchedReq := q,
    TCBTbl := (TCBTbl s0)(t := (TCBTbl s0 t)\<lparr>prio := ?o\<rparr>, w := (TCBTbl s0 w)\<lparr>prio := ?b, TCBnext := None, TCBprev := None\<rparr>),
    MutexTbl := (MutexTbl s0)(m := (MutexTbl s0 m)\<lparr>hipriTaskID := h, waittingList := hd_ptr ws None, originalPrio := priof s w, mtx_taskID := w\<rparr>)\<rparr>"
  have mv: "(if P then move_task_pri c a b x else Some x) = Some x" for P a b x
    using assms(1) by (simp add: move_task_pri_def)
  have H: "mutex_handover c ?unl m s0 = InsertToTCBRdyList c w s5"
  proof -
    have "mutex_handover c ?unl m s0 = InsertToTCBRdyList c w
       (upd_tcb w (TCBprev_update (\<lambda>_. None)) (upd_tcb w (TCBnext_update (\<lambda>_. None)) (upd_tcb w (prio_update (\<lambda>_. ?b))
         (upd_mutex m (mtx_taskID_update (\<lambda>_. w)) (upd_mutex m (originalPrio_update (\<lambda>_. priof s w))
           (upd_mutex m (waittingList_update (\<lambda>_. hd_ptr ws None)) (upd_tcb t (prio_update (\<lambda>_. ?o)) ?s2\<lparr>TaskSchedReq := q\<rparr>)))))))"
      unfolding mutex_handover_def Let_def tm h mv
      using q lw assms(16) by (simp add: M0 p0) (simp add: s0_def OsSchedLock_def comp_assoc)
    also have "\<dots> = InsertToTCBRdyList c w s5"
      by (rule arg_cong [where f = "InsertToTCBRdyList c w"], rule kernel.equality)
        (use lw in \<open>simp_all add: s5_def fun_eq_iff M0\<close>)
    finally show ?thesis .
  qed
  have "rdy_inv c s5 rs = rdy_inv c s rs"
    by (rule rdy_inv_order_cong [OF assms(1)]) (use lw assms(14) in \<open>auto simp: s5_def s0_def OsSchedLock_def\<close>)
  with assms(11) have i5: "rdy_inv c s5 rs" by simp
  have a5: "admissible c s5 w" using assms(1) by (simp add: admissible_def unlinked_def s5_def)
  obtain s6 where s6: "InsertToTCBRdyList c w s5 = Some s6" "rdy_inv c s6 (insort_after (priof s5) w rs)" "ins_frame w rs s5 s6"
    using rq.ins_ok [OF i5 lw(4) a5] by blast
  note F = ins_frame_tcb [OF s6(3)] and R = rdy_frameD [OF s6(3) [unfolded ins_frame_def, THEN conjunct1]]
  have pr: "priof s6 = priof s5" by (simp add: F fun_eq_iff)
  have "mutex_rep s6 m ws"
  proof -
    have "mutex_rep s6 m ws = mutex_rep s5 m ws"
    proof (rule mutex_rep_eqI)
      show "nextf s6 u = nextf s5 u \<and> prevf s6 u = prevf s5 u" if "u \<in> set ws" for u
      proof -
        have "u \<notin> insert w (set rs)" using that lw(5) assms(15) by auto
        then show ?thesis using F(11) by simp
      qed
    qed (simp add: R)
    moreover have "dchain (nextf s5) (prevf s5) p ws None = dchain (nextf s) (prevf s) p ws None" for p
      by (rule dchain_cong) (use lw(5) in \<open>auto simp: s5_def s0_def OsSchedLock_def\<close>)
    ultimately show ?thesis using assms(12) by (auto simp: mutex_rep_def s5_def)
  qed
  moreover have "CoLeaveMutexSection c ?unl m s = map_option (Pair E_OK) (?unl s6)"
    using assms(2-8) H s6(1) lw(1)
    by (cases "?unl s6") (simp_all add: CoLeaveMutexSection_def s0_def OsSchedLock_def mutex_ptr_def tcb_ptr_def not_le)
  moreover have "priof s5 = (priof s)(t := ?o, w := ?b)" using lw(3) by (auto simp: s5_def p0 fun_eq_iff)
  moreover have "?b = (if hipriTaskID (MutexTbl s m) = t then Min (priof s ` set (w # ws)) else priof s t)"
    unfolding next_prio_def assms(6) by (rule refl)
  moreover have "hipriTaskID (MutexTbl s6 m) =
      (if hipriTaskID (MutexTbl s m) = t \<and> Min (priof s ` set (w # ws)) < priof s w
       then taskID (TCBTbl s (hd (filter (\<lambda>u. priof s u = Min (priof s ` set (w # ws))) ws)))
       else hipriTaskID (MutexTbl s m))"
  proof -
    have "hipriTaskID (MutexTbl s6 m) = h" by (simp add: R s5_def)
    then show ?thesis unfolding h_def next_hipri_def assms(6) by auto
  qed
  moreover have "state (TCBTbl s6 w) = TASK_READY" "state (TCBTbl s6 t) = TASK_RUNNING"
    using assms(9) lw(3) by (simp_all add: F) (simp add: s5_def s0_def OsSchedLock_def)
  moreover have "mtx_taskID (MutexTbl s6 m) = w" "originalPrio (MutexTbl s6 m) = priof s w" "OSSchedLock s6 = 1"
    using assms(3) by (simp_all add: R s5_def s0_def OsSchedLock_def)
  ultimately show ?thesis using s6(2) unfolding pr [symmetric] by (intro exI [of _ s6] conjI) simp_all
qed

section \<open>Properties\<close>

text \<open>
  C29. A task that finds the mutex taken waits, and its priority counts for the owner: the owner,
  ready and of lower priority, inherits it and moves to its new place in the READY list; an owner
  of at least that priority stays as it is. The caller is the last of the waiting list, the mutex
  keeps its owner and the priority to return to, no other task's priority changes, and a
  reschedule is requested.
\<close>

theorem mutex_priority_inheritance:
  assumes "CFG_ORDER_LIST_SCHEDULE_EN c" and "OSIntNesting s = 0" and "OSSchedLock s = 0"
    and "m < MutexFreeID s" and "unat m < CFG_MAX_MUTEX c"
    and "mutexFlag (MutexTbl s m) = MUTEX_OCCUPY" and "mtx_taskID (MutexTbl s m) = t" and "unat t < task_max c"
    and "TCBRunning s = Some r" and "rdy_inv c s rs" and "t \<in> set rs" and "state (TCBTbl s t) = TASK_READY" and "r \<notin> set rs"
    and "mutex_rep s m ws" and "r \<notin> set ws" and "set ws \<inter> set rs = {}"
  shows "\<exists>s'. CoEnterMutexSection c unl m s = map_option (Pair E_OK) (unl s') \<and>
    priof s' = (priof s)(t := min (priof s t) (priof s r)) \<and>
    rdy_inv c s' (if priof s r < priof s t then insort_after (priof s') t (remove1 t rs) else rs) \<and>
    mutex_rep s' m (ws @ [r]) \<and> state (TCBTbl s' r) = TASK_WAITING \<and> mutexID (TCBTbl s' r) = m \<and>
    (\<forall>u. u \<noteq> r \<longrightarrow> state (TCBTbl s' u) = state (TCBTbl s u)) \<and>
    mtx_taskID (MutexTbl s' m) = t \<and> originalPrio (MutexTbl s' m) = originalPrio (MutexTbl s m) \<and>
    TaskSchedReq s' \<and> OSSchedLock s' = 1"
proof -
  define s0 where "s0 = upd_tcb r (mutexID_update (\<lambda>_. m)) (OsSchedLock s)"
  have i: "rdy_inv c s0 rs" using assms(10) rdy_inv_cong_on [of s0 s rs c] by (simp add: s0_def OsSchedLock_def)
  have p: "prio (TCBTbl s0 u) = prio (TCBTbl s u)" for u by (simp add: s0_def OsSchedLock_def)
  have "state (TCBTbl s0 t) = TASK_READY" using assms(12) by (auto simp: s0_def OsSchedLock_def)
  from raise_owner_ok [OF assms(1) i assms(11) this assms(13), of unl m]
  obtain s1 where s1: "raise_owner c unl m t r s0 = Some s1"
    "rdy_inv c s1 (if priof s r < priof s t then insort_after (priof s1) t (remove1 t rs) else rs)"
    "priof s1 = (priof s)(t := min (priof s t) (priof s r))"
    "\<forall>u. u \<notin> set rs \<longrightarrow> TCBTbl s1 u = TCBTbl s0 u" "OSSchedLock s1 = OSSchedLock s0"
    "\<forall>u. state (TCBTbl s1 u) = state (TCBTbl s0 u)"
    "MutexTbl s1 = (if priof s r < priof s t then (MutexTbl s0)(m := (MutexTbl s0 m)\<lparr>hipriTaskID := taskID (TCBTbl s0 r)\<rparr>) else MutexTbl s0)"
    unfolding p by blast
  have w: "mutex_rep s1 m ws = mutex_rep s m ws"
  proof (rule mutex_rep_eqI)
    show "nextf s1 u = nextf s u \<and> prevf s1 u = prevf s u" if "u \<in> set ws" for u
    proof -
      have "u \<notin> set rs" "u \<noteq> r" using that assms(15,16) by auto
      then show ?thesis using s1(4) by (simp add: s0_def OsSchedLock_def)
    qed
  qed (simp add: s1(7) s0_def OsSchedLock_def)
  note E = mutex_enqueue_ok [OF w [THEN iffD2, OF assms(14)] assms(15)]
  let ?s2 = "mutex_joined m r ws s1"
  have l: "ws \<noteq> [] \<Longrightarrow> last ws \<notin> set rs" using assms(16) last_in_set by blast
  let ?R = "if priof s r < priof s t then insort_after (priof s1) t (remove1 t rs) else rs"
  have pr: "priof ?s2 = priof s1" by (simp add: mutex_joined_def fun_eq_iff)
  have "set ?R \<subseteq> set rs" using assms(11) by (auto dest: set_remove1_subset [THEN subsetD])
  then have "rdy_inv c ?s2 ?R = rdy_inv c s1 ?R"
    by (intro rdy_inv_cong_on) (use l assms(13) in \<open>auto simp: mutex_joined_def\<close>)
  with s1(2) have rdy: "rdy_inv c ?s2 ?R" by simp
  have call: "CoEnterMutexSection c unl m s = map_option (Pair E_OK) (unl ?s2)"
    using assms(2-9) s1(1) E(1)
    by (cases "unl ?s2") (simp_all add: CoEnterMutexSection_def s0_def OsSchedLock_def mutex_ptr_def tcb_ptr_def not_le)
  have "TCBTbl s1 r = TCBTbl s0 r" using s1(4) assms(13) by blast
  then have tcb: "state (TCBTbl ?s2 r) = TASK_WAITING \<and> mutexID (TCBTbl ?s2 r) = m \<and>
      (\<forall>u. u \<noteq> r \<longrightarrow> state (TCBTbl ?s2 u) = state (TCBTbl s u))"
    using s1(6) by (simp add: mutex_joined_def s0_def OsSchedLock_def)
  have "mtx_taskID (MutexTbl ?s2 m) = t \<and> originalPrio (MutexTbl ?s2 m) = originalPrio (MutexTbl s m)"
    using s1(7) assms(7) by (simp add: mutex_joined_def s0_def OsSchedLock_def)
  moreover have "TaskSchedReq ?s2 \<and> OSSchedLock ?s2 = 1"
    using s1(5) assms(3) by (simp add: mutex_joined_def s0_def OsSchedLock_def)
  ultimately show ?thesis using call rdy tcb E(2) s1(3) unfolding pr [symmetric] by blast
qed

text \<open>
  Task 4 (priority 2) runs, tasks 2 (priority 3) and 1 (priority 5) are ready, and task 1 holds
  mutex 0.
\<close>

definition mutex_example :: kernel where
  "mutex_example = sched_example\<lparr>TCBTbl := (TCBTbl sched_example)(4 := (TCBTbl sched_example 4)\<lparr>prio := 2\<rparr>),
     MutexFreeID := 1, MutexTbl := (\<lambda>_. \<lparr>originalPrio = 5, mutexFlag = MUTEX_OCCUPY, mtx_taskID = 1, hipriTaskID = 1, waittingList = None\<rparr>)\<rparr>"

theorem mutex_priority_inheritance_witness:
  "\<exists>s'. CoEnterMutexSection OsConfig Some 0 mutex_example = Some (E_OK, s') \<and> prio (TCBTbl s' 1) = 2 \<and>
     rdy_inv OsConfig s' [1, 2] \<and> mutex_rep s' 0 [4]"
proof -
  note ex = mutex_example_def sched_example_def ready_example_defs
  have p: "priof mutex_example 1 = 5" "priof mutex_example 2 = 3" "priof mutex_example 4 = 2" by (simp_all add: ex)
  have e: "min (5 :: U8) 2 = 2" "(2 :: U8) < 5 \<longleftrightarrow> True" "remove1 (1 :: U8) [2, 1] = [2]" "(if True then x else y) = x" for x y :: "OS_TID list"
    by (simp_all add: min_def)
  have "rdy_inv OsConfig mutex_example [2, 1]" by (simp add: rdy_inv_def rdy_list_def dlist_def ex)
  moreover have "mutex_rep mutex_example 0 []" by (simp add: mutex_rep_def mutex_example_def)
  ultimately have "\<exists>s'. CoEnterMutexSection OsConfig Some 0 mutex_example = map_option (Pair E_OK) (Some s') \<and>
    priof s' = (priof mutex_example)(1 := min (priof mutex_example 1) (priof mutex_example 4)) \<and>
    rdy_inv OsConfig s' (if priof mutex_example 4 < priof mutex_example 1 then insort_after (priof s') 1 (remove1 1 [2, 1]) else [2, 1]) \<and>
    mutex_rep s' 0 ([] @ [4]) \<and> state (TCBTbl s' 4) = TASK_WAITING \<and> mutexID (TCBTbl s' 4) = 0 \<and>
    (\<forall>u. u \<noteq> 4 \<longrightarrow> state (TCBTbl s' u) = state (TCBTbl mutex_example u)) \<and>
    mtx_taskID (MutexTbl s' 0) = 1 \<and> originalPrio (MutexTbl s' 0) = originalPrio (MutexTbl mutex_example 0) \<and>
    TaskSchedReq s' \<and> OSSchedLock s' = 1"
    by (intro mutex_priority_inheritance) (simp_all add: ex task_max_def SYS_TASK_NUM_def)
  then obtain s' where s': "CoEnterMutexSection OsConfig Some 0 mutex_example = Some (E_OK, s')"
    "priof s' = (priof mutex_example)(1 := 2)" "rdy_inv OsConfig s' (insort_after (priof s') 1 [2])" "mutex_rep s' 0 [4]"
    unfolding p e append_Nil option.map by blast
  have "prio (TCBTbl s' 1) = 2" "prio (TCBTbl s' 2) = 3" using fun_cong [OF s'(2), of 1] fun_cong [OF s'(2), of 2] p by simp_all
  moreover from this have "insort_after (priof s') 1 [2] = [1, 2]" by simp
  ultimately show ?thesis using s' by metis
qed

text \<open>
  The record outlives its task. Task 4 (priority 1) owns mutex 0, tasks 3 (priority 5) and 5 (priority 7)
  wait. Task 4 leaves: task 3 gets the mutex at its own priority 5, and the record still names task 4.
  When task 3 leaves in turn, the record is taken for an inheritance and task 5 gets priority 5,
  although only priority 7 waits.
\<close>

definition stale_example :: "OS_TID \<Rightarrow> kernel" where
  "stale_example owner = sched_example\<lparr>TCBTbl := (TCBTbl sched_example)(
       4 := (TCBTbl sched_example 4)\<lparr>prio := 1, state := if owner = 4 then TASK_RUNNING else TASK_WAITING\<rparr>,
       3 := OSTCB_zero\<lparr>taskID := 3, prio := 5, state := if owner = 4 then TASK_WAITING else TASK_RUNNING,
         TCBnext := if owner = 4 then Some 5 else None\<rparr>,
       5 := OSTCB_zero\<lparr>taskID := 5, prio := 7, state := TASK_WAITING, TCBprev := Some 3\<rparr>),
     TCBRunning := Some owner, MutexFreeID := 1,
     MutexTbl := (\<lambda>_. \<lparr>originalPrio = if owner = 4 then 1 else 5, mutexFlag = MUTEX_OCCUPY, mtx_taskID = owner, hipriTaskID = 4,
       waittingList = Some (if owner = 4 then 3 else 5)\<rparr>)\<rparr>"

lemma stale_example_facts:
  assumes "owner = 4 \<and> ws = [5] \<and> w = 3 \<or> owner = 3 \<and> ws = [] \<and> w = 5"
  shows "CFG_ORDER_LIST_SCHEDULE_EN OsConfig" "OSIntNesting (stale_example owner) = 0" "OSSchedLock (stale_example owner) = 0"
    "0 < MutexFreeID (stale_example owner)" "unat (0 :: OS_MutexID) < CFG_MAX_MUTEX OsConfig"
    "mtx_taskID (MutexTbl (stale_example owner) 0) = owner" "owner \<noteq> 0" "unat owner < task_max OsConfig"
    "state (TCBTbl (stale_example owner) owner) = TASK_RUNNING"
    "originalPrio (MutexTbl (stale_example owner) 0) \<le> CFG_LOWEST_PRIO OsConfig"
    "rdy_inv OsConfig (stale_example owner) [2, 1]" "mutex_rep (stale_example owner) 0 (w # ws)"
    "owner \<notin> set (w # ws)" "owner \<notin> set [2, 1]" "set (w # ws) \<inter> set [2, 1] = {}" "taskID (TCBTbl (stale_example owner) w) = w"
  using assms by (auto simp: stale_example_def sched_example_def ready_example_defs task_max_def SYS_TASK_NUM_def
      rdy_inv_def rdy_list_def dlist_def mutex_rep_def)

theorem mutex_record_stale:
  "(\<exists>s'. CoLeaveMutexSection OsConfig (OsSchedUnlock OsConfig cb) 0 (stale_example 4) =
        map_option (Pair E_OK) (OsSchedUnlock OsConfig cb s') \<and> mtx_taskID (MutexTbl s' 0) = 3 \<and>
      hipriTaskID (MutexTbl s' 0) = 4 \<and> originalPrio (MutexTbl s' 0) = 5 \<and> priof s' 3 = 5 \<and> mutex_rep s' 0 [5]) \<and>
   (\<exists>s'. CoLeaveMutexSection OsConfig (OsSchedUnlock OsConfig cb) 0 (stale_example 3) =
        map_option (Pair E_OK) (OsSchedUnlock OsConfig cb s') \<and> mtx_taskID (MutexTbl s' 0) = 5 \<and>
      priof s' 5 = 5 \<and> originalPrio (MutexTbl s' 0) = 7)"
proof
  have p: "priof (stale_example x) 4 = 1" "priof (stale_example x) 3 = 5" "priof (stale_example x) 5 = 7"
    "hipriTaskID (MutexTbl (stale_example x) 0) = 4" for x
    by (simp_all add: stale_example_def)
  show "\<exists>s'. CoLeaveMutexSection OsConfig (OsSchedUnlock OsConfig cb) 0 (stale_example 4) =
        map_option (Pair E_OK) (OsSchedUnlock OsConfig cb s') \<and> mtx_taskID (MutexTbl s' 0) = 3 \<and>
      hipriTaskID (MutexTbl s' 0) = 4 \<and> originalPrio (MutexTbl s' 0) = 5 \<and> priof s' 3 = 5 \<and> mutex_rep s' 0 [5]"
  proof -
    obtain s' where "CoLeaveMutexSection OsConfig (OsSchedUnlock OsConfig cb) 0 (stale_example 4) =
        map_option (Pair E_OK) (OsSchedUnlock OsConfig cb s')" "mtx_taskID (MutexTbl s' 0) = 3" "mutex_rep s' 0 [5]"
      "originalPrio (MutexTbl s' 0) = priof (stale_example 4) 3"
      and f: "priof s' = (priof (stale_example 4))(4 := originalPrio (MutexTbl (stale_example 4) 0),
        3 := if hipriTaskID (MutexTbl (stale_example 4) 0) = 4 then Min (priof (stale_example 4) ` set [3, 5]) else priof (stale_example 4) 4)"
        "hipriTaskID (MutexTbl s' 0) = (if hipriTaskID (MutexTbl (stale_example 4) 0) = 4 \<and> Min (priof (stale_example 4) ` set [3, 5]) < priof (stale_example 4) 3
         then taskID (TCBTbl (stale_example 4) (hd (filter (\<lambda>u. priof (stale_example 4) u = Min (priof (stale_example 4) ` set [3, 5])) [5])))
         else hipriTaskID (MutexTbl (stale_example 4) 0))"
      using CoLeaveMutexSection_handover [OF stale_example_facts [of 4 "[5]" 3], of cb] by blast
    moreover have "Min (priof (stale_example 4) ` set [3, 5]) = 5" by (simp add: p min_def)
    ultimately show ?thesis using fun_cong [OF f(1), of 3] by (auto simp: p)
  qed
  obtain s' where "CoLeaveMutexSection OsConfig (OsSchedUnlock OsConfig cb) 0 (stale_example 3) =
        map_option (Pair E_OK) (OsSchedUnlock OsConfig cb s')" "mtx_taskID (MutexTbl s' 0) = 5"
    "originalPrio (MutexTbl s' 0) = priof (stale_example 3) 5"
    and f: "priof s' = (priof (stale_example 3))(3 := originalPrio (MutexTbl (stale_example 3) 0),
      5 := if hipriTaskID (MutexTbl (stale_example 3) 0) = 3 then Min (priof (stale_example 3) ` set [5]) else priof (stale_example 3) 3)"
    using CoLeaveMutexSection_handover [OF stale_example_facts [of 3 "[]" 5], of cb] by blast
  then show "\<exists>s'. CoLeaveMutexSection OsConfig (OsSchedUnlock OsConfig cb) 0 (stale_example 3) =
        map_option (Pair E_OK) (OsSchedUnlock OsConfig cb s') \<and> mtx_taskID (MutexTbl s' 0) = 5 \<and>
      priof s' 5 = 5 \<and> originalPrio (MutexTbl s' 0) = 7"
    using fun_cong [OF f, of 5] by (auto simp: p)
qed

text \<open>
  C30. The running owner leaves a section that tasks wait for: the mutex goes to the task that came
  first, which becomes ready; the former owner returns to its original priority and keeps running
  until the lock opens; the other tasks stay in the waiting list, and the new owner's own priority
  is what it will return to. If no inheritance is recorded (\<open>hipriTaskID\<close> names the owner), the new
  owner gets the highest priority of all that wait, itself included, and the record names the task
  that has it, but still the former owner if that is the new owner itself. If an inheritance is
  recorded, the new owner gets the priority of the former owner, whatever priorities wait, and the
  record stays. (In the ordered-list configuration.)
\<close>

theorem mutex_handover_ok:
  assumes "CFG_ORDER_LIST_SCHEDULE_EN c" and "OSIntNesting s = 0" and "OSSchedLock s = 0"
    and "m < MutexFreeID s" and "unat m < CFG_MAX_MUTEX c"
    and "mtx_taskID (MutexTbl s m) = t" and "t \<noteq> 0" and "unat t < task_max c" and "state (TCBTbl s t) = TASK_RUNNING"
    and "originalPrio (MutexTbl s m) \<le> CFG_LOWEST_PRIO c"
    and "rdy_inv c s rs" and "mutex_rep s m (w # ws)" and "t \<notin> set (w # ws)" and "t \<notin> set rs"
    and "set (w # ws) \<inter> set rs = {}" and "taskID (TCBTbl s w) = w"
  shows "\<exists>s'. CoLeaveMutexSection c (OsSchedUnlock c cb) m s = map_option (Pair E_OK) (OsSchedUnlock c cb s') \<and>
    mtx_taskID (MutexTbl s' m) = w \<and> originalPrio (MutexTbl s' m) = priof s w \<and>
    priof s' = (priof s)(t := originalPrio (MutexTbl s m),
      w := if hipriTaskID (MutexTbl s m) = t then Min (priof s ` set (w # ws)) else priof s t) \<and>
    hipriTaskID (MutexTbl s' m) =
      (if hipriTaskID (MutexTbl s m) = t \<and> Min (priof s ` set (w # ws)) < priof s w
       then taskID (TCBTbl s (hd (filter (\<lambda>u. priof s u = Min (priof s ` set (w # ws))) ws)))
       else hipriTaskID (MutexTbl s m)) \<and>
    rdy_inv c s' (insort_after (priof s') w rs) \<and> mutex_rep s' m ws \<and>
    state (TCBTbl s' w) = TASK_READY \<and> state (TCBTbl s' t) = TASK_RUNNING \<and> OSSchedLock s' = 1"
  using assms by (rule CoLeaveMutexSection_handover)

text \<open>Task 4 (priority 7, raised to 2) owns mutex 0, task 3 (priority 5) came first and task 5 (priority 2) second.\<close>

definition handover_example :: kernel where
  "handover_example = sched_example\<lparr>TCBTbl := (TCBTbl sched_example)(4 := (TCBTbl sched_example 4)\<lparr>prio := 2\<rparr>,
       3 := OSTCB_zero\<lparr>taskID := 3, prio := 5, state := TASK_WAITING, TCBnext := Some 5\<rparr>,
       5 := OSTCB_zero\<lparr>taskID := 5, prio := 2, state := TASK_WAITING, TCBprev := Some 3\<rparr>),
     MutexFreeID := 1, MutexTbl := (\<lambda>_. \<lparr>originalPrio = 7, mutexFlag = MUTEX_OCCUPY, mtx_taskID = 4, hipriTaskID = 5, waittingList = Some 3\<rparr>)\<rparr>"

lemma handover_example_facts:
  "CFG_ORDER_LIST_SCHEDULE_EN OsConfig" "OSIntNesting handover_example = 0" "OSSchedLock handover_example = 0"
  "0 < MutexFreeID handover_example" "unat (0 :: OS_MutexID) < CFG_MAX_MUTEX OsConfig"
  "mtx_taskID (MutexTbl handover_example 0) = 4" "(4 :: OS_TID) \<noteq> 0" "unat (4 :: OS_TID) < task_max OsConfig"
  "state (TCBTbl handover_example 4) = TASK_RUNNING" "originalPrio (MutexTbl handover_example 0) \<le> CFG_LOWEST_PRIO OsConfig"
  "rdy_inv OsConfig handover_example [2, 1]" "mutex_rep handover_example 0 [3, 5]"
  "4 \<notin> set [3, 5 :: OS_TID]" "4 \<notin> set [2, 1 :: OS_TID]" "set [3, 5] \<inter> set [2, 1 :: OS_TID] = {}"
  "taskID (TCBTbl handover_example 3) = 3"
  by (auto simp: handover_example_def sched_example_def ready_example_defs task_max_def SYS_TASK_NUM_def
      rdy_inv_def rdy_list_def dlist_def mutex_rep_def)

theorem mutex_handover_ok_witness:
  "\<exists>s'. CoLeaveMutexSection OsConfig (OsSchedUnlock OsConfig (\<lambda>_. Some)) 0 handover_example =
       map_option (Pair E_OK) (OsSchedUnlock OsConfig (\<lambda>_. Some) s') \<and>
     mtx_taskID (MutexTbl s' 0) = 3 \<and> prio (TCBTbl s' 4) = 7 \<and> prio (TCBTbl s' 3) = 2 \<and> mutex_rep s' 0 [5]"
proof -
  obtain s' where s': "CoLeaveMutexSection OsConfig (OsSchedUnlock OsConfig (\<lambda>_. Some)) 0 handover_example =
       map_option (Pair E_OK) (OsSchedUnlock OsConfig (\<lambda>_. Some) s')" "mtx_taskID (MutexTbl s' 0) = 3" "mutex_rep s' 0 [5]"
    "priof s' = (priof handover_example)(4 := originalPrio (MutexTbl handover_example 0),
       3 := if hipriTaskID (MutexTbl handover_example 0) = 4 then Min (priof handover_example ` set [3, 5]) else priof handover_example 4)"
    using mutex_handover_ok [OF handover_example_facts, of "\<lambda>_. Some"] by blast
  have "prio (TCBTbl handover_example 4) = 2" "originalPrio (MutexTbl handover_example 0) = 7" "hipriTaskID (MutexTbl handover_example 0) = 5"
    by (simp_all add: handover_example_def sched_example_def)
  then have "prio (TCBTbl s' 4) = 7" "prio (TCBTbl s' 3) = 2" using fun_cong [OF s'(4), of 4] fun_cong [OF s'(4), of 3] by simp_all
  with s' show ?thesis by blast
qed

end
