(* ===== verification/FlagWait.thy ===== *)
theory FlagWait
  imports Flag
begin

text \<open>
  The waiting list of \<open>flag.c\<close> and the calls that wake its tasks: which tasks \<open>CoSetFlag\<close> makes
  ready, and what it leaves of the list.
\<close>

section \<open>The list of waiting nodes\<close>

abbreviation fnext :: "kernel \<Rightarrow> OS_TID \<Rightarrow> OS_TID option" where
  "fnext s \<equiv> (\<lambda>n. nextNode (FlagNodes s n))"

abbreviation fprev :: "kernel \<Rightarrow> OS_TID \<Rightarrow> OS_TID option" where
  "fprev s \<equiv> (\<lambda>n. prevNode (FlagNodes s n))"

definition flag_rep :: "kernel \<Rightarrow> OS_TID list \<Rightarrow> bool" where
  "flag_rep s ns \<longleftrightarrow> dlist (fnext s) (fprev s) (headNode (FlagCrl s)) ns \<and> tailNode (FlagCrl s) = last_ptr None ns \<and>
     (\<forall>n \<in> set ns. waitTask (FlagNodes s n) = n)"

lemma flag_rep_eqI:
  assumes "FlagCrl s' = FlagCrl s" and "FlagNodes s' = FlagNodes s"
  shows "flag_rep s' ns = flag_rep s ns"
  using assms by (simp add: flag_rep_def)

lemma RemoveLinkNode_eq:
  assumes "flag_rep s (as @ n # bs)"
  shows "RemoveLinkNode n s = upd_tcb n (pnode_update (\<lambda>_. PNode_null)) s\<lparr>
    FlagCrl := (FlagCrl s)\<lparr>headNode := hd_ptr (as @ bs) None, tailNode := last_ptr None (as @ bs)\<rparr>,
    FlagNodes := (\<lambda>x. if bs \<noteq> [] \<and> x = hd bs then (FlagNodes s x)\<lparr>prevNode := last_ptr None as\<rparr>
                  else if as \<noteq> [] \<and> x = last as then (FlagNodes s x)\<lparr>nextNode := hd_ptr bs None\<rparr> else FlagNodes s x)\<rparr>"
proof -
  have dl: "dlist (fnext s) (fprev s) (headNode (FlagCrl s)) (as @ n # bs)" and tl: "tailNode (FlagCrl s) = last_ptr None (as @ n # bs)"
    and wt: "waitTask (FlagNodes s n) = n" using assms by (auto simp: flag_rep_def)
  have nx: "nextNode (FlagNodes s n) = hd_ptr bs None" and pv: "prevNode (FlagNodes s n) = last_ptr None as"
    using dlist_links [OF dl] by simp_all
  have d: "distinct (as @ n # bs)" and h: "headNode (FlagCrl s) = hd_ptr (as @ n # bs) None"
    using dl by (auto simp: dlist_def)
  show ?thesis
  proof (cases bs; cases as rule: rev_cases)
    assume "bs = []" "as = []"
    with nx pv h tl wt show ?thesis by (simp add: RemoveLinkNode_def)
  next
    fix ys y assume e: "bs = []" "as = ys @ [y]"
    with d have "n \<noteq> y" by auto
    with e nx pv h tl wt show ?thesis
      by (simp add: RemoveLinkNode_def) (rule kernel.equality; simp add: fun_eq_iff)
  next
    fix z zs assume e: "bs = z # zs" "as = []"
    with d have "n \<noteq> z" by auto
    with e nx pv h tl wt show ?thesis
      by (simp add: RemoveLinkNode_def) (rule kernel.equality; simp add: fun_eq_iff)
  next
    fix z zs ys y assume e: "bs = z # zs" "as = ys @ [y]"
    with d have "n \<noteq> y" "n \<noteq> z" "z \<noteq> y" by auto
    with e nx pv h tl wt show ?thesis
      by (simp add: RemoveLinkNode_def) (rule kernel.equality; simp add: fun_eq_iff)
  qed
qed

lemma RemoveLinkNode_rep:
  assumes "flag_rep s (as @ n # bs)"
  shows "flag_rep (RemoveLinkNode n s) (as @ bs)"
proof -
  note eq = RemoveLinkNode_eq [OF assms]
  let ?s = "RemoveLinkNode n s"
  have ch: "dchain (fnext s) (fprev s) None (as @ n # bs) None" and d: "distinct (as @ n # bs)"
    using assms by (auto simp: flag_rep_def dlist_def)
  have x: "\<not> (as \<noteq> [] \<and> bs \<noteq> [] \<and> last as = hd bs)" using d by (cases as rule: rev_cases; cases bs) auto
  have "dchain (fnext ?s) (fprev ?s) None (as @ bs) None"
    by (rule dchain_remove [OF ch d]) (use x in \<open>auto simp: eq\<close>)
  with d have "dlist (fnext ?s) (fprev ?s) (headNode (FlagCrl ?s)) (as @ bs)" by (simp add: dlist_def eq)
  moreover have "waitTask (FlagNodes ?s u) = u" if "u \<in> set (as @ bs)" for u
    using that assms by (auto simp: eq flag_rep_def)
  ultimately show ?thesis by (simp add: flag_rep_def eq)
qed

section \<open>Waking a task\<close>

text \<open>The other sleeping tasks go on sleeping when \<open>t\<close> is taken out of the DELAY list and made ready.\<close>

lemma dly_rep_valid_tick:
  assumes "dly_rep s ds" and "t \<in> fst ` set ds"
  shows "tickf s t \<noteq> INVALID_VALUE"
proof -
  obtain xs where xs: "map fst ds = xs" "total (tickf s) xs < 2 ^ 31"
    using assms(1) unfolding dly_rep_def by (rule delta_repE)
  have "t \<in> set xs" using assms(2) xs(1) by (metis image_set)
  then have "unat (tickf s t) \<le> total (tickf s) xs" by (intro member_le_sum_list) auto
  with xs(2) show ?thesis by (auto simp: INVALID_VALUE_def)
qed

lemma sleeping_wake:
  assumes "lists_inv c s rs ds" and "sleeping c s rs ds t" and "sleeping c s rs ds u" and "u \<noteq> t"
    and "same_lists (stop_delay t s) s1" and "InsertToTCBRdyList c t s1 = Some s2"
    and "lists_inv c s2 (insort_after (priof s) t rs) (filter (\<lambda>p. fst p \<noteq> t) ds)" and "ins_frame t rs s1 s2"
  shows "sleeping c s2 (insort_after (priof s) t rs) (filter (\<lambda>p. fst p \<noteq> t) ds) u"
proof -
  note D = stop_delay_ok [OF assms(1,2)] and I = ins_frame_tcb [OF assms(8)]
  have uq: "u \<notin> insert t (set rs)" using assms(3,4) by (simp add: sleeping_def)
  have e: "TCBTbl s2 u = TCBTbl s1 u" by (rule I(11) [OF uq])
  have pa: "pri_active s2 p = pri_active s p" for p
  proof -
    have "PriNum s2 = PriNum s1" "ActivePri s2 = ActivePri s1" using assms(8) rdy_frameD(4,5) by (auto simp: ins_frame_def)
    moreover have "PriNum s1 = PriNum (stop_delay t s)" "ActivePri s1 = ActivePri (stop_delay t s)" using assms(5) by (simp_all add: same_lists_def)
    moreover have "PriNum (stop_delay t s) = PriNum s" "ActivePri (stop_delay t s) = ActivePri s" using dly_frame_rest [OF D(4)] by simp_all
    ultimately show ?thesis by (simp add: pri_active_def)
  qed
  have p: "priof s2 u = priof s u" "taskID (TCBTbl s2 u) = taskID (TCBTbl s u)"
    using e assms(5) dly_frame_simps [OF D(4)] by (simp_all add: same_lists_def)
  show ?thesis
  proof (cases "u \<in> fst ` set ds")
    case True
    then have "u \<in> fst ` set (filter (\<lambda>p. fst p \<noteq> t) ds)" using assms(4) by force
    moreover have "tickf s2 u \<noteq> INVALID_VALUE"
      using dly_rep_valid_tick [OF _ calculation] assms(7) by (simp add: lists_inv_def)
    ultimately show ?thesis using assms(3) uq p pa by (auto simp: sleeping_def valid_tid_def)
  next
    case False
    then have "TCBTbl (stop_delay t s) u = TCBTbl s u" using dly_frame_simps(9) [OF D(4)] assms(4) by simp
    then have "nextf s2 u = nextf s u" "prevf s2 u = prevf s u" "tickf s2 u = tickf s u"
      using e assms(5) by (simp_all add: same_lists_def)
    moreover have "tickf s u = INVALID_VALUE" "unlinked s u" using False assms(3) by (auto simp: sleeping_def split: if_splits)
    ultimately show ?thesis using False assms(3) uq p pa by (auto simp: sleeping_def valid_tid_def unlinked_def)
  qed
qed

text \<open>\<open>RemoveFromLink\<close> takes the node out of the list and makes its task ready.\<close>

lemma RemoveFromLink_ok:
  assumes "flag_rep s (as @ n # bs)" and "lists_inv c s rs ds" and "sleeping c s rs ds n" and "TCBRunning s \<noteq> Some n"
  shows "\<exists>s'. RemoveFromLink c n s = Some (hd_ptr bs None, s') \<and> flag_rep s' (as @ bs) \<and>
    lists_inv c s' (insort_after (priof s) n rs) (filter (\<lambda>p. fst p \<noteq> n) ds) \<and>
    (\<forall>u. u \<noteq> n \<longrightarrow> sleeping c s rs ds u \<longrightarrow> sleeping c s' (insort_after (priof s) n rs) (filter (\<lambda>p. fst p \<noteq> n) ds) u) \<and>
    (\<forall>u. waitFlags (FlagNodes s' u) = waitFlags (FlagNodes s u) \<and> waitType (FlagNodes s' u) = waitType (FlagNodes s u)) \<and>
    flagRdy (FlagCrl s') = flagRdy (FlagCrl s) \<and> resetOpt (FlagCrl s') = resetOpt (FlagCrl s) \<and>
    TCBRunning s' = TCBRunning s \<and> priof s' = priof s \<and>
    (\<forall>u. state (TCBTbl s' u) = (if u = n then TASK_READY else state (TCBTbl s u)) \<and>
         pnode (TCBTbl s' u) = (if u = n then PNode_woken else pnode (TCBTbl s u)))"
proof -
  let ?a = "RemoveLinkNode n s" and ?rs = "insort_after (priof s) n rs" and ?ds = "filter (\<lambda>p. fst p \<noteq> n) ds"
  note eq = RemoveLinkNode_eq [OF assms(1)] and rp = RemoveLinkNode_rep [OF assms(1)]
  have sa: "same_lists s ?a" by (simp add: eq same_lists_def)
  have La: "lists_inv c ?a rs ds" and Sa: "sleeping c ?a rs ds u = sleeping c s rs ds u" for u
    using same_lists_cong [OF sa] assms(2) by blast+
  have Sn: "sleeping c ?a rs ds n" using Sa assms(3) by blast
  note D = stop_delay_ok [OF La Sn]
  let ?b = "stop_delay n ?a" let ?d = "upd_tcb n (pnode_update (\<lambda>_. PNode_woken)) ?b"
  note Dr = dly_frame_rest [OF D(4)] and Dt = dly_frame_simps [OF D(4)]
  have sd: "same_lists ?b ?d" by (simp add: same_lists_def)
  have Ld: "lists_inv c ?d rs ?ds" and Ad: "admissible c ?d n" using same_lists_cong [OF sd] D(1,2) by blast+
  have "n \<notin> set rs" "n \<notin> fst ` set ?ds" using assms(3) by (auto simp: sleeping_def)
  with lists_insert_ok [OF Ld _ _ Ad] obtain s' where
    s': "InsertToTCBRdyList c n ?d = Some s'" "lists_inv c s' (insort_after (priof ?d) n rs) ?ds" "ins_frame n rs ?d s'" by blast
  note I = ins_frame_tcb [OF s'(3)] and R = rdy_frameD [OF s'(3) [unfolded ins_frame_def, THEN conjunct1]]
  have pd: "priof ?d = priof s" by (simp add: Dt fun_eq_iff) (simp add: eq)
  have L': "lists_inv c s' ?rs ?ds" using s'(2) unfolding pd .
  have pa: "priof ?a = priof s" by (simp add: eq fun_eq_iff)
  have wt: "waitTask (FlagNodes ?a n) = n" "nextNode (FlagNodes ?a n) = hd_ptr bs None"
  proof -
    have "dlist (fnext s) (fprev s) (headNode (FlagCrl s)) (as @ n # bs)" using assms(1) by (simp add: flag_rep_def)
    then have "distinct (as @ n # bs)" "nextNode (FlagNodes s n) = hd_ptr bs None" by (auto simp: dlist_def)
    then show "waitTask (FlagNodes ?a n) = n" "nextNode (FlagNodes ?a n) = hd_ptr bs None"
      using assms(1) hd_in_set [of bs] last_in_set [of as] by (auto simp: eq flag_rep_def)
  qed
  have F: "FlagNodes s' = FlagNodes ?a" "FlagCrl s' = FlagCrl ?a" "TCBRunning s' = TCBRunning s"
    using R Dr by (simp_all add: eq)
  have "RemoveFromLink c n s = Some (hd_ptr bs None, s')"
    using s'(1) wt F(1) assms(4) Dr by (simp add: RemoveFromLink_def Let_def) (simp add: eq)
  moreover have "flag_rep s' (as @ bs)" using rp flag_rep_eqI [OF F(2,1)] by simp
  moreover have "sleeping c s' ?rs ?ds u" if "u \<noteq> n" "sleeping c s rs ds u" for u
    using sleeping_wake [OF La Sn _ that(1) sd s'(1) _ s'(3)] that(2) Sa L' unfolding pa by blast
  moreover have "state (TCBTbl s' u) = (if u = n then TASK_READY else state (TCBTbl s u))"
      "pnode (TCBTbl s' u) = (if u = n then PNode_woken else pnode (TCBTbl s u))" for u
    by (simp_all add: I Dt) (simp_all add: eq)
  moreover have "priof s' = priof s" using pd by (simp add: I fun_eq_iff)
  moreover have "waitFlags (FlagNodes s' u) = waitFlags (FlagNodes s u)" "waitType (FlagNodes s' u) = waitType (FlagNodes s u)" for u
    by (simp_all add: F eq)
  moreover have "flagRdy (FlagCrl s') = flagRdy (FlagCrl s)" "resetOpt (FlagCrl s') = resetOpt (FlagCrl s)"
    by (simp_all add: F eq)
  ultimately show ?thesis using L' F(3) by blast
qed

section \<open>Setting a flag\<close>

text \<open>The nodes that are woken: all whose condition holds, or the first of them if the flag resets itself.\<close>

definition to_wake :: "U32 \<Rightarrow> OS_TID list \<Rightarrow> kernel \<Rightarrow> OS_TID list" where
  "to_wake b ns s = (if resetOpt (FlagCrl s) AND b \<noteq> 0 then take 1 (filter (node_ready s) ns) else filter (node_ready s) ns)"

lemma to_wake_subset: "set (to_wake b ns s) \<subseteq> set ns"
  by (auto simp: to_wake_def dest: in_set_takeD)

lemma filter_notin_Cons: "filter (\<lambda>p. f p \<notin> set (x # xs)) ps = filter (\<lambda>p. f p \<notin> set xs) (filter (\<lambda>p. f p \<noteq> x) ps)"
  by (induction ps) auto

lemma set_flag_loop_ok:
  assumes "flag_rep s (as @ ns)" and "lists_inv c s rs ds" and "\<And>n. n \<in> set ns \<Longrightarrow> sleeping c s rs ds n \<and> TCBRunning s \<noteq> Some n"
  shows "\<exists>s'. set_flag_loop c b (hd_ptr ns None) s = Some s' \<and>
    flag_rep s' (as @ filter (\<lambda>n. n \<notin> set (to_wake b ns s)) ns) \<and>
    lists_inv c s' (fold (insort_after (priof s)) (to_wake b ns s) rs) (filter (\<lambda>p. fst p \<notin> set (to_wake b ns s)) ds) \<and>
    flagRdy (FlagCrl s') = flagRdy (FlagCrl s) \<and>
    (\<forall>u. state (TCBTbl s' u) = (if u \<in> set (to_wake b ns s) then TASK_READY else state (TCBTbl s u)) \<and>
         pnode (TCBTbl s' u) = (if u \<in> set (to_wake b ns s) then PNode_woken else pnode (TCBTbl s u)))"
  using assms
proof (induction ns arbitrary: s as rs ds)
  case Nil
  then show ?case by (subst set_flag_loop.simps) (simp add: to_wake_def)
next
  case (Cons n ns)
  have dl: "dlist (fnext s) (fprev s) (headNode (FlagCrl s)) (as @ n # ns)" using Cons.prems(1) by (simp add: flag_rep_def)
  then have nx: "fnext s n = hd_ptr ns None" and nn: "n \<notin> set ns" by (auto simp: dlist_def)
  show ?case
  proof (cases "node_ready s n")
    case False
    then have W: "to_wake b (n # ns) s = to_wake b ns s" by (simp add: to_wake_def)
    have "filter (\<lambda>x. x \<notin> set (to_wake b ns s)) (n # ns) = n # filter (\<lambda>x. x \<notin> set (to_wake b ns s)) ns"
      using to_wake_subset [of b ns s] nn by auto
    moreover have "set_flag_loop c b (hd_ptr (n # ns) None) s = set_flag_loop c b (hd_ptr ns None) s"
      using False nx by (subst set_flag_loop.simps) simp
    ultimately show ?thesis using Cons.IH [of s "as @ [n]" rs ds] Cons.prems W by simp
  next
    case True
    from RemoveFromLink_ok [OF Cons.prems(1,2)] Cons.prems(3) [of n] obtain s1 where
      s1: "RemoveFromLink c n s = Some (hd_ptr ns None, s1)" "flag_rep s1 (as @ ns)"
        "lists_inv c s1 (insort_after (priof s) n rs) (filter (\<lambda>p. fst p \<noteq> n) ds)"
      and sl: "\<forall>u. u \<noteq> n \<longrightarrow> sleeping c s rs ds u \<longrightarrow> sleeping c s1 (insort_after (priof s) n rs) (filter (\<lambda>p. fst p \<noteq> n) ds) u"
      and fl: "\<forall>u. waitFlags (FlagNodes s1 u) = waitFlags (FlagNodes s u) \<and> waitType (FlagNodes s1 u) = waitType (FlagNodes s u)"
        "flagRdy (FlagCrl s1) = flagRdy (FlagCrl s)" "resetOpt (FlagCrl s1) = resetOpt (FlagCrl s)"
      and ru: "TCBRunning s1 = TCBRunning s" "priof s1 = priof s"
      and st: "\<forall>u. state (TCBTbl s1 u) = (if u = n then TASK_READY else state (TCBTbl s u)) \<and>
         pnode (TCBTbl s1 u) = (if u = n then PNode_woken else pnode (TCBTbl s u))"
      by auto
    have nr: "node_ready s1 = node_ready s" using fl by (simp add: node_ready_def fun_eq_iff Let_def)
    show ?thesis
    proof (cases "resetOpt (FlagCrl s) AND b \<noteq> 0")
      case auto: True
      then have W: "to_wake b (n # ns) s = [n]" using True by (simp add: to_wake_def)
      have "set_flag_loop c b (hd_ptr (n # ns) None) s = Some s1"
        using True auto s1(1) fl(3) by (subst set_flag_loop.simps) simp
      moreover have "filter (\<lambda>x. x \<noteq> n) (n # ns) = ns" using nn by (auto simp: filter_id_conv)
      ultimately show ?thesis using s1(2,3) st fl(2) unfolding W by simp
    next
      case manual: False
      then have W: "to_wake b (n # ns) s = n # to_wake b ns s1" using True nr fl(3) by (simp add: to_wake_def)
      have "set_flag_loop c b (hd_ptr (n # ns) None) s = set_flag_loop c b (hd_ptr ns None) s1"
        using True manual s1(1) fl(3) by (subst set_flag_loop.simps) simp
      moreover have "sleeping c s1 (insort_after (priof s) n rs) (filter (\<lambda>p. fst p \<noteq> n) ds) u \<and> TCBRunning s1 \<noteq> Some u"
        if "u \<in> set ns" for u using that nn sl ru Cons.prems(3) [of u] by auto
      note Cons.IH [OF s1(2,3) this]
      moreover have "filter (\<lambda>x. x \<notin> set (n # to_wake b ns s1)) (n # ns) = filter (\<lambda>x. x \<notin> set (to_wake b ns s1)) ns"
        using nn by (auto intro: filter_cong)
      ultimately show ?thesis using st fl(2) unfolding W ru(2) filter_notin_Cons [of fst] by auto
    qed
  qed
qed

section \<open>The condition of a waiting task\<close>

text \<open>
  The flags of a word are the numbers of its set bits. A task that waits for all of its flags
  (\<open>OPT_WAIT_ALL\<close>) can go on when every one of them is set, any other task when one of them is.
\<close>

definition flags_of :: "U32 \<Rightarrow> nat set" where
  "flags_of w = set (filter (bit w) [0..<32])"

definition fulfilled :: "nat set \<Rightarrow> FLAG_NODE \<Rightarrow> bool" where
  "fulfilled F nd \<longleftrightarrow>
     (if waitType nd = OPT_WAIT_ALL then flags_of (waitFlags nd) \<subseteq> F else flags_of (waitFlags nd) \<inter> F \<noteq> {})"

lemma mem_flags_of: "k \<in> flags_of w \<longleftrightarrow> bit w k"
  using bit_imp_le_length [of w k] by (auto simp: flags_of_def)

lemma flags_of_set: "k < 32 \<Longrightarrow> flags_of (w OR push_bit k 1) = insert k (flags_of w)"
  by (auto simp: mem_flags_of bit_simps)

lemma flags_all: "w AND f = w \<longleftrightarrow> flags_of w \<subseteq> flags_of (f :: U32)"
  using bit_imp_le_length [of w] by (auto simp: subset_iff mem_flags_of bit_eq_iff bit_simps)

lemma flags_any: "w AND f \<noteq> 0 \<longleftrightarrow> flags_of w \<inter> flags_of (f :: U32) \<noteq> {}"
  using bit_imp_le_length [of w] by (auto simp: disjoint_iff mem_flags_of bit_eq_iff bit_simps)

lemma flag_reset: "(w AND push_bit k 1 \<noteq> (0 :: U32)) \<longleftrightarrow> k \<in> flags_of w"
  by (simp add: mem_flags_of bit_iff_and_push_bit_not_eq_0)

lemma node_ready_fulfilled: "node_ready s n \<longleftrightarrow> fulfilled (flags_of (flagRdy (FlagCrl s))) (FlagNodes s n)"
  by (simp add: node_ready_def fulfilled_def Let_def flags_all flags_any)

section \<open>Properties\<close>

text \<open>
  C37. Setting a flag that was clear ends and wakes exactly the tasks whose condition holds then (all
  flags they wait for are set, or one of them, by the type of the wait), in the order in which they
  came to wait; a flag that resets itself wakes the first of them only. The woken tasks leave the waiting list and the DELAY list and are in the READY list at
  their priorities; all others stay where they are.
\<close>

theorem flag_set_wakes:
  assumes "CFG_PAR_CHECKOUT_EN c" and "\<not> bad_flag c i s" and "unat i \<notin> flags_of (flagRdy (FlagCrl s))"
    and "flag_rep s ns" and "lists_inv c s rs ds" and "\<forall>n \<in> set ns. sleeping c s rs ds n \<and> TCBRunning s \<noteq> Some n"
    and "F = insert (unat i) (flags_of (flagRdy (FlagCrl s)))"
    and "W = (if unat i \<in> flags_of (resetOpt (FlagCrl s)) then take 1 (filter (\<lambda>n. fulfilled F (FlagNodes s n)) ns)
              else filter (\<lambda>n. fulfilled F (FlagNodes s n)) ns)"
  shows "\<exists>s'. CoSetFlag c unl i s = map_option (Pair E_OK) (unl s') \<and>
    flag_rep s' (filter (\<lambda>n. n \<notin> set W) ns) \<and>
    lists_inv c s' (fold (insort_after (priof s)) W rs) (filter (\<lambda>p. fst p \<notin> set W) ds) \<and>
    flags_of (flagRdy (FlagCrl s')) = F \<and>
    (\<forall>u. state (TCBTbl s' u) = (if u \<in> set W then TASK_READY else state (TCBTbl s u)) \<and>
         pnode (TCBTbl s' u) = (if u \<in> set W then PNode_woken else pnode (TCBTbl s u)))"
proof -
  define b :: U32 where "b = push_bit (unat i) 1"
  let ?s = "OsSchedLock (upd_fcb (flagRdy_update (\<lambda>f. f OR b)) s)"
  have i: "unat i < 32" using assms(1,2) by (simp add: bad_flag_def FLAG_MAX_NUM_def)
  have sl: "same_lists s ?s" by (simp add: same_lists_def OsSchedLock_def)
  have fl: "flags_of (flagRdy (FlagCrl ?s)) = F" "FlagNodes ?s = FlagNodes s" "resetOpt (FlagCrl ?s) = resetOpt (FlagCrl s)"
    using flags_of_set [OF i] by (simp_all add: OsSchedLock_def b_def assms(7))
  have "node_ready ?s = (\<lambda>n. fulfilled F (FlagNodes s n))" unfolding node_ready_fulfilled fl by (rule refl)
  then have W: "W = to_wake b ns ?s" using flag_reset [of _ "unat i", folded b_def] unfolding to_wake_def fl assms(8) by simp
  have "flag_rep ?s ([] @ ns)" using assms(4) by (simp add: flag_rep_def OsSchedLock_def)
  moreover have "lists_inv c ?s rs ds" "\<And>n. n \<in> set ns \<Longrightarrow> sleeping c ?s rs ds n \<and> TCBRunning ?s \<noteq> Some n"
    using same_lists_cong(1,2) [OF sl] assms(5,6) by (auto simp: OsSchedLock_def)
  ultimately obtain s' where s': "set_flag_loop c b (hd_ptr ns None) ?s = Some s'" "flag_rep s' ([] @ filter (\<lambda>n. n \<notin> set W) ns)"
    "lists_inv c s' (fold (insort_after (priof ?s)) W rs) (filter (\<lambda>p. fst p \<notin> set W) ds)"
    "flagRdy (FlagCrl s') = flagRdy (FlagCrl ?s)"
    "\<forall>u. state (TCBTbl s' u) = (if u \<in> set W then TASK_READY else state (TCBTbl ?s u)) \<and>
         pnode (TCBTbl s' u) = (if u \<in> set W then PNode_woken else pnode (TCBTbl ?s u))"
    using set_flag_loop_ok [of ?s "[]" ns c rs ds b] unfolding W by blast
  have "priof ?s = priof s" "state (TCBTbl ?s u) = state (TCBTbl s u)" "pnode (TCBTbl ?s u) = pnode (TCBTbl s u)" for u
    by (simp_all add: OsSchedLock_def)
  moreover have "shl1 (unat i) = Some b" using i by (simp add: shl1_def b_def)
  moreover have "flagRdy (FlagCrl s) AND b = 0" using assms(3) flag_reset [of _ "unat i"] by (auto simp: b_def)
  moreover have "headNode (FlagCrl ?s) = hd_ptr ns None" using assms(4) by (simp add: flag_rep_def dlist_def OsSchedLock_def)
  ultimately have "CoSetFlag c unl i s = map_option (Pair E_OK) (unl s')"
    using assms(2) s'(1) by (cases "unl s'"; simp add: CoSetFlag_def OsSchedLock_def)
  then show ?thesis using s'(2-5) fl(1) \<open>priof ?s = priof s\<close> by (intro exI [of _ s']) (simp add: OsSchedLock_def)
qed

text \<open>
  Tasks 3 and 5 wait for flag 1, task 3 for flag 0 too and task 5 with a time-out of 8 ticks;
  neither flag resets itself.
\<close>

definition flag_example :: kernel where
  "flag_example = sched_example\<lparr>TCBTbl := (TCBTbl sched_example)(
       3 := OSTCB_zero\<lparr>taskID := 3, prio := 5, state := TASK_WAITING, delayTick := INVALID_VALUE, pnode := PNode 3\<rparr>,
       5 := OSTCB_zero\<lparr>taskID := 5, prio := 1, state := TASK_WAITING, delayTick := 8, pnode := PNode 5\<rparr>),
     DlyList := Some 5, FlagCrl := \<lparr>flagRdy = 0, resetOpt = 0, flagActive = 3, headNode = Some 3, tailNode = Some 5\<rparr>,
     FlagNodes := (\<lambda>n. if n = 3 then \<lparr>nextNode = Some 5, prevNode = None, waitFlags = 3, waitTask = 3, waitType = OPT_WAIT_ALL\<rparr>
       else \<lparr>nextNode = None, prevNode = Some 3, waitFlags = 2, waitTask = 5, waitType = OPT_WAIT_ONE\<rparr>)\<rparr>"

theorem flag_set_wakes_witness:
  "\<exists>s'. CoSetFlag OsConfig Some 1 flag_example = Some (E_OK, s') \<and> flag_rep s' [3] \<and> lists_inv OsConfig s' [5, 2, 1] [] \<and>
     flags_of (flagRdy (FlagCrl s')) = {1}"
proof -
  note ex = flag_example_def sched_example_def ready_example_defs
  have "flags_of 3 = {0, 1}" "flags_of 2 = {1}" "flags_of 0 = {}" by code_simp+
  note fl = this
  have b: "push_bit (unat (1 :: U8)) 1 = (2 :: U32)" "(3 :: U32) AND 2 = 2" "(2 :: U32) AND 3 = 2" by code_simp+
  have "\<not> bad_flag OsConfig 1 flag_example" using b by (simp add: bad_flag_def FLAG_MAX_NUM_def flag_example_def)
  moreover have "flag_rep flag_example [3, 5]" by (simp add: flag_rep_def dlist_def flag_example_def)
  moreover have "lists_inv OsConfig flag_example [2, 1] [(5, 8)]"
    by (simp add: lists_inv_def rdy_inv_def rdy_list_def dly_rep_def delta_rep_def dlist_def ex)
  moreover have "\<forall>n \<in> set [3, 5]. sleeping OsConfig flag_example [2, 1] [(5, 8)] n \<and> TCBRunning flag_example \<noteq> Some n"
    by (simp add: sleeping_def unlinked_def INVALID_VALUE_def ex)
  moreover have "filter (\<lambda>n. fulfilled {1} (FlagNodes flag_example n)) [3, 5] = [5]"
    using fl by (simp add: fulfilled_def flag_example_def OPT_WAIT_ALL_def OPT_WAIT_ONE_def)
  moreover have "insort_after (priof flag_example) 5 [2, 1] = [5, 2, 1]" by (simp add: ex)
  moreover have "CFG_PAR_CHECKOUT_EN OsConfig" "flags_of (flagRdy (FlagCrl flag_example)) = {}"
    "flags_of (resetOpt (FlagCrl flag_example)) = {}" using fl by (simp_all add: OsConfig_def flag_example_def)
  ultimately show ?thesis
    using flag_set_wakes [of OsConfig 1 flag_example "[3, 5]" "[2, 1]" "[(5, 8)]" "{1}" "[5]" Some] by auto
qed

end
