(* ===== verification/Timeouts.thy ===== *)
theory Timeouts
  imports Core FlagWait
begin

text \<open>
  The system tick and the end of waits by time-out: a task in the DELAY list may also wait for an
  event or for flags. When its time is up it leaves the waiting list of its event and the list of
  the flag nodes, whatever its place there, before it becomes ready.
\<close>

section \<open>Tasks that wait with a time-out\<close>

text \<open>
  \<open>W e\<close> are the tasks that wait for event \<open>e\<close> and \<open>N\<close> those that wait for flags, in the order of their
  lists; each of them names its event or its node.
\<close>

definition wait_lists :: "config \<Rightarrow> kernel \<Rightarrow> (OS_EventID \<Rightarrow> OS_TID list) \<Rightarrow> OS_TID list \<Rightarrow> bool" where
  "wait_lists c s W N \<longleftrightarrow>
     (\<forall>e. unat e < CFG_MAX_EVENT c \<longrightarrow> wait_rep s e (W e) \<and> (\<forall>t \<in> set (W e). eventID (TCBTbl s t) = e)) \<and>
     flag_rep s N \<and> (\<forall>t \<in> set N. pnode (TCBTbl s t) = PNode t)"

text \<open>
  A task of the DELAY list: if it names an event it waits for it, and if it has a flag node it waits
  for flags. In the binary scheme its priority is in the tables.
\<close>

definition timed_wait :: "config \<Rightarrow> kernel \<Rightarrow> (OS_EventID \<Rightarrow> OS_TID list) \<Rightarrow> OS_TID list \<Rightarrow> OS_TID \<Rightarrow> bool" where
  "timed_wait c s W N t \<longleftrightarrow>
     (eventID (TCBTbl s t) \<noteq> INVALID_ID \<longrightarrow>
        unat (eventID (TCBTbl s t)) < CFG_MAX_EVENT c \<and> t \<in> set (W (eventID (TCBTbl s t)))) \<and>
     (pnode (TCBTbl s t) \<noteq> PNode_null \<longrightarrow> t \<in> set N) \<and>
     (CFG_ORDER_LIST_SCHEDULE_EN c \<or> pri_active s (priof s t) \<and> valid_tid c s t)"

abbreviation without :: "'a \<Rightarrow> 'a list \<Rightarrow> 'a list" where
  "without t \<equiv> filter (\<lambda>u. u \<noteq> t)"

lemma without_id: "t \<notin> set xs \<Longrightarrow> without t xs = xs"
  by (auto simp: filter_id_conv)

lemma without_split: "distinct (as @ t # bs) \<Longrightarrow> without t (as @ t # bs) = as @ bs"
  by (simp add: without_id)

section \<open>Leaving the waiting lists\<close>

lemma RemoveEventWaittingList_eventID:
  assumes "RemoveEventWaittingList c t s = Some s'"
  shows "eventID (TCBTbl s' u) = (if u = t then INVALID_ID else eventID (TCBTbl s u))"
  using assms by (auto simp: RemoveEventWaittingList_def Let_def ecb_ptr_def split: option.splits if_splits)

lemma leave_event_list:
  assumes "wait_lists c s W N" and "timed_wait c s W N t" and "CFG_MAX_EVENT c \<le> 255"
  shows "\<exists>s'. (if eventID (TCBTbl s t) \<noteq> INVALID_ID then RemoveEventWaittingList c t s else Some s) = Some s' \<and>
    wait_lists c s' (\<lambda>e. without t (W e)) N \<and> (\<exists>A e. wait_frame A e s s') \<and>
    (\<forall>u. eventID (TCBTbl s' u) = (if u = t then INVALID_ID else eventID (TCBTbl s u)))"
proof (cases "eventID (TCBTbl s t) = INVALID_ID")
  case True
  have "t \<notin> set (W e)" if "unat e < CFG_MAX_EVENT c" for e
    using that assms(1,3) True by (auto simp: wait_lists_def INVALID_ID_def)
  then have "wait_lists c s (\<lambda>e. without t (W e)) N"
    using assms(1) unfolding wait_lists_def by (auto simp: without_id)
  moreover have "wait_frame {} 0 s s" by (simp add: wait_frame_def)
  ultimately show ?thesis using True by auto
next
  case False
  define e where "e = eventID (TCBTbl s t)"
  have e: "unat e < CFG_MAX_EVENT c" "t \<in> set (W e)" using assms(2) False by (auto simp: timed_wait_def e_def)
  then obtain as bs where w: "W e = as @ t # bs" by (meson split_list)
  have We: "wait_rep s e (as @ t # bs)" using assms(1) e(1) w by (auto simp: wait_lists_def)
  then have d: "distinct (as @ t # bs)" by (simp add: wait_rep_def dlist_def)
  from RemoveEventWaittingList_ok [OF We e_def [symmetric] e(1)] obtain s' where
    s': "RemoveEventWaittingList c t s = Some s'" "wait_rep s' e (as @ bs)" "eventID (TCBTbl s' t) = INVALID_ID"
      "wait_frame (insert t (set (as @ bs))) e s s'" by blast
  have fr: "u \<notin> insert t (set (as @ bs)) \<Longrightarrow> TCBTbl s' u = TCBTbl s u" "wait_core (TCBTbl s' u) = wait_core (TCBTbl s u)"
    "e' \<noteq> e \<Longrightarrow> EventTbl s' e' = EventTbl s e'" for u e'
    using s'(4) by (auto simp: wait_frame_def)
  have rest: "s'\<lparr>TCBTbl := TCBTbl s, EventTbl := EventTbl s\<rparr> = s" using s'(4) by (simp add: wait_frame_def)
  have pn: "pnode (TCBTbl s' u) = pnode (TCBTbl s u)" for u
    using arg_cong [OF fr(2), of pnode] by (simp add: wait_core_def)
  have ev: "eventID (TCBTbl s' u) = (if u = t then INVALID_ID else eventID (TCBTbl s u))" for u
    by (rule RemoveEventWaittingList_eventID [OF s'(1)])
  have "wait_rep s' e' (without t (W e'))" if that': "unat e' < CFG_MAX_EVENT c" for e'
  proof (cases "e' = e")
    case True
    then show ?thesis using s'(2) w without_split [OF d] by simp
  next
    case ne: False
    have "u \<notin> insert t (set (as @ bs))" if u: "u \<in> set (W e')" for u
    proof -
      have "eventID (TCBTbl s u) = e'" using u assms(1) that' by (auto simp: wait_lists_def)
      moreover have "eventID (TCBTbl s v) = e" if "v \<in> set (W e)" for v using that assms(1) e(1) by (auto simp: wait_lists_def)
      ultimately show ?thesis using ne w by fastforce
    qed
    then have "t \<notin> set (W e')" "wait_rep s' e' (W e') = wait_rep s e' (W e')"
      using fr ne by (blast, intro wait_rep_eqI) auto
    then show ?thesis using assms(1) that' by (simp add: wait_lists_def without_id)
  qed
  moreover have "flag_rep s' N"
    using flag_rep_eqI [of s' s N] assms(1) rest by (cases s; cases s'; simp add: wait_lists_def)
  ultimately have "wait_lists c s' (\<lambda>e. without t (W e)) N"
    using assms(1) unfolding wait_lists_def pn ev by auto
  then show ?thesis using False s'(1,4) ev by auto
qed

lemma leave_flag_list:
  assumes "wait_lists c s W N" and "pnode (TCBTbl s t) \<noteq> PNode_null \<Longrightarrow> t \<in> set N"
  shows "\<exists>s'. (if pnode (TCBTbl s t) \<noteq> PNode_null then do { nd \<leftarrow> flag_node (pnode (TCBTbl s t)); Some (RemoveLinkNode nd s) }
        else Some s) = Some s' \<and>
    wait_lists c s' W (without t N) \<and>
    s'\<lparr>TCBTbl := TCBTbl s, FlagCrl := FlagCrl s, FlagNodes := FlagNodes s\<rparr> = s \<and>
    TCBTbl s' = (TCBTbl s)(t := (TCBTbl s t)\<lparr>pnode := PNode_null\<rparr>) \<and> flagRdy (FlagCrl s') = flagRdy (FlagCrl s)"
proof (cases "pnode (TCBTbl s t) = PNode_null")
  case True
  then have "t \<notin> set N" using assms(1) by (auto simp: wait_lists_def)
  moreover have "(TCBTbl s)(t := (TCBTbl s t)\<lparr>pnode := PNode_null\<rparr>) = TCBTbl s" using True by (auto simp: fun_eq_iff)
  ultimately show ?thesis using True assms(1) by (simp add: without_id)
next
  case False
  then obtain as bs where n: "N = as @ t # bs" using assms(2) by (meson split_list)
  have fn: "flag_node (pnode (TCBTbl s t)) = Some t" using assms(1) n by (simp add: wait_lists_def flag_node_def)
  have F: "flag_rep s (as @ t # bs)" using assms(1) n by (simp add: wait_lists_def)
  note eq = RemoveLinkNode_eq [OF F]
  have d: "distinct (as @ t # bs)" using F by (simp add: flag_rep_def dlist_def)
  let ?s = "RemoveLinkNode t s"
  have tcb: "TCBTbl ?s = (TCBTbl s)(t := (TCBTbl s t)\<lparr>pnode := PNode_null\<rparr>)" by (simp add: eq)
  have rest: "?s\<lparr>TCBTbl := TCBTbl s, FlagCrl := FlagCrl s, FlagNodes := FlagNodes s\<rparr> = s" "flagRdy (FlagCrl ?s) = flagRdy (FlagCrl s)"
    by (simp_all add: eq)
  have "wait_rep ?s e xs = wait_rep s e xs" for e xs by (rule wait_rep_eqI) (simp_all add: eq)
  moreover have "flag_rep ?s (without t N)" using RemoveLinkNode_rep [OF F] n without_split [OF d] by simp
  ultimately have "wait_lists c ?s W (without t N)"
    using assms(1) d n unfolding wait_lists_def tcb by auto
  then show ?thesis using False fn tcb rest by simp
qed

text \<open>What a tick leaves alone besides the lists.\<close>

definition tick_rest :: "kernel \<Rightarrow> kernel \<Rightarrow> bool" where
  "tick_rest s s' \<longleftrightarrow> OSSchedLock s' = OSSchedLock s \<and> OSTickCnt s' = OSTickCnt s \<and> TmrList s' = TmrList s \<and> TmrTbl s' = TmrTbl s \<and>
     TCBRunning s' = TCBRunning s \<and> TCBNext s' = TCBNext s \<and> OSIntNesting s' = OSIntNesting s \<and> IsrReq s' = IsrReq s \<and>
     PriNum s' = PriNum s \<and> ActivePri s' = ActivePri s \<and> mem s' = mem s \<and>
     (\<forall>e. eventCounter (EventTbl s' e) = eventCounter (EventTbl s e) \<and> eventPtr (EventTbl s' e) = eventPtr (EventTbl s e)) \<and>
     flagRdy (FlagCrl s') = flagRdy (FlagCrl s) \<and>
     (\<forall>u. prio (TCBTbl s' u) = prio (TCBTbl s u) \<and> taskID (TCBTbl s' u) = taskID (TCBTbl s u) \<and>
          pmail (TCBTbl s' u) = pmail (TCBTbl s u) \<and> mutexID (TCBTbl s' u) = mutexID (TCBTbl s u))"

lemma tick_rest_trans: "tick_rest s s' \<Longrightarrow> tick_rest s' s'' \<Longrightarrow> tick_rest s s''"
  unfolding tick_rest_def by simp

text \<open>A task whose time is up: first its waits end, then it goes from the DELAY list to the READY list.\<close>

lemma time_expire_waits:
  assumes "wait_lists c s W N" and "timed_wait c s W N t" and "CFG_MAX_EVENT c \<le> 255"
  shows "\<exists>s'. time_expire c t s = time_expire c t s' \<and> wait_lists c s' (\<lambda>e. without t (W e)) (without t N) \<and>
    same_lists s s' \<and> tick_rest s s' \<and>
    (\<forall>u. state (TCBTbl s' u) = state (TCBTbl s u) \<and>
         eventID (TCBTbl s' u) = (if u = t then INVALID_ID else eventID (TCBTbl s u)) \<and>
         pnode (TCBTbl s' u) = (if u = t then PNode_null else pnode (TCBTbl s u)))"
proof -
  obtain s1 A e where s1: "(if eventID (TCBTbl s t) \<noteq> INVALID_ID then RemoveEventWaittingList c t s else Some s) = Some s1"
    "wait_lists c s1 (\<lambda>e. without t (W e)) N" "wait_frame A e s s1"
    "\<forall>u. eventID (TCBTbl s1 u) = (if u = t then INVALID_ID else eventID (TCBTbl s u))"
    using leave_event_list [OF assms] by blast
  have core: "wait_core (TCBTbl s1 u) = wait_core (TCBTbl s u)" for u using s1(3) by (simp add: wait_frame_def)
  have ev: "(EventTbl s1 e')\<lparr>eventTCBList := None\<rparr> = (EventTbl s e')\<lparr>eventTCBList := None\<rparr>" for e'
    using s1(3) by (simp add: wait_frame_def)
  have t1: "pnode (TCBTbl s1 u) = pnode (TCBTbl s u)" "state (TCBTbl s1 u) = state (TCBTbl s u)"
    "prio (TCBTbl s1 u) = prio (TCBTbl s u)" "taskID (TCBTbl s1 u) = taskID (TCBTbl s u)" "mutexID (TCBTbl s1 u) = mutexID (TCBTbl s u)"
    "pmail (TCBTbl s1 u) = pmail (TCBTbl s u)" for u
    using arg_cong [OF core, of pnode] arg_cong [OF core, of state] arg_cong [OF core, of prio] arg_cong [OF core, of taskID]
      arg_cong [OF core, of mutexID] arg_cong [OF core, of pmail] by (simp_all add: wait_core_def)
  have e1: "eventCounter (EventTbl s1 e') = eventCounter (EventTbl s e')" "eventPtr (EventTbl s1 e') = eventPtr (EventTbl s e')" for e'
    using arg_cong [OF ev, of eventCounter e'] arg_cong [OF ev, of eventPtr e'] by simp_all
  have k1: "s1\<lparr>TCBTbl := TCBTbl s, EventTbl := EventTbl s\<rparr> = s" using s1(3) by (simp add: wait_frame_def)
  have r1: "tick_rest s s1" unfolding tick_rest_def t1 e1 using k1 by (cases s; cases s1; simp)
  have "pnode (TCBTbl s1 t) \<noteq> PNode_null \<Longrightarrow> t \<in> set N" using assms(2) t1(1) by (simp add: timed_wait_def)
  from leave_flag_list [OF s1(2) this] obtain s2 where
    s2: "(if pnode (TCBTbl s1 t) \<noteq> PNode_null then do { nd \<leftarrow> flag_node (pnode (TCBTbl s1 t)); Some (RemoveLinkNode nd s1) }
        else Some s1) = Some s2" "wait_lists c s2 (\<lambda>e. without t (W e)) (without t N)"
      "s2\<lparr>TCBTbl := TCBTbl s1, FlagCrl := FlagCrl s1, FlagNodes := FlagNodes s1\<rparr> = s1"
      "TCBTbl s2 = (TCBTbl s1)(t := (TCBTbl s1 t)\<lparr>pnode := PNode_null\<rparr>)" "flagRdy (FlagCrl s2) = flagRdy (FlagCrl s1)"
    by blast
  have r2: "tick_rest s1 s2" unfolding tick_rest_def s2(4,5) using s2(3) by (cases s1; cases s2; simp)
  have "same_lists s1 s2" unfolding same_lists_def s2(4) using s2(3) by (cases s1; cases s2; simp)
  with wait_frame_lists [OF s1(3)] have "same_lists s s2" unfolding same_lists_def by simp
  moreover have i: "eventID (TCBTbl s2 t) = INVALID_ID" "pnode (TCBTbl s2 t) = PNode_null" using s1(4) s2(4) by simp_all
  moreover have "time_expire c t s = time_expire c t s2"
    unfolding time_expire_def s1(1) bind.bind_lunit s2(1) using i by simp
  moreover have "state (TCBTbl s2 u) = state (TCBTbl s u) \<and>
      eventID (TCBTbl s2 u) = (if u = t then INVALID_ID else eventID (TCBTbl s u)) \<and>
      pnode (TCBTbl s2 u) = (if u = t then PNode_null else pnode (TCBTbl s u))" for u
    unfolding s2(4) using s1(4) t1 by simp
  ultimately show ?thesis using s2(2) tick_rest_trans [OF r1 r2] by blast
qed

lemma tick_rest_expire:
  assumes "rdy_frame s (s'\<lparr>DlyList := DlyList s\<rparr>)" and "tcb_frame A s s'"
  shows "tick_rest s s'"
proof -
  have r: "tcb_rest (TCBTbl s' u) = tcb_rest (TCBTbl s u)" for u using assms(2) by (simp add: tcb_frame_def)
  have "pmail (TCBTbl s' u) = pmail (TCBTbl s u)" for u using arg_cong [OF r, of pmail] by (simp add: tcb_rest_def)
  then show ?thesis using rdy_frameD [OF assms(1)] tcb_frameD [OF assms(2)] by (simp add: tick_rest_def)
qed

lemma wait_lists_expire:
  assumes "rdy_frame s (s'\<lparr>DlyList := DlyList s\<rparr>)" and "tcb_frame A s s'"
  shows "wait_lists c s' W N = wait_lists c s W N"
proof -
  have r: "tcb_rest (TCBTbl s' u) = tcb_rest (TCBTbl s u)" for u using assms(2) by (simp add: tcb_frame_def)
  have "waitNext (TCBTbl s' u) = waitNext (TCBTbl s u)" "waitPrev (TCBTbl s' u) = waitPrev (TCBTbl s u)" for u
    using arg_cong [OF r, of waitNext] arg_cong [OF r, of waitPrev] by (simp_all add: tcb_rest_def)
  moreover have "EventTbl s' = EventTbl s" "FlagCrl s' = FlagCrl s" "FlagNodes s' = FlagNodes s"
    using rdy_frameD(12,18,19) [OF assms(1)] by simp_all
  ultimately have "wait_rep s' e xs = wait_rep s e xs" "flag_rep s' N = flag_rep s N" for e xs
    by (simp_all add: wait_rep_def flag_rep_def)
  then show ?thesis using tcb_frameD(4,6) [OF assms(2)] by (simp add: wait_lists_def)
qed

text \<open>One round of \<open>TimeDispose\<close> on a task that may wait for anything.\<close>

lemma time_expire_timeout:
  assumes "lists_inv c s rs ((t, 0) # ds)" and "wait_lists c s W N" and "timed_wait c s W N t" and "CFG_MAX_EVENT c \<le> 255"
  shows "\<exists>s'. time_expire c t s = Some s' \<and> lists_inv c s' (insort_after (priof s) t rs) ds \<and>
    wait_lists c s' (\<lambda>e. without t (W e)) (without t N) \<and> tick_rest s s' \<and>
    (\<forall>u. state (TCBTbl s' u) = (if u = t then TASK_READY else state (TCBTbl s u)) \<and>
         eventID (TCBTbl s' u) = (if u = t then INVALID_ID else eventID (TCBTbl s u)) \<and>
         pnode (TCBTbl s' u) = (if u = t then PNode_null else pnode (TCBTbl s u)) \<and>
         delayTick (TCBTbl s' u) = (if u = t then INVALID_VALUE else delayTick (TCBTbl s u)))"
proof -
  obtain s1 where s1: "time_expire c t s = time_expire c t s1" "wait_lists c s1 (\<lambda>e. without t (W e)) (without t N)"
    "same_lists s s1" "tick_rest s s1"
    and f1: "\<And>u. state (TCBTbl s1 u) = state (TCBTbl s u)" "\<And>u. eventID (TCBTbl s1 u) = (if u = t then INVALID_ID else eventID (TCBTbl s u))"
      "\<And>u. pnode (TCBTbl s1 u) = (if u = t then PNode_null else pnode (TCBTbl s u))"
    using time_expire_waits [OF assms(2-4)] by blast
  have L: "lists_inv c s1 rs ((t, 0) # ds)" using same_lists_cong(1) [OF s1(3)] assms(1) by simp
  have p: "CFG_ORDER_LIST_SCHEDULE_EN c \<or> pri_active s1 (priof s1 t) \<and> valid_tid c s1 t"
    using assms(3) s1(3) by (simp add: timed_wait_def same_lists_def pri_active_def valid_tid_def)
  have eq: "priof s1 = priof s" "\<And>u. delayTick (TCBTbl s1 u) = delayTick (TCBTbl s u)"
    using s1(3) by (simp_all add: same_lists_def fun_eq_iff)
  obtain s' where s': "time_expire c t s1 = Some s'" "lists_inv c s' (insort_after (priof s1) t rs) ds"
    "rdy_frame s1 (s'\<lparr>DlyList := DlyList s1\<rparr>)" "tcb_frame (insert t (set rs \<union> fst ` set ds)) s1 s'"
    and f': "\<And>u. eventID (TCBTbl s' u) = eventID (TCBTbl s1 u)" "\<And>u. pnode (TCBTbl s' u) = pnode (TCBTbl s1 u)"
      "\<And>u. state (TCBTbl s' u) = (if u = t then TASK_READY else state (TCBTbl s1 u))"
      "\<And>u. delayTick (TCBTbl s' u) = (if u = t then INVALID_VALUE else delayTick (TCBTbl s1 u))"
    using time_expire_ok [OF L _ _ p] f1(2,3) [of t] by auto
  have "wait_lists c s' (\<lambda>e. without t (W e)) (without t N)" using wait_lists_expire [OF s'(3,4)] s1(2) by simp
  moreover have "tick_rest s s'" using tick_rest_trans [OF s1(4) tick_rest_expire [OF s'(3,4)]] .
  ultimately show ?thesis using s1(1) s'(1,2) unfolding eq by (intro exI [of _ s']) (simp add: f' f1 eq)
qed

section \<open>The loop and the tick\<close>

abbreviation without_all :: "'a list \<Rightarrow> 'a list \<Rightarrow> 'a list" where
  "without_all ts \<equiv> filter (\<lambda>u. u \<notin> set ts)"

lemma without_all_Cons: "without_all ts (without t xs) = without_all (t # ts) xs"
  by (simp add: conj_commute)

lemma TimeDispose_timeouts:
  assumes "lists_inv c s rs (map (\<lambda>t. (t, 0)) ts @ ds)" and "ds \<noteq> [] \<longrightarrow> 0 < snd (hd ds)"
    and "wait_lists c s W N" and "\<And>t. t \<in> set ts \<Longrightarrow> timed_wait c s W N t" and "CFG_MAX_EVENT c \<le> 255"
  shows "\<exists>s'. TimeDispose c s = Some s' \<and> lists_inv c s' (fold (insort_after (priof s)) ts rs) ds \<and>
    wait_lists c s' (\<lambda>e. without_all ts (W e)) (without_all ts N) \<and> tick_rest s s' \<and>
    (\<forall>u. state (TCBTbl s' u) = (if u \<in> set ts then TASK_READY else state (TCBTbl s u)) \<and>
         eventID (TCBTbl s' u) = (if u \<in> set ts then INVALID_ID else eventID (TCBTbl s u)) \<and>
         pnode (TCBTbl s' u) = (if u \<in> set ts then PNode_null else pnode (TCBTbl s u)))"
  using assms(1-4)
proof (induction ts arbitrary: s rs W N)
  case Nil
  have "TimeDispose c s = Some s"
  proof (cases ds)
    case Nil': Nil
    then have "DlyList s = None" using Nil.prems(1) by (simp add: lists_inv_def dly_rep_def delta_rep_def dlist_def)
    then show ?thesis by (subst TimeDispose.simps) simp
  next
    case (Cons p ps)
    then obtain t n where p: "ds = (t, n) # ps" by (cases p) auto
    then have "DlyList s = Some t" "tickf s t \<noteq> 0"
      using Nil.prems(1,2) by (auto simp: lists_inv_def dly_rep_def delta_rep_def dlist_def)
    then show ?thesis by (subst TimeDispose.simps) simp
  qed
  moreover have "tick_rest s s" by (simp add: tick_rest_def)
  ultimately show ?case using Nil.prems(1,3) by auto
next
  case (Cons t ts)
  let ?ds = "map (\<lambda>t. (t, 0)) ts @ ds"
  have L: "lists_inv c s rs ((t, 0) # ?ds)" using Cons.prems(1) by simp
  have h: "DlyList s = Some t" "tickf s t = 0"
    using L by (auto simp: lists_inv_def dly_rep_def delta_rep_def dlist_def unat_eq_0)
  have tn: "t \<notin> set ts"
    using L delta_rep_distinct [of "nextf s" "prevf s" "tickf s" "DlyList s" "(t, 0) # ?ds"]
    by (auto simp: lists_inv_def dly_rep_def)
  obtain s1 where s1: "time_expire c t s = Some s1" "lists_inv c s1 (insort_after (priof s) t rs) ?ds"
    "wait_lists c s1 (\<lambda>e. without t (W e)) (without t N)" "tick_rest s s1"
    and f1: "\<And>u. state (TCBTbl s1 u) = (if u = t then TASK_READY else state (TCBTbl s u))"
      "\<And>u. eventID (TCBTbl s1 u) = (if u = t then INVALID_ID else eventID (TCBTbl s u))"
      "\<And>u. pnode (TCBTbl s1 u) = (if u = t then PNode_null else pnode (TCBTbl s u))"
    using time_expire_timeout [OF L Cons.prems(3) _ assms(5)] Cons.prems(4) [of t] by auto
  have eq: "priof s1 = priof s" "\<And>u. valid_tid c s1 u = valid_tid c s u" "\<And>p. pri_active s1 p = pri_active s p"
    using s1(4) by (simp_all add: tick_rest_def fun_eq_iff valid_tid_def pri_active_def)
  have "timed_wait c s1 (\<lambda>e. without t (W e)) (without t N) u" if "u \<in> set ts" for u
  proof -
    have "u \<noteq> t" "timed_wait c s W N u" using that tn Cons.prems(4) [of u] by auto
    then show ?thesis using f1(2,3) [of u] eq fun_cong [OF eq(1), of u] by (auto simp: timed_wait_def)
  qed
  from Cons.IH [OF s1(2) Cons.prems(2) s1(3) this] obtain s' where
    s': "TimeDispose c s1 = Some s'" "lists_inv c s' (fold (insort_after (priof s1)) ts (insort_after (priof s) t rs)) ds"
      "wait_lists c s' (\<lambda>e. without_all ts (without t (W e))) (without_all ts (without t N))" "tick_rest s1 s'"
    and f': "\<And>u. state (TCBTbl s' u) = (if u \<in> set ts then TASK_READY else state (TCBTbl s1 u))"
      "\<And>u. eventID (TCBTbl s' u) = (if u \<in> set ts then INVALID_ID else eventID (TCBTbl s1 u))"
      "\<And>u. pnode (TCBTbl s' u) = (if u \<in> set ts then PNode_null else pnode (TCBTbl s1 u))"
    by blast
  have "TimeDispose c s = Some s'" using h s1(1) s'(1) by (subst TimeDispose.simps) simp
  then show ?case using s'(2,3) tick_rest_trans [OF s1(4) s'(4)] unfolding without_all_Cons eq
    by (intro exI [of _ s']) (simp add: f' f1)
qed

lemma SysTick_timeouts:
  assumes "lists_inv c s rs ds" and "\<forall>p \<in> set ds. 0 < snd p" and "OSSchedLock s = 1"
    and "wait_lists c s W N" and "\<And>t. t \<in> set (expiring ds) \<Longrightarrow> timed_wait c s W N t" and "CFG_MAX_EVENT c \<le> 255"
  shows "\<exists>s'. (case DlyList s of None \<Rightarrow> Some s
      | Some d \<Rightarrow> if delayTick (TCBTbl s d) > 1 then Some (upd_tcb d (delayTick_update (\<lambda>n. n - 1)) s)
                 else isr_TimeDispose c (upd_tcb d (delayTick_update (\<lambda>_. 0)) s)) = Some s' \<and>
    lists_inv c s' (fold (insort_after (priof s)) (expiring ds) rs) (staying ds) \<and>
    wait_lists c s' (\<lambda>e. without_all (expiring ds) (W e)) (without_all (expiring ds) N) \<and> tick_rest s s' \<and>
    (\<forall>u. state (TCBTbl s' u) = (if u \<in> set (expiring ds) then TASK_READY else state (TCBTbl s u)) \<and>
         eventID (TCBTbl s' u) = (if u \<in> set (expiring ds) then INVALID_ID else eventID (TCBTbl s u)) \<and>
         pnode (TCBTbl s' u) = (if u \<in> set (expiring ds) then PNode_null else pnode (TCBTbl s u)))"
proof (cases ds)
  case Nil
  then have "DlyList s = None" using assms(1) by (simp add: lists_inv_def dly_rep_def delta_rep_def dlist_def)
  moreover have "tick_rest s s" by (simp add: tick_rest_def)
  ultimately show ?thesis using Nil assms(1,4) by auto
next
  case (Cons p qs)
  then obtain d n where p: "ds = (d, n) # qs" by (cases p) auto
  have R: "dly_rep s ((d, n) # qs)" using assms(1) by (simp add: lists_inv_def p)
  then have h: "DlyList s = Some d" "n = unat (tickf s d)" by (auto simp: dly_rep_def delta_rep_def dlist_def)
  have n: "0 < n" using assms(2) by (simp add: p)
  let ?s = "upd_tcb d (delayTick_update (\<lambda>n. n - 1)) s"
  have "rdy_inv c ?s rs = rdy_inv c s rs" by (rule rdy_inv_cong_on) auto
  moreover have "dly_rep ?s (map tick_down ds)" using dly_rep_tick_down [OF R n] by (simp add: p)
  ultimately have L: "lists_inv c ?s rs (map (\<lambda>t. (t, 0)) (expiring ds) @ staying ds)"
    using assms(1) unfolding tick_down_split [symmetric] by (auto simp: lists_inv_def split_def image_comp)
  have fr: "rdy_frame s (?s\<lparr>DlyList := DlyList s\<rparr>)" "tcb_frame {d} s ?s" by (simp_all add: tcb_frame_def)
  note W1 = wait_lists_expire [OF fr] and T1 = tick_rest_expire [OF fr]
  show ?thesis
  proof (cases "n = 1")
    case False
    then have "1 < tickf s d" using h(2) n by (simp add: word_less_nat_alt)
    moreover have "expiring ds = []" using False by (simp add: p)
    ultimately show ?thesis using L W1 T1 h(1) assms(4) by (intro exI [of _ ?s]) simp
  next
    case True
    then have t1: "tickf s d = 1" using h(2) by (simp add: word_unat_eq_iff)
    then have "upd_tcb d (delayTick_update (\<lambda>_. 0)) s = ?s" by (intro kernel.equality) (simp_all add: fun_eq_iff)
    moreover have tw: "timed_wait c ?s W N u" if "u \<in> set (expiring ds)" for u
      using assms(5) [OF that] by (cases "u = d") (auto simp: timed_wait_def pri_active_def valid_tid_def)
    have "wait_lists c ?s W N" using W1 assms(4) by simp
    from TimeDispose_timeouts [OF L _ this tw assms(6)] staying_positive [OF assms(2)] obtain s' where
      s': "TimeDispose c ?s = Some s'" "lists_inv c s' (fold (insort_after (priof ?s)) (expiring ds) rs) (staying ds)"
        "wait_lists c s' (\<lambda>e. without_all (expiring ds) (W e)) (without_all (expiring ds) N)" "tick_rest ?s s'"
      and f': "\<And>u. state (TCBTbl s' u) = (if u \<in> set (expiring ds) then TASK_READY else state (TCBTbl ?s u))"
        "\<And>u. eventID (TCBTbl s' u) = (if u \<in> set (expiring ds) then INVALID_ID else eventID (TCBTbl ?s u))"
        "\<And>u. pnode (TCBTbl s' u) = (if u \<in> set (expiring ds) then PNode_null else pnode (TCBTbl ?s u))" by blast
    have "priof ?s = priof s" by (simp add: fun_eq_iff)
    with s'(2) have "lists_inv c s' (fold (insort_after (priof s)) (expiring ds) rs) (staying ds)" by simp
    ultimately show ?thesis using h(1) t1 assms(3) s'(1,3) f' tick_rest_trans [OF T1 s'(4)]
      by (intro exI [of _ s']) (simp add: isr_TimeDispose_def)
  qed
qed

section \<open>Properties\<close>

text \<open>
  C25. A system tick, with no software timer running and no lock held: the tick counter advances
  (and wraps), every task in the DELAY list has one tick less to wait, and exactly the tasks with one
  tick to go become ready, whether they sleep, wait for an event or wait for flags: they leave the
  DELAY list, the waiting list of their event and the list of flag nodes, forget the event and the
  node, and get no mail, which is how they know of the time-out; all others stay where they wait.
  A reschedule is requested, and the handler releases the lock it took.
\<close>

theorem system_tick:
  assumes "lists_inv c s rs ds" and "\<forall>p \<in> set ds. 0 < snd p" and "OSSchedLock s = 0" and "TmrList s = None"
    and "CFG_MAX_EVENT c \<le> 255" and "wait_lists c s W N" and "\<And>t. t \<in> set (expiring ds) \<Longrightarrow> timed_wait c s W N t"
  shows "\<exists>s'. SysTick_Handler c cb unl s = unl s' \<and>
    lists_inv c s' (fold (insort_after (priof s)) (expiring ds) rs) (staying ds) \<and>
    wait_lists c s' (\<lambda>e. filter (\<lambda>t. t \<notin> set (expiring ds)) (W e)) (filter (\<lambda>t. t \<notin> set (expiring ds)) N) \<and>
    (\<forall>t. state (TCBTbl s' t) = (if t \<in> set (expiring ds) then TASK_READY else state (TCBTbl s t)) \<and>
         eventID (TCBTbl s' t) = (if t \<in> set (expiring ds) then INVALID_ID else eventID (TCBTbl s t)) \<and>
         pnode (TCBTbl s' t) = (if t \<in> set (expiring ds) then PNode_null else pnode (TCBTbl s t)) \<and>
         pmail (TCBTbl s' t) = pmail (TCBTbl s t) \<and> priof s' t = priof s t) \<and>
    OSTickCnt s' = OSTickCnt s + 1 \<and> TaskSchedReq s' \<and> OSSchedLock s' = 1 \<and> TmrList s' = None"
proof -
  let ?s = "s\<lparr>OSSchedLock := 1, OSTickCnt := OSTickCnt s + 1\<rparr>"
  have "same_lists s ?s" by (simp add: same_lists_def)
  then have L: "lists_inv c ?s rs ds" using same_lists_cong(1) assms(1) by blast
  have W: "wait_lists c ?s W N = wait_lists c s W N"
    by (simp add: wait_lists_def wait_rep_def flag_rep_def)
  have T: "timed_wait c ?s W N t = timed_wait c s W N t" for t
    by (simp add: timed_wait_def pri_active_def valid_tid_def)
  obtain s1 where s1: "(case DlyList ?s of None \<Rightarrow> Some ?s
      | Some d \<Rightarrow> if delayTick (TCBTbl ?s d) > 1 then Some (upd_tcb d (delayTick_update (\<lambda>n. n - 1)) ?s)
                 else isr_TimeDispose c (upd_tcb d (delayTick_update (\<lambda>_. 0)) ?s)) = Some s1"
    "lists_inv c s1 (fold (insort_after (priof ?s)) (expiring ds) rs) (staying ds)"
    "wait_lists c s1 (\<lambda>e. without_all (expiring ds) (W e)) (without_all (expiring ds) N)" "tick_rest ?s s1"
    and f1: "\<And>u. state (TCBTbl s1 u) = (if u \<in> set (expiring ds) then TASK_READY else state (TCBTbl ?s u))"
      "\<And>u. eventID (TCBTbl s1 u) = (if u \<in> set (expiring ds) then INVALID_ID else eventID (TCBTbl ?s u))"
      "\<And>u. pnode (TCBTbl s1 u) = (if u \<in> set (expiring ds) then PNode_null else pnode (TCBTbl ?s u))"
    using SysTick_timeouts [OF L assms(2), of W N] assms(5-7) W T by auto
  let ?s' = "s1\<lparr>TaskSchedReq := True\<rparr>"
  have r: "TmrList s1 = None" "OSTickCnt s1 = OSTickCnt s + 1" "OSSchedLock s1 = 1"
    "\<And>u. pmail (TCBTbl s1 u) = pmail (TCBTbl s u)" "\<And>u. prio (TCBTbl s1 u) = prio (TCBTbl s u)"
    using s1(4) assms(4) by (simp_all add: tick_rest_def)
  have "same_lists s1 ?s'" by (simp add: same_lists_def)
  then have "lists_inv c ?s' (fold (insort_after (priof s)) (expiring ds) rs) (staying ds)"
    using same_lists_cong(1) s1(2) by simp
  moreover have "wait_lists c ?s' V M = wait_lists c s1 V M" for V M
    by (simp add: wait_lists_def wait_rep_def flag_rep_def)
  moreover have "SysTick_Handler c cb unl s = unl ?s'"
    using s1(1) r(1) assms(3) by (simp add: SysTick_Handler_def)
  ultimately show ?thesis using s1(3) by (intro exI [of _ ?s']) (simp add: f1 r)
qed

text \<open>
  Tasks 3 and 5 have one tick to go, task 0 three; task 3 waits for event 1 behind task 0, task 5 for
  flags, task 4 runs and tasks 2 and 1 are ready.
\<close>

definition timeout_example :: kernel where
  "timeout_example = tick_example\<lparr>TCBTbl := (TCBTbl tick_example)(
       0 := (TCBTbl tick_example 0)\<lparr>eventID := 1, waitNext := Some 3\<rparr>,
       3 := (TCBTbl tick_example 3)\<lparr>eventID := 1, waitPrev := Some 0\<rparr>,
       5 := (TCBTbl tick_example 5)\<lparr>pnode := PNode 5\<rparr>),
     EventTbl := (\<lambda>e. (EventTbl tick_example e)\<lparr>eventTCBList := if e = 1 then Some 0 else None\<rparr>),
     FlagCrl := (FlagCrl tick_example)\<lparr>headNode := Some 5, tailNode := Some 5\<rparr>,
     FlagNodes := (\<lambda>_. \<lparr>nextNode = None, prevNode = None, waitFlags = 1, waitTask = 5, waitType = OPT_WAIT_ALL\<rparr>)\<rparr>"

theorem system_tick_witness:
  "\<exists>s'. SysTick_Handler OsConfig (\<lambda>_. Some) Some timeout_example = Some s' \<and>
     lists_inv OsConfig s' [5, 2, 1, 3] [(0, 2)] \<and> wait_rep s' 1 [0] \<and> flag_rep s' [] \<and>
     state (TCBTbl s' 3) = TASK_READY \<and> TaskSchedReq s'"
proof -
  note ex = timeout_example_def tick_example_def sched_example_def ready_example_defs
  let ?W = "\<lambda>e :: OS_EventID. if e = 1 then [0, 3] else []"
  have sl: "same_lists tick_example timeout_example" by (simp add: same_lists_def timeout_example_def)
  then have L: "lists_inv OsConfig timeout_example [2, 1] [(3, 1), (5, 1), (0, 3)]"
    using same_lists_cong(1) tick_example_lists by blast
  have "wait_lists OsConfig timeout_example ?W [5]"
    by (simp add: wait_lists_def wait_rep_def flag_rep_def dlist_def timeout_example_def)
      (simp add: tick_example_def OSTCB_zero_def)
  moreover have "timed_wait OsConfig timeout_example ?W [5] t" if "t \<in> {3, 5}" for t
    using that by (auto simp: timed_wait_def ex INVALID_ID_def OsConfig_def)
  moreover have "OSSchedLock timeout_example = 0" "TmrList timeout_example = None" by (simp_all add: ex)
  moreover have "CFG_MAX_EVENT OsConfig = 20" by (simp add: OsConfig_def)
  ultimately obtain s' where s': "SysTick_Handler OsConfig (\<lambda>_. Some) Some timeout_example = Some s'"
    "lists_inv OsConfig s' (fold (insort_after (priof timeout_example)) [3, 5] [2, 1]) [(0, 2)]"
    "wait_lists OsConfig s' (\<lambda>e. filter (\<lambda>t. t \<notin> set [3, 5]) (?W e)) (filter (\<lambda>t. t \<notin> set [3, 5]) [5])"
    "state (TCBTbl s' 3) = TASK_READY" "TaskSchedReq s'"
    using system_tick [OF L, of ?W "[5]" "\<lambda>_. Some" Some] by auto
  have "fold (insort_after (priof timeout_example)) [3, 5] [2, 1] = [5, 2, 1, 3]" by (simp add: ex)
  moreover have "wait_rep s' 1 [0]" "flag_rep s' []" using s'(3) by (auto simp: wait_lists_def OsConfig_def dest: spec [of _ 1])
  ultimately show ?thesis using s' by auto
qed

end
