(* ===== verification/HeapBlocks.thy ===== *)
theory HeapBlocks
  imports Memory
begin

unbundle bit_operations_syntax

text \<open>
  The layout of the kernel heap as a list of blocks, and the memory words by which the block
  headers represent it. A block is its address and whether it is in use; it reaches up to the next
  block or the end of the heap.
\<close>

section \<open>Layouts\<close>

type_synonym blocks = "(U32 \<times> bool) list"

fun first_addr :: "U32 \<Rightarrow> blocks \<Rightarrow> U32" where
  "first_addr e [] = e"
| "first_addr e ((a, u) # bs) = a"

text \<open>Blocks are aligned, have room for the header of a free block and follow one another.\<close>

fun spaced :: "U32 \<Rightarrow> blocks \<Rightarrow> bool" where
  "spaced e [] \<longleftrightarrow> True"
| "spaced e ((a, u) # bs) \<longleftrightarrow> \<not> bad_addr a \<and> unat a + 12 \<le> unat (first_addr e bs) \<and> spaced e bs"

text \<open>There are no two free blocks side by side.\<close>

abbreviation coalesced :: "blocks \<Rightarrow> bool" where
  "coalesced \<equiv> successively (\<lambda>x y. snd x \<or> snd y)"

text \<open>The words that hold headers, and the bytes that belong to the users of the heap.\<close>

definition hwords :: "U32 \<Rightarrow> U32 set" where
  "hwords a = {a, a + 4, a + 8}"

definition headers :: "blocks \<Rightarrow> U32 set" where
  "headers bs = (\<Union>b \<in> set bs. hwords (fst b))"

fun payload :: "U32 \<Rightarrow> blocks \<Rightarrow> U32 set" where
  "payload e [] = {}"
| "payload e ((a, u) # bs) =
     (if u then {x. unat a + 8 \<le> unat x \<and> unat x < unat (first_addr e bs)} else {}) \<union> payload e bs"

lemma first_addr_append [simp]: "first_addr e (xs @ ys) = first_addr (first_addr e ys) xs"
  by (cases "(e, xs)" rule: first_addr.cases) simp_all

lemma spaced_append [simp]: "spaced e (xs @ ys) \<longleftrightarrow> spaced (first_addr e ys) xs \<and> spaced e ys"
  by (induction xs) auto

lemma payload_append [simp]: "payload e (xs @ ys) = payload (first_addr e ys) xs \<union> payload e ys"
  by (induction xs) auto

lemma headers_simps [simp]:
  "headers [] = {}" "headers ((a, u) # bs) = hwords a \<union> headers bs" "headers (xs @ ys) = headers xs \<union> headers ys"
  by (auto simp: headers_def)

lemma spaced_first_le: "spaced e bs \<Longrightarrow> unat (first_addr e bs) \<le> unat e"
  by (induction bs) auto

lemma spaced_bounds:
  assumes "spaced e bs" and "(a, u) \<in> set bs"
  shows "\<not> bad_addr a" and "unat (first_addr e bs) \<le> unat a" and "unat a + 12 \<le> unat e"
proof -
  have "\<not> bad_addr a \<and> unat (first_addr e bs) \<le> unat a \<and> unat a + 12 \<le> unat e"
    using assms
  proof (induction bs)
    case (Cons b bs)
    then show ?case using spaced_first_le [of e bs] by (cases b) auto
  qed simp
  then show "\<not> bad_addr a" and "unat (first_addr e bs) \<le> unat a" and "unat a + 12 \<le> unat e" by auto
qed

lemma hwords_unat:
  assumes "unat a + 12 < 2 ^ 32 \<or> unat a + 12 \<le> unat (e :: U32)"
  shows "x \<in> hwords a \<Longrightarrow> unat a \<le> unat x \<and> unat x \<le> unat a + 8"
proof -
  have "unat a + 12 < 2 ^ 32" using assms unsigned_less [of e, where 'a = nat] by auto
  then have "unat (a + 4) = unat a + 4" "unat (a + 8) = unat a + 8" by (simp_all add: unat_word_ariths)
  then show "x \<in> hwords a \<Longrightarrow> unat a \<le> unat x \<and> unat x \<le> unat a + 8" by (auto simp: hwords_def)
qed

lemma headers_unat:
  assumes "spaced e bs" and "x \<in> headers bs"
  shows "unat (first_addr e bs) \<le> unat x" and "unat x < unat e"
proof -
  obtain a u where a: "(a, u) \<in> set bs" "x \<in> hwords a" using assms(2) by (auto simp: headers_def)
  with spaced_bounds [OF assms(1) a(1)] hwords_unat [of a e x]
  show "unat (first_addr e bs) \<le> unat x" and "unat x < unat e" by simp_all
qed

lemma headers_disjoint:
  assumes "spaced e (xs @ ys)" and "x \<in> headers xs"
  shows "x \<notin> headers ys"
  using assms headers_unat [of "first_addr e ys" xs x] headers_unat [of e ys x] by (auto simp: not_less)


section \<open>Links\<close>

text \<open>
  A pointer to a used block has its lowest bit set. The links at the two ends of a piece of the
  layout: the link to its first block and the address of its first free block (or what follows the
  piece), the link to its last block and the address of its last free block (or what is before).
\<close>

fun tag :: "bool \<Rightarrow> U32 \<Rightarrow> U32" where
  "tag u a = (if u then a OR 1 else a)"

fun link_first :: "U32 \<Rightarrow> blocks \<Rightarrow> U32" where
  "link_first l [] = l"
| "link_first l ((a, u) # bs) = tag u a"

fun free_first :: "U32 \<Rightarrow> blocks \<Rightarrow> U32" where
  "free_first n [] = n"
| "free_first n ((a, u) # bs) = (if u then free_first n bs else a)"

fun link_last :: "U32 \<Rightarrow> blocks \<Rightarrow> U32" where
  "link_last p [] = p"
| "link_last p ((a, u) # bs) = link_last (tag u a) bs"

fun free_last :: "U32 \<Rightarrow> blocks \<Rightarrow> U32" where
  "free_last f [] = f"
| "free_last f ((a, u) # bs) = free_last (if u then f else a) bs"

text \<open>The headers of a piece between a link \<open>p\<close> before it and a link \<open>l\<close> and a free block \<open>n\<close> behind it.\<close>

fun linked :: "(U32 \<Rightarrow> U32) \<Rightarrow> U32 \<Rightarrow> blocks \<Rightarrow> U32 \<Rightarrow> U32 \<Rightarrow> bool" where
  "linked m p [] l n \<longleftrightarrow> True"
| "linked m p ((a, u) # bs) l n \<longleftrightarrow>
     (if u then m a = link_first l bs \<and> m (a + 4) = p
      else m a = free_first n bs \<and> m (a + 4) = link_first l bs \<and> m (a + 8) = p) \<and>
     linked m (tag u a) bs l n"

lemma link_append [simp]:
  "link_first l (xs @ ys) = link_first (link_first l ys) xs" "free_first n (xs @ ys) = free_first (free_first n ys) xs"
  "link_last p (xs @ ys) = link_last (link_last p xs) ys" "free_last f (xs @ ys) = free_last (free_last f xs) ys"
proof -
  show "link_first l (xs @ ys) = link_first (link_first l ys) xs" by (cases xs) auto
  show "free_first n (xs @ ys) = free_first (free_first n ys) xs" by (induction xs) auto
  show "link_last p (xs @ ys) = link_last (link_last p xs) ys" by (induction xs arbitrary: p) auto
  show "free_last f (xs @ ys) = free_last (free_last f xs) ys" by (induction xs arbitrary: f) auto
qed

lemma linked_append [simp]:
  "linked m p (xs @ ys) l n \<longleftrightarrow>
   linked m p xs (link_first l ys) (free_first n ys) \<and> linked m (link_last p xs) ys l n"
  by (induction xs arbitrary: p) auto

lemma linked_agree:
  assumes "linked m p bs l n" and "\<And>x. x \<in> headers bs \<Longrightarrow> m' x = m x"
  shows "linked m' p bs l n"
  using assms by (induction bs arbitrary: p) (auto simp: hwords_def)

lemma tag_even: "\<not> bad_addr a \<Longrightarrow> a AND 1 = 0"
proof -
  assume "\<not> bad_addr a"
  then have "(a AND 3) AND 1 = 0" by (simp add: bad_addr_def)
  moreover have "(a AND 3) AND 1 = a AND 1" by (simp add: and.assoc)
  ultimately show "a AND 1 = 0" by simp
qed

lemma tag_odd [simp]:
  "\<not> bad_addr a \<Longrightarrow> (a OR 1) - 1 = a" "(a OR 1) AND 1 = (1 :: U32)" "a OR 1 \<noteq> (0 :: U32)"
proof -
  show "(a OR 1) - 1 = a" if "\<not> bad_addr a"
    using tag_even [OF that] by (simp flip: disjunctive_add_eq_or)
  show "(a OR 1) AND 1 = 1" by (rule bit_eqI) (auto simp: bit_simps)
  show "a OR 1 \<noteq> 0" by (simp add: or_eq_0_iff)
qed

section \<open>Relinking\<close>

text \<open>
  The stores by which the code relinks the pieces in front of and behind a block: the \<open>nextFMB\<close> of
  the last free block, the \<open>nextMB\<close> of a used block in front, the \<open>preMB\<close> of a used block behind.
\<close>

definition set_nextFMB :: "U32 \<Rightarrow> U32 \<Rightarrow> (U32 \<Rightarrow> U32) \<Rightarrow> U32 \<Rightarrow> U32" where
  "set_nextFMB f v m = (if f = 0 then m else m(f := v))"

definition set_nextMB :: "U32 \<Rightarrow> U32 \<Rightarrow> (U32 \<Rightarrow> U32) \<Rightarrow> U32 \<Rightarrow> U32" where
  "set_nextMB q v m = (if q = 0 then m else m(q - 1 := v))"

definition set_preMB :: "U32 \<Rightarrow> U32 \<Rightarrow> (U32 \<Rightarrow> U32) \<Rightarrow> U32 \<Rightarrow> U32" where
  "set_preMB q v m = (if q = 0 then m else m(q - 1 + 4 := v))"

text \<open>The piece ends, or begins, with a used block if it is not empty.\<close>

abbreviation used_last :: "blocks \<Rightarrow> bool" where
  "used_last xs \<equiv> xs = [] \<or> snd (last xs)"

abbreviation used_first :: "blocks \<Rightarrow> bool" where
  "used_first ys \<equiv> ys = [] \<or> snd (hd ys)"

lemma linked_upd: "x \<notin> headers bs \<Longrightarrow> linked (m(x := v)) p bs l n = linked m p bs l n"
  by (intro iffI; erule linked_agree) auto

lemma used_lastE:
  assumes "used_last xs"
  obtains "xs = []" | ys a where "xs = ys @ [(a, True)]"
  using assms by (cases xs rule: rev_cases) auto

lemma used_firstE:
  assumes "used_first ys"
  obtains "ys = []" | a zs where "ys = (a, True) # zs"
  using assms by (cases ys) auto

lemma free_last_cases:
  obtains "\<forall>b \<in> set xs. snd b" "free_last f xs = f"
  | ys a zs where "xs = ys @ (a, False) # zs" "\<forall>b \<in> set zs. snd b" "free_last f xs = a"
proof (induction xs rule: rev_induct)
  case (snoc b xs)
  obtain a u where b: "b = (a, u)" by (cases b)
  show ?case
  proof (cases u)
    case True
    show ?thesis
    proof (rule snoc.IH)
      assume "\<forall>b \<in> set xs. snd b" "free_last f xs = f"
      then show ?thesis using snoc.prems(1) b True by simp
    next
      fix ys c zs assume "xs = ys @ (c, False) # zs" "\<forall>b \<in> set zs. snd b" "free_last f xs = c"
      then show ?thesis using snoc.prems(2) [of ys c "zs @ [b]"] b True by simp
    qed
  next
    case False
    then show ?thesis using snoc.prems(2) [of xs a "[]"] b by simp
  qed
qed simp

lemma free_first_used: "\<forall>b \<in> set xs. snd b \<Longrightarrow> free_first n xs = n"
  by (induction xs) auto

lemma linked_used: "\<forall>b \<in> set xs. snd b \<Longrightarrow> linked m p xs l n = linked m p xs l n'"
  by (induction xs arbitrary: p) auto

lemma spaced_notin:
  assumes "spaced e (xs @ (a, u) # ys)" and "x \<in> hwords a"
  shows "x \<notin> headers xs" and "x \<notin> headers ys"
  using assms headers_disjoint [of e "xs @ [(a, u)]" ys x] headers_disjoint [of e xs "(a, u) # ys" x] by auto

text \<open>Give the last free block of the piece another successor in the list of free blocks.\<close>

lemma relink_free:
  assumes "spaced e xs" and "linked m p xs l n"
  shows "linked (set_nextFMB (free_last 0 xs) n' m) p xs l n'"
proof (cases rule: free_last_cases [of xs 0])
  case 1
  then show ?thesis using assms(2) linked_used [of xs m p l n n'] by (simp add: set_nextFMB_def)
next
  case (2 ys a zs)
  have n: "x \<notin> headers ys" "x \<notin> headers zs" if "x \<in> hwords a" for x
    using spaced_notin [of e ys a False zs x] assms(1) 2(1) that by simp_all
  have a: "\<not> bad_addr a" using assms(1) 2(1) by simp
  then have "a \<noteq> 0" by (auto simp: bad_addr_def)
  then show ?thesis using assms(2) 2 n linked_used [of zs m a l n n']
    by (simp add: set_nextFMB_def hwords_def linked_upd free_first_used)
qed

text \<open>Let the last block of the piece point to another block behind it.\<close>

lemma relink_next:
  assumes "spaced e xs" and "linked m p xs l n" and "used_last xs"
  shows "linked (set_nextMB (link_last 0 xs) l' m) p xs l' n"
  using assms(3)
proof (rule used_lastE)
  fix ys a assume xs: "xs = ys @ [(a, True)]"
  have "a \<notin> headers ys" "\<not> bad_addr a" using spaced_notin [of e ys a True "[]" a] assms(1) xs by (simp_all add: hwords_def)
  then show ?thesis using assms(2) xs by (simp add: set_nextMB_def linked_upd)
qed simp

text \<open>Let the first block of the piece point to another block in front of it.\<close>

lemma relink_prev:
  assumes "spaced e ys" and "linked m p ys l n" and "used_first ys"
  shows "linked (set_preMB (link_first 0 ys) p' m) p' ys l n"
  using assms(3)
proof (rule used_firstE)
  fix a zs assume ys: "ys = (a, True) # zs"
  have "a + 4 \<notin> headers zs" "\<not> bad_addr a" using spaced_notin [of e "[]" a True zs "a + 4"] assms(1) ys by (simp_all add: hwords_def)
  then show ?thesis using assms(2) ys by (simp add: set_preMB_def linked_upd)
qed simp

text \<open>These stores change headers of the piece only.\<close>

lemma free_last_header: "free_last 0 xs \<noteq> 0 \<Longrightarrow> free_last 0 xs \<in> headers xs"
  by (cases rule: free_last_cases [of xs 0]) (auto simp: hwords_def)

lemma set_nextFMB_other [simp]: "x \<notin> headers xs \<Longrightarrow> set_nextFMB (free_last 0 xs) v m x = m x"
  using free_last_header [of xs] by (auto simp: set_nextFMB_def)

lemma set_nextMB_other [simp]: "spaced e xs \<Longrightarrow> used_last xs \<Longrightarrow> x \<notin> headers xs \<Longrightarrow> set_nextMB (link_last 0 xs) v m x = m x"
  by (erule used_lastE) (auto simp: set_nextMB_def hwords_def)

lemma set_preMB_other [simp]: "spaced e ys \<Longrightarrow> used_first ys \<Longrightarrow> x \<notin> headers ys \<Longrightarrow> set_preMB (link_first 0 ys) v m x = m x"
  by (erule used_firstE) (auto simp: set_preMB_def hwords_def)

section \<open>The memory in use\<close>

lemma payload_unat:
  assumes "spaced e bs" and "x \<in> payload e bs"
  shows "unat (first_addr e bs) + 8 \<le> unat x" and "unat x < unat e"
proof -
  have "unat (first_addr e bs) + 8 \<le> unat x \<and> unat x < unat e" using assms
  proof (induction bs)
    case (Cons b bs)
    then show ?case using spaced_first_le [of e bs] by (cases b) (auto split: if_splits)
  qed simp
  then show "unat (first_addr e bs) + 8 \<le> unat x" and "unat x < unat e" by simp_all
qed

lemma payload_outside:
  assumes "spaced e (xs @ (a, u) # ys)" and "x \<in> payload e (xs @ (a, u) # ys)"
  shows "unat x < unat a \<or> (if u then unat a + 8 else unat (first_addr e ys)) \<le> unat x"
  using assms payload_unat [of a xs x] payload_unat [of e ys x] by (auto split: if_splits)

text \<open>The stores of the relinking do not touch it.\<close>

lemma payload_store:
  assumes "spaced e bs" and "x \<in> payload e bs" and "(a, u) \<in> set bs"
  shows "x \<noteq> a" and "x \<noteq> a + 4"
proof -
  obtain xs ys where bs: "bs = xs @ (a, u) # ys" using split_list [OF assms(3)] by blast
  have "unat a + 12 \<le> unat (first_addr e ys)" "unat a + 12 \<le> unat e"
    using assms(1) bs spaced_first_le [of e ys] by simp_all
  moreover from this(2) have "unat (a + 4) = unat a + 4" using unsigned_less [of e, where 'a = nat] by (simp add: unat_word_ariths)
  moreover have "unat x < unat a \<or> (if u then unat a + 8 else unat (first_addr e ys)) \<le> unat x"
    using payload_outside assms(1,2) unfolding bs by blast
  ultimately show "x \<noteq> a" and "x \<noteq> a + 4" by (auto split: if_splits)
qed

lemma payload_relink:
  assumes "spaced e (xs @ bs @ ys)" and "x \<in> payload e (xs @ bs @ ys)" and "used_last xs" and "used_first ys"
  shows "set_nextFMB (free_last 0 xs) v m x = m x" and "set_nextMB (link_last 0 xs) v m x = m x"
    and "set_preMB (link_first 0 ys) v m x = m x"
proof -
  note st = payload_store [OF assms(1,2)]
  show "set_nextFMB (free_last 0 xs) v m x = m x"
    using st(1) by (cases rule: free_last_cases [of xs 0]) (auto simp: set_nextFMB_def)
  show "set_nextMB (link_last 0 xs) v m x = m x" using assms(3)
  proof (rule used_lastE)
    fix ws a assume "xs = ws @ [(a, True)]"
    then show ?thesis using st(1) [of a True] assms(1) by (simp add: set_nextMB_def)
  qed (simp add: set_nextMB_def)
  show "set_preMB (link_first 0 ys) v m x = m x" using assms(4)
  proof (rule used_firstE)
    fix a ws assume "ys = (a, True) # ws"
    then show ?thesis using st(2) [of a True] assms(1) by (simp add: set_preMB_def)
  qed (simp add: set_preMB_def)
qed

end
