(* ===== verification/HeapAlloc.thy ===== *)
theory HeapAlloc
  imports HeapBlocks
begin

unbundle bit_operations_syntax

text \<open>
  What \<open>CoKmalloc\<close> and \<open>CoKfree\<close> do to the layout of the kernel heap: first fit with splitting, and
  release with coalescing.
\<close>

section \<open>Specification\<close>

text \<open>The headers in memory, the list of free blocks and the bounds of the heap fit the layout.\<close>

definition heap_rep :: "kernel \<Rightarrow> blocks \<Rightarrow> bool" where
  "heap_rep s bs \<longleftrightarrow> spaced (endAddr (Kheap s)) bs \<and> coalesced bs \<and> linked (mem s) 0 bs 0 0 \<and>
     FMBlist s = free_first 0 bs \<and> first_addr (endAddr (Kheap s)) bs = startAddr (Kheap s)"

text \<open>Use a free block of the layout for \<open>z\<close> bytes; a rest of 12 bytes or more stays free.\<close>

definition carve :: "U32 \<Rightarrow> U32 \<Rightarrow> U32 \<Rightarrow> blocks \<Rightarrow> blocks" where
  "carve e z a bs = (a, True) # (if first_addr e bs - a - z < 12 then bs else (a + z, False) # bs)"

fun first_fit :: "U32 \<Rightarrow> U32 \<Rightarrow> blocks \<Rightarrow> (U32 \<times> blocks) option" where
  "first_fit e z [] = None"
| "first_fit e z ((a, u) # bs) =
     (if \<not> u \<and> z \<le> first_addr e bs - a then Some (a, carve e z a bs)
      else map_option (\<lambda>(r, bs). (r, (a, u) # bs)) (first_fit e z bs))"

text \<open>The states differ in the free memory and the headers only.\<close>

definition heap_frame :: "U32 set \<Rightarrow> kernel \<Rightarrow> kernel \<Rightarrow> bool" where
  "heap_frame A s s' \<longleftrightarrow> (\<forall>x \<in> A. mem s' x = mem s x) \<and> s' = s\<lparr>mem := mem s', FMBlist := FMBlist s'\<rparr>"

section \<open>Stores\<close>

lemma rd_ok: "\<not> bad_addr a \<Longrightarrow> rd a off s = Some (mem s (a + off))"
  by (simp add: rd_def)

lemma wr_ok: "\<not> bad_addr a \<Longrightarrow> wr a off v s = Some (s\<lparr>mem := (mem s)(a + off := v)\<rparr>)"
  by (simp add: wr_def)

lemma set_next_fmb_ok:
  "(f \<noteq> 0 \<Longrightarrow> \<not> bad_addr f) \<Longrightarrow>
   set_next_fmb f v s = Some (s\<lparr>mem := set_nextFMB f v (mem s), FMBlist := if f = 0 then v else FMBlist s\<rparr>)"
  by (auto simp: set_next_fmb_def set_nextFMB_def wr_def off_defs)

lemma store_preMB:
  "(q \<noteq> 0 \<Longrightarrow> \<not> bad_addr (q - 1)) \<Longrightarrow>
   set_pre_mb q v s = Some (s\<lparr>mem := set_preMB q v (mem s)\<rparr>)"
  by (auto simp: set_pre_mb_def set_preMB_def wr_def off_defs)

lemma store_nextMB:
  "(q \<noteq> 0 \<Longrightarrow> \<not> bad_addr (q - 1)) \<Longrightarrow>
   set_next_mb q v s = Some (s\<lparr>mem := set_nextMB q v (mem s)\<rparr>)"
  by (auto simp: set_next_mb_def set_nextMB_def wr_def off_defs)

lemma links_valid:
  assumes "spaced e xs"
  shows "free_last 0 xs \<noteq> 0 \<Longrightarrow> \<not> bad_addr (free_last 0 xs)"
    and "used_last xs \<Longrightarrow> link_last 0 xs \<noteq> 0 \<Longrightarrow> \<not> bad_addr (link_last 0 xs - 1)"
    and "used_first xs \<Longrightarrow> link_first 0 xs \<noteq> 0 \<Longrightarrow> \<not> bad_addr (link_first 0 xs - 1)"
proof -
  show "free_last 0 xs \<noteq> 0 \<Longrightarrow> \<not> bad_addr (free_last 0 xs)"
    using assms by (cases rule: free_last_cases [of xs 0]) auto
  show "used_last xs \<Longrightarrow> link_last 0 xs \<noteq> 0 \<Longrightarrow> \<not> bad_addr (link_last 0 xs - 1)"
    using assms by (auto elim!: used_lastE)
  show "used_first xs \<Longrightarrow> link_first 0 xs \<noteq> 0 \<Longrightarrow> \<not> bad_addr (link_first 0 xs - 1)"
    using assms by (auto elim!: used_firstE)
qed

lemmas store_ok = rd_ok wr_ok set_next_fmb_ok store_preMB store_nextMB

lemma free_first_change: "spaced e xs \<Longrightarrow> free_first n' xs = (if free_last 0 xs = 0 then n' else free_first n xs)"
proof (cases rule: free_last_cases [of xs 0])
  case (2 ys a zs)
  assume "spaced e xs"
  then have "a \<noteq> 0" using 2(1) by (auto simp: bad_addr_def)
  then show ?thesis using 2 by simp
qed (simp add: free_first_used)

section \<open>Assembling a layout\<close>

lemma set_nextMB_cong: "m x = m' x \<Longrightarrow> set_nextMB q v m x = set_nextMB q v m' x"
  by (simp add: set_nextMB_def)

lemma set_preMB_cong: "m x = m' x \<Longrightarrow> set_preMB q v m x = set_preMB q v m' x"
  by (simp add: set_preMB_def)

lemma spaced_parts:
  assumes "spaced e (xs @ bs @ ys)"
  shows "x \<in> headers xs \<Longrightarrow> x \<notin> headers bs" "x \<in> headers xs \<Longrightarrow> x \<notin> headers ys"
    "x \<in> headers ys \<Longrightarrow> x \<notin> headers bs" "x \<in> headers ys \<Longrightarrow> x \<notin> headers xs"
  using headers_disjoint [of e xs "bs @ ys" x] headers_disjoint [of e "xs @ bs" ys x] assms by auto

lemma linked_assemble:
  assumes "spaced e (xs @ bs @ ys)" and "used_last xs" and "used_first ys" and "bs \<noteq> []"
    and "linked m 0 xs l n" and "linked m p ys 0 0"
    and "linked m' (link_last 0 xs) bs (link_first 0 ys) (free_first 0 ys)"
    and "\<And>x. x \<in> headers xs \<Longrightarrow>
      m' x = set_nextMB (link_last 0 xs) (link_first 0 bs) (set_nextFMB (free_last 0 xs) (free_first (free_first 0 ys) bs) m) x"
    and "\<And>x. x \<in> headers ys \<Longrightarrow> m' x = set_preMB (link_first 0 ys) (link_last 0 bs) m x"
  shows "linked m' 0 (xs @ bs @ ys) 0 0"
proof -
  have sp: "spaced (first_addr e (bs @ ys)) xs" "spaced e ys" using assms(1) by simp_all
  have "link_first (link_first 0 ys) bs = link_first 0 bs" "link_last (link_last 0 xs) bs = link_last 0 bs"
    using assms(4) by (cases bs; auto)+
  then show ?thesis
    using linked_agree [OF relink_next [OF sp(1) relink_free [OF sp(1) assms(5)] assms(2)] assms(8)]
      linked_agree [OF relink_prev [OF sp(2) assms(6,3)] assms(9)] assms(7) by simp
qed

section \<open>Allocation\<close>

lemma heap_split:
  assumes "heap_rep s (xs @ (a, False) # ys)"
  defines "e \<equiv> endAddr (Kheap s)"
  shows "used_last xs" and "used_first ys" and "spaced e (xs @ (a, False) # ys)"
    and "linked (mem s) 0 xs a a" and "linked (mem s) a ys 0 0" and "mem s a = free_first 0 ys"
    and "mem s (a + 4) = link_first 0 ys" and "mem s (a + 8) = link_last 0 xs" and "\<not> bad_addr a"
proof -
  note rep = assms(1) [unfolded heap_rep_def, folded e_def]
  show "used_last xs" and "used_first ys"
    using rep by (auto simp: successively_append_iff successively_Cons)
  show "spaced e (xs @ (a, False) # ys)" "linked (mem s) 0 xs a a" "linked (mem s) a ys 0 0" "mem s a = free_first 0 ys"
    "mem s (a + 4) = link_first 0 ys" "mem s (a + 8) = link_last 0 xs" "\<not> bad_addr a"
    using rep by simp_all
qed

lemma kmalloc_take_whole:
  assumes "heap_rep s (xs @ (a, False) # ys)"
  defines "e \<equiv> endAddr (Kheap s)"
  assumes "z \<le> first_addr e ys - a" and "first_addr e ys - a - z < 12"
  shows "\<exists>s'. kmalloc_take z a (free_last 0 xs) (first_addr e ys - a) s = Some s' \<and>
    heap_rep s' (xs @ (a, True) # ys) \<and> heap_frame (payload e (xs @ (a, False) # ys)) s s'"
proof -
  note h = heap_split [OF assms(1), folded e_def]
  have sp: "spaced a xs" "spaced e ys" using h(3) by simp_all
  have n: "x \<notin> headers xs" "x \<notin> headers ys" if "x \<in> hwords a" for x using spaced_notin [OF h(3) that] .
  define m where "m = set_nextMB (link_last 0 xs) (a OR 1) ((set_preMB (link_first 0 ys) (a OR 1)
    (set_nextFMB (free_last 0 xs) (free_first 0 ys) (mem s)))(a := link_first 0 ys, a + 4 := link_last 0 xs))"
  let ?s = "s\<lparr>mem := m, FMBlist := if free_last 0 xs = 0 then free_first 0 ys else FMBlist s\<rparr>"
  have "kmalloc_take z a (free_last 0 xs) (first_addr e ys - a) s = Some ?s"
    using assms(4) h(1,2,6-9) n links_valid(1) [OF sp(1)] links_valid(2) [OF sp(1) h(1)] links_valid(3) [OF sp(2) h(2)]
    by (simp add: kmalloc_take_def Let_def store_ok hwords_def off_defs m_def
        set_preMB_other [OF sp(2) h(2)] set_nextMB_other [OF sp(1) h(1)] split del: if_split)
  moreover have "linked m 0 (xs @ [(a, True)] @ ys) 0 0"
  proof (rule linked_assemble [of e xs "[(a, True)]" ys "mem s" a a a])
    note pt = spaced_parts [of e xs "[(a, False)]" ys, simplified, OF h(3)[simplified]]
    show "linked m (link_last 0 xs) [(a, True)] (link_first 0 ys) (free_first 0 ys)"
      using n by (simp add: m_def hwords_def set_nextMB_other [OF sp(1) h(1)])
    show "m x = set_nextMB (link_last 0 xs) (link_first 0 [(a, True)])
        (set_nextFMB (free_last 0 xs) (free_first (free_first 0 ys) [(a, True)]) (mem s)) x" if "x \<in> headers xs" for x
      using pt(1,2) [OF that] unfolding m_def
      by (auto intro!: set_nextMB_cong simp: hwords_def set_preMB_other [OF sp(2) h(2)])
    show "m x = set_preMB (link_first 0 ys) (link_last 0 [(a, True)]) (mem s) x" if "x \<in> headers ys" for x
      using pt(3,4) [OF that] unfolding m_def
      by (auto intro!: set_preMB_cong simp: hwords_def set_nextMB_other [OF sp(1) h(1)])
  qed (use h(1-5) in simp_all)
  moreover have "m x = mem s x" if x: "x \<in> payload e (xs @ (a, False) # ys)" for x
    using payload_relink [of e xs "[(a, False)]" ys x] payload_store [OF h(3) x, of a False] h(1-3) x
    by (simp add: m_def)
  ultimately show ?thesis using assms(1) free_first_change [OF sp(1), of "free_first 0 ys" a]
    by (auto simp: heap_rep_def heap_frame_def successively_append_iff successively_Cons)
qed

lemma split_bounds:
  fixes a z f :: U32
  assumes "unat a \<le> unat f" and "z \<le> f - a" and "\<not> f - a - z < 12"
  shows "unat (a + z) = unat a + unat z" and "unat a + unat z + 12 \<le> unat f"
proof -
  have "unat (f - a) = unat f - unat a" using assms(1) by (simp add: unat_sub word_le_nat_alt)
  moreover have "unat (f - a - z) = unat (f - a) - unat z" using assms(2) by (simp add: unat_sub word_le_nat_alt)
  ultimately show le: "unat a + unat z + 12 \<le> unat f" using assms by (simp add: word_less_nat_alt word_le_nat_alt)
  then show "unat (a + z) = unat a + unat z"
    using unsigned_less [of f, where 'a = nat] by (simp add: unat_word_ariths)
qed

lemma kmalloc_take_split:
  assumes "heap_rep s (xs @ (a, False) # ys)"
  defines "e \<equiv> endAddr (Kheap s)"
  assumes "z \<le> first_addr e ys - a" and "\<not> first_addr e ys - a - z < 12" and "12 \<le> unat z" and "unat z mod 4 = 0"
  shows "\<exists>s'. kmalloc_take z a (free_last 0 xs) (first_addr e ys - a) s = Some s' \<and>
    heap_rep s' (xs @ (a, True) # (a + z, False) # ys) \<and> heap_frame (payload e (xs @ (a, False) # ys)) s s'"
proof -
  note h = heap_split [OF assms(1), folded e_def]
  define b where "b = a + z"
  have sp: "spaced a xs" "spaced e ys" "unat a + 12 \<le> unat (first_addr e ys)" using h(3) by simp_all
  have b: "unat b =  unat a + unat z" "unat b + 12 \<le> unat (first_addr e ys)"
    using split_bounds [OF _ assms(3,4)] sp(3) by (simp_all add: b_def)
  have nb: "\<not> bad_addr b" using h(9) b(1) assms(5,6) by (simp add: bad_addr_unat mod_add_eq [symmetric])
  have sp': "spaced e (xs @ [(a, True), (b, False)] @ ys)" using sp b nb assms(5) h(9) by simp
  note pt = spaced_parts [OF sp', simplified]
  have n: "x \<notin> headers xs" "x \<notin> headers ys" if "x \<in> hwords a \<or> x \<in> hwords b" for x using pt(1,3) [of x] that by auto
  have ab: "x \<noteq> y" if "x \<in> hwords a" "y \<in> hwords b" for x y
    using headers_disjoint [of e "[(a, True)]" "(b, False) # ys" x] sp' that by auto
  have nx: "y \<notin> headers xs" "y \<notin> headers ys" if "y \<in> {a, a + 4, a + 8, b, b + 4, b + 8}" for y
    using n [of y] that by (auto simp: hwords_def)
  have neq: "a \<noteq> b" "a + 4 \<noteq> b" "a + 8 \<noteq> b" "a \<noteq> b + 4" "a + 4 \<noteq> b + 4" "a + 8 \<noteq> b + 4"
    "a \<noteq> b + 8" "a + 4 \<noteq> b + 8" "a + 8 \<noteq> b + 8" by (rule ab; simp add: hwords_def)+
  define m where "m = set_nextMB (link_last 0 xs) (a OR 1) ((set_preMB (link_first 0 ys) b
    ((set_nextFMB (free_last 0 xs) b (mem s))(b + 8 := a OR 1, b + 4 := link_first 0 ys, b := free_first 0 ys)))
    (a := b, a + 4 := link_last 0 xs))"
  let ?s = "s\<lparr>mem := m, FMBlist := if free_last 0 xs = 0 then b else FMBlist s\<rparr>"
  have "kmalloc_take z a (free_last 0 xs) (first_addr e ys - a) s = Some ?s"
    using assms(4) h(6-9) nb links_valid(1) [OF sp(1)] links_valid(2) [OF sp(1) h(1)] links_valid(3) [OF sp(2) h(2)]
    by (simp add: kmalloc_take_def Let_def store_ok off_defs m_def nx neq neq [symmetric] b_def [symmetric]
        set_preMB_other [OF sp(2) h(2)] set_nextMB_other [OF sp(1) h(1)] split del: if_split)
  moreover have "linked m 0 (xs @ [(a, True), (b, False)] @ ys) 0 0"
  proof (rule linked_assemble [of e xs "[(a, True), (b, False)]" ys "mem s" a a a])
    show "linked m (link_last 0 xs) [(a, True), (b, False)] (link_first 0 ys) (free_first 0 ys)"
      by (simp add: m_def nx neq neq [symmetric] set_nextMB_other [OF sp(1) h(1)] set_preMB_other [OF sp(2) h(2)])
    show "m x = set_nextMB (link_last 0 xs) (link_first 0 [(a, True), (b, False)])
        (set_nextFMB (free_last 0 xs) (free_first (free_first 0 ys) [(a, True), (b, False)]) (mem s)) x" if "x \<in> headers xs" for x
      using pt(1,2) [OF that] unfolding m_def
      by (auto intro!: set_nextMB_cong simp: hwords_def set_preMB_other [OF sp(2) h(2)])
    show "m x = set_preMB (link_first 0 ys) (link_last 0 [(a, True), (b, False)]) (mem s) x" if "x \<in> headers ys" for x
      using pt(3,4) [OF that] unfolding m_def
      by (auto intro!: set_preMB_cong simp: hwords_def set_nextMB_other [OF sp(1) h(1)])
  qed (use h(1-5) sp' in simp_all)
  moreover have "m x = mem s x" if x: "x \<in> payload e (xs @ (a, False) # ys)" for x
  proof -
    have "x \<notin> hwords b" using payload_outside [OF h(3) x] hwords_unat [of b "first_addr e ys" x] b by auto
    then show ?thesis
      using payload_relink [of e xs "[(a, False)]" ys x] payload_store [OF h(3) x, of a False] h(1-3) x
      by (simp add: m_def hwords_def)
  qed
  ultimately show ?thesis using assms(1) sp' free_first_change [OF sp(1), of b a]
    by (auto simp: heap_rep_def heap_frame_def b_def [symmetric] e_def [symmetric] successively_append_iff successively_Cons)
qed

lemma kmalloc_take_ok:
  assumes "heap_rep s (xs @ (a, False) # ys)" and "e = endAddr (Kheap s)"
    and "z \<le> first_addr e ys - a" and "12 \<le> unat z" and "unat z mod 4 = 0"
  shows "\<exists>s'. kmalloc_take z a (free_last 0 xs) (first_addr e ys - a) s = Some s' \<and>
    heap_rep s' (xs @ carve e z a ys) \<and> heap_frame (payload e (xs @ (a, False) # ys)) s s'"
  using kmalloc_take_whole [OF assms(1)] kmalloc_take_split [OF assms(1)] assms(2-5) by (auto simp: carve_def)

lemma free_size:
  assumes "used_first ys" and "spaced e ys"
  shows "(if link_first 0 ys = 0 then e - a else link_first 0 ys - 1 - a) = first_addr e ys - a"
  using assms(1) by (rule used_firstE) (use assms(2) in simp_all)

lemma kmalloc_loop_ok:
  assumes "heap_rep s (xs @ ys)" and "e = endAddr (Kheap s)" and "12 \<le> unat z" and "unat z mod 4 = 0"
  shows "case first_fit e z ys of
      None \<Rightarrow> kmalloc_loop z e (free_first 0 ys) (free_last 0 xs) s = Some (0, s)
    | Some (a, ys') \<Rightarrow> \<exists>s'. kmalloc_loop z e (free_first 0 ys) (free_last 0 xs) s = Some (a + 8, s') \<and>
        heap_rep s' (xs @ ys') \<and> heap_frame (payload e (xs @ ys)) s s'"
  using assms(1)
proof (induction ys arbitrary: xs)
  case Nil
  show ?case by (subst kmalloc_loop.simps) simp
next
  case (Cons y ys)
  obtain a u where y: "y = (a, u)" by (cases y)
  have IH: "case first_fit e z ys of
      None \<Rightarrow> kmalloc_loop z e (free_first 0 ys) (free_last 0 (xs @ [y])) s = Some (0, s)
    | Some (b, ys') \<Rightarrow> \<exists>s'. kmalloc_loop z e (free_first 0 ys) (free_last 0 (xs @ [y])) s = Some (b + 8, s') \<and>
        heap_rep s' (xs @ y # ys') \<and> heap_frame (payload e (xs @ y # ys)) s s'"
    using Cons.IH [of "xs @ [y]"] Cons.prems by (simp only: append.assoc append_Cons append_Nil)
  show ?case
  proof (cases u)
    case True
    then show ?thesis using IH y by (auto split: option.splits)
  next
    case False
    then have rep: "heap_rep s (xs @ (a, False) # ys)" using Cons.prems y by simp
    note h = heap_split [OF rep]
    have a: "a \<noteq> 0" using h(9) by (auto simp: bad_addr_def)
    have sz: "(if mem s (a + 4) = 0 then e - a else mem s (a + 4) - 1 - a) = first_addr e ys - a"
      using free_size [OF h(2), of e a] h(3) assms(2) unfolding h(7) by simp
    show ?thesis
    proof (cases "z \<le> first_addr e ys - a")
      case True
      then obtain s' where t: "kmalloc_take z a (free_last 0 xs) (first_addr e ys - a) s = Some s'"
        "heap_rep s' (xs @ carve e z a ys)" "heap_frame (payload e (xs @ (a, False) # ys)) s s'"
        using kmalloc_take_ok [OF rep assms(2) _ assms(3,4)] by blast
      then have "kmalloc_loop z e a (free_last 0 xs) s = Some (a + 8, s')"
        using True a h(9) sz by (subst kmalloc_loop.simps) (simp add: rd_ok off_defs Let_def)
      then show ?thesis using t(2,3) True False y by simp
    next
      case size: False
      then have "kmalloc_loop z e a (free_last 0 xs) s = kmalloc_loop z e (free_first 0 ys) a s"
        using a h(6,9) sz by (subst kmalloc_loop.simps) (simp add: rd_ok off_defs Let_def)
      then show ?thesis using IH y False size by (auto split: option.splits)
    qed
  qed
qed

text \<open>The size of the block: a multiple of 4 with room for the header and the requested bytes.\<close>

lemma block_size:
  fixes sz :: U32
  assumes "0 < unat sz" and "unat sz + 11 < 2 ^ 32"
  defines "z \<equiv> push_bit 2 (drop_bit 2 (sz + 3)) + 8"
  shows "unat z mod 4 = 0" and "12 \<le> unat z" and "unat sz + 8 \<le> unat z" and "unat z \<le> unat sz + 11"
proof -
  have 3: "unat (sz + 3) = unat sz + 3" using assms(2) by (simp add: unat_word_ariths)
  have "unat (push_bit 2 (drop_bit 2 (sz + 3))) = (unat sz + 3) div 4 * 4"
  proof -
    have "unat (drop_bit 2 (sz + 3)) = (unat sz + 3) div 4"
      using 3 by (simp add: drop_bit_eq_div unat_div_distrib)
    moreover have "(unat sz + 3) div 4 * 4 < 2 ^ 32" using assms(2) by simp
    ultimately show ?thesis by (simp add: push_bit_eq_mult unat_word_ariths mult.commute)
  qed
  then have "unat z = (unat sz + 3) div 4 * 4 + 8" using assms(2) unfolding z_def by (subst unat_word_ariths) simp
  then show "unat z mod 4 = 0" and "12 \<le> unat z" and "unat sz + 8 \<le> unat z" and "unat z \<le> unat sz + 11"
    using assms(1) by presburger+
qed


lemma CoKmalloc_ok:
  assumes "heap_rep s bs" and "0 < unat sz" and "unat sz + 11 < 2 ^ 32" and "\<not> IsrReq s" and "\<not> TaskSchedReq s"
  defines "e \<equiv> endAddr (Kheap s)" and "z \<equiv> push_bit 2 (drop_bit 2 (sz + 3)) + 8"
  shows "case first_fit e z bs of
      None \<Rightarrow> CoKmalloc c (OsSchedUnlock c cb) sz s = Some (0, s)
    | Some (a, bs') \<Rightarrow> \<exists>s'. CoKmalloc c (OsSchedUnlock c cb) sz s = Some (a + 8, s') \<and>
        heap_rep s' bs' \<and> heap_frame (payload e bs) s s'"
proof -
  let ?s = "OsSchedLock s"
  have rep: "heap_rep ?s ([] @ bs)" using assms(1) by (simp add: heap_rep_def OsSchedLock_def)
  have nz: "sz \<noteq> 0" using assms(2) by auto
  note l = kmalloc_loop_ok [OF rep _ block_size(2,1) [OF assms(2,3)], of e, folded z_def]
  show ?thesis
  proof (cases "first_fit e z bs")
    case None
    with l nz assms(1,4,5) show ?thesis
      by (simp add: CoKmalloc_def Let_def e_def z_def OsSchedLock_def heap_rep_def unlock_calm)
  next
    case (Some r)
    then obtain a bs' s' where r: "r = (a, bs')" "kmalloc_loop z e (free_first 0 bs) 0 ?s = Some (a + 8, s')"
      "heap_rep s' bs'" "heap_frame (payload e bs) ?s s'"
      using l by (cases r) (auto simp: e_def OsSchedLock_def)
    have fr: "s' = ?s\<lparr>mem := mem s', FMBlist := FMBlist s'\<rparr>" using r(4) by (simp add: heap_frame_def)
    let ?t = "s\<lparr>mem := mem s', FMBlist := FMBlist s'\<rparr>"
    have "\<not> IsrReq s'" "\<not> TaskSchedReq s'" using assms(4,5) by (subst fr; simp add: OsSchedLock_def)+
    moreover have "s'\<lparr>OSSchedLock := OSSchedLock s' - 1\<rparr> = ?t" by (subst (1 2) fr) (simp add: OsSchedLock_def)
    ultimately have "CoKmalloc c (OsSchedUnlock c cb) sz s = Some (a + 8, ?t)"
      using r(2) nz assms(1) by (simp add: CoKmalloc_def Let_def e_def z_def heap_rep_def OsSchedLock_def) (simp add: unlock_calm)
    moreover have "Kheap s' = Kheap s" by (subst fr) (simp add: OsSchedLock_def)
    then have "heap_rep ?t bs'" "heap_frame (payload e bs) s ?t"
      using r(3,4) by (simp_all add: heap_rep_def heap_frame_def OsSchedLock_def)
    ultimately show ?thesis using Some r(1) by auto
  qed
qed

end
