(* ===== verification/HeapFree.thy ===== *)
theory HeapFree
  imports HeapAlloc
begin

unbundle bit_operations_syntax

text \<open>
  What \<open>CoKfree\<close> does to the layout of the kernel heap: the block becomes free and is joined with the
  free blocks next to it.
\<close>

section \<open>Specification\<close>

fun coalesce :: "blocks \<Rightarrow> blocks" where
  "coalesce [] = []"
| "coalesce [x] = [x]"
| "coalesce (x # y # bs) = (if snd x \<or> snd y then x # coalesce (y # bs) else coalesce (x # bs))"

definition release :: "U32 \<Rightarrow> blocks \<Rightarrow> blocks" where
  "release a bs = coalesce (map (\<lambda>(b, u). (b, u \<and> b \<noteq> a)) bs)"

lemma coalesce_id: "coalesced bs \<Longrightarrow> coalesce bs = bs"
  by (induction bs rule: coalesce.induct) auto

text \<open>A piece without the free block it begins with.\<close>

definition skip_free :: "blocks \<Rightarrow> blocks" where
  "skip_free bs = (if used_first bs then bs else tl bs)"

lemma coalesced_tl: "coalesced (b # bs) \<Longrightarrow> \<not> snd b \<Longrightarrow> coalesced bs \<and> used_first bs"
  by (cases bs) auto

lemma coalesce_used: "used_first bs \<Longrightarrow> coalesce (x # bs) = x # coalesce bs"
  by (cases bs) auto

lemma coalesce_free:
  assumes "coalesced bs"
  shows "coalesce ((a, False) # bs) = (a, False) # skip_free bs" and "used_first (skip_free bs)" and "coalesced (skip_free bs)"
proof -
  have "coalesce ((a, False) # bs) = (a, False) # skip_free bs \<and> used_first (skip_free bs) \<and> coalesced (skip_free bs)"
  proof (cases bs)
    case (Cons b cs)
    then show ?thesis using assms coalesced_tl [of b cs] coalesce_used [of cs "(a, False)"] coalesce_id
      by (cases "snd b") (auto simp: skip_free_def)
  qed (simp add: skip_free_def)
  then show "coalesce ((a, False) # bs) = (a, False) # skip_free bs" and "used_first (skip_free bs)" and "coalesced (skip_free bs)"
    by simp_all
qed

lemma coalesce_append: "coalesced xs \<Longrightarrow> used_last xs \<Longrightarrow> coalesce (xs @ ys) = xs @ coalesce ys"
proof (induction xs rule: coalesce.induct)
  case (2 x)
  then show ?case by (cases ys) auto
qed auto

text \<open>The layout after the release, by the kind of the block in front.\<close>

lemma release_mark:
  assumes "spaced e (xs @ (a, u) # ys)"
  shows "map (\<lambda>(b, u). (b, u \<and> b \<noteq> a)) (xs @ (a, u) # ys) = xs @ (a, False) # ys"
proof -
  have "b \<noteq> a" if "(b, v) \<in> set xs \<or> (b, v) \<in> set ys" for b v
    using spaced_bounds [of a xs b v] spaced_bounds [of e ys b v] assms that by auto
  then have "map (\<lambda>(b, u). (b, u \<and> b \<noteq> a)) xs = xs" "map (\<lambda>(b, u). (b, u \<and> b \<noteq> a)) ys = ys"
    by (auto intro!: map_idI)
  then show ?thesis by simp
qed

lemma release_cases:
  assumes "spaced e (xs @ (a, True) # ys)" and "coalesced xs" and "coalesced ys"
  shows "used_last xs \<Longrightarrow> release a (xs @ (a, True) # ys) = xs @ (a, False) # skip_free ys"
    and "xs = ws @ [(p, False)] \<Longrightarrow> release a (xs @ (a, True) # ys) = ws @ (p, False) # skip_free ys"
proof -
  show "used_last xs \<Longrightarrow> release a (xs @ (a, True) # ys) = xs @ (a, False) # skip_free ys"
    using assms unfolding release_def release_mark [OF assms(1)] by (simp add: coalesce_append coalesce_free)
  show "release a (xs @ (a, True) # ys) = ws @ (p, False) # skip_free ys" if "xs = ws @ [(p, False)]"
    using assms(2,3) that unfolding release_def release_mark [OF assms(1)]
    by (simp add: coalesce_append coalesce_free successively_append_iff)
qed


section \<open>The searches\<close>

lemma heap_used:
  assumes "heap_rep s (xs @ (a, True) # ys)"
  shows "mem s a = link_first 0 ys" and "mem s (a + 4) = link_last 0 xs" and "\<not> bad_addr a"
    and "linked (mem s) 0 xs (a OR 1) (free_first 0 ys)" and "linked (mem s) (a OR 1) ys 0 0"
    and "FMBlist s = free_first (free_first 0 ys) xs" and "coalesced xs" and "coalesced ys"
    and "spaced (endAddr (Kheap s)) (xs @ (a, True) # ys)"
  using assms by (auto simp: heap_rep_def successively_append_iff successively_Cons)

lemma GetPreFMB_ok:
  assumes "linked (mem s) 0 (xs @ [(a, True)]) l n" and "spaced e (xs @ [(a, True)])"
  shows "GetPreFMB a s = Some (free_last 0 xs)"
  using assms
proof (induction xs arbitrary: a l n e rule: rev_induct)
  case Nil
  then show ?case by (subst GetPreFMB.simps) (simp add: rd_ok off_defs)
next
  case (snoc b xs)
  obtain q u where b: "b = (q, u)" by (cases b)
  have a: "\<not> bad_addr a" "\<not> bad_addr q" "mem s (a + 4) = tag u q" using snoc.prems b by simp_all
  show ?case
  proof (cases u)
    case True
    then have "GetPreFMB a s = GetPreFMB q s" using a by (subst GetPreFMB.simps) (simp add: rd_ok off_defs)
    then show ?thesis using snoc.IH [of q "a OR 1" n a] snoc.prems b True by simp
  next
    case False
    then show ?thesis using a b tag_even [of q] by (subst GetPreFMB.simps) (simp add: rd_ok off_defs)
  qed
qed

lemma free_last_value:
  assumes "linked m p xs l n" and "free_last 0 xs \<noteq> 0"
  shows "m (free_last 0 xs) = n"
  using assms by (cases rule: free_last_cases [of xs 0]) (auto simp: free_first_used)

section \<open>Joining\<close>

text \<open>
  The state before the neighbours are linked: \<open>cur\<close> is a free block between the pieces, with its
  header and its place in the list of free blocks.
\<close>

definition freed :: "blocks \<Rightarrow> U32 \<Rightarrow> blocks \<Rightarrow> kernel \<Rightarrow> kernel" where
  "freed xs cur ys s = s\<lparr>
     mem := (set_nextFMB (free_last 0 xs) cur (mem s))(cur := free_first 0 ys, cur + 4 := link_first 0 ys, cur + 8 := link_last 0 xs),
     FMBlist := if free_last 0 xs = 0 then cur else FMBlist s\<rparr>"

lemma skip_free_links:
  assumes "linked m q ys 0 0" and "\<not> used_first ys" and "spaced e ys"
  obtains f where "ys = (f, False) # skip_free ys" and "\<not> bad_addr f" and "m f = free_first 0 (skip_free ys)"
    and "m (f + 4) = link_first 0 (skip_free ys)"
  using assms by (cases ys) (auto simp: skip_free_def)


text \<open>The block in front of the released one is in use, or there is none.\<close>

lemma kfree_link_ok:
  assumes "heap_rep s (xs @ (a, True) # ys)"
  shows "kfree_link a (free_last 0 xs) s =
    Some (free_first 0 ys, s\<lparr>mem := set_nextFMB (free_last 0 xs) a (mem s), FMBlist := if free_last 0 xs = 0 then a else FMBlist s\<rparr>)"
proof (cases "free_last 0 xs = 0")
  case True
  have "spaced a xs" using heap_used(9) [OF assms] by simp
  then show ?thesis using True heap_used(6) [OF assms] free_first_change [of a xs "free_first 0 ys" 0]
    by (simp add: kfree_link_def set_nextFMB_def)
next
  case False
  have "spaced a xs" using heap_used(9) [OF assms] by simp
  then have "\<not> bad_addr (free_last 0 xs)" using links_valid(1) False by blast
  then show ?thesis using False free_last_value [OF heap_used(4) [OF assms] False]
    by (simp add: kfree_link_def set_nextFMB_def store_ok off_defs)
qed

text \<open>The orders in which the code stores the three words of a free header.\<close>

lemma header_order:
  "m(a + 4 := u, a + 8 := p, a := n) = m(a := n, a + 4 := u, a + 8 := p)"
  "m(a + 8 := p, a + 4 := u, a := n) = m(a := n, a + 4 := u, a + 8 := p)" for a :: U32
  by (auto simp: fun_eq_iff)

lemma link_parity:
  assumes "spaced e bs"
  shows "link_first 0 bs AND 1 = (if bs \<noteq> [] \<and> snd (hd bs) then 1 else 0)"
    and "link_last 0 bs AND 1 = (if bs \<noteq> [] \<and> snd (last bs) then 1 else 0)"
    and "link_first 0 bs = 0 \<longleftrightarrow> bs = []" and "link_last 0 bs = 0 \<longleftrightarrow> bs = []"
proof -
  show "link_first 0 bs AND 1 = (if bs \<noteq> [] \<and> snd (hd bs) then 1 else 0)"
    using assms by (cases bs) (auto simp: tag_even)
  show "link_first 0 bs = 0 \<longleftrightarrow> bs = []" using assms by (cases bs) (auto simp: bad_addr_def split: if_splits)
  show "link_last 0 bs AND 1 = (if bs \<noteq> [] \<and> snd (last bs) then 1 else 0)"
    using assms by (cases bs rule: rev_cases) (auto simp: tag_even)
  show "link_last 0 bs = 0 \<longleftrightarrow> bs = []" using assms by (cases bs rule: rev_cases) (auto simp: bad_addr_def split: if_splits)
qed

lemma kfree_merge_used:
  assumes "heap_rep s (xs @ (a, True) # ys)" and "used_last xs"
  shows "kfree_merge a s = Some (a, freed xs a (skip_free ys) s)"
proof -
  note h = heap_used [OF assms(1)]
  let ?e = "endAddr (Kheap s)"
  have sp: "spaced a xs" "spaced ?e ys" using h(9) by simp_all
  note par = link_parity [OF sp(1)] link_parity [OF sp(2)]
  have pre: "GetPreFMB a s = Some (free_last 0 xs)"
    using h(1-4,9) by (intro GetPreFMB_ok [of _ _ _ "link_first 0 ys" "free_first 0 ys"]) auto
  note merge = kfree_merge_def kfree_both_free_def kfree_pre_free_def kfree_next_free_def kfree_none_free_def
    kfree_link_ok [OF assms(1)] pre store_ok off_defs Let_def freed_def header_order par
  consider "ys = []" | "ys \<noteq> []" "used_first ys" | "\<not> used_first ys" by blast
  then show ?thesis
  proof cases
    case 1
    then show ?thesis using h(1-3) assms(2) by (cases "xs = []") (simp_all add: merge skip_free_def set_nextFMB_def)
  next
    case 2
    then show ?thesis using h(1-3,6) assms(2) by (cases "xs = []") (simp_all add: merge skip_free_def set_nextFMB_def)
  next
    case 3
    obtain f where f: "ys = (f, False) # skip_free ys" "\<not> bad_addr f" "mem s f = free_first 0 (skip_free ys)"
      "mem s (f + 4) = link_first 0 (skip_free ys)" using skip_free_links [OF h(5) 3 sp(2)] by blast
    have f0: "f \<noteq> 0" using f(2) by (auto simp: bad_addr_def)
    have "f \<in> headers ys" "f + 4 \<in> headers ys" by (subst f(1), simp add: hwords_def)+
    then have d: "f \<notin> headers xs" "f + 4 \<notin> headers xs" "f \<notin> hwords a" "f + 4 \<notin> hwords a"
      using headers_disjoint [of ?e "xs @ [(a, True)]" ys] h(9) by auto
    have l: "link_first 0 ys = f" "free_first 0 ys = f" by (subst f(1), simp)+
    have y: "ys \<noteq> []" "\<not> snd (hd ys)" using 3 by simp_all
    note f = f(2-4) f0 tag_even [OF f(2)] d [unfolded hwords_def, simplified] l y h(1-3)
    show ?thesis
    proof (cases "xs = []")
      case True
      then show ?thesis using f by (simp add: merge set_nextFMB_def)
    next
      case False
      then have "snd (last xs)" using assms(2) by simp
      then show ?thesis using False f by (simp add: merge split del: if_split)
    qed
  qed
qed


text \<open>The block in front of the released one is free and grows.\<close>

lemma freed_grow:
  assumes "heap_rep s (xs @ (p, False) # ys)"
  shows "freed xs p zs s = s\<lparr>mem := (mem s)(p := free_first 0 zs, p + 4 := link_first 0 zs)\<rparr>"
proof -
  note h = heap_split [OF assms]
  have sp: "spaced p xs" using h(3) by simp
  have "set_nextFMB (free_last 0 xs) p (mem s) = mem s"
    using free_last_value [OF h(4)] by (auto simp: set_nextFMB_def)
  moreover have "(mem s)(p := free_first 0 zs, p + 4 := link_first 0 zs, p + 8 := link_last 0 xs) =
      (mem s)(p := free_first 0 zs, p + 4 := link_first 0 zs)" using h(8) by (auto simp: fun_eq_iff)
  moreover have "FMBlist s = free_first p xs" using assms by (simp add: heap_rep_def)
  ultimately show ?thesis using free_first_change [OF sp, of p 0] by (auto simp: freed_def)
qed

lemma kfree_merge_grow:
  assumes "heap_rep s (xs @ (p, False) # (a, True) # ys)"
  shows "kfree_merge a s = Some (p, freed xs p (skip_free ys) s)"
proof -
  have rep: "heap_rep s ((xs @ [(p, False)]) @ (a, True) # ys)" using assms by simp
  note h = heap_used [OF rep] and hp = heap_split [OF assms]
  let ?e = "endAddr (Kheap s)"
  have sp: "spaced ?e ys" using h(9) by simp
  have p: "p \<noteq> 0" "mem s (a + 4) = p" "p AND 1 = 0" "mem s p = free_first 0 ys" "\<not> bad_addr p"
    using hp(6,9) h(2) tag_even [of p] by (auto simp: bad_addr_def)
  note merge = kfree_merge_def kfree_both_free_def kfree_pre_free_def store_ok off_defs Let_def freed_grow [OF assms]
    link_parity [OF sp]
  consider "ys = []" | "ys \<noteq> []" "used_first ys" | "\<not> used_first ys" by blast
  then show ?thesis
  proof cases
    case 1
    then show ?thesis using h(1,3) p by (simp add: merge skip_free_def)
  next
    case 2
    then show ?thesis using h(1,3) p by (simp add: merge skip_free_def fun_upd_idem)
  next
    case 3
    obtain f where f: "ys = (f, False) # skip_free ys" "\<not> bad_addr f" "mem s f = free_first 0 (skip_free ys)"
      "mem s (f + 4) = link_first 0 (skip_free ys)" using skip_free_links [OF h(5) 3 sp] by blast
    have f0: "f \<noteq> 0" using f(2) by (auto simp: bad_addr_def)
    have "f + 4 \<in> headers ys" by (subst f(1), simp add: hwords_def)
    then have d: "f + 4 \<notin> hwords p" using headers_disjoint [of ?e "xs @ [(p, False), (a, True)]" ys] h(9) by auto
    have l: "link_first 0 ys = f" by (subst f(1)) simp
    have y: "ys \<noteq> []" "\<not> snd (hd ys)" using 3 by simp_all
    show ?thesis using f(2-4) f0 tag_even [OF f(2)] d l y h(1,3) p by (simp add: merge hwords_def)
  qed
qed


section \<open>Release\<close>

lemma release_finish:
  assumes "spaced e (xs @ (a, False) # ys)" and "used_last xs" and "used_first ys"
    and "linked (mem s) 0 xs l n" and "linked (mem s) q ys 0 0"
  shows "\<exists>m. do { p \<leftarrow> rd a off_preUMB (freed xs a ys s); t \<leftarrow> set_next_mb p a (freed xs a ys s);
      n \<leftarrow> rd a off_nextUMB t; set_pre_mb n a t } = Some (freed xs a ys s\<lparr>mem := m\<rparr>) \<and>
    linked m 0 (xs @ (a, False) # ys) 0 0 \<and> (\<forall>x \<in> payload e (xs @ (a, False) # ys). m x = mem s x)"
proof -
  have sp: "spaced a xs" "spaced e ys" "\<not> bad_addr a" using assms(1) by simp_all
  have n: "x \<notin> headers xs" "x \<notin> headers ys" if "x \<in> hwords a" for x using spaced_notin [OF assms(1) that] .
  define m where "m = set_preMB (link_first 0 ys) a (set_nextMB (link_last 0 xs) a (mem (freed xs a ys s)))"
  have "do { p \<leftarrow> rd a off_preUMB (freed xs a ys s); t \<leftarrow> set_next_mb p a (freed xs a ys s);
      n \<leftarrow> rd a off_nextUMB t; set_pre_mb n a t } = Some (freed xs a ys s\<lparr>mem := m\<rparr>)"
    using n sp(3) links_valid(2) [OF sp(1) assms(2)] links_valid(3) [OF sp(2) assms(3)]
    by (simp add: m_def store_ok off_defs hwords_def freed_def set_nextMB_other [OF sp(1) assms(2)] split del: if_split)
  moreover have "linked m 0 (xs @ [(a, False)] @ ys) 0 0"
  proof (rule linked_assemble [of e xs "[(a, False)]" ys "mem s" l n q])
    have sp': "spaced e (xs @ [(a, False)] @ ys)" using assms(1) by simp
    note pt = spaced_parts [OF sp', simplified]
    show "linked m (link_last 0 xs) [(a, False)] (link_first 0 ys) (free_first 0 ys)"
      using n by (simp add: m_def freed_def hwords_def set_nextMB_other [OF sp(1) assms(2)] set_preMB_other [OF sp(2) assms(3)])
    show "m x = set_nextMB (link_last 0 xs) (link_first 0 [(a, False)])
        (set_nextFMB (free_last 0 xs) (free_first (free_first 0 ys) [(a, False)]) (mem s)) x" if "x \<in> headers xs" for x
      using pt(1,2) [OF that] unfolding m_def
      by (auto intro!: set_nextMB_cong simp: freed_def hwords_def set_preMB_other [OF sp(2) assms(3)])
    show "m x = set_preMB (link_first 0 ys) (link_last 0 [(a, False)]) (mem s) x" if "x \<in> headers ys" for x
      using pt(3,4) [OF that] unfolding m_def
      by (auto intro!: set_preMB_cong simp: freed_def hwords_def set_nextMB_other [OF sp(1) assms(2)])
  qed (use assms in simp_all)
  moreover have "m x = mem s x" if x: "x \<in> payload e (xs @ (a, False) # ys)" for x
  proof -
    have "unat a + 12 \<le> unat (first_addr e ys)" using assms(1) by simp
    then have "x \<notin> hwords a" using payload_outside [OF assms(1) x] hwords_unat [of a "first_addr e ys" x] by auto
    then show ?thesis using payload_relink [of e xs "[(a, False)]" ys x] assms(1-3) x
      by (simp add: m_def freed_def hwords_def)
  qed
  ultimately show ?thesis by auto
qed

lemma kfree_release_as:
  assumes "kfree_merge a s = Some (cur, freed xs cur ys s)"
    and "spaced (endAddr (Kheap s)) (xs @ (cur, False) # ys)" and "used_last xs" and "used_first ys"
    and "linked (mem s) 0 xs l n" and "linked (mem s) q ys 0 0" and "coalesced xs" and "coalesced ys"
    and "FMBlist s = free_first n' xs" and "first_addr cur xs = startAddr (Kheap s)"
  shows "\<exists>s'. kfree_release a s = Some s' \<and> heap_rep s' (xs @ (cur, False) # ys) \<and>
    heap_frame (payload (endAddr (Kheap s)) (xs @ (cur, False) # ys)) s s'"
proof -
  have sp: "spaced cur xs" using assms(2) by simp
  obtain m where "kfree_release a s = Some (freed xs cur ys s\<lparr>mem := m\<rparr>)" "linked m 0 (xs @ (cur, False) # ys) 0 0"
    "\<forall>x \<in> payload (endAddr (Kheap s)) (xs @ (cur, False) # ys). m x = mem s x"
    using release_finish [OF assms(2-6)] assms(1) by (auto simp: kfree_release_def)
  then show ?thesis using assms(2-4,7-10) free_first_change [OF sp, of cur n']
    by (auto simp: heap_rep_def heap_frame_def freed_def successively_append_iff successively_Cons)
qed

lemma skip_free_ok:
  assumes "linked m q ys 0 0" and "spaced e ys" and "coalesced ys" and "unat a + 12 \<le> unat (first_addr e ys)"
  shows "spaced e (skip_free ys) \<and> unat a + 12 \<le> unat (first_addr e (skip_free ys)) \<and> (\<exists>q. linked m q (skip_free ys) 0 0)"
  using assms by (cases ys) (auto simp: skip_free_def)

lemma kfree_release_ok:
  assumes "heap_rep s (xs @ (a, True) # ys)"
  defines "e \<equiv> endAddr (Kheap s)" and "bs \<equiv> release a (xs @ (a, True) # ys)"
  shows "\<exists>s'. kfree_release a s = Some s' \<and> heap_rep s' bs \<and> heap_frame (payload e bs) s s'"
proof -
  note h = heap_used [OF assms(1), folded e_def]
  have sp: "spaced e ys" "unat a + 12 \<le> unat (first_addr e ys)" "spaced a xs" using h(9) by simp_all
  note Y = skip_free_ok [OF h(5) sp(1) h(8) sp(2)]
  then obtain q where q: "linked (mem s) q (skip_free ys) 0 0" by blast
  note cf = coalesce_free(2,3) [OF h(8)]
  have fa: "first_addr a xs = startAddr (Kheap s)" using assms(1) by (simp add: heap_rep_def)
  show ?thesis
  proof (cases "used_last xs")
    case True
    have bs: "bs = xs @ (a, False) # skip_free ys" using release_cases(1) [OF h(9,7,8) True] by (simp add: bs_def)
    have "spaced e (xs @ (a, False) # skip_free ys)" using Y h(3) sp(3) by simp
    from kfree_release_as [OF kfree_merge_used [OF assms(1) True] this [unfolded e_def] True cf(1) h(4) q h(7) cf(2) h(6) fa]
    show ?thesis by (simp add: bs e_def)
  next
    case False
    then obtain ws p where xs: "xs = ws @ [(p, False)]" by (cases xs rule: rev_cases) auto
    have bs: "bs = ws @ (p, False) # skip_free ys" using release_cases(2) [OF h(9,7,8) xs] by (simp add: bs_def)
    have rep: "heap_rep s (ws @ (p, False) # (a, True) # ys)" using assms(1) xs by simp
    note hp = heap_split [OF rep, folded e_def]
    have "spaced e (ws @ (p, False) # skip_free ys)" "coalesced ws" "first_addr p ws = startAddr (Kheap s)"
      "FMBlist s = free_first p ws"
      using Y sp(3) h(6,7) xs fa by (simp_all add: successively_append_iff)
    with kfree_release_as [OF kfree_merge_grow [OF rep] _ hp(1) cf(1) hp(4) q] cf(2) show ?thesis
      by (simp add: bs e_def)
  qed
qed


section \<open>The check of the argument\<close>

lemma kfree_back_ok:
  assumes "linked (mem s) p ((a, True) # ws) l n" and "\<forall>b \<in> set ws. snd b" and "spaced e ((a, True) # ws)"
  shows "kfree_back a (link_last 0 ((a, True) # ws) - 1) s = Some True"
  using assms
proof (induction ws arbitrary: l n e rule: rev_induct)
  case Nil
  then show ?case by (subst kfree_back.simps) simp
next
  case (snoc w ws)
  then obtain b where w: "w = (b, True)" by (cases w) auto
  have b: "\<not> bad_addr b" "b \<noteq> 0" "mem s (b + 4) = link_last 0 ((a, True) # ws)" using snoc.prems w by (auto simp: bad_addr_def)
  have "unat a + 12 \<le> unat b"
    using snoc.prems(3) w spaced_bounds(2) [of e "ws @ [w]" b True] by simp
  then have "b \<noteq> a" by auto
  then have "kfree_back a b s = kfree_back a (link_last 0 ((a, True) # ws) - 1) s"
    using b by (subst kfree_back.simps) (simp add: rd_ok off_defs)
  moreover have "kfree_back a (link_last 0 ((a, True) # ws) - 1) s = Some True"
    using snoc.IH [of "b OR 1" n b] snoc.prems w by simp
  ultimately show ?case using w b(1) by simp
qed

lemma kfree_fwd_ok:
  assumes "linked (mem s) p bs 0 0" and "coalesced bs" and "spaced e bs" and "used_first bs" and "(a, True) \<in> set bs"
  shows "kfree_fwd a (first_addr e bs) s = Some True"
  using assms
proof (induction bs arbitrary: p rule: induct_list012)
  case (2 x)
  then have "first_addr e [x] = a" by (cases x) auto
  then show ?case by (subst kfree_fwd.simps) simp
next
  case (3 x y zs)
  then obtain b c u where x: "x = (b, True)" and y: "y = (c, u)" by (cases x; cases y) auto
  have b: "\<not> bad_addr b" "b \<noteq> 0" "\<not> bad_addr c" using "3.prems"(3) x y by (auto simp: bad_addr_def)
  show ?case
  proof (cases "b = a")
    case True
    then show ?thesis using x by (subst kfree_fwd.simps) simp
  next
    case ba: False
    show ?thesis
    proof (cases u)
      case True
      have "kfree_fwd a c s = Some True" using "3.IH"(2) [of "b OR 1"] "3.prems" x y True ba by simp
      then show ?thesis using "3.prems"(1) x y True ba b by (subst kfree_fwd.simps) (simp add: rd_ok off_defs)
    next
      case False
      have az: "(a, True) \<in> set zs" using "3.prems"(5) x y False ba by auto
      then have uz: "used_first zs" "zs \<noteq> []" using "3.prems"(2) y False by (cases zs; auto)+
      have "kfree_fwd a (first_addr e zs) s = Some True" using "3.IH"(1) [of c] "3.prems" x y False az uz
        by (auto simp: successively_Cons)
      moreover have "link_first 0 zs - 1 = first_addr e zs" using uz "3.prems"(3) x y by (cases zs) auto
      ultimately show ?thesis using "3.prems"(1) x y False ba b tag_even [of c]
        by (subst kfree_fwd.simps) (simp add: rd_ok off_defs)
    qed
  qed
qed simp

lemma first_free_cases:
  obtains "\<forall>b \<in> set xs. snd b" | us f vs where "xs = us @ (f, False) # vs" "\<forall>b \<in> set us. snd b"
proof (cases "\<exists>b \<in> set xs. \<not> snd b")
  case True
  then obtain us b vs where "xs = us @ b # vs" "\<not> snd b" "\<forall>b \<in> set us. snd b"
    using split_list_first_prop [of xs "\<lambda>b. \<not> snd b"] by auto
  then show ?thesis using that(2) [of us "fst b" vs] by (cases b) auto
qed (use that(1) in auto)

lemma kfree_check_ok:
  assumes "heap_rep s (xs @ (a, True) # ys)"
  shows "kfree_check a s = Some True"
proof -
  note h = heap_used [OF assms]
  let ?e = "endAddr (Kheap s)" and ?bs = "xs @ (a, True) # ys"
  have L: "linked (mem s) 0 ?bs 0 0" "coalesced ?bs" "first_addr ?e ?bs = startAddr (Kheap s)" using assms by (auto simp: heap_rep_def)
  have a: "\<not> a < 0" by simp
  show ?thesis
  proof (cases rule: first_free_cases [of ?bs])
    case 1
    then have "FMBlist s = 0" using assms free_first_used [of ?bs 0] by (simp add: heap_rep_def)
    moreover have "kfree_fwd a (startAddr (Kheap s)) s = Some True"
      using kfree_fwd_ok [OF L(1,2) h(9)] 1 L(3) by (cases xs) auto
    ultimately show ?thesis by (simp add: kfree_check_def)
  next
    case (2 us f vs)
    then have F: "FMBlist s = f" "\<not> bad_addr f" "f \<noteq> 0" "mem s (f + 4) = link_first 0 vs" "mem s (f + 8) = link_last 0 us"
      using assms L(1) by (auto simp: heap_rep_def free_first_used bad_addr_def)
    show ?thesis
    proof (cases "(a, True) \<in> set us")
      case True
      then obtain ws zs where us: "us = ws @ (a, True) # zs" by (meson split_list)
      have "link_last 0 us = link_last 0 ((a, True) # zs)" using us by simp
      moreover have "kfree_back a (link_last 0 ((a, True) # zs) - 1) s = Some True"
        using L(1) h(9) 2 us by (intro kfree_back_ok) auto
      moreover have "unat a + 12 \<le> unat f" using spaced_bounds(3) [of f us a True] h(9) [unfolded 2(1)] True by simp
      then have "a < f" by (simp add: word_less_nat_alt)
      ultimately show ?thesis using F by (simp add: kfree_check_def rd_ok off_defs)
    next
      case False
      have "(a, True) \<in> set (us @ (f, False) # vs)" unfolding 2(1) [symmetric] by simp
      then have av: "(a, True) \<in> set vs" using False by auto
      have V: "linked (mem s) f vs 0 0" "coalesced vs" "spaced ?e vs" "used_first vs"
        "unat f + 12 \<le> unat (first_addr ?e vs)"
        using L(1,2) h(9) unfolding 2(1) by (auto simp: successively_append_iff successively_Cons)
      have "link_first 0 vs - 1 = first_addr ?e vs" "link_first 0 vs \<noteq> 0" using V(3,4) av by (cases vs; auto)+
      moreover have "\<not> a < f" using V(5) spaced_bounds(2) [OF V(3) av] by (simp add: word_less_nat_alt)
      ultimately show ?thesis using F kfree_fwd_ok [OF V(1-4) av] by (simp add: kfree_check_def rd_ok off_defs)
    qed
  qed
qed


lemma CoKfree_ok:
  assumes "heap_rep s bs" and "(a, True) \<in> set bs" and "\<not> IsrReq s" and "\<not> TaskSchedReq s"
  shows "\<exists>s'. CoKfree c (OsSchedUnlock c cb) (a + 8) s = Some s' \<and> heap_rep s' (release a bs) \<and>
    heap_frame (payload (endAddr (Kheap s)) (release a bs)) s s'"
proof -
  obtain xs ys where bs: "bs = xs @ (a, True) # ys" using split_list [OF assms(2)] by blast
  let ?s = "OsSchedLock s" and ?e = "endAddr (Kheap s)"
  have rep: "heap_rep ?s (xs @ (a, True) # ys)" using assms(1) bs by (simp add: heap_rep_def OsSchedLock_def)
  have sp: "spaced ?e bs" "first_addr ?e bs = startAddr (Kheap s)" using assms(1) by (simp_all add: heap_rep_def)
  note b = spaced_bounds [OF sp(1) assms(2), unfolded sp(2)]
  have u: "unat (a + 8) = unat a + 8"
    using b(3) unsigned_less [of ?e, where 'a = nat] by (simp add: unat_word_ariths)
  have rng: "a + 8 \<noteq> 0" "\<not> a + 8 < startAddr (Kheap s)" "\<not> ?e < a + 8"
    using u b(2,3) by (auto simp: word_less_nat_alt simp flip: unat_eq_0)
  obtain s' where s': "kfree_release a ?s = Some s'" "heap_rep s' (release a bs)"
    "heap_frame (payload ?e (release a bs)) ?s s'"
    using kfree_release_ok [OF rep] bs by (auto simp: OsSchedLock_def)
  have fr: "s' = ?s\<lparr>mem := mem s', FMBlist := FMBlist s'\<rparr>" using s'(3) by (simp add: heap_frame_def)
  let ?t = "s\<lparr>mem := mem s', FMBlist := FMBlist s'\<rparr>"
  have "\<not> IsrReq s'" "\<not> TaskSchedReq s'" using assms(3,4) by (subst fr; simp add: OsSchedLock_def)+
  moreover have "s'\<lparr>OSSchedLock := OSSchedLock s' - 1\<rparr> = ?t" by (subst (1 2) fr) (simp add: OsSchedLock_def)
  ultimately have "CoKfree c (OsSchedUnlock c cb) (a + 8) s = Some ?t"
    using rng s'(1) kfree_check_ok [OF rep] by (simp add: CoKfree_def Let_def unlock_calm)
  moreover have "Kheap s' = Kheap s" by (subst fr) (simp add: OsSchedLock_def)
  then have "heap_rep ?t (release a bs)" "heap_frame (payload ?e (release a bs)) s ?t"
    using s'(2,3) by (simp_all add: heap_rep_def heap_frame_def OsSchedLock_def)
  ultimately show ?thesis by blast
qed

lemma CoCreateKheap_ok:
  assumes "\<not> bad_addr (KernelHeap c)" and "12 \<le> 4 * KHEAP_SIZE c" and "unat (KernelHeap c) + 4 * KHEAP_SIZE c < 2 ^ 32"
  shows "\<exists>s'. CoCreateKheap c s = Some s' \<and> heap_rep s' [(KernelHeap c, False)]"
proof -
  have "unat (KernelHeap c + of_nat (KHEAP_SIZE c) * 4) = unat (KernelHeap c) + 4 * KHEAP_SIZE c"
    using assms(3) by (simp add: unat_word_ariths unat_of_nat)
  then show ?thesis using assms(1,2) by (simp add: CoCreateKheap_def wr_ok off_defs heap_rep_def Let_def)
qed

end
