(* ===== verification/HeapRuns.thy ===== *)
theory HeapRuns
  imports HeapFree
begin

unbundle bit_operations_syntax

text \<open>
  Programs that use the kernel heap: every sequence of requests, releases and stores keeps the
  allocations apart and inside the heap.
\<close>

section \<open>Allocations and the layout\<close>

lemma first_fit_Some:
  assumes "first_fit e z bs = Some (a, bs')"
  shows "\<exists>xs ys. bs = xs @ (a, False) # ys \<and> bs' = xs @ carve e z a ys \<and> z \<le> first_addr e ys - a \<and> first_fit a z xs = None"
  using assms
proof (induction bs arbitrary: bs')
  case (Cons b bs)
  obtain q u where b: "b = (q, u)" by (cases b)
  show ?case
  proof (cases "\<not> u \<and> z \<le> first_addr e bs - q")
    case True
    then show ?thesis using Cons.prems b by (intro exI [of _ "[]"] exI [of _ bs]) auto
  next
    case False
    with Cons.prems b obtain cs where cs: "first_fit e z bs = Some (a, cs)" "bs' = b # cs" by auto
    from Cons.IH [OF cs(1)] obtain xs ys where "bs = xs @ (a, False) # ys" "cs = xs @ carve e z a ys"
      "z \<le> first_addr e ys - a" "first_fit a z xs = None" by blast
    then show ?thesis using False b cs(2) by (intro exI [of _ "b # xs"] exI [of _ ys]) auto
  qed
qed simp

text \<open>Releasing the block that was just allocated restores the layout.\<close>

lemma release_first_fit:
  assumes "spaced e bs" and "coalesced bs" and "first_fit e z bs = Some (a, bs')" and "z \<noteq> 0"
  shows "release a bs' = bs"
proof -
  obtain xs ys where x: "bs = xs @ (a, False) # ys" "bs' = xs @ carve e z a ys" using first_fit_Some [OF assms(3)] by blast
  have u: "coalesced xs" "used_last xs" "coalesced ys" "used_first ys"
    using assms(2) x(1) by (auto simp: successively_append_iff successively_Cons)
  have "map (\<lambda>(b, u). (b, u \<and> b \<noteq> a)) (xs @ (a, False) # ys) = xs @ (a, False) # ys"
    using release_mark [OF assms(1) [unfolded x(1)]] .
  then have "release a bs' = coalesce (xs @ (a, False) # (if first_addr e ys - a - z < 12 then ys else (a + z, False) # ys))"
    using x(2) by (auto simp: release_def carve_def)
  also have "\<dots> = xs @ (a, False) # ys" using u by (simp add: coalesce_append coalesce_used coalesce_id)
  finally show ?thesis using x(1) by simp
qed

lemma coalesce_first: "first_addr e (coalesce (x # bs)) = first_addr e (x # bs)"
  by (induction bs) (cases x; auto)+

lemma payload_coalesce: "payload e (coalesce bs) = payload e bs"
proof (induction bs rule: coalesce.induct)
  case (3 x y bs)
  then show ?case using coalesce_first [of e y bs] by (cases x; cases y) auto
qed auto

lemma used_coalesce: "(b, True) \<in> set (coalesce bs) \<longleftrightarrow> (b, True) \<in> set bs"
  by (induction bs rule: coalesce.induct) auto

text \<open>
  The memory that belongs to an allocation of \<open>n\<close> bytes at \<open>p\<close>, and the allocations \<open>A\<close> that a layout
  has room for.
\<close>

definition region :: "U32 \<Rightarrow> nat \<Rightarrow> U32 set" where
  "region p n = {x. unat p \<le> unat x \<and> unat x < unat p + n}"

definition owned :: "U32 \<Rightarrow> blocks \<Rightarrow> (U32 \<rightharpoonup> nat) \<Rightarrow> bool" where
  "owned e bs A \<longleftrightarrow> (\<forall>p n. A p = Some n \<longrightarrow>
     (p - 8, True) \<in> set bs \<and> region p n \<subseteq> payload e bs \<and> 0 < n \<and> unat p + n \<le> unat e)"

lemma block_user:
  assumes "spaced e bs" and "(p - 8, True) \<in> set bs"
  shows "unat p = unat (p - 8) + 8"
proof -
  have "unat (p - 8) + 12 \<le> unat e" using spaced_bounds(3) [OF assms] .
  then have "unat (p - 8 + 8) = unat (p - 8) + 8" using unsigned_less [of e, where 'a = nat] by (subst unat_word_ariths) simp
  then show ?thesis by simp
qed

text \<open>Two allocations are disjoint: no header lies in an allocation.\<close>

lemma owned_order:
  assumes "spaced e bs" and "owned e bs A" and "A p = Some n" and "(p - 8, True) \<in> set bs" and "(q - 8, True) \<in> set bs"
    and "unat p < unat q"
  shows "unat p + n + 8 \<le> unat q"
proof (rule ccontr)
  assume neg: "\<not> unat p + n + 8 \<le> unat q"
  have u: "unat p = unat (p - 8) + 8" "unat q = unat (q - 8) + 8" using block_user [OF assms(1)] assms(4,5) by blast+
  obtain xs ys where bs: "bs = xs @ (p - 8, True) # ys" using split_list [OF assms(4)] by blast
  have "(q - 8, True) \<notin> set xs \<and> q - 8 \<noteq> p - 8" using assms(1,6) spaced_bounds(3) [of "p - 8" xs "q - 8" True] u bs by auto
  then have "(q - 8, True) \<in> set ys" using assms(5) bs by auto
  then have "unat (p - 8) + 12 \<le> unat (q - 8)" using assms(1) spaced_bounds(2) [of e ys "q - 8" True] bs by simp
  then have "q - 8 \<in> region p n" using u neg by (simp add: region_def)
  then show False using payload_store(1) [OF assms(1) _ assms(5)] assms(2,3) by (auto simp: owned_def)
qed

lemma owned_disjoint:
  assumes "spaced e bs" and "owned e bs A" and "A p = Some n" and "A q = Some k" and "p \<noteq> q"
  shows "region p n \<inter> region q k = {}"
proof -
  have "(p - 8, True) \<in> set bs" "(q - 8, True) \<in> set bs" using assms(2-4) by (auto simp: owned_def)
  then have "unat p + n + 8 \<le> unat q \<or> unat q + k + 8 \<le> unat p"
    using owned_order [OF assms(1,2,3)] owned_order [OF assms(1,2,4)] assms(5)
    by (metis linorder_neq_iff word_unat_eq_iff)
  then show ?thesis by (auto simp: region_def)
qed

lemma owned_alloc:
  assumes "spaced e bs" and "owned e bs A" and "first_fit e z bs = Some (a, bs')" and "n + 8 \<le> unat z" and "0 < n"
  shows "owned e bs' (A(a + 8 \<mapsto> n))"
proof -
  obtain xs ys where x: "bs = xs @ (a, False) # ys" "bs' = xs @ carve e z a ys" "z \<le> first_addr e ys - a"
    using first_fit_Some [OF assms(3)] by blast
  define rs where "rs = (if first_addr e ys - a - z < 12 then ys else (a + z, False) # ys)"
  have bs': "bs' = xs @ (a, True) # rs" using x(2) by (simp add: carve_def rs_def)
  have sp: "unat a + 12 \<le> unat (first_addr e ys)" "unat (first_addr e ys) \<le> unat e"
    using assms(1) x(1) spaced_first_le [of e ys] by simp_all
  have a: "unat (a + 8) = unat a + 8"
    using sp unsigned_less [of e, where 'a = nat] by (subst unat_word_ariths) simp
  have rs: "unat a + 8 + n \<le> unat (first_addr e rs)"
  proof (cases "first_addr e ys - a - z < 12")
    case True
    have "unat z \<le> unat (first_addr e ys) - unat a" using x(3) sp(1) by (simp add: word_le_nat_alt unat_sub)
    then show ?thesis using True assms(4) sp(1) by (simp add: rs_def)
  next
    case False
    then show ?thesis using split_bounds(1) [OF _ x(3) False] assms(4) sp(1) by (simp add: rs_def)
  qed
  then have new: "region (a + 8) n \<subseteq> payload e bs'" using a by (auto simp: region_def bs')
  have "unat (first_addr e rs) \<le> unat e"
    using sp split_bounds [OF _ x(3)] by (auto simp: rs_def)
  moreover have "payload e bs \<subseteq> payload e bs'" "(b, True) \<in> set bs \<Longrightarrow> (b, True) \<in> set bs'" for b
    by (auto simp: x(1) bs' rs_def)
  moreover have "(a, True) \<in> set bs'" by (simp add: bs')
  ultimately show ?thesis using assms(2,5) new rs a by (fastforce simp: owned_def)
qed

lemma owned_release:
  assumes "spaced e bs" and "owned e bs A" and "A p = Some n"
  shows "owned e (release (p - 8) bs) (A(p := None))"
proof -
  have p: "(p - 8, True) \<in> set bs" using assms(2,3) by (simp add: owned_def)
  obtain xs ys where bs: "bs = xs @ (p - 8, True) # ys" using split_list [OF p] by blast
  have rel: "release (p - 8) bs = coalesce (xs @ (p - 8, False) # ys)"
    unfolding release_def bs release_mark [OF assms(1) [unfolded bs]] ..
  have "(q - 8, True) \<in> set (release (p - 8) bs) \<and> region q k \<subseteq> payload e (release (p - 8) bs)"
    if q: "A q = Some k" "q \<noteq> p" for q k
  proof -
    have qb: "(q - 8, True) \<in> set bs" "region q k \<subseteq> payload e bs" using assms(2) q(1) by (auto simp: owned_def)
    have ne: "q - 8 \<noteq> p - 8" using q(2) by auto
    have "x \<in> payload e (xs @ (p - 8, False) # ys)" if x: "x \<in> region q k" for x
    proof (rule ccontr)
      assume "x \<notin> payload e (xs @ (p - 8, False) # ys)"
      then have own: "unat (p - 8) + 8 \<le> unat x" "unat x < unat (first_addr e ys)"
        using qb(2) x bs by auto
      have "unat q < unat p \<or> unat p < unat q" using q(2) by (metis linorder_neq_iff word_unat_eq_iff)
      then show False
      proof
        assume "unat q < unat p"
        then show False using owned_order [OF assms(1,2) q(1) qb(1) p] own(1) x block_user [OF assms(1) p] by (simp add: region_def)
      next
        assume "unat p < unat q"
        then have "(q - 8, True) \<notin> set xs"
          using spaced_bounds(3) [of "p - 8" xs "q - 8" True] assms(1) bs block_user [OF assms(1) p] block_user [OF assms(1) qb(1)] by auto
        then have "(q - 8, True) \<in> set ys" using qb(1) bs ne by auto
        then show False using spaced_bounds(2) [of e ys "q - 8" True] assms(1) bs own(2) x block_user [OF assms(1) qb(1)]
          by (simp add: region_def)
      qed
    qed
    then show ?thesis using qb(1) ne bs unfolding rel used_coalesce payload_coalesce by auto
  qed
  then show ?thesis using assms(2) by (auto simp: owned_def)
qed


section \<open>Programs that use the heap\<close>

text \<open>
  The runs of a program from the creation of the heap: it asks for memory, gives back what it has
  got and writes into its own memory. \<open>A\<close> holds the sizes of its allocations.
\<close>

inductive heap_run :: "config \<Rightarrow> (U32 \<Rightarrow> kernel \<Rightarrow> kernel option) \<Rightarrow> kernel \<Rightarrow> (U32 \<rightharpoonup> nat) \<Rightarrow> bool"
  for c :: config and cb :: "U32 \<Rightarrow> kernel \<Rightarrow> kernel option" where
  start: "\<lbrakk>\<not> IsrReq s; \<not> TaskSchedReq s; CoCreateKheap c s = Some s'\<rbrakk> \<Longrightarrow> heap_run c cb s' Map.empty"
| malloc: "\<lbrakk>heap_run c cb s A; 0 < sz; sz \<le> 0xFFFFFFF4; CoKmalloc c (OsSchedUnlock c cb) sz s = Some (p, s')\<rbrakk>
    \<Longrightarrow> heap_run c cb s' (if p = 0 then A else A(p \<mapsto> unat sz))"
| free: "\<lbrakk>heap_run c cb s A; A p = Some n; CoKfree c (OsSchedUnlock c cb) p s = Some s'\<rbrakk>
    \<Longrightarrow> heap_run c cb s' (A(p := None))"
| store: "\<lbrakk>heap_run c cb s A; A p = Some n; x \<in> region p n\<rbrakk>
    \<Longrightarrow> heap_run c cb (s\<lparr>mem := (mem s)(x := v)\<rparr>) A"

text \<open>The contents of the allocations \<open>A\<close> are the same in both states.\<close>

definition keeps :: "(U32 \<rightharpoonup> nat) \<Rightarrow> kernel \<Rightarrow> kernel \<Rightarrow> bool" where
  "keeps A s s' \<longleftrightarrow> (\<forall>p n. A p = Some n \<longrightarrow> (\<forall>x \<in> region p n. mem s' x = mem s x))"

lemma keeps_frame: "owned e bs A \<Longrightarrow> heap_frame (payload e bs) s s' \<Longrightarrow> keeps A s s'"
  by (auto simp: keeps_def owned_def heap_frame_def)

definition heap_inv :: "config \<Rightarrow> kernel \<Rightarrow> (U32 \<rightharpoonup> nat) \<Rightarrow> bool" where
  "heap_inv c s A \<longleftrightarrow> \<not> IsrReq s \<and> \<not> TaskSchedReq s \<and> startAddr (Kheap s) = KernelHeap c \<and>
     endAddr (Kheap s) = KernelHeap c + of_nat (KHEAP_SIZE c) * 4 \<and>
     (\<exists>bs. heap_rep s bs \<and> owned (endAddr (Kheap s)) bs A)"

lemma heap_frame_fields:
  assumes "heap_frame M s s'"
  shows "IsrReq s' = IsrReq s" "TaskSchedReq s' = TaskSchedReq s" "Kheap s' = Kheap s"
proof -
  obtain m f where "s' = s\<lparr>mem := m, FMBlist := f\<rparr>" using assms unfolding heap_frame_def by blast
  then show "IsrReq s' = IsrReq s" "TaskSchedReq s' = TaskSchedReq s" "Kheap s' = Kheap s" by simp_all
qed

text \<open>The heap lies in the address space.\<close>

definition heap_fits :: "config \<Rightarrow> bool" where
  "heap_fits c \<longleftrightarrow> \<not> bad_addr (KernelHeap c) \<and> unat (KernelHeap c) + 4 * KHEAP_SIZE c < 2 ^ 32"

lemma size_ok: "0 < sz \<Longrightarrow> sz \<le> 0xFFFFFFF4 \<Longrightarrow> 0 < unat sz \<and> unat sz + 11 < 2 ^ 32" for sz :: U32
  by (simp add: word_le_nat_alt word_less_nat_alt)

lemma heap_inv_malloc:
  assumes "heap_inv c s A" and "0 < sz" and "sz \<le> 0xFFFFFFF4"
  shows "\<exists>p s'. CoKmalloc c (OsSchedUnlock c cb) sz s = Some (p, s') \<and> heap_inv c s' (if p = 0 then A else A(p \<mapsto> unat sz)) \<and>
    keeps A s s'"
proof -
  obtain bs where bs: "heap_rep s bs" "owned (endAddr (Kheap s)) bs A" "\<not> IsrReq s" "\<not> TaskSchedReq s"
    using assms(1) by (auto simp: heap_inv_def)
  let ?e = "endAddr (Kheap s)" and ?z = "push_bit 2 (drop_bit 2 (sz + 3)) + 8 :: U32"
  note sz = size_ok [OF assms(2,3), THEN conjunct1] size_ok [OF assms(2,3), THEN conjunct2]
  have sp: "spaced ?e bs" using bs(1) by (simp add: heap_rep_def)
  note ok = CoKmalloc_ok [OF bs(1) sz bs(3,4), of c cb]
  show ?thesis
  proof (cases "first_fit ?e ?z bs")
    case None
    then show ?thesis using ok assms(1) by (auto simp: keeps_def)
  next
    case (Some r)
    then obtain a bs' s' where r: "first_fit ?e ?z bs = Some (a, bs')" "CoKmalloc c (OsSchedUnlock c cb) sz s = Some (a + 8, s')"
      "heap_rep s' bs'" "heap_frame (payload ?e bs) s s'" using ok by (cases r) auto
    have own: "owned ?e bs' (A(a + 8 \<mapsto> unat sz))"
      using owned_alloc [OF sp bs(2) r(1)] block_size(3) [OF sz] sz(1) by simp
    then have "(a + 8 - 8, True) \<in> set bs'" unfolding owned_def by (metis fun_upd_same)
    then have "unat (a + 8) = unat (a + 8 - 8) + 8" using r(3) heap_frame_fields(3) [OF r(4)]
      by (intro block_user [of ?e bs']) (simp_all add: heap_rep_def)
    then have "a + 8 \<noteq> 0" by auto
    then show ?thesis using assms(1) r(2,3) own heap_frame_fields [OF r(4)] keeps_frame [OF bs(2) r(4)]
      by (auto simp: heap_inv_def)
  qed
qed

lemma heap_inv_free:
  assumes "heap_inv c s A" and "A p = Some n"
  shows "\<exists>s'. CoKfree c (OsSchedUnlock c cb) p s = Some s' \<and> heap_inv c s' (A(p := None)) \<and> keeps (A(p := None)) s s'"
proof -
  obtain bs where bs: "heap_rep s bs" "owned (endAddr (Kheap s)) bs A" "\<not> IsrReq s" "\<not> TaskSchedReq s"
    using assms(1) by (auto simp: heap_inv_def)
  have sp: "spaced (endAddr (Kheap s)) bs" using bs(1) by (simp add: heap_rep_def)
  have p: "(p - 8, True) \<in> set bs" using bs(2) assms(2) by (simp add: owned_def)
  obtain s' where s': "CoKfree c (OsSchedUnlock c cb) p s = Some s'" "heap_rep s' (release (p - 8) bs)"
    "heap_frame (payload (endAddr (Kheap s)) (release (p - 8) bs)) s s'"
    using CoKfree_ok [OF bs(1) p bs(3,4), of c cb] by auto
  moreover have own: "owned (endAddr (Kheap s)) (release (p - 8) bs) (A(p := None))" by (rule owned_release [OF sp bs(2) assms(2)])
  ultimately have "heap_inv c s' (A(p := None))" using assms(1) heap_frame_fields [OF s'(3)] unfolding heap_inv_def by metis
  then show ?thesis using s'(1) keeps_frame [OF own s'(3)] by blast
qed

lemma linked_store:
  assumes "\<And>a u. (a, u) \<in> set bs \<Longrightarrow> x \<noteq> a \<and> x \<noteq> a + 4 \<and> (\<not> u \<longrightarrow> x \<noteq> a + 8)"
  shows "linked (m(x := v)) p bs l n = linked m p bs l n"
  using assms
proof (induction bs arbitrary: p)
  case (Cons b bs)
  obtain a u where b: "b = (a, u)" by (cases b)
  then have "x \<noteq> a" "x \<noteq> a + 4" "\<not> u \<longrightarrow> x \<noteq> a + 8" using Cons.prems [of a u] by auto
  moreover have "linked (m(x := v)) (tag u a) bs l n = linked m (tag u a) bs l n"
    using Cons.prems by (intro Cons.IH) auto
  ultimately show ?case unfolding b by (cases u) (simp_all add: fun_upd_def del: tag.simps)
qed simp

lemma heap_rep_store:
  assumes "heap_rep s bs" and "x \<in> payload (endAddr (Kheap s)) bs"
  shows "heap_rep (s\<lparr>mem := (mem s)(x := v)\<rparr>) bs"
proof -
  let ?e = "endAddr (Kheap s)"
  have sp: "spaced ?e bs" using assms(1) by (simp add: heap_rep_def)
  have "x \<noteq> a \<and> x \<noteq> a + 4 \<and> (\<not> u \<longrightarrow> x \<noteq> a + 8)" if a: "(a, u) \<in> set bs" for a u
  proof -
    obtain xs ys where bs: "bs = xs @ (a, u) # ys" using split_list [OF a] by blast
    have "unat a + 12 \<le> unat (first_addr ?e ys)" using sp bs by simp
    then show ?thesis using payload_store [OF sp assms(2) a] payload_outside [of ?e xs a u ys x] sp assms(2) bs
        hwords_unat [of a "first_addr ?e ys" "a + 8"] by (auto simp: hwords_def)
  qed
  then show ?thesis using assms(1) by (simp add: heap_rep_def linked_store)
qed

lemma heap_inv_store:
  assumes "heap_inv c s A" and "A p = Some n" and "x \<in> region p n"
  shows "heap_inv c (s\<lparr>mem := (mem s)(x := v)\<rparr>) A"
proof -
  obtain bs where bs: "heap_rep s bs" "owned (endAddr (Kheap s)) bs A" using assms(1) by (auto simp: heap_inv_def)
  then have "x \<in> payload (endAddr (Kheap s)) bs" using assms(2,3) by (auto simp: owned_def)
  then have "heap_rep (s\<lparr>mem := (mem s)(x := v)\<rparr>) bs" by (rule heap_rep_store [OF bs(1)])
  then show ?thesis using assms(1) bs(2) by (auto simp: heap_inv_def)
qed

lemma heap_inv_start:
  assumes "heap_fits c" and "config_ok c" and "\<not> IsrReq s" and "\<not> TaskSchedReq s" and "CoCreateKheap c s = Some s'"
  shows "heap_inv c s' Map.empty"
proof -
  have "heap_rep s' [(KernelHeap c, False)]"
    using CoCreateKheap_ok [of c s] assms(1,2,5) by (auto simp: heap_fits_def config_ok_def)
  moreover have "\<not> IsrReq s'" "\<not> TaskSchedReq s'" "Kheap s' = \<lparr>startAddr = KernelHeap c, endAddr = KernelHeap c + of_nat (KHEAP_SIZE c) * 4\<rparr>"
    using assms(1,3-5) by (auto simp: CoCreateKheap_def Let_def heap_fits_def wr_ok)
  ultimately show ?thesis by (auto simp: heap_inv_def owned_def)
qed

lemma heap_run_inv: "heap_run c cb s A \<Longrightarrow> heap_fits c \<Longrightarrow> config_ok c \<Longrightarrow> heap_inv c s A"
proof (induction rule: heap_run.induct)
  case (start s s')
  then show ?case by (intro heap_inv_start)
next
  case (malloc s A sz p s')
  then show ?case using heap_inv_malloc [of c s A sz cb] by fastforce
next
  case (free s A p n s')
  then show ?case using heap_inv_free [of c s A p n cb] by (metis option.inject)
next
  case (store s A p n x v)
  then show ?case by (intro heap_inv_store)
qed


section \<open>Properties\<close>

text \<open>
  C27. \<open>CoKmalloc\<close> is first fit: it takes the first free block that is large enough for the rounded
  size, splits it when 12 bytes or more are left and returns the address behind the header; without
  such a block it returns the null pointer and changes nothing. It does not touch the memory in
  use, and releasing the new block would restore the layout.
\<close>

theorem kmalloc_first_fit:
  assumes "heap_rep s bs" and "0 < sz" and "sz \<le> 0xFFFFFFF4" and "\<not> IsrReq s" and "\<not> TaskSchedReq s"
    and "e = endAddr (Kheap s)" and "z = push_bit 2 (drop_bit 2 (sz + 3)) + 8"
  shows "unat sz + 8 \<le> unat z \<and> (case first_fit e z bs of
      None \<Rightarrow> CoKmalloc c (OsSchedUnlock c cb) sz s = Some (0, s)
    | Some (a, bs') \<Rightarrow> release a bs' = bs \<and> (\<exists>s'. CoKmalloc c (OsSchedUnlock c cb) sz s = Some (a + 8, s') \<and>
        heap_rep s' bs' \<and> heap_frame (payload e bs) s s'))"
proof -
  note sz = size_ok [OF assms(2,3), THEN conjunct1] size_ok [OF assms(2,3), THEN conjunct2]
  have "release a bs' = bs" if "first_fit e z bs = Some (a, bs')" for a bs'
  proof -
    have "z \<noteq> 0" using block_size(2) [OF sz] unfolding assms(7) by force
    then show ?thesis using release_first_fit [OF _ _ that] assms(1,6) by (simp add: heap_rep_def)
  qed
  then show ?thesis using CoKmalloc_ok [OF assms(1) sz assms(4,5), of c cb] block_size(3) [OF sz]
    unfolding assms(6,7) by (auto split: option.splits)
qed

definition heap_example :: kernel where
  "heap_example = kernel_start\<lparr>Kheap := \<lparr>startAddr = 0x20000400, endAddr = 0x200004C8\<rparr>, FMBlist := 0x20000400, mem := (\<lambda>_. 0)\<rparr>"

lemma heap_example_created: "CoCreateKheap OsConfig (kernel_start\<lparr>mem := (\<lambda>_. 0)\<rparr>) = Some heap_example"
  by (simp add: CoCreateKheap_def wr_ok OsConfig_def bad_addr_unat off_defs heap_example_def fun_upd_idem)

theorem kmalloc_first_fit_witness:
  "\<exists>s'. CoKmalloc OsConfig (OsSchedUnlock OsConfig (\<lambda>_. Some)) 10 heap_example = Some (0x20000408, s') \<and>
     heap_rep s' [(0x20000400, True), (0x20000414, False)]"
proof -
  have "heap_rep heap_example [(0x20000400, False)]" by (simp add: heap_rep_def heap_example_def bad_addr_unat)
  moreover have "\<not> IsrReq heap_example" "\<not> TaskSchedReq heap_example" "endAddr (Kheap heap_example) = 0x200004C8"
    by (simp_all add: heap_example_def kernel_start_def)
  moreover have "push_bit 2 (drop_bit 2 (10 + 3)) + 8 = (20 :: U32)" by code_simp
  moreover have "first_fit 0x200004C8 20 [(0x20000400, False)] = Some (0x20000400, [(0x20000400, True), (0x20000414, False)])"
    by (simp add: carve_def)
  ultimately show ?thesis
    using kmalloc_first_fit [of heap_example "[(0x20000400, False)]" 10 "0x200004C8" 20 OsConfig "\<lambda>_. Some"] by auto
qed

text \<open>
  C28. \<open>CoKfree\<close> of a block in use finds the block, marks it free and joins it with the free blocks
  next to it, whatever the kinds of its neighbours; headers and free list fit the new layout and the
  memory that stays in use is not touched.
\<close>

theorem kfree_coalesces:
  assumes "heap_rep s bs" and "(a, True) \<in> set bs" and "\<not> IsrReq s" and "\<not> TaskSchedReq s"
  shows "\<exists>s'. CoKfree c (OsSchedUnlock c cb) (a + 8) s = Some s' \<and> heap_rep s' (release a bs) \<and>
    heap_frame (payload (endAddr (Kheap s)) (release a bs)) s s'"
  using CoKfree_ok [OF assms] .

theorem kfree_coalesces_witness:
  "\<exists>s s'. heap_rep s [(0x20000400, True), (0x20000414, False)] \<and>
     CoKfree OsConfig (OsSchedUnlock OsConfig (\<lambda>_. Some)) 0x20000408 s = Some s' \<and> heap_rep s' [(0x20000400, False)]"
proof -
  let ?s = "heap_example\<lparr>FMBlist := 0x20000414, mem := (\<lambda>_. 0)(0x20000400 := 0x20000414, 0x2000041C := 0x20000401)\<rparr>"
  have or: "(0x20000400 :: U32) OR 1 = 0x20000401" by code_simp
  have rep: "heap_rep ?s [(0x20000400, True), (0x20000414, False)]"
    by (simp add: heap_rep_def heap_example_def bad_addr_unat or)
  have "release 0x20000400 [(0x20000400, True), (0x20000414, False)] = [(0x20000400, False)]" by (simp add: release_def)
  then show ?thesis
    using rep kfree_coalesces [OF rep, of "0x20000400" OsConfig "\<lambda>_. Some"] by (auto simp: heap_example_def kernel_start_def)
qed

text \<open>
  C26. Whatever sequence of requests, releases and stores into its own memory a program makes, its
  allocations lie in the heap and do not overlap, every request and every release of an allocation
  returns, and it does not change the contents of the other allocations.
\<close>

theorem heap_run_safe:
  assumes "heap_run c cb s A" and "heap_fits c" and "config_ok c"
  shows "(\<forall>p n q k. A p = Some n \<longrightarrow> A q = Some k \<longrightarrow> p \<noteq> q \<longrightarrow> region p n \<inter> region q k = {}) \<and>
    (\<forall>p n. A p = Some n \<longrightarrow> unat (KernelHeap c) \<le> unat p \<and> unat p + n \<le> unat (KernelHeap c) + 4 * KHEAP_SIZE c \<and>
      (\<exists>s'. CoKfree c (OsSchedUnlock c cb) p s = Some s' \<and> keeps (A(p := None)) s s')) \<and>
    (\<forall>sz. 0 < sz \<longrightarrow> sz \<le> 0xFFFFFFF4 \<longrightarrow>
      (\<exists>p s'. CoKmalloc c (OsSchedUnlock c cb) sz s = Some (p, s') \<and> keeps A s s'))"
proof -
  have inv: "heap_inv c s A" by (rule heap_run_inv [OF assms])
  then obtain bs where bs: "heap_rep s bs" "owned (endAddr (Kheap s)) bs A" by (auto simp: heap_inv_def)
  let ?e = "endAddr (Kheap s)"
  have sp: "spaced ?e bs" "first_addr ?e bs = KernelHeap c" using bs(1) inv by (simp_all add: heap_rep_def heap_inv_def)
  have e: "unat ?e = unat (KernelHeap c) + 4 * KHEAP_SIZE c"
    using inv assms(2) by (simp add: heap_inv_def heap_fits_def unat_word_ariths unat_of_nat)
  have "unat (KernelHeap c) \<le> unat p \<and> unat p + n \<le> unat (KernelHeap c) + 4 * KHEAP_SIZE c" if "A p = Some n" for p n
  proof -
    have p: "(p - 8, True) \<in> set bs" "unat p + n \<le> unat ?e" using bs(2) that by (auto simp: owned_def)
    then show ?thesis using e spaced_bounds(2) [OF sp(1) p(1)] block_user [OF sp(1) p(1)] sp(2) by simp
  qed
  moreover have "region p n \<inter> region q k = {}" if "A p = Some n" "A q = Some k" "p \<noteq> q" for p n q k
    using owned_disjoint [OF sp(1) bs(2) that] .
  ultimately show ?thesis using heap_inv_malloc [OF inv] heap_inv_free [OF inv] by blast
qed


theorem heap_run_safe_witness:
  "\<exists>s. heap_run OsConfig (\<lambda>_. Some) s [0x20000408 \<mapsto> 10] \<and>
     (\<exists>s'. CoKfree OsConfig (OsSchedUnlock OsConfig (\<lambda>_. Some)) 0x20000408 s = Some s')"
proof -
  let ?cb = "\<lambda>_ :: U32. Some :: kernel \<Rightarrow> kernel option" and ?s = "kernel_start\<lparr>mem := (\<lambda>_. 0)\<rparr>"
  have run: "heap_run OsConfig ?cb heap_example Map.empty"
    using heap_example_created by (intro heap_run.start [of ?s]) (simp_all add: kernel_start_def)
  have "heap_rep heap_example [(0x20000400, False)]" "\<not> IsrReq heap_example" "\<not> TaskSchedReq heap_example"
    "endAddr (Kheap heap_example) = 0x200004C8"
    by (simp_all add: heap_rep_def heap_example_def kernel_start_def bad_addr_unat)
  moreover have "push_bit 2 (drop_bit 2 (10 + 3)) + 8 = (20 :: U32)" by code_simp
  ultimately obtain s where "CoKmalloc OsConfig (OsSchedUnlock OsConfig ?cb) 10 heap_example = Some (0x20000408, s)"
    using CoKmalloc_ok [of heap_example "[(0x20000400, False)]" 10 OsConfig ?cb] by (auto simp: carve_def)
  from heap_run.malloc [OF run _ _ this] have r: "heap_run OsConfig ?cb s [0x20000408 \<mapsto> 10]" by simp
  have "heap_fits OsConfig" by (simp add: heap_fits_def OsConfig_def bad_addr_unat)
  from heap_run_safe [OF r this config_ok_OsConfig]
  have "\<exists>s'. CoKfree OsConfig (OsSchedUnlock OsConfig ?cb) 0x20000408 s = Some s'" by (meson fun_upd_same)
  with r show ?thesis by blast
qed

text \<open>
  The rounding of the size wraps around for the largest requests: on a fresh heap \<open>CoKmalloc\<close>
  answers a request of more than 4294967284 bytes with a block although no heap is that large.
\<close>

theorem kmalloc_huge_request:
  assumes "heap_fits c" and "config_ok c" and "\<not> IsrReq s" and "\<not> TaskSchedReq s"
    and "CoCreateKheap c s = Some s0" and "0xFFFFFFF4 < sz"
  shows "\<exists>s'. CoKmalloc c (OsSchedUnlock c cb) sz s0 = Some (KernelHeap c + 8, s')"
proof -
  let ?a = "KernelHeap c" and ?z = "push_bit 2 (drop_bit 2 (sz + 3)) + 8 :: U32"
  have "unat (sz + 3) = (unat sz + 3) mod 4294967296" by (simp add: unat_word_ariths)
  then have "unat (drop_bit 2 (sz + 3)) = (unat sz + 3) mod 4294967296 div 4" by (simp add: drop_bit_eq_div unat_div_distrib)
  then have "unat (push_bit 2 (drop_bit 2 (sz + 3))) = (unat sz + 3) mod 4294967296 div 4 * 4 mod 4294967296"
    by (simp add: push_bit_eq_mult unat_word_ariths mult.commute)
  then have u: "unat ?z = ((unat sz + 3) mod 4294967296 div 4 * 4 mod 4294967296 + 8) mod 4294967296"
    by (subst unat_word_ariths) simp
  have "4294967284 < unat sz" "unat sz < 4294967296" using assms(6) unsigned_less [of sz, where 'a = nat]
    by (simp_all add: word_less_nat_alt)
  then have "unat sz = 4294967285 + (unat sz - 4294967285)" "unat sz - 4294967285 < 11" by simp_all
  then obtain k where k: "unat sz = 4294967285 + k" "k < 11" by blast
  then have "k \<in> {0, 1, 2, 3, 4, 5, 6, 7, 8, 9, 10}" by simp arith
  then have "unat ?z = unat (0 :: U32) \<or> unat ?z = unat (4 :: U32) \<or> unat ?z = unat (8 :: U32)" unfolding u k(1) by auto
  then have z: "?z = 0 \<or> ?z = 4 \<or> ?z = 8" unfolding word_unat_eq_iff .
  have nz: "sz \<noteq> 0" using assms(6) by auto
  have a: "\<not> bad_addr ?a" "?a \<noteq> 0" "unat ?a mod 4 = 0" using assms(1) by (auto simp: heap_fits_def bad_addr_unat bad_addr_def)
  have s0: "mem s0 ?a = 0" "mem s0 (?a + 4) = 0" "mem s0 (?a + 8) = 0" "FMBlist s0 = ?a" "\<not> IsrReq s0" "\<not> TaskSchedReq s0"
    "endAddr (Kheap s0) = ?a + of_nat (KHEAP_SIZE c) * 4"
    using assms(3-5) a(1) by (auto simp: CoCreateKheap_def Let_def wr_ok off_defs)
  define f :: U32 where "f = of_nat (KHEAP_SIZE c) * 4"
  have "unat f = 4 * KHEAP_SIZE c" using assms(1) by (simp add: f_def heap_fits_def unat_word_ariths unat_of_nat)
  then have f: "8 \<le> f" "\<not> f - z < 12" "z \<le> f" if "z = 0 \<or> z = 4 \<or> z = 8" for z
    using assms(2) that by (auto simp: config_ok_def word_le_nat_alt word_less_nat_alt unat_sub)
  have an: "\<not> bad_addr (?a + z)" if "z = 0 \<or> z = 4 \<or> z = 8" for z
  proof -
    have "4 * KHEAP_SIZE c \<ge> 128" using assms(2) by (simp add: config_ok_def)
    then have "unat (?a + z) = unat ?a + unat z" using assms(1) that by (auto simp: heap_fits_def unat_word_ariths)
    then show ?thesis using a(1,3) that by (auto simp: bad_addr_unat mod_add_eq [symmetric])
  qed
  have take: "\<exists>t. kmalloc_take z ?a 0 f (OsSchedLock s0) = Some t \<and> \<not> IsrReq t \<and> \<not> TaskSchedReq t"
    if zz: "z = 0 \<or> z = 4 \<or> z = 8" for z
    using that a(1,2) s0 f(2) [OF that] an [OF that]
    by (elim disjE) (simp_all add: kmalloc_take_def Let_def OsSchedLock_def rd_ok wr_ok set_next_fmb_def set_pre_mb_def
        set_next_mb_def off_defs)
  then obtain t where t: "kmalloc_take ?z ?a 0 f (OsSchedLock s0) = Some t" "\<not> IsrReq t" "\<not> TaskSchedReq t" using z by blast
  have "kmalloc_loop ?z (?a + f) ?a 0 (OsSchedLock s0) = Some (?a + 8, t)"
    using a s0(2) t(1) f(3) [OF z] by (subst kmalloc_loop.simps) (simp add: rd_ok off_defs OsSchedLock_def Let_def)
  then show ?thesis using nz s0(4,7) t(2,3) by (simp add: CoKmalloc_def Let_def f_def OsSchedLock_def unlock_calm)
qed


theorem kmalloc_huge_request_witness:
  "\<exists>s'. CoKmalloc OsConfig (OsSchedUnlock OsConfig (\<lambda>_. Some)) 0xFFFFFFF8 heap_example = Some (0x20000408, s')"
proof -
  let ?s = "kernel_start\<lparr>mem := (\<lambda>_. 0)\<rparr>"
  have "heap_fits OsConfig" by (simp add: heap_fits_def OsConfig_def bad_addr_unat)
  moreover have "\<not> IsrReq ?s" "\<not> TaskSchedReq ?s" by (simp_all add: kernel_start_def)
  ultimately have "\<exists>s'. CoKmalloc OsConfig (OsSchedUnlock OsConfig (\<lambda>_. Some)) 0xFFFFFFF8 heap_example = Some (KernelHeap OsConfig + 8, s')"
    using heap_example_created by (intro kmalloc_huge_request [OF _ config_ok_OsConfig]) simp_all
  moreover have "KernelHeap OsConfig + 8 = 0x20000408" by (simp add: OsConfig_def)
  ultimately show ?thesis by simp
qed

end
