(* ===== verification/ThumbCode.thy ===== *)
theory ThumbCode
  imports Scheduler
begin

unbundle bit_operations_syntax

text \<open>
  The processor as the assembler code of the ports sees it: registers, the process stack pointer,
  the interrupt mask, the zero flag, the memory and the PendSV bit, and the instructions of the
  ARMv6-M and ARMv7-M architectures that the three ports use (\<open>STRW\<close> is the instruction \<open>STR\<close>).
\<close>

section \<open>The processor\<close>

datatype reg = R0 | R1 | R2 | R3 | R4 | R5 | R6 | R7 | R8 | R9 | R10 | R11 | R12 | SP | LR

text \<open>
  The memory is a store of words at word addresses. \<open>psp\<close> is the process stack pointer, \<open>SP\<close> the
  stack pointer in use, \<open>primask\<close> the interrupt mask, \<open>zflag\<close> the condition flag of \<open>BEQ\<close>, and
  \<open>pendsv\<close> the bit of the interrupt control register that requests the PendSV exception.
\<close>

record mcu =
  R :: "reg \<Rightarrow> U32"
  psp :: U32
  primask :: bool
  zflag :: bool
  ram :: "U32 \<Rightarrow> U32"
  pendsv :: bool

abbreviation set_R :: "reg \<Rightarrow> U32 \<Rightarrow> mcu \<Rightarrow> mcu" where
  "set_R r w m \<equiv> m\<lparr>R := (R m)(r := w)\<rparr>"

text \<open>Bytes in little-endian words.\<close>

definition byte_word :: "U32 \<Rightarrow> U32" where
  "byte_word a = a AND NOT 3"

definition byte_shift :: "U32 \<Rightarrow> nat" where
  "byte_shift a = 8 * unat (a AND 3)"

definition ldrb :: "U32 \<Rightarrow> (U32 \<Rightarrow> U32) \<Rightarrow> U8" where
  "ldrb a m = ucast (drop_bit (byte_shift a) (m (byte_word a)))"

definition strb :: "U32 \<Rightarrow> U8 \<Rightarrow> (U32 \<Rightarrow> U32) \<Rightarrow> U32 \<Rightarrow> U32" where
  "strb a b m = m(byte_word a :=
     (m (byte_word a) AND NOT (push_bit (byte_shift a) (mask 8))) OR push_bit (byte_shift a) (ucast b))"

text \<open>A store to the interrupt control register pends the exception instead of changing memory.\<close>

definition str_word :: "U32 \<Rightarrow> U32 \<Rightarrow> mcu \<Rightarrow> mcu" where
  "str_word a w m =
     (if a = 0xE000ED04 then m\<lparr>pendsv := pendsv m \<or> bit w 28\<rparr> else m\<lparr>ram := (ram m)(a := w)\<rparr>)"

section \<open>Instructions\<close>

datatype instr =
    LDR_const reg U32
  | LDR reg reg
  | STRW reg reg
  | LDRB reg reg
  | STRB reg reg
  | ADD reg reg U32
  | ADDS reg reg U32
  | SUB reg reg U32
  | SUBS reg reg U32
  | MOV reg reg
  | MOVS reg reg
  | MOV_const reg U32
  | MOVS_const reg U32
  | RSBS reg reg
  | ORR reg reg U32
  | CMP reg reg
  | BEQ string
  | Label string
  | MRS_PSP reg
  | MSR_PSP reg
  | STMIA reg "reg list"
  | STMDB reg "reg list"
  | LDMIA reg "reg list"
  | PUSH "reg list"
  | POP "reg list"
  | CPSID
  | CPSIE
  | BX reg

definition set_R_all :: "reg list \<Rightarrow> U32 list \<Rightarrow> mcu \<Rightarrow> mcu" where
  "set_R_all rs ws m = fold (\<lambda>(r, w). set_R r w) (zip rs ws) m"

definition set_flags :: "reg \<Rightarrow> mcu \<Rightarrow> mcu" where
  "set_flags r m = m\<lparr>zflag := R m r = 0\<rparr>"

text \<open>The effect of an instruction that does not branch.\<close>

fun exec1 :: "instr \<Rightarrow> mcu \<Rightarrow> mcu" where
  "exec1 (LDR_const rd w) m = set_R rd w m"
| "exec1 (LDR rd rn) m = set_R rd (ram m (R m rn)) m"
| "exec1 (STRW rs rn) m = str_word (R m rn) (R m rs) m"
| "exec1 (LDRB rd rn) m = set_R rd (ucast (ldrb (R m rn) (ram m))) m"
| "exec1 (STRB rs rn) m = m\<lparr>ram := strb (R m rn) (ucast (R m rs)) (ram m)\<rparr>"
| "exec1 (ADD rd rn w) m = set_R rd (R m rn + w) m"
| "exec1 (ADDS rd rn w) m = set_flags rd (set_R rd (R m rn + w) m)"
| "exec1 (SUB rd rn w) m = set_R rd (R m rn - w) m"
| "exec1 (SUBS rd rn w) m = set_flags rd (set_R rd (R m rn - w) m)"
| "exec1 (MOV rd rn) m = set_R rd (R m rn) m"
| "exec1 (MOVS rd rn) m = set_flags rd (set_R rd (R m rn) m)"
| "exec1 (MOV_const rd w) m = set_R rd w m"
| "exec1 (MOVS_const rd w) m = set_flags rd (set_R rd w m)"
| "exec1 (RSBS rd rn) m = set_flags rd (set_R rd (0 - R m rn) m)"
| "exec1 (ORR rd rn w) m = set_R rd (R m rn OR w) m"
| "exec1 (CMP ra rb) m = m\<lparr>zflag := R m ra = R m rb\<rparr>"
| "exec1 (MRS_PSP rd) m = set_R rd (psp m) m"
| "exec1 (MSR_PSP rn) m = m\<lparr>psp := R m rn\<rparr>"
| "exec1 (STMIA rn rs) m =
     set_R rn (R m rn + 4 * of_nat (length rs)) (m\<lparr>ram := stmia (R m rn) (map (R m) rs) (ram m)\<rparr>)"
| "exec1 (STMDB rn rs) m =
     (let a = R m rn - 4 * of_nat (length rs) in set_R rn a (m\<lparr>ram := stmia a (map (R m) rs) (ram m)\<rparr>))"
| "exec1 (LDMIA rn rs) m =
     set_R_all rs (ldmia (R m rn) (length rs) (ram m)) (set_R rn (R m rn + 4 * of_nat (length rs)) m)"
| "exec1 (PUSH rs) m =
     (let a = R m SP - 4 * of_nat (length rs) in set_R SP a (m\<lparr>ram := stmia a (map (R m) rs) (ram m)\<rparr>))"
| "exec1 (POP rs) m =
     set_R_all rs (ldmia (R m SP) (length rs) (ram m)) (set_R SP (R m SP + 4 * of_nat (length rs)) m)"
| "exec1 CPSID m = m\<lparr>primask := True\<rparr>"
| "exec1 CPSIE m = m\<lparr>primask := False\<rparr>"
| "exec1 (BEQ l) m = m"
| "exec1 (Label l) m = m"
| "exec1 (BX rn) m = m"

text \<open>
  Code runs to its end or to a \<open>BX\<close>, whose target is the first part of the result. The labels of the
  code are all behind the branches to them.
\<close>

definition after :: "string \<Rightarrow> instr list \<Rightarrow> instr list" where
  "after l is = tl (dropWhile (\<lambda>i. i \<noteq> Label l) is)"

lemma after_size [termination_simp]: "length (after l is) \<le> length is"
  using length_dropWhile_le [of "\<lambda>i. i \<noteq> Label l" "is"] by (simp add: after_def)

fun exec :: "instr list \<Rightarrow> mcu \<Rightarrow> U32 option \<times> mcu" where
  "exec [] m = (None, m)"
| "exec (i # is) m =
     (case i of
        BX rn \<Rightarrow> (Some (R m rn), m)
      | BEQ l \<Rightarrow> if zflag m then exec (after l is) m else exec is m
      | _ \<Rightarrow> exec is (exec1 i m))"

text \<open>
  The same code with interrupts: before the \<open>k\<close>-th instruction \<open>ns k\<close> interrupts are served if the mask
  is clear. A handler is a function on the memory that gets the stack pointer; the processor saves
  and restores the registers.
\<close>

definition interrupts :: "(U32 \<Rightarrow> (U32 \<Rightarrow> U32) \<Rightarrow> U32 \<Rightarrow> U32) \<Rightarrow> nat \<Rightarrow> mcu \<Rightarrow> mcu" where
  "interrupts h n m = (if primask m then m else m\<lparr>ram := (h (R m SP) ^^ n) (ram m)\<rparr>)"

fun exec_irq ::
  "(U32 \<Rightarrow> (U32 \<Rightarrow> U32) \<Rightarrow> U32 \<Rightarrow> U32) \<Rightarrow> (nat \<Rightarrow> nat) \<Rightarrow> instr list \<Rightarrow> mcu \<Rightarrow> U32 option \<times> mcu" where
  "exec_irq h ns [] m = (None, m)"
| "exec_irq h ns (i # is) m =
     (let m = interrupts h (ns 0) m; ns = (\<lambda>k. ns (Suc k)) in
      case i of
        BX rn \<Rightarrow> (Some (R m rn), m)
      | BEQ l \<Rightarrow> if zflag m then exec_irq h ns (after l is) m else exec_irq h ns is m
      | _ \<Rightarrow> exec_irq h ns is (exec1 i m))"

text \<open>The number of interrupts served in such a run: what is pending while the mask is set waits.\<close>

fun served ::
  "(U32 \<Rightarrow> (U32 \<Rightarrow> U32) \<Rightarrow> U32 \<Rightarrow> U32) \<Rightarrow> (nat \<Rightarrow> nat) \<Rightarrow> instr list \<Rightarrow> mcu \<Rightarrow> nat" where
  "served h ns [] m = 0"
| "served h ns (i # is) m =
     (let n = (if primask m then 0 else ns 0); m = interrupts h (ns 0) m; ns = (\<lambda>k. ns (Suc k)) in
      n + (case i of
        BX rn \<Rightarrow> 0
      | BEQ l \<Rightarrow> if zflag m then served h ns (after l is) m else served h ns is m
      | _ \<Rightarrow> served h ns is (exec1 i m)))"

text \<open>Without interrupts the two agree.\<close>

lemma exec_irq_none: "exec_irq h (\<lambda>_. 0) is m = exec is m"
proof -
  have [simp]: "interrupts h 0 m = m" for m by (simp add: interrupts_def)
  show ?thesis by (induction "is" m rule: exec.induct) (auto simp: Let_def split: instr.split)
qed

section \<open>Bytes\<close>

lemma byte_shift_cases: "byte_shift a \<in> {0, 8, 16, 24}"
proof -
  have "a AND 3 \<le> 3" by (rule word_and_le1)
  then have "unat (a AND 3) \<le> 3" by (simp add: word_le_nat_alt)
  then have "unat (a AND 3) \<in> {0, 1, 2, 3}" by auto
  then show ?thesis by (auto simp: byte_shift_def)
qed

lemma bit_ucast8: "bit (ucast (b :: U8) :: U32) n \<longleftrightarrow> n < 8 \<and> bit b n"
  using bit_imp_le_length [of b n] by (auto simp: bit_simps)

lemma ldrb_strb_same [simp]: "ldrb a (strb a b m) = b"
proof (rule bit_eqI)
  fix n assume "possible_bit TYPE(8 word) n"
  then have n: "n < 8" by simp
  show "bit (ldrb a (strb a b m)) n = bit b n"
    using byte_shift_cases [of a] n
    by (auto simp: ldrb_def strb_def bit_simps)
qed

lemma strb_other: "byte_word a \<noteq> w \<Longrightarrow> strb a b m w = m w"
  by (simp add: strb_def)

lemma ldrb_upd: "byte_word a \<noteq> w \<Longrightarrow> ldrb a (m(w := x)) = ldrb a m"
  by (simp add: ldrb_def)

end
