(* ===== verification/PortCode.thy ===== *)
theory PortCode
  imports ThumbCode ServiceQueue
begin

unbundle bit_operations_syntax

text \<open>
  The assembler routines of the three ports, instruction by instruction: \<open>portable/GCC/port.c\<close>,
  \<open>portable/Keil/port.c\<close> and \<open>portable/IAR/portForM0.asm\<close>, \<open>portForM3.asm\<close>, \<open>portForM4.asm\<close>. The handlers
  implement the context switch of the kernel model, and the byte counters are atomic.
\<close>

section \<open>Addresses\<close>

text \<open>Where the linker has put the variables that the routines name.\<close>

record layout =
  a_TCBRunning :: U32
  a_TCBNext :: U32
  a_OSSchedLock :: U32
  a_NVIC_INT_CTRL :: U32
  a_NVIC_PENDSVSET :: U32
  a_INT_EXIT :: U32
  a_TCB :: "OS_TID \<Rightarrow> U32"

section \<open>Counters and interrupt mask\<close>

definition Inc8_Keil :: "instr list" where
  "Inc8_Keil = [PUSH [R1], CPSID, LDRB R1 R0, ADDS R1 R1 1, STRB R1 R0, CPSIE, SUBS R1 R1 1,
     MOVS R0 R1, POP [R1], BX LR]"

definition Dec8_Keil :: "instr list" where
  "Dec8_Keil = [PUSH [R1], CPSID, LDRB R1 R0, SUBS R1 R1 1, STRB R1 R0, CPSIE,
     MOVS R0 R1, POP [R1], BX LR]"

definition Inc8_IAR :: "instr list" where
  "Inc8_IAR = [PUSH [R1], CPSID, LDRB R1 R0, ADDS R1 R1 1, STRB R1 R0, CPSIE, SUBS R1 R1 1,
     MOVS R0 R1, POP [R1], BX LR]"

definition Dec8_IAR :: "instr list" where
  "Dec8_IAR = [PUSH [R1], CPSID, LDRB R1 R0, SUBS R1 R1 1, STRB R1 R0, CPSIE,
     MOVS R0 R1, POP [R1], BX LR]"

text \<open>
  The GCC versions are inline code with two operands: the compiler chooses the register \<open>result\<close> for
  the result and \<open>data\<close> for the address.
\<close>

definition Inc8_GCC :: "reg \<Rightarrow> reg \<Rightarrow> instr list" where
  "Inc8_GCC result data = [PUSH [R1], CPSID, LDRB R1 data, ADD R1 R1 1, STRB R1 data, CPSIE,
     SUB R1 R1 1, MOVS result R1, POP [R1]]"

definition Dec8_GCC :: "reg \<Rightarrow> reg \<Rightarrow> instr list" where
  "Dec8_GCC result data = [PUSH [R1], CPSID, LDRB R1 data, SUB R1 R1 1, STRB R1 data, CPSIE,
     MOVS result R1, POP [R1]]"

definition IRQ_ENABLE_RESTORE_Keil :: "instr list" where
  "IRQ_ENABLE_RESTORE_Keil = [CPSIE, BX LR]"

definition IRQ_DISABLE_SAVE_Keil :: "instr list" where
  "IRQ_DISABLE_SAVE_Keil = [CPSID, BX LR]"

definition IRQ_ENABLE_RESTORE_IAR :: "instr list" where
  "IRQ_ENABLE_RESTORE_IAR = [CPSIE, BX LR]"

definition IRQ_DISABLE_SAVE_IAR :: "instr list" where
  "IRQ_DISABLE_SAVE_IAR = [CPSID, BX LR]"

definition IRQ_ENABLE_RESTORE_GCC :: "instr list" where
  "IRQ_ENABLE_RESTORE_GCC = [CPSIE]"

definition IRQ_DISABLE_SAVE_GCC :: "instr list" where
  "IRQ_DISABLE_SAVE_GCC = [CPSID]"

section \<open>Start and request of a context switch\<close>

definition SetEnvironment_Keil :: "instr list" where
  "SetEnvironment_Keil = [SUBS R0 R0 28, MSR_PSP R0, BX LR]"

definition SetEnvironment_IAR :: "instr list" where
  "SetEnvironment_IAR = [SUBS R0 R0 28, MSR_PSP R0, BX LR]"

definition SetEnvironment_GCC :: "instr list" where
  "SetEnvironment_GCC = [SUB R0 R0 28, MSR_PSP R0, BX LR]"

definition SwitchContext_Keil :: "instr list" where
  "SwitchContext_Keil = [LDR_const R0 0xE000ED04, LDR_const R1 0x10000000, STRW R1 R0, BX LR]"

definition SwitchContext_IAR :: "instr list" where
  "SwitchContext_IAR = [LDR_const R0 0xE000ED04, LDR_const R1 0x10000000, STRW R1 R0, BX LR]"

definition SwitchContext_GCC :: "layout \<Rightarrow> instr list" where
  "SwitchContext_GCC L = [LDR_const R3 (a_NVIC_INT_CTRL L), LDR R3 R3,
     LDR_const R2 (a_NVIC_PENDSVSET L), LDR R1 R2, STRW R1 R3, BX LR]"

section \<open>Context switch\<close>

definition PendSV_Handler_M3_GCC :: "layout \<Rightarrow> instr list" where
  "PendSV_Handler_M3_GCC L = [
     LDR_const R3 (a_TCBRunning L),
     LDR R1 R3,
     LDR_const R2 (a_TCBNext L),
     LDR R2 R2,
     CMP R1 R2,
     BEQ ''exitPendSV'',
     MRS_PSP R0,
     STMDB R0 [R4, R5, R6, R7, R8, R9, R10, R11],
     STRW R0 R1,
     STRW R2 R3,
     LDR R0 R2,
     LDMIA R0 [R4, R5, R6, R7, R8, R9, R10, R11],
     MSR_PSP R0,
     Label ''exitPendSV'',
     LDR_const R3 (a_OSSchedLock L),
     MOVS_const R0 0,
     STRB R0 R3,
     ORR LR LR 4,
     BX LR]"

definition PendSV_Handler_M3_Keil :: "layout \<Rightarrow> instr list" where
  "PendSV_Handler_M3_Keil L = [
     LDR_const R3 (a_TCBRunning L),
     LDR R1 R3,
     LDR_const R2 (a_TCBNext L),
     LDR R2 R2,
     CMP R1 R2,
     BEQ ''exitPendSV'',
     MRS_PSP R0,
     STMDB R0 [R4, R5, R6, R7, R8, R9, R10, R11],
     STRW R0 R1,
     Label ''popStk'',
     STRW R2 R3,
     LDR R0 R2,
     LDMIA R0 [R4, R5, R6, R7, R8, R9, R10, R11],
     MSR_PSP R0,
     Label ''exitPendSV'',
     LDR_const R3 (a_OSSchedLock L),
     MOVS_const R0 0,
     STRB R0 R3,
     ORR LR LR 4,
     BX LR]"

text \<open>The IAR files for Cortex-M3 and Cortex-M4 are the same.\<close>

definition PendSV_Handler_M3_IAR :: "layout \<Rightarrow> instr list" where
  "PendSV_Handler_M3_IAR L = [
     LDR_const R3 (a_TCBRunning L),
     LDR R1 R3,
     LDR_const R2 (a_TCBNext L),
     LDR R2 R2,
     CMP R1 R2,
     BEQ ''exitPendSV'',
     MRS_PSP R0,
     STMDB R0 [R4, R5, R6, R7, R8, R9, R10, R11],
     STRW R0 R1,
     STRW R2 R3,
     LDR R0 R2,
     LDMIA R0 [R4, R5, R6, R7, R8, R9, R10, R11],
     MSR_PSP R0,
     Label ''exitPendSV'',
     LDR_const R3 (a_OSSchedLock L),
     MOVS_const R0 0,
     STRB R0 R3,
     ORR LR LR 4,
     BX LR]"

definition PendSV_Handler_M0_GCC :: "layout \<Rightarrow> instr list" where
  "PendSV_Handler_M0_GCC L = [
     LDR_const R3 (a_TCBRunning L),
     LDR R1 R3,
     LDR_const R2 (a_TCBNext L),
     LDR R2 R2,
     CMP R1 R2,
     BEQ ''exitPendSV'',
     MRS_PSP R0,
     SUB R0 R0 32,
     STRW R0 R1,
     STMIA R0 [R4, R5, R6, R7],
     MOV R4 R8,
     MOV R5 R9,
     MOV R6 R10,
     MOV R7 R11,
     STMIA R0 [R4, R5, R6, R7],
     Label ''popStk'',
     STRW R2 R3,
     LDR R0 R2,
     ADD R0 R0 16,
     LDMIA R0 [R4, R5, R6, R7],
     MOV R8 R4,
     MOV R9 R5,
     MOV R10 R6,
     MOV R11 R7,
     SUB R0 R0 32,
     LDMIA R0 [R4, R5, R6, R7],
     ADD R0 R0 16,
     MSR_PSP R0,
     Label ''exitPendSV'',
     LDR_const R3 (a_OSSchedLock L),
     MOV_const R0 0,
     STRB R0 R3,
     LDR_const R3 (a_INT_EXIT L),
     LDR R0 R3,
     BX R0]"

definition PendSV_Handler_M0_Keil :: "layout \<Rightarrow> instr list" where
  "PendSV_Handler_M0_Keil L = [
     LDR_const R3 (a_TCBRunning L),
     LDR R1 R3,
     LDR_const R2 (a_TCBNext L),
     LDR R2 R2,
     CMP R1 R2,
     BEQ ''exitPendSV'',
     MRS_PSP R0,
     SUBS R0 R0 32,
     STRW R0 R1,
     STMIA R0 [R4, R5, R6, R7],
     MOV R4 R8,
     MOV R5 R9,
     MOV R6 R10,
     MOV R7 R11,
     STMIA R0 [R4, R5, R6, R7],
     Label ''popStk'',
     STRW R2 R3,
     LDR R0 R2,
     ADDS R0 R0 16,
     LDMIA R0 [R4, R5, R6, R7],
     MOV R8 R4,
     MOV R9 R5,
     MOV R10 R6,
     MOV R11 R7,
     SUBS R0 R0 32,
     LDMIA R0 [R4, R5, R6, R7],
     ADDS R0 R0 16,
     MSR_PSP R0,
     Label ''exitPendSV'',
     LDR_const R3 (a_OSSchedLock L),
     MOVS_const R0 0,
     STRB R0 R3,
     MOVS_const R0 4,
     RSBS R0 R0,
     BX R0]"

definition PendSV_Handler_M0_IAR :: "layout \<Rightarrow> instr list" where
  "PendSV_Handler_M0_IAR L = [
     LDR_const R3 (a_TCBRunning L),
     LDR R1 R3,
     LDR_const R2 (a_TCBNext L),
     LDR R2 R2,
     CMP R1 R2,
     BEQ ''exitPendSV'',
     MRS_PSP R0,
     SUBS R0 R0 32,
     STRW R0 R1,
     STMIA R0 [R4, R5, R6, R7],
     MOV R4 R8,
     MOV R5 R9,
     MOV R6 R10,
     MOV R7 R11,
     STMIA R0 [R4, R5, R6, R7],
     Label ''popStk'',
     STRW R2 R3,
     LDR R0 R2,
     ADDS R0 R0 16,
     LDMIA R0 [R4, R5, R6, R7],
     MOV R8 R4,
     MOV R9 R5,
     MOV R10 R6,
     MOV R11 R7,
     SUBS R0 R0 32,
     LDMIA R0 [R4, R5, R6, R7],
     ADDS R0 R0 16,
     MSR_PSP R0,
     Label ''exitPendSV'',
     LDR_const R3 (a_OSSchedLock L),
     MOVS_const R0 0,
     STRB R0 R3,
     MOVS_const R0 4,
     RSBS R0 R0,
     BX R0]"

section \<open>Representation of the kernel state\<close>

text \<open>The words of the kernel's own variables, apart from the stacks.\<close>

definition own_words :: "layout \<Rightarrow> U32 set" where
  "own_words L = {a_TCBRunning L, a_TCBNext L, byte_word (a_OSSchedLock L), a_INT_EXIT L, 0xE000ED04} \<union> range (a_TCB L)"

definition layout_ok :: "layout \<Rightarrow> bool" where
  "layout_ok L \<longleftrightarrow> inj (a_TCB L) \<and> 0 \<notin> range (a_TCB L) \<and> 0xE000ED04 \<notin> range (a_TCB L) \<and>
     distinct [a_TCBRunning L, a_TCBNext L, byte_word (a_OSSchedLock L), a_INT_EXIT L, 0xE000ED04] \<and>
     {a_TCBRunning L, a_TCBNext L, byte_word (a_OSSchedLock L), a_INT_EXIT L} \<inter> range (a_TCB L) = {}"

definition tcb_word :: "layout \<Rightarrow> P_OSTCB \<Rightarrow> U32" where
  "tcb_word L p = (case p of None \<Rightarrow> 0 | Some t \<Rightarrow> a_TCB L t)"

definition high_regs :: "reg list" where
  "high_regs = [R4, R5, R6, R7, R8, R9, R10, R11]"

lemma length_high_regs [simp]: "length high_regs = 8"
  by (simp add: high_regs_def)

text \<open>The processor state stands for a context and a kernel state; \<open>S\<close> are the words of the stacks.\<close>

definition port_rep :: "layout \<Rightarrow> U32 set \<Rightarrow> mcu \<Rightarrow> cpu \<times> kernel \<Rightarrow> bool" where
  "port_rep L S m ps \<longleftrightarrow> (case ps of (p, s) \<Rightarrow>
     ram m (a_TCBRunning L) = tcb_word L (TCBRunning s) \<and> ram m (a_TCBNext L) = tcb_word L (TCBNext s) \<and>
     ldrb (a_OSSchedLock L) (ram m) = OSSchedLock s \<and> ram m (a_INT_EXIT L) = 0xFFFFFFFC \<and>
     (\<forall>t. ram m (a_TCB L t) = stkPtr (TCBTbl s t)) \<and> (\<forall>a \<in> S. ram m a = mem s a) \<and>
     psp m = PSP p \<and> (\<forall>i < 8. R m (high_regs ! i) = regs p i))"


definition frame_words :: "U32 \<Rightarrow> U32 set" where
  "frame_words a = (\<lambda>i. a + 4 * of_nat i) ` {0..<8}"

text \<open>What every handler does when the two tasks differ.\<close>

definition port_switch :: "layout \<Rightarrow> OS_TID \<Rightarrow> OS_TID \<Rightarrow> mcu \<Rightarrow> mcu \<Rightarrow> bool" where
  "port_switch L a b m m' \<longleftrightarrow> (\<exists>M.
     M = (stmia (psp m - 32) (map (R m) high_regs) (ram m))(a_TCB L a := psp m - 32, a_TCBRunning L := a_TCB L b) \<and>
     ram m' = strb (a_OSSchedLock L) 0 M \<and> psp m' = M (a_TCB L b) + 32 \<and>
     map (R m') high_regs = ldmia (M (a_TCB L b)) 8 M)"

lemma ldmia_Suc: "ldmia a (Suc n) m = m a # ldmia (a + 4) n m" "ldmia a 0 m = []"
  by (simp_all add: ldmia_def upt_conv_Cons map_Suc_upt [symmetric] algebra_simps del: upt_Suc)

lemma ldmia_words:
  "ldmia a 4 m = [m a, m (a + 4), m (a + 8), m (a + 12)]"
  "ldmia a 8 m = [m a, m (a + 4), m (a + 8), m (a + 12), m (a + 16), m (a + 20), m (a + 24), m (a + 28)]"
  by (simp_all add: ldmia_Suc eval_nat_numeral add.assoc)

lemmas exec_simps = after_def set_R_all_def set_flags_def str_word_def Let_def ldmia_words ldmia_Suc high_regs_def add.assoc

lemma layout_okD:
  assumes "layout_ok L"
  shows "a_TCB L t \<noteq> 0xE000ED04" "a_TCBRunning L \<noteq> 0xE000ED04" "a_TCB L t \<noteq> a_TCBRunning L" "a_TCBRunning L \<noteq> a_TCB L t"
    "a_TCB L t = a_TCB L u \<longleftrightarrow> t = u"
proof -
  have *: "a_TCB L t \<noteq> w" if "w \<notin> range (a_TCB L)" for w using that by auto
  show "a_TCB L t \<noteq> 0xE000ED04" "a_TCBRunning L \<noteq> 0xE000ED04" "a_TCB L t \<noteq> a_TCBRunning L"
    using assms by (auto intro!: * simp: layout_ok_def)
  then show "a_TCBRunning L \<noteq> a_TCB L t" by simp
  show "a_TCB L t = a_TCB L u \<longleftrightarrow> t = u" using assms by (simp add: layout_ok_def inj_eq)
qed

lemma stmia_eq:
  "stmia a [v0, v1, v2, v3] m = m(a := v0, a + 4 := v1, a + 8 := v2, a + 12 := v3)"
  "stmia a [v0, v1, v2, v3, v4, v5, v6, v7] m =
     m(a := v0, a + 4 := v1, a + 8 := v2, a + 12 := v3, a + 16 := v4, a + 20 := v5, a + 24 := v6, a + 28 := v7)"
  by (simp_all add: stmia_def)

lemma stmia_halves:
  "stmia (a - 16) [v4, v5, v6, v7] (stmia (a - 32) [v0, v1, v2, v3] m) = stmia (a - 32) [v0, v1, v2, v3, v4, v5, v6, v7] m"
  by (simp add: stmia_eq)

lemma frame_words_eq: "frame_words a = {a, a + 4, a + 8, a + 12, a + 16, a + 20, a + 24, a + 28}"
proof -
  have "{0..<8} = {0, 1, 2, 3, 4, 5, 6, 7 :: nat}" by auto
  then show ?thesis by (simp add: frame_words_def)
qed

lemma frame_wordsI: "i < 8 \<Longrightarrow> a + 4 * of_nat i \<in> frame_words a"
  by (auto simp: frame_words_def)

lemma stmia_commute:
  assumes "w \<notin> frame_words a"
  shows "stmia a [v0, v1, v2, v3, v4, v5, v6, v7] (m(w := x)) = (stmia a [v0, v1, v2, v3, v4, v5, v6, v7] m)(w := x)"
  using assms by (auto simp: frame_words_eq stmia_eq fun_eq_iff)

lemma M3_switch:
  assumes "layout_ok L" and "ram m (a_TCBRunning L) = a_TCB L a" and "ram m (a_TCBNext L) = a_TCB L b" and "a \<noteq> b"
  shows "\<exists>m'. exec (PendSV_Handler_M3_GCC L) m = (Some (R m LR OR 4), m') \<and> port_switch L a b m m'"
  using assms(2-4) layout_okD [OF assms(1)]
  by (simp add: PendSV_Handler_M3_GCC_def exec_simps port_switch_def split del: if_split)

lemma M3_same:
  assumes "ram m (a_TCBRunning L) = ram m (a_TCBNext L)"
  shows "\<exists>m'. exec (PendSV_Handler_M3_GCC L) m = (Some (R m LR OR 4), m') \<and>
    ram m' = strb (a_OSSchedLock L) 0 (ram m) \<and> psp m' = psp m \<and> map (R m') high_regs = map (R m) high_regs"
  using assms by (simp add: PendSV_Handler_M3_GCC_def exec_simps)

lemma M0_switch:
  assumes "layout_ok L" and "ram m (a_TCBRunning L) = a_TCB L a" and "ram m (a_TCBNext L) = a_TCB L b" and "a \<noteq> b"
    and "a_TCB L a \<notin> frame_words (psp m - 32)"
  shows "\<exists>m'. exec (PendSV_Handler_M0_Keil L) m = (Some 0xFFFFFFFC, m') \<and> port_switch L a b m m'"
  using assms(2-4) layout_okD [OF assms(1)] stmia_commute [OF assms(5)]
  by (simp add: PendSV_Handler_M0_Keil_def exec_simps port_switch_def stmia_halves split del: if_split)

lemma M0_same:
  assumes "ram m (a_TCBRunning L) = ram m (a_TCBNext L)"
  shows "\<exists>m'. exec (PendSV_Handler_M0_Keil L) m = (Some 0xFFFFFFFC, m') \<and>
    ram m' = strb (a_OSSchedLock L) 0 (ram m) \<and> psp m' = psp m \<and> map (R m') high_regs = map (R m) high_regs"
  using assms by (simp add: PendSV_Handler_M0_Keil_def exec_simps)

text \<open>The other handlers.\<close>

lemma M3_Keil_switch:
  assumes "layout_ok L" and "ram m (a_TCBRunning L) = a_TCB L a" and "ram m (a_TCBNext L) = a_TCB L b" and "a \<noteq> b"
  shows "\<exists>m'. exec (PendSV_Handler_M3_Keil L) m = (Some (R m LR OR 4), m') \<and> port_switch L a b m m'"
  using assms(2-4) layout_okD [OF assms(1)]
  by (simp add: PendSV_Handler_M3_Keil_def exec_simps port_switch_def split del: if_split)

lemma M3_Keil_same:
  assumes "ram m (a_TCBRunning L) = ram m (a_TCBNext L)"
  shows "\<exists>m'. exec (PendSV_Handler_M3_Keil L) m = (Some (R m LR OR 4), m') \<and>
    ram m' = strb (a_OSSchedLock L) 0 (ram m) \<and> psp m' = psp m \<and> map (R m') high_regs = map (R m) high_regs"
  using assms by (simp add: PendSV_Handler_M3_Keil_def exec_simps)

lemma M3_ports: "PendSV_Handler_M3_IAR L = PendSV_Handler_M3_GCC L"
  by (simp add: PendSV_Handler_M3_GCC_def PendSV_Handler_M3_IAR_def)

lemma M0_ports: "PendSV_Handler_M0_IAR L = PendSV_Handler_M0_Keil L"
  by (simp add: PendSV_Handler_M0_IAR_def PendSV_Handler_M0_Keil_def)

lemma M0_GCC_switch:
  assumes "layout_ok L" and "ram m (a_TCBRunning L) = a_TCB L a" and "ram m (a_TCBNext L) = a_TCB L b" and "a \<noteq> b"
    and "a_TCB L a \<notin> frame_words (psp m - 32)" and "a_INT_EXIT L \<notin> frame_words (psp m - 32)"
  shows "\<exists>m'. exec (PendSV_Handler_M0_GCC L) m = (Some (ram m (a_INT_EXIT L)), m') \<and> port_switch L a b m m'"
proof -
  have x: "a_INT_EXIT L \<noteq> byte_word (a_OSSchedLock L)" "a_INT_EXIT L \<noteq> a_TCBRunning L" "a_INT_EXIT L \<noteq> a_TCB L a"
    using assms(1) by (auto simp: layout_ok_def)
  have "stmia (psp m - 32) [R m R4, R m R5, R m R6, R m R7, R m R8, R m R9, R m R10, R m R11] (ram m) (a_INT_EXIT L) = ram m (a_INT_EXIT L)"
    using assms(6) by (simp add: frame_words_eq stmia_eq)
  with x show ?thesis
    using assms(2-4) layout_okD [OF assms(1)] stmia_commute [OF assms(5)]
    by (simp add: PendSV_Handler_M0_GCC_def exec_simps port_switch_def stmia_halves strb_other [OF not_sym] split del: if_split)
qed

lemma M0_GCC_same:
  assumes "ram m (a_TCBRunning L) = ram m (a_TCBNext L)" and "a_INT_EXIT L \<noteq> byte_word (a_OSSchedLock L)"
  shows "\<exists>m'. exec (PendSV_Handler_M0_GCC L) m = (Some (ram m (a_INT_EXIT L)), m') \<and>
    ram m' = strb (a_OSSchedLock L) 0 (ram m) \<and> psp m' = psp m \<and> map (R m') high_regs = map (R m) high_regs"
  using assms by (simp add: PendSV_Handler_M0_GCC_def exec_simps strb_other [OF not_sym])

definition pendsv_handlers :: "layout \<Rightarrow> instr list list" where
  "pendsv_handlers L = [PendSV_Handler_M3_GCC L, PendSV_Handler_M3_Keil L, PendSV_Handler_M3_IAR L,
     PendSV_Handler_M0_GCC L, PendSV_Handler_M0_Keil L, PendSV_Handler_M0_IAR L]"

lemma handler_cases:
  assumes "layout_ok L" and "prg \<in> set (pendsv_handlers L)" and "ram m (a_INT_EXIT L) = 0xFFFFFFFC"
  shows "ram m (a_TCBRunning L) = ram m (a_TCBNext L) \<Longrightarrow> \<exists>e m'. exec prg m = (Some e, m') \<and> bit e 2 \<and>
      ram m' = strb (a_OSSchedLock L) 0 (ram m) \<and> psp m' = psp m \<and> map (R m') high_regs = map (R m) high_regs" (is "?A \<Longrightarrow> ?P")
    and "ram m (a_TCBRunning L) = a_TCB L a \<Longrightarrow> ram m (a_TCBNext L) = a_TCB L b \<Longrightarrow> a \<noteq> b \<Longrightarrow>
      a_TCB L a \<notin> frame_words (psp m - 32) \<Longrightarrow> a_INT_EXIT L \<notin> frame_words (psp m - 32) \<Longrightarrow>
      \<exists>e m'. exec prg m = (Some e, m') \<and> bit e 2 \<and> port_switch L a b m m'"
proof -
  have b: "bit (w OR 4 :: U32) 2" "bit (0xFFFFFFFC :: U32) 2" for w by (simp_all add: bit_or_iff)
  have x: "a_INT_EXIT L \<noteq> byte_word (a_OSSchedLock L)" using assms(1) by (auto simp: layout_ok_def)
  from assms(2) consider "prg = PendSV_Handler_M3_GCC L" | "prg = PendSV_Handler_M3_Keil L" | "prg = PendSV_Handler_M0_Keil L"
    | "prg = PendSV_Handler_M0_GCC L"
    by (auto simp: pendsv_handlers_def M3_ports M0_ports)
  note C = this
  show ?P if ?A
    using C M3_same [OF that] M3_Keil_same [OF that] M0_same [OF that] M0_GCC_same [OF that x] b assms(3) by cases auto
  show "\<exists>e m'. exec prg m = (Some e, m') \<and> bit e 2 \<and> port_switch L a b m m'"
    if "ram m (a_TCBRunning L) = a_TCB L a" "ram m (a_TCBNext L) = a_TCB L b" "a \<noteq> b"
      "a_TCB L a \<notin> frame_words (psp m - 32)" "a_INT_EXIT L \<notin> frame_words (psp m - 32)"
    using C M3_switch [OF assms(1) that(1-3)] M3_Keil_switch [OF assms(1) that(1-3)] M0_switch [OF assms(1) that(1-4)] M0_GCC_switch [OF assms(1) that] b assms(3) by cases auto
qed

lemma stmia_map_high:
  assumes "\<forall>i < 8. R m (high_regs ! i) = regs p i"
  shows "map (R m) high_regs = map (regs p) [0..<8]"
proof -
  have "regs p i = R m (high_regs ! i)" if "i < 8" for i using assms that by simp
  then show ?thesis by (simp add: upt_words high_regs_def)
qed

text \<open>The words a switch writes are those of the kernel model.\<close>

lemma port_switch_rep:
  assumes "layout_ok L" and "port_rep L S m (p, s)" and "S \<inter> own_words L = {}" and "frame_words (PSP p - 32) \<subseteq> S"
    and "frame_words (stkPtr (TCBTbl s b)) \<subseteq> S" and "TCBRunning s = Some a" and "TCBNext s = Some b" and "a \<noteq> b"
    and "port_switch L a b m m'"
  shows "\<exists>p' s'. PendSV_Handler_M3 (p, s) = Some (p', s') \<and> port_rep L S m' (p', s')"
proof -
  have r: "\<And>t. ram m (a_TCB L t) = stkPtr (TCBTbl s t)" "\<And>w. w \<in> S \<Longrightarrow> ram m w = mem s w" "psp m = PSP p"
    "map (R m) high_regs = map (regs p) [0..<8]" "ram m (a_TCBNext L) = a_TCB L b" "ram m (a_INT_EXIT L) = 0xFFFFFFFC"
    using assms(2,7) stmia_map_high [of m p] by (auto simp: port_rep_def tcb_word_def)
  let ?f = "PSP p - 32" and ?v = "map (regs p) [0..<8]"
  define W where "W = stmia ?f ?v (ram m)"
  define M where "M = W(a_TCB L a := ?f, a_TCBRunning L := a_TCB L b)"
  have m': "ram m' = strb (a_OSSchedLock L) 0 M" "psp m' = M (a_TCB L b) + 32" "map (R m') high_regs = ldmia (M (a_TCB L b)) 8 M"
    using assms(9) by (auto simp: port_switch_def M_def W_def r)
  have own: "w \<notin> S" if "w \<in> own_words L" for w using assms(3) that by auto
  have W: "W w = ram m w" if "w \<in> own_words L" for w
    unfolding W_def by (rule stmia_other) (use own [OF that] assms(4) frame_wordsI in blast)
  have WS: "W w = stmia ?f ?v (mem s) w" if "w \<in> S" for w
    using r(2) [OF that] by (simp add: W_def stmia_eq upt_words del: upt_rec_numeral)
  have o: "a_TCB L t \<in> own_words L" "a_TCBNext L \<in> own_words L" "a_INT_EXIT L \<in> own_words L" "a_TCBRunning L \<in> own_words L"
    "byte_word (a_OSSchedLock L) \<in> own_words L" for t by (auto simp: own_words_def)
  note d = layout_okD [OF assms(1)]
  have d': "byte_word (a_OSSchedLock L) \<noteq> a_TCB L t" "byte_word (a_OSSchedLock L) \<noteq> a_TCBNext L" "byte_word (a_OSSchedLock L) \<noteq> a_INT_EXIT L"
    "byte_word (a_OSSchedLock L) \<noteq> a_TCBRunning L" "a_TCBNext L \<noteq> a_TCB L t" "a_INT_EXIT L \<noteq> a_TCB L t" "a_TCBNext L \<noteq> a_TCBRunning L"
    "a_INT_EXIT L \<noteq> a_TCBRunning L" for t
    using assms(1) by (auto simp: layout_ok_def)
  have MS: "M w = stmia ?f ?v (mem s) w" "byte_word (a_OSSchedLock L) \<noteq> w" if "w \<in> S" for w
    using own [OF o(1) [of a]] own [OF o(4)] own [OF o(5)] that WS [OF that] by (auto simp: M_def)
  have Mb: "M (a_TCB L b) = stkPtr (TCBTbl s b)" using assms(8) d W [OF o(1)] r(1) by (simp add: M_def)
  have Mt: "M (a_TCB L t) = (if t = a then ?f else stkPtr (TCBTbl s t))" for t using d W [OF o(1)] r(1) by (simp add: M_def)
  let ?s = "upd_tcb a (stkPtr_update (\<lambda>_. ?f)) (s\<lparr>PendSVSet := False, mem := stmia ?f ?v (mem s), TCBRunning := Some b, OSSchedLock := 0\<rparr>)"
  let ?p = "p\<lparr>regs := set_regs 0 (ldmia (stkPtr (TCBTbl s b)) 8 (stmia ?f ?v (mem s))) (regs p), PSP := stkPtr (TCBTbl s b) + 32\<rparr>"
  have ld: "map (R m') high_regs = ldmia (stkPtr (TCBTbl s b)) 8 (stmia ?f ?v (mem s))"
  proof -
    have "M (stkPtr (TCBTbl s b) + 4 * of_nat i) = stmia ?f ?v (mem s) (stkPtr (TCBTbl s b) + 4 * of_nat i)" if "i < 8" for i
      by (rule MS(1)) (use assms(5) frame_wordsI [OF that] in blast)
    then show ?thesis unfolding m'(3) Mb ldmia_def by (intro map_cong) auto
  qed
  have "R m' (high_regs ! i) = regs ?p i" if "i < 8" for i
    using arg_cong [OF ld, of "\<lambda>xs. xs ! i"] that by (simp add: set_regs_def ldmia_def)
  then have "port_rep L S m' (?p, ?s)"
    using m'(1,2) Mb Mt MS d' W [OF o(2)] W [OF o(3)] r(5,6) assms(7)
    by (auto simp: port_rep_def tcb_word_def strb_other M_def)
  then show ?thesis using PendSV_M3_switch [OF assms(6-8), of p] by blast
qed

section \<open>Atomic counters\<close>

text \<open>
  A handler of interrupts that keeps the word on top of the stack it interrupts (unless the counter is there) and changes the
  counter at \<open>a\<close> by a function \<open>g\<close> of its value.
\<close>

definition irq_handler :: "U32 \<Rightarrow> (U8 \<Rightarrow> U8) \<Rightarrow> (U32 \<Rightarrow> (U32 \<Rightarrow> U32) \<Rightarrow> U32 \<Rightarrow> U32) \<Rightarrow> bool" where
  "irq_handler a g h \<longleftrightarrow> (\<forall>sp m. (sp \<noteq> byte_word a \<longrightarrow> h sp m sp = m sp) \<and> ldrb a (h sp m) = g (ldrb a m))"

lemma irq_handler_funpow:
  assumes "irq_handler a g h"
  shows "sp \<noteq> byte_word a \<Longrightarrow> ((h sp ^^ n) m) sp = m sp" and "ldrb a ((h sp ^^ n) m) = (g ^^ n) (ldrb a m)"
  using assms by (induction n) (simp_all add: irq_handler_def)


text \<open>
  The code counts atomically: of the interrupts served between its instructions, \<open>j\<close> see the counter
  before the change and \<open>k\<close> after it, and these are all of them, so that no change of a handler is
  lost and none comes in between. \<open>f\<close> gives the result and the new value.
\<close>

definition counts_atomically :: "instr list \<Rightarrow> reg \<Rightarrow> reg \<Rightarrow> (U8 \<Rightarrow> U32 \<times> U8) \<Rightarrow> bool" where
  "counts_atomically prg result data f \<longleftrightarrow> (\<forall>a g h ns m.
     irq_handler a g h \<and> R m data = a \<and> byte_word a \<noteq> R m SP - 4 \<longrightarrow>
     (\<exists>j k e m'. exec_irq h ns prg m = (e, m') \<and>
        ldrb a (ram m') = (g ^^ k) (snd (f ((g ^^ j) (ldrb a (ram m))))) \<and>
        R m' result = fst (f ((g ^^ j) (ldrb a (ram m)))) \<and> R m' R1 = R m R1 \<and> R m' SP = R m SP \<and>
        j + k = served h ns prg m \<and> (primask m \<longrightarrow> j = 0) \<and> \<not> primask m'))"

definition inc_effect :: "U8 \<Rightarrow> U32 \<times> U8" where
  "inc_effect b = (ucast b, b + 1)"

definition dec_effect :: "U8 \<Rightarrow> U32 \<times> U8" where
  "dec_effect b = (ucast b - 1, b - 1)"

lemma effects_model:
  "ucast (ucast (b :: U8) + 1 :: U32) = snd (inc_effect b)" "ucast (ucast b - 1 :: U32) = snd (dec_effect b)"
  "Inc8 b = (ucast (fst (inc_effect b)), snd (inc_effect b))"
  "Dec8 b = (ucast (fst (dec_effect b)), snd (dec_effect b))"
proof -
  have u: "(ucast (ucast (b :: U8) + w :: U32) :: U8) = b + ucast w" for w
  proof transfer
    fix b w :: int
    have t: "take_bit 8 (take_bit 8 x) = take_bit 8 x" "take_bit 8 (take_bit 32 x) = take_bit 8 x" for x :: int
      by simp_all
    show "take_bit LENGTH(8) (take_bit LENGTH(32) (take_bit LENGTH(8) b + w)) = take_bit LENGTH(8) (b + take_bit LENGTH(32) w)"
      using take_bit_add [of 8 "take_bit 8 b" w] take_bit_add [of 8 b w] take_bit_add [of 8 b "take_bit 32 w"] t by simp
  qed
  have uu: "ucast (ucast b :: U32) = b" by (rule bit_word_eqI) (simp add: bit_simps)
  have n: "(ucast (- 1 :: U32) :: U8) = - 1" by (rule bit_word_eqI) (simp add: bit_simps)
  show "ucast (ucast (b :: U8) + 1 :: U32) = snd (inc_effect b)" using u [of 1] by (simp add: inc_effect_def)
  show d: "ucast (ucast b - 1 :: U32) = snd (dec_effect b)" using u [of "- 1"] n by (simp add: dec_effect_def)
  show "Inc8 b = (ucast (fst (inc_effect b)), snd (inc_effect b))" by (simp add: Inc8_eq inc_effect_def uu)
  show "Dec8 b = (ucast (fst (dec_effect b)), snd (dec_effect b))" using d by (simp add: Dec8_def dec_effect_def Let_def)
qed

lemma stmia_one: "stmia a [v] m = m(a := v)" "ldmia a (Suc 0) m = [m a]"
  by (simp_all add: stmia_def ldmia_def)

lemma counts_atomicallyI:
  assumes "\<And>a g h ns m j. irq_handler a g h \<Longrightarrow> R m data = a \<Longrightarrow> byte_word a \<noteq> R m SP - 4 \<Longrightarrow>
      j = (if primask m then 0 else ns 1 + ns 0) \<Longrightarrow>
    \<exists>e m'. exec_irq h ns prg m = (e, m') \<and> ldrb a (ram m') = (g ^^ K ns) (snd (f ((g ^^ j) (ldrb a (ram m))))) \<and>
      R m' result = fst (f ((g ^^ j) (ldrb a (ram m)))) \<and> R m' R1 = R m R1 \<and> R m' SP = R m SP \<and>
      j + K ns = served h ns prg m \<and> \<not> primask m'"
  shows "counts_atomically prg result data f"
  unfolding counts_atomically_def
proof (intro allI impI, elim conjE)
  fix a g h and ns :: "nat \<Rightarrow> nat" and m :: mcu assume H: "irq_handler a g h" "R m data = a" "byte_word a \<noteq> R m SP - 4"
  define j where "j = (if primask m then 0 else ns 1 + ns 0)"
  have "primask m \<longrightarrow> j = 0" by (simp add: j_def)
  with assms [OF H j_def]
  show "\<exists>j k e m'. exec_irq h ns prg m = (e, m') \<and> ldrb a (ram m') = (g ^^ k) (snd (f ((g ^^ j) (ldrb a (ram m))))) \<and>
        R m' result = fst (f ((g ^^ j) (ldrb a (ram m)))) \<and> R m' R1 = R m R1 \<and> R m' SP = R m SP \<and>
        j + k = served h ns prg m \<and> (primask m \<longrightarrow> j = 0) \<and> \<not> primask m'"
    by blast
qed

lemma funpow_merge: "(g ^^ a) ((g ^^ b) x) = (g ^^ (a + b)) x"
  by (simp add: funpow_add)

lemma effect_results: "fst (inc_effect b) = ucast b" "fst (dec_effect b) = ucast b - 1"
  by (simp_all add: inc_effect_def dec_effect_def)

lemma interrupts_masked: "primask m \<Longrightarrow> interrupts h n m = m"
  and interrupts_clear: "\<not> primask m \<Longrightarrow> interrupts h n m = m\<lparr>ram := (h (R m SP) ^^ n) (ram m)\<rparr>"
  by (simp_all add: interrupts_def)

lemma exec_irq_step:
  assumes "\<And>rn. i \<noteq> BX rn" and "\<And>l. i \<noteq> BEQ l"
  shows "exec_irq h ns (i # is) m = exec_irq h (\<lambda>k. ns (Suc k)) is (exec1 i (interrupts h (ns 0) m))"
  using assms by (cases i) (auto simp: Let_def)

lemma exec_irq_BX: "exec_irq h ns (BX rn # is) m = (Some (R (interrupts h (ns 0) m) rn), interrupts h (ns 0) m)"
  by (simp add: Let_def)

lemmas nat_add_ac = add.commute [where 'a = nat] add.left_commute [where 'a = nat]

lemma served_step:
  assumes "\<And>rn. i \<noteq> BX rn" and "\<And>l. i \<noteq> BEQ l"
  shows "served h ns (i # is) m =
    (if primask m then 0 else ns 0) + served h (\<lambda>k. ns (Suc k)) is (exec1 i (interrupts h (ns 0) m))"
  using assms by (cases i) (auto simp: Let_def)

lemma served_BX: "served h ns (BX rn # is) m = (if primask m then 0 else ns 0)"
  by simp

lemmas irq_simps = served.simps(1) served_step served_BX exec_irq.simps(1) exec_irq_step exec_irq_BX interrupts_masked interrupts_clear stmia_one effects_model effect_results ldrb_upd strb_other
  funpow_merge set_R_all_def set_flags_def Let_def

lemma Inc8_Keil_atomic: "counts_atomically Inc8_Keil R0 R0 inc_effect"
proof (rule counts_atomicallyI [where K = "\<lambda>ns. ns 6 + ns 7 + ns 8 + ns 9"])
  fix a g h j and ns :: "nat \<Rightarrow> nat" and m :: mcu
  assume H: "irq_handler a g h" and a: "R m R0 = a" and d: "byte_word a \<noteq> R m SP - 4"
    and j: "j = (if primask m then 0 else ns 1 + ns 0)"
  note F = irq_handler_funpow [OF H]
  show "\<exists>e m'. exec_irq h ns Inc8_Keil m = (e, m') \<and> ldrb a (ram m') = (g ^^ (ns 6 + ns 7 + ns 8 + ns 9)) (snd (inc_effect ((g ^^ j) (ldrb a (ram m))))) \<and>
      R m' R0 = fst (inc_effect ((g ^^ j) (ldrb a (ram m)))) \<and> R m' R1 = R m R1 \<and> R m' SP = R m SP \<and>
      j + (ns 6 + ns 7 + ns 8 + ns 9) = served h ns Inc8_Keil m \<and> \<not> primask m'"
    by (cases "primask m"; simp add: Inc8_Keil_def irq_simps F a d d [symmetric] j nat_add_ac eval_nat_numeral
        del: exec_irq.simps(2) served.simps(2))
qed

lemma Dec8_Keil_atomic: "counts_atomically Dec8_Keil R0 R0 dec_effect"
proof (rule counts_atomicallyI [where K = "\<lambda>ns. ns 6 + ns 7 + ns 8"])
  fix a g h j and ns :: "nat \<Rightarrow> nat" and m :: mcu
  assume H: "irq_handler a g h" and a: "R m R0 = a" and d: "byte_word a \<noteq> R m SP - 4"
    and j: "j = (if primask m then 0 else ns 1 + ns 0)"
  note F = irq_handler_funpow [OF H]
  show "\<exists>e m'. exec_irq h ns Dec8_Keil m = (e, m') \<and> ldrb a (ram m') = (g ^^ (ns 6 + ns 7 + ns 8)) (snd (dec_effect ((g ^^ j) (ldrb a (ram m))))) \<and>
      R m' R0 = fst (dec_effect ((g ^^ j) (ldrb a (ram m)))) \<and> R m' R1 = R m R1 \<and> R m' SP = R m SP \<and>
      j + (ns 6 + ns 7 + ns 8) = served h ns Dec8_Keil m \<and> \<not> primask m'"
    by (cases "primask m"; simp add: Dec8_Keil_def irq_simps F a d d [symmetric] j nat_add_ac eval_nat_numeral
        del: exec_irq.simps(2) served.simps(2))
qed

lemma Inc8_GCC_atomic:
  assumes "result \<notin> {R1, SP}" and "data \<notin> {R1, SP}"
  shows "counts_atomically (Inc8_GCC result data) result data inc_effect"
proof (rule counts_atomicallyI [where K = "\<lambda>ns. ns 6 + ns 7 + ns 8"])
  fix a g h j and ns :: "nat \<Rightarrow> nat" and m :: mcu
  assume H: "irq_handler a g h" and a: "R m data = a" and d: "byte_word a \<noteq> R m SP - 4"
    and j: "j = (if primask m then 0 else ns 1 + ns 0)"
  note F = irq_handler_funpow [OF H]
  show "\<exists>e m'. exec_irq h ns (Inc8_GCC result data) m = (e, m') \<and> ldrb a (ram m') = (g ^^ (ns 6 + ns 7 + ns 8)) (snd (inc_effect ((g ^^ j) (ldrb a (ram m))))) \<and>
      R m' result = fst (inc_effect ((g ^^ j) (ldrb a (ram m)))) \<and> R m' R1 = R m R1 \<and> R m' SP = R m SP \<and>
      j + (ns 6 + ns 7 + ns 8) = served h ns (Inc8_GCC result data) m \<and> \<not> primask m'"
    using assms by (cases "primask m"; simp add: eq_commute [of SP result] eq_commute [of R1 result] Inc8_GCC_def irq_simps F a d d [symmetric] j nat_add_ac eval_nat_numeral
        del: exec_irq.simps(2) served.simps(2))
qed

lemma Dec8_GCC_atomic:
  assumes "result \<notin> {R1, SP}" and "data \<notin> {R1, SP}"
  shows "counts_atomically (Dec8_GCC result data) result data dec_effect"
proof (rule counts_atomicallyI [where K = "\<lambda>ns. ns 6 + ns 7"])
  fix a g h j and ns :: "nat \<Rightarrow> nat" and m :: mcu
  assume H: "irq_handler a g h" and a: "R m data = a" and d: "byte_word a \<noteq> R m SP - 4"
    and j: "j = (if primask m then 0 else ns 1 + ns 0)"
  note F = irq_handler_funpow [OF H]
  show "\<exists>e m'. exec_irq h ns (Dec8_GCC result data) m = (e, m') \<and> ldrb a (ram m') = (g ^^ (ns 6 + ns 7)) (snd (dec_effect ((g ^^ j) (ldrb a (ram m))))) \<and>
      R m' result = fst (dec_effect ((g ^^ j) (ldrb a (ram m)))) \<and> R m' R1 = R m R1 \<and> R m' SP = R m SP \<and>
      j + (ns 6 + ns 7) = served h ns (Dec8_GCC result data) m \<and> \<not> primask m'"
    using assms by (cases "primask m"; simp add: eq_commute [of SP result] eq_commute [of R1 result] Dec8_GCC_def irq_simps F a d d [symmetric] j nat_add_ac eval_nat_numeral
        del: exec_irq.simps(2) served.simps(2))
qed

text \<open>A compiler that takes R1 for the result gets the old contents of R1.\<close>

lemma Inc8_GCC_result_lost: "byte_word (R m data) \<noteq> R m SP - 4 \<Longrightarrow> data \<notin> {R1, SP} \<Longrightarrow> R (snd (exec (Inc8_GCC R1 data) m)) R1 = R m R1"
  by (auto simp: Inc8_GCC_def stmia_one set_R_all_def set_flags_def Let_def strb_other)

section \<open>The other routines\<close>

lemma SwitchContext_ports:
  assumes "ram m (a_NVIC_INT_CTRL L) = 0xE000ED04" and "ram m (a_NVIC_PENDSVSET L) = 0x10000000"
    and "prg \<in> {SwitchContext_GCC L, SwitchContext_Keil, SwitchContext_IAR}"
  shows "\<exists>m'. exec prg m = (Some (R m LR), m') \<and> pendsv m' \<and> ram m' = ram m \<and> psp m' = psp m \<and> primask m' = primask m"
  using assms by (auto simp: SwitchContext_GCC_def SwitchContext_Keil_def SwitchContext_IAR_def str_word_def)

lemma SetEnvironment_ports:
  assumes "prg \<in> {SetEnvironment_GCC, SetEnvironment_Keil, SetEnvironment_IAR}" and "PSP p = psp m"
  shows "\<exists>m'. exec prg m = (Some (R m LR), m') \<and> psp m' = PSP (SetEnvironment (R m R0) p) \<and> ram m' = ram m"
  using assms
  by (auto simp: SetEnvironment_GCC_def SetEnvironment_Keil_def SetEnvironment_IAR_def SetEnvironment_def set_flags_def)

section \<open>Properties\<close>

text \<open>An example: the stack of task 1, which runs, and of task 2, which is next.\<close>

definition layout_example :: layout where
  "layout_example = \<lparr>a_TCBRunning = 0x20000000, a_TCBNext = 0x20000004, a_OSSchedLock = 0x20000009,
     a_NVIC_INT_CTRL = 0x20000010, a_NVIC_PENDSVSET = 0x20000014, a_INT_EXIT = 0x20000018,
     a_TCB = (\<lambda>t. 0x20000100 + 4 * ucast t)\<rparr>"

definition port_kernel :: kernel where
  "port_kernel = kernel_start\<lparr>TCBRunning := Some 1, TCBNext := Some 2, OSSchedLock := 1,
     TCBTbl := (\<lambda>t. OSTCB_zero\<lparr>taskID := t, stkPtr := 0x20002000\<rparr>), mem := (\<lambda>a. a div 4)\<rparr>"

definition port_mcu :: mcu where
  "port_mcu = \<lparr>R = (\<lambda>r. if r = LR then 0xFFFFFFF9 else 7), psp = 0x20001020, primask = False, zflag = False,
     ram = (\<lambda>a. if 0x20001000 \<le> a then a div 4 else if 0x20000100 \<le> a then 0x20002000 else
       if a = 0x20000000 then 0x20000104 else if a = 0x20000004 then 0x20000108 else
       if a = 0x20000008 then 0x100 else if a = 0x20000018 then 0xFFFFFFFC else 0),
     pendsv = False\<rparr>"

text \<open>
  C10. Every context-switch handler of the three ports, executed instruction by instruction, does what
  \<open>PendSV_Handler\<close> of the model does to the kernel variables, the stacks, the process stack pointer and
  R4 to R11, for any placement of the variables in memory; it ends with an exception return whose bit 2
  selects the process stack.
\<close>

theorem ports_implement_context_switch:
  assumes "layout_ok L" and "prg \<in> set (pendsv_handlers L)" and "port_rep L S m (p, s)" and "S \<inter> own_words L = {}"
    and "TCBRunning s = Some a" and "TCBNext s = Some b"
    and "frame_words (PSP p - 32) \<subseteq> S" and "frame_words (stkPtr (TCBTbl s b)) \<subseteq> S"
  shows "\<exists>e m' p' s'. exec prg m = (Some e, m') \<and> bit e 2 \<and> PendSV_Handler_M3 (p, s) = Some (p', s') \<and>
    port_rep L S m' (p', s')"
proof -
  have r: "ram m (a_INT_EXIT L) = 0xFFFFFFFC" "ram m (a_TCBRunning L) = a_TCB L a" "ram m (a_TCBNext L) = a_TCB L b" "psp m = PSP p"
    using assms(3,5,6) by (auto simp: port_rep_def tcb_word_def)
  have own: "a_TCB L t \<notin> frame_words (PSP p - 32)" "a_INT_EXIT L \<notin> frame_words (PSP p - 32)" for t
    using assms(4,7) by (auto simp: own_words_def)
  note H = handler_cases [OF assms(1,2) r(1)]
  show ?thesis
  proof (cases "a = b")
    case True
    then obtain e m' where m': "exec prg m = (Some e, m')" "bit e 2" "ram m' = strb (a_OSSchedLock L) 0 (ram m)" "psp m' = psp m"
      "map (R m') high_regs = map (R m) high_regs" using H(1) r by auto
    have d: "byte_word (a_OSSchedLock L) \<noteq> w" if "w \<in> S \<union> {a_TCBRunning L, a_TCBNext L, a_INT_EXIT L} \<union> range (a_TCB L)" for w
      using that assms(1,4) by (auto simp: layout_ok_def own_words_def)
    have "R m' (high_regs ! i) = R m (high_regs ! i)" if "i < 8" for i
      using arg_cong [OF m'(5), of "\<lambda>xs. xs ! i"] that by simp
    then have "port_rep L S m' (p, s\<lparr>PendSVSet := False, OSSchedLock := 0\<rparr>)"
      using assms(3) m'(3,4) d by (auto simp: port_rep_def strb_other)
    then show ?thesis using m'(1,2) True assms(5,6) by (auto simp: PendSV_Handler_M3_def)
  next
    case False
    then obtain e m' where "exec prg m = (Some e, m')" "bit e 2" "port_switch L a b m m'"
      using H(2) [OF r(2,3)] own r(4) by auto
    then show ?thesis using port_switch_rep [OF assms(1,3,4,7,8,5,6) False] by blast
  qed
qed

theorem ports_implement_context_switch_witness:
  "\<exists>e m' p' s'. exec (PendSV_Handler_M0_Keil layout_example) port_mcu = (Some e, m') \<and>
     PendSV_Handler_M3 (\<lparr>PSP = 0x20001020, regs = (\<lambda>_. 7)\<rparr>, port_kernel) = Some (p', s') \<and>
     port_rep layout_example (frame_words 0x20001000 \<union> frame_words 0x20002000) m' (p', s')"
proof -
  let ?L = layout_example and ?S = "frame_words 0x20001000 \<union> frame_words 0x20002000"
  have u8: "unat t < 256" for t :: U8
  proof -
    have "unat t < 2 ^ LENGTH(8)" by (rule unsigned_less)
    then show ?thesis by simp
  qed
  have u: "unat (a_TCB ?L t) = 0x20000100 + 4 * unat t" for t
    using u8 [of t] by (simp add: layout_example_def unat_word_ariths unsigned_ucast_eq take_bit_nat_eq_self)
  have tcb: "0x20000100 \<le> a_TCB ?L t" "a_TCB ?L t < 0x20000500" for t
    using u [of t] u8 [of t] by (simp_all add: word_le_nat_alt word_less_nat_alt)
  have low: "w \<notin> range (a_TCB ?L)" if "w < 0x20000100 \<or> 0x20000500 \<le> w" for w
    using tcb that by (auto simp: not_le [symmetric] dest: leD)
  have bw: "byte_word 0x20000009 = 0x20000008" by (simp add: byte_word_def)
  have "inj (a_TCB ?L)"
  proof (rule injI)
    fix t v assume "a_TCB ?L t = a_TCB ?L v"
    then have "unat (a_TCB ?L t) = unat (a_TCB ?L v)" by simp
    then show "t = v" by (simp add: u word_unat_eq_iff)
  qed
  moreover have fields: "a_TCBRunning ?L = 0x20000000" "a_TCBNext ?L = 0x20000004" "byte_word (a_OSSchedLock ?L) = 0x20000008"
    "a_INT_EXIT ?L = 0x20000018" by (simp_all add: layout_example_def bw)
  ultimately have L: "layout_ok ?L" using low by (simp add: layout_ok_def)
  have S: "?S \<inter> own_words ?L = {}"
    using low by (auto simp: frame_words_eq own_words_def fields)
  have "\<not> 0x20001000 \<le> a_TCB ?L t" for t using tcb(2) [of t] by (auto simp: word_le_nat_alt word_less_nat_alt)
  then have "ram port_mcu (a_TCB ?L t) = 0x20002000" for t using tcb(1) [of t] by (simp add: port_mcu_def)
  moreover have "ldrb (a_OSSchedLock ?L) (ram port_mcu) = 1"
    by (simp add: layout_example_def ldrb_def byte_word_def byte_shift_def port_mcu_def)
  moreover have "a_TCB ?L 1 = 0x20000104" "a_TCB ?L 2 = 0x20000108" by (simp_all add: layout_example_def)
  moreover have "ram port_mcu w = w div 4" if "w \<in> ?S" for w using that by (auto simp: frame_words_eq port_mcu_def)
  ultimately have "port_rep ?L ?S port_mcu (\<lparr>PSP = 0x20001020, regs = (\<lambda>_. 7)\<rparr>, port_kernel)"
    by (auto simp: port_rep_def fields tcb_word_def port_kernel_def less_8_cases high_regs_def) (auto simp: port_mcu_def)
  from ports_implement_context_switch [OF L _ this S, of "PendSV_Handler_M0_Keil ?L" 1 2]
  show ?thesis by (auto simp: port_kernel_def pendsv_handlers_def)
qed

text \<open>
  C11. \<open>Inc8\<close> and \<open>Dec8\<close> of all ports are atomic: whatever number of interrupts is served between their
  instructions, and whatever the handlers do to the counter, each of them comes either before the
  change of the counter or after it (the two numbers add up to the interrupts served, so no change
  by a handler is lost), and the result belongs to the value that was changed; for the
  inline code of GCC, if the compiler does not choose R1 for an operand. The routines unmask the
  interrupts at the end also when they were masked before the call, in which case no interrupt comes
  before the change.
\<close>

theorem port_counters_atomic:
  assumes "result \<notin> {R1, SP}" and "data \<notin> {R1, SP}"
  shows "counts_atomically Inc8_Keil R0 R0 inc_effect \<and> counts_atomically Dec8_Keil R0 R0 dec_effect \<and>
    counts_atomically Inc8_IAR R0 R0 inc_effect \<and> counts_atomically Dec8_IAR R0 R0 dec_effect \<and>
    counts_atomically (Inc8_GCC result data) result data inc_effect \<and>
    counts_atomically (Dec8_GCC result data) result data dec_effect \<and>
    Inc8 b = (ucast (fst (inc_effect b)), snd (inc_effect b)) \<and> Dec8 b = (ucast (fst (dec_effect b)), snd (dec_effect b))"
proof -
  have "Inc8_IAR = Inc8_Keil" "Dec8_IAR = Dec8_Keil" by (simp_all add: Inc8_IAR_def Inc8_Keil_def Dec8_IAR_def Dec8_Keil_def)
  then show ?thesis
    using Inc8_Keil_atomic Dec8_Keil_atomic Inc8_GCC_atomic [OF assms] Dec8_GCC_atomic [OF assms] effects_model(3,4) by auto
qed

text \<open>A handler that counts too, called before several instructions.\<close>

theorem port_counters_atomic_witness:
  "\<exists>j k e m'. exec_irq (\<lambda>_ m. strb 7 (ldrb 7 m + 1) m) (\<lambda>i. of_bool (i < 8)) (Inc8_GCC R3 R0) port_mcu = (e, m') \<and>
     ldrb 7 (ram m') = ((\<lambda>b. b + 1) ^^ k) (((\<lambda>b. b + 1) ^^ j) (ldrb 7 (ram port_mcu)) + 1) \<and>
     R m' R3 = ucast (((\<lambda>b. b + 1) ^^ j) (ldrb 7 (ram port_mcu))) \<and>
     j + k = served (\<lambda>_ m. strb 7 (ldrb 7 m + 1) m) (\<lambda>i. of_bool (i < 8)) (Inc8_GCC R3 R0) port_mcu"
proof -
  have "irq_handler 7 (\<lambda>b. b + 1) (\<lambda>_ m. strb 7 (ldrb 7 m + 1) m)" by (auto simp: irq_handler_def strb_other)
  moreover have "R port_mcu R0 = 7" "byte_word 7 \<noteq> R port_mcu SP - 4" by (simp_all add: port_mcu_def byte_word_def)
  moreover have "counts_atomically (Inc8_GCC R3 R0) R3 R0 inc_effect"
    using port_counters_atomic [of R3 R0 0] by simp
  ultimately show ?thesis unfolding counts_atomically_def inc_effect_def by fastforce
qed

end
