(* ===== verification/TaskLife.thy ===== *)
theory TaskLife
  imports Task
begin

unbundle bit_operations_syntax

text \<open>
  The life of a task: its control block comes from the list of free blocks when it is created and
  goes back there when it is deleted, and between them it is in the READY list or waits.
\<close>

section \<open>Free control blocks\<close>

fun free_chain :: "kernel \<Rightarrow> P_OSTCB \<Rightarrow> OS_TID list \<Rightarrow> bool" where
  "free_chain s p [] \<longleftrightarrow> p = None"
| "free_chain s p (t # ts) \<longleftrightarrow> p = Some t \<and> free_chain s (TCBnext (TCBTbl s t)) ts"

text \<open>Every control block is ready, delayed, free, or in none of the three lists.\<close>

definition tasks_inv ::
  "config \<Rightarrow> kernel \<Rightarrow> OS_TID list \<Rightarrow> (OS_TID \<times> nat) list \<Rightarrow> OS_TID list \<Rightarrow> bool" where
  "tasks_inv c s rs ds fs \<longleftrightarrow> lists_inv c s rs ds \<and> free_chain s (FreeTCB s) fs \<and> distinct fs \<and>
     set fs \<inter> (set rs \<union> fst ` set ds) = {} \<and> (\<forall>t. unat t < task_max c \<longrightarrow> taskID (TCBTbl s t) = t) \<and>
     (\<forall>t \<in> set fs. unat t < task_max c)"

lemma free_chain_cong:
  "(\<And>t. t \<in> set ts \<Longrightarrow> TCBnext (TCBTbl s' t) = TCBnext (TCBTbl s t)) \<Longrightarrow> free_chain s' p ts = free_chain s p ts"
  by (induction ts arbitrary: p) auto

lemma tasks_inv_cong:
  assumes "same_lists s s'" and "FreeTCB s' = FreeTCB s"
  shows "tasks_inv c s' rs ds fs = tasks_inv c s rs ds fs"
proof -
  have "free_chain s' p fs = free_chain s p fs" for p by (rule free_chain_cong) (use assms(1) in \<open>simp add: same_lists_def\<close>)
  then show ?thesis using same_lists_cong(1) [OF assms(1)] assms by (simp add: tasks_inv_def same_lists_def)
qed

lemma lists_inv_other:
  assumes "TCBRdy s' = TCBRdy s" "PriNum s' = PriNum s" "ActivePri s' = ActivePri s"
    "RdyTaskPri s' = RdyTaskPri s" "RdyTaskPriInfo s' = RdyTaskPriInfo s" "DlyList s' = DlyList s"
    and "\<And>u. u \<noteq> t \<Longrightarrow> TCBTbl s' u = TCBTbl s u" and "t \<notin> set rs" and "t \<notin> fst ` set ds"
  shows "lists_inv c s' rs ds = lists_inv c s rs ds"
proof -
  have same: "TCBTbl s' u = TCBTbl s u" if "u \<in> set rs \<or> u \<in> fst ` set ds" for u
    using assms(7) [of u] assms(8,9) that by (cases "u = t") auto
  have "rdy_list s' rs = rdy_list s rs"
    unfolding rdy_list_def assms(1) by (rule dlist_cong) (use same in auto)
  moreover have "sorted (map (priof s') rs) = sorted (map (priof s) rs)" using same by (simp cong: map_cong)
  moreover have "of_prio s' p rs = of_prio s p rs" for p using same by (auto intro!: filter_cong)
  then have "tables_inv c s' rs = tables_inv c s rs"
    using assms(2-5) same by (simp add: tables_inv_def pri_active_def valid_tid_def)
  moreover have "dly_rep s' ds = dly_rep s ds" by (rule dly_rep_eqI) (use assms(6) same in auto)
  ultimately show ?thesis by (simp add: lists_inv_def rdy_inv_def)
qed


section \<open>Priority tables\<close>

text \<open>The tables of the binary scheme can count one more task.\<close>

definition pri_room :: "config \<Rightarrow> kernel \<Rightarrow> bool" where
  "pri_room c s \<longleftrightarrow> CFG_ORDER_LIST_SCHEDULE_EN c \<or>
     unat (PriNum s) < task_max c \<and> (\<forall>k < unat (PriNum s). unat (TaskNumPerPri s k) < 255)"

definition pri_frame :: "kernel \<Rightarrow> kernel \<Rightarrow> bool" where
  "pri_frame s s' \<longleftrightarrow> s' = s\<lparr>PriNum := PriNum s', ActivePri := ActivePri s', TaskNumPerPri := TaskNumPerPri s',
     RdyTaskPri := RdyTaskPri s', RdyTaskPriInfo := RdyTaskPriInfo s'\<rparr>"

lemma ActiveTaskPri_frame: "ActiveTaskPri p s = Some s' \<Longrightarrow> pri_frame s s'"
  by (cases "GetPriSeqNum p s") (auto simp: ActiveTaskPri_def pri_frame_def Let_def PrioRemap_def split: if_splits prod.splits)

lemma DeleteTaskPri_frame: "DeleteTaskPri p s = Some s' \<Longrightarrow> pri_frame s s'"
  by (cases "GetPriSeqNum p s") (auto simp: DeleteTaskPri_def pri_frame_def Let_def PrioRemap_def split: if_splits prod.splits)

lemma pri_frameD:
  assumes "pri_frame s s'"
  shows "TCBTbl s' = TCBTbl s" "TCBRdy s' = TCBRdy s" "DlyList s' = DlyList s" "FreeTCB s' = FreeTCB s" "mem s' = mem s"
    "OSSchedLock s' = OSSchedLock s" "IsrReq s' = IsrReq s" "TaskSchedReq s' = TaskSchedReq s" "TCBRunning s' = TCBRunning s"
proof -
  obtain a b d e f where "s' = s\<lparr>PriNum := a, ActivePri := b, TaskNumPerPri := d, RdyTaskPri := e, RdyTaskPriInfo := f\<rparr>"
    using assms unfolding pri_frame_def by blast
  then show "TCBTbl s' = TCBTbl s" "TCBRdy s' = TCBRdy s" "DlyList s' = DlyList s" "FreeTCB s' = FreeTCB s" "mem s' = mem s"
    "OSSchedLock s' = OSSchedLock s" "IsrReq s' = IsrReq s" "TaskSchedReq s' = TaskSchedReq s" "TCBRunning s' = TCBRunning s"
    by simp_all
qed

text \<open>Counting a task in: a step of both schedules.\<close>

lemma activate_ok:
  assumes "lists_inv c s rs ds" and "pri_room c s"
  shows "\<exists>s'. (if CFG_ORDER_LIST_SCHEDULE_EN c then Some s else ActiveTaskPri p s) = Some s' \<and> lists_inv c s' rs ds \<and>
    (CFG_ORDER_LIST_SCHEDULE_EN c \<or> pri_active s' p) \<and> pri_frame s s'"
proof (cases "CFG_ORDER_LIST_SCHEDULE_EN c")
  case True
  then show ?thesis using assms by (simp add: pri_frame_def)
next
  case False
  then have T: "tables_inv c s rs" "unat (PriNum s) < task_max c" "\<And>k. k < unat (PriNum s) \<Longrightarrow> unat (TaskNumPerPri s k) < 255"
    using assms by (auto simp: lists_inv_def rdy_inv_def pri_room_def)
  obtain s' where s': "ActiveTaskPri p s = Some s'" "tables_inv c s' rs" "pri_active s' p"
    using ActiveTaskPri_ok [OF T, of p] by auto
  note fr = pri_frameD [OF ActiveTaskPri_frame [OF s'(1)]]
  have "rdy_list s' rs = rdy_list s rs" "dly_rep s' ds = dly_rep s ds" using fr by (simp_all add: rdy_list_def dly_rep_def)
  then have "lists_inv c s' rs ds" using assms(1) s'(2) False fr by (simp add: lists_inv_def rdy_inv_def)
  with False s' ActiveTaskPri_frame [OF s'(1)] show ?thesis by simp
qed

lemma deactivate_ok:
  assumes "lists_inv c s rs ds"
    and "\<not> CFG_ORDER_LIST_SCHEDULE_EN c \<Longrightarrow> pri_active s p \<and> 0 < pri_count s p \<and> (pri_count s p = 1 \<longrightarrow> of_prio s p rs = [])"
  shows "\<exists>s'. (if CFG_ORDER_LIST_SCHEDULE_EN c then Some s else DeleteTaskPri p s) = Some s' \<and> lists_inv c s' rs ds \<and>
    pri_frame s s'"
proof (cases "CFG_ORDER_LIST_SCHEDULE_EN c")
  case True
  then show ?thesis using assms by (simp add: pri_frame_def)
next
  case False
  then have T: "tables_inv c s rs" "pri_active s p" "0 < pri_count s p" "pri_count s p = 1 \<Longrightarrow> of_prio s p rs = []"
    using assms by (auto simp: lists_inv_def rdy_inv_def)
  obtain s' where s': "DeleteTaskPri p s = Some s'" "tables_inv c s' rs" using DeleteTaskPri_ok [OF T] by blast
  note fr = pri_frameD [OF DeleteTaskPri_frame [OF s'(1)]]
  have "rdy_list s' rs = rdy_list s rs" "dly_rep s' ds = dly_rep s ds" using fr by (simp_all add: rdy_list_def dly_rep_def)
  then have "lists_inv c s' rs ds" using assms(1) s'(2) False fr by (simp add: lists_inv_def rdy_inv_def)
  with False s' DeleteTaskPri_frame [OF s'(1)] show ?thesis by simp
qed


section \<open>The parameter word\<close>

text \<open>The macro packs four numbers into a word and \<open>CreateTask\<close> takes them out again.\<close>

lemma param_masks:
  "bit (0xff :: U32) i \<longleftrightarrow> i < 8" "bit (0x000FFF00 :: U32) i \<longleftrightarrow> 8 \<le> i \<and> i < 20"
  "bit (0x7FF00000 :: U32) i \<longleftrightarrow> 20 \<le> i \<and> i < 31" "bit (0x80000000 :: U32) i \<longleftrightarrow> i = 31"
  "bit (0x7fff0000 :: U32) i \<longleftrightarrow> 16 \<le> i \<and> i < 31"
proof -
  have m: "(0xff :: U32) = mask 8" "(0x000FFF00 :: U32) = push_bit 8 (mask 12)" "(0x7FF00000 :: U32) = push_bit 20 (mask 11)"
    "(0x80000000 :: U32) = push_bit 31 (mask 1)" "(0x7fff0000 :: U32) = push_bit 16 (mask 15)"
    by (simp_all add: mask_eq_exp_minus_1 push_bit_eq_mult)
  show "bit (0xff :: U32) i \<longleftrightarrow> i < 8" "bit (0x000FFF00 :: U32) i \<longleftrightarrow> 8 \<le> i \<and> i < 20"
    "bit (0x7FF00000 :: U32) i \<longleftrightarrow> 20 \<le> i \<and> i < 31" "bit (0x80000000 :: U32) i \<longleftrightarrow> i = 31"
    "bit (0x7fff0000 :: U32) i \<longleftrightarrow> 16 \<le> i \<and> i < 31"
    unfolding m bit_push_bit_iff bit_mask_iff by auto
qed

lemma small_bits:
  assumes "unat (x :: U32) < 2 ^ n" and "bit x i"
  shows "i < n"
proof -
  have "take_bit n (unat x) = unat x" using assms(1) by (simp add: take_bit_nat_eq_self)
  then have "bit (take_bit n (unat x)) i" using assms(2) by (simp add: bit_unsigned_iff)
  then show ?thesis by (simp add: bit_take_bit_iff)
qed

lemma param_fields:
  fixes pri :: U8 and sz ts :: U32 and w :: bool
  assumes "unat sz < 4096" and "unat ts < 2048"
  defines "q \<equiv> CoCreateTaskEx_param (ucast pri) sz ts (of_bool w)"
  shows "ucast (q AND 0xff) = pri" and "ucast (drop_bit 8 (q AND 0xfff00)) = (ucast sz :: U16)"
    and "ucast (drop_bit 20 (q AND 0x7fff0000)) = (ucast ts :: U16)" and "drop_bit 31 q = of_bool w"
proof -
  have s: "bit sz i \<Longrightarrow> i < 12" "bit ts i \<Longrightarrow> i < 11" for i
    using small_bits [of sz 12 i] small_bits [of ts 11 i] assms(1,2) by simp_all
  have p: "bit pri i \<Longrightarrow> i < 8" for i using bit_imp_le_length [of pri i] by simp
  have b: "bit q i \<longleftrightarrow> bit pri i \<or> (8 \<le> i \<and> bit sz (i - 8)) \<or> (20 \<le> i \<and> bit ts (i - 20)) \<or> (i = 31 \<and> w)" if "i < 32" for i
    using that s [of "i - 8"] s(2) [of "i - 20"]
    unfolding q_def CoCreateTaskEx_param_def bit_or_iff bit_and_iff bit_push_bit_iff param_masks by (auto simp: bit_simps)
  have b': "bit q i \<Longrightarrow> i < 32" for i using bit_imp_le_length [of q i] by simp
  note u = bit_unsigned_iff bit_drop_bit_eq o_apply bit_and_iff param_masks
  show "ucast (q AND 0xff) = pri" by (rule bit_eqI; unfold u) (use b p s in auto)
  show "ucast (drop_bit 8 (q AND 0xfff00)) = (ucast sz :: U16)"
  proof (rule bit_eqI; unfold u)
    fix i :: nat
    have "\<not> bit pri (8 + i)" "i < 12 \<Longrightarrow> bit q (8 + i) = bit sz i" using p [of "8 + i"] b [of "8 + i"] by auto
    then show "(possible_bit TYPE(U16) i \<and> bit q (8 + i) \<and> 8 \<le> 8 + i \<and> 8 + i < 20) = (possible_bit TYPE(U16) i \<and> bit sz i)"
      using s(1) [of i] by auto
  qed
  show "ucast (drop_bit 20 (q AND 0x7fff0000)) = (ucast ts :: U16)"
  proof (rule bit_eqI; unfold u)
    fix i :: nat
    have "\<not> bit pri (20 + i)" "\<not> bit sz (12 + i)" using p [of "20 + i"] s(1) [of "12 + i"] by auto
    then have "i < 11 \<Longrightarrow> bit q (20 + i) = bit ts i" using b [of "20 + i"] by auto
    then show "(possible_bit TYPE(U16) i \<and> bit q (20 + i) \<and> 16 \<le> 20 + i \<and> 20 + i < 31) = (possible_bit TYPE(U16) i \<and> bit ts i)"
      using s(2) [of i] by auto
  qed
  show "drop_bit 31 q = of_bool w" 
  proof (rule bit_eqI)
    fix i assume "possible_bit TYPE(32 word) i"
    have "\<not> bit pri (31 + i)" "\<not> bit sz (23 + i)" "\<not> bit ts (11 + i)"
      using p [of "31 + i"] s(1) [of "23 + i"] s(2) [of "11 + i"] by auto
    then show "bit (drop_bit 31 q) i = bit (of_bool w :: U32) i"
      using b [of "31 + i"] b' [of "31 + i"] by (cases "i = 0") (auto simp: bit_simps)
  qed
qed


section \<open>Creation\<close>

text \<open>The first frame on the stack of a new task.\<close>

definition first_frame :: "U32 \<Rightarrow> U32 \<Rightarrow> U32 \<Rightarrow> (U32 \<Rightarrow> U32) \<Rightarrow> U32 \<Rightarrow> U32" where
  "first_frame task argv stk m = m(stk := 0x01000000, stk - 4 := task, stk - 8 := 0xFFFFFFFE, stk - 28 := argv)"

lemma InitTaskContext_eq: "InitTaskContext task argv stk s = (stk - 60, s\<lparr>mem := first_frame task argv stk (mem s)\<rparr>)"
  by (simp add: InitTaskContext_def first_frame_def Let_def)

lemma stack_guard:
  fixes sz stk :: U32
  assumes "20 \<le> unat sz" and "unat sz < 4096"
  shows "stk + 4 - 4 * sz \<noteq> stk - 4" and "stk + 4 - 4 * sz \<noteq> stk - 28" and "stk + 4 - 4 * sz \<noteq> stk"
proof -
  have u: "unat (4 * sz) = 4 * unat sz" using assms(2) by (simp add: unat_word_ariths)
  have "4 * sz \<noteq> 8" "4 * sz \<noteq> 32" "4 * sz \<noteq> 4" using u assms(1) by auto
  then show "stk + 4 - 4 * sz \<noteq> stk - 4" and "stk + 4 - 4 * sz \<noteq> stk - 28" and "stk + 4 - 4 * sz \<noteq> stk"
    by (auto simp: algebra_simps)
qed

text \<open>The new control block and its place in the READY list.\<close>

lemma create_insert:
  assumes "tasks_inv c s rs ds (t # fs)" and "pri_room c s"
    and "TCBTbl s1 = (TCBTbl s)(t := b)" and "TCBnext b = None" and "TCBprev b = None" and "prio b = pri"
    and "taskID b = t" and "s1 = s\<lparr>TCBTbl := TCBTbl s1, FreeTCB := TCBnext (TCBTbl s t), mem := mem s1\<rparr>"
  shows "\<exists>s2. (if CFG_ORDER_LIST_SCHEDULE_EN c then Some s1 else ActiveTaskPri pri s1) = Some s2 \<and>
    pri_frame s1 s2 \<and> tasks_inv c s2 rs ds fs \<and> admissible c s2 t \<and> t \<notin> set rs \<and> t \<notin> fst ` set ds"
proof -
  note T = assms(1) [unfolded tasks_inv_def]
  have t: "t \<notin> set rs" "t \<notin> fst ` set ds" "t \<notin> set fs" "unat t < task_max c" using T by auto
  obtain T' m where s1: "s1 = s\<lparr>TCBTbl := T', FreeTCB := TCBnext (TCBTbl s t), mem := m\<rparr>" using assms(8) by blast
  have "lists_inv c s1 rs ds = lists_inv c s rs ds"
    by (rule lists_inv_other [of _ _ t]) (use t assms(3) in \<open>auto simp: s1\<close>)
  moreover have "pri_room c s1" using assms(2) by (simp add: pri_room_def s1)
  ultimately obtain s2 where s2: "(if CFG_ORDER_LIST_SCHEDULE_EN c then Some s1 else ActiveTaskPri pri s1) = Some s2"
    "lists_inv c s2 rs ds" "CFG_ORDER_LIST_SCHEDULE_EN c \<or> pri_active s2 pri" "pri_frame s1 s2"
    using activate_ok [of c s1 rs ds pri] T by blast
  note fr = pri_frameD [OF s2(4)]
  have "free_chain s2 (TCBnext (TCBTbl s t)) fs = free_chain s (TCBnext (TCBTbl s t)) fs"
    by (rule free_chain_cong) (use t(3) fr(1) assms(3) in auto)
  moreover have "FreeTCB s2 = TCBnext (TCBTbl s t)" using fr(4) by (simp add: s1)
  moreover have "taskID (TCBTbl s2 u) = u" if "unat u < task_max c" for u using T that fr(1) assms(3,7) by simp
  ultimately have "tasks_inv c s2 rs ds fs" using T s2(2) by (auto simp: tasks_inv_def)
  moreover have "admissible c s2 t" using s2(3) fr(1) assms(3-7) t(4) by (simp add: admissible_def unlinked_def valid_tid_def)
  ultimately show ?thesis using s2(1,4) t(1,2) by blast
qed

lemma tasks_insert_ok:
  assumes "tasks_inv c s rs ds fs" and "admissible c s t" and "t \<notin> set rs" and "t \<notin> fst ` set ds" and "t \<notin> set fs"
  shows "\<exists>s'. InsertToTCBRdyList c t s = Some s' \<and> tasks_inv c s' (insort_after (priof s) t rs) ds fs \<and> ins_frame t rs s s'"
proof -
  note T = assms(1) [unfolded tasks_inv_def]
  obtain s' where s': "InsertToTCBRdyList c t s = Some s'" "lists_inv c s' (insort_after (priof s) t rs) ds" "ins_frame t rs s s'"
    using lists_insert_ok [OF _ assms(3,4,2)] T by blast
  have "free_chain s' (FreeTCB s) fs = free_chain s (FreeTCB s) fs"
  proof (rule free_chain_cong)
    fix u assume "u \<in> set fs"
    then have "u \<notin> insert t (set rs)" using T assms(5) by auto
    then show "TCBnext (TCBTbl s' u) = TCBnext (TCBTbl s u)" using ins_frame_tcb(11) [OF s'(3)] by simp
  qed
  moreover have "FreeTCB s' = FreeTCB s" using s'(3) rdy_frameD(1) by (simp add: ins_frame_def)
  ultimately show ?thesis using T s' assms(5) by (auto simp: tasks_inv_def ins_frame_tcb(2) [OF s'(3)])
qed


lemma CreateTask_steps:
  fixes pri :: U8 and sz ts argv :: U32 and w :: bool
  assumes "FreeTCB s = Some t" and "OSSchedLock s \<noteq> 0 \<or> \<not> IsrReq s \<and> \<not> TaskSchedReq s" and "task \<noteq> 0" and "stk \<noteq> 0"
    and "pri \<le> CFG_LOWEST_PRIO c" and "20 \<le> unat sz" and "unat sz < 4096" and "unat ts < 2048"
  defines "bottom \<equiv> stk + 4 - 4 * sz"
  defines "s1 \<equiv> s\<lparr>TCBTbl := (TCBTbl s)(t := init_tcb c (stk - 60) pri bottom (ucast ts) (TCBTbl s t)),
    FreeTCB := TCBnext (TCBTbl s t),
    mem := (if CFG_STK_CHECKOUT_EN c then (first_frame task argv stk (mem s))(bottom := MAGIC_WORD) else first_frame task argv stk (mem s))\<rparr>"
  shows "CreateTask c (OsSchedUnlock c cb) task argv (CoCreateTaskEx_param (ucast pri) sz ts (of_bool w)) stk s =
    do { s \<leftarrow> (if CFG_ORDER_LIST_SCHEDULE_EN c then Some s1 else ActiveTaskPri pri s1);
         s \<leftarrow> (if \<not> w then do { let s = OsSchedLock s; s \<leftarrow> InsertToTCBRdyList c t s; OsSchedUnlock c cb s }
               else Some (upd_tcb t (state_update (\<lambda>_. TASK_WAITING)) s));
         Some (taskID (TCBTbl s t), s) }"
proof -
  note f = param_fields [OF assms(7,8), of pri w]
  have sz: "unat (ucast sz :: U16) = unat sz" using assms(7) by (simp add: unsigned_ucast_eq take_bit_nat_eq_self)
  then have sz': "\<not> (ucast sz :: U16) < 20" using assms(6) by (simp add: word_less_nat_alt)
  have "unat (ucast (ucast sz :: U16) :: U32) = unat sz" using assms(7) by (simp add: unsigned_ucast_eq unsigned_take_bit_eq take_bit_nat_eq_self)
  then have sz'': "ucast (ucast sz :: U16) = sz" by (simp add: word_unat_eq_iff)
  have as: "AssignTCB (OsSchedUnlock c cb) (s\<lparr>mem := m\<rparr>) = Some (Some t, s\<lparr>mem := m, FreeTCB := TCBnext (TCBTbl s t)\<rparr>)" for m
    using assms(1,2) unlock_nested unlock_calm by (auto simp: AssignTCB_def OsSchedLock_def)
  have s1: "(if CFG_STK_CHECKOUT_EN c then wr_mem bottom MAGIC_WORD (upd_tcb t (init_tcb c (stk - 60) pri bottom (ucast ts))
        (s\<lparr>mem := first_frame task argv stk (mem s), FreeTCB := TCBnext (TCBTbl s t)\<rparr>))
      else upd_tcb t (init_tcb c (stk - 60) pri bottom (ucast ts))
        (s\<lparr>mem := first_frame task argv stk (mem s), FreeTCB := TCBnext (TCBTbl s t)\<rparr>)) = s1"
    by (simp add: s1_def)
  show ?thesis
    using assms(3-5) f sz' sz''
    by (simp add: CreateTask_def Let_def InitTaskContext_eq as bottom_def [symmetric] not_less [symmetric] split del: if_split)
      (simp only: s1)
qed


section \<open>Suspension and deletion\<close>

lemma tasks_remove_ok:
  assumes "tasks_inv c s rs ds fs" and "t \<in> set rs"
  shows "\<exists>s'. RemoveFromTCBRdyList c t s = Some s' \<and> tasks_inv c s' (remove1 t rs) ds fs \<and> rem_frame rs s s' \<and>
    admissible c s' t \<and> t \<notin> set (remove1 t rs) \<and> t \<notin> fst ` set ds \<and> t \<notin> set fs"
proof -
  note T = assms(1) [unfolded tasks_inv_def]
  have r: "rdy_inv c s rs" using T by (simp add: lists_inv_def)
  obtain s' where s': "RemoveFromTCBRdyList c t s = Some s'" "rdy_inv c s' (remove1 t rs)" "rem_frame rs s s'" "admissible c s' t"
    using rq.rem_in [OF r assms(2)] by blast
  have fr: "rdy_frame s s'" "links_only (set rs) (TCBTbl s) (TCBTbl s')" using s'(3) by (simp_all add: rem_frame_def)
  have out: "TCBTbl s' u = TCBTbl s u" if "u \<notin> set rs" for u using links_only_outside [OF fr(2) that] .
  have "dly_rep s' ds = dly_rep s ds"
  proof (rule dly_rep_eqI)
    fix u assume "u \<in> fst ` set ds"
    then have "u \<notin> set rs" using T by (auto simp: lists_inv_def)
    then show "nextf s' u = nextf s u \<and> prevf s' u = prevf s u \<and> tickf s' u = tickf s u" using out by simp
  qed (rule rdy_frameD(11) [OF fr(1)])
  moreover have "free_chain s' (FreeTCB s) fs = free_chain s (FreeTCB s) fs"
  proof (rule free_chain_cong)
    fix u assume "u \<in> set fs"
    then have "u \<notin> set rs" using T by auto
    then show "TCBnext (TCBTbl s' u) = TCBnext (TCBTbl s u)" using out by simp
  qed
  moreover have "FreeTCB s' = FreeTCB s" using rdy_frameD(1) [OF fr(1)] .
  moreover have d: "t \<notin> set (remove1 t rs)" "set (remove1 t rs) \<subseteq> set rs" using rq.inv_distinct [OF r] set_remove1_subset by auto
  ultimately show ?thesis using T s' assms(2) links_onlyD(3) [OF fr(2)] by (auto simp: tasks_inv_def lists_inv_def)
qed

lemma tasks_stop_delay:
  assumes "tasks_inv c s rs ds fs" and "sleeping c s rs ds t" and "t \<notin> set fs"
  defines "s' \<equiv> stop_delay t s" and "ds' \<equiv> filter (\<lambda>p. fst p \<noteq> t) ds"
  shows "tasks_inv c s' rs ds' fs" and "admissible c s' t" and "t \<notin> fst ` set ds'"
    and "dly_frame (insert t (fst ` set ds)) s s'"
proof -
  note T = assms(1) [unfolded tasks_inv_def]
  note S = stop_delay_ok [OF conjunct1 [OF T] assms(2), folded s'_def ds'_def]
  have "free_chain s' (FreeTCB s) fs = free_chain s (FreeTCB s) fs"
  proof (rule free_chain_cong)
    fix u assume "u \<in> set fs"
    then have "u \<notin> insert t (fst ` set ds)" using T assms(3) by auto
    then show "TCBnext (TCBTbl s' u) = TCBnext (TCBTbl s u)" using dly_frame_simps(9) [OF S(4)] by simp
  qed
  moreover have "FreeTCB s' = FreeTCB s" by (simp add: s'_def stop_delay_def RemoveDelayList_def Let_def split: option.split)
  ultimately show "tasks_inv c s' rs ds' fs" using T S(1) dly_frame_simps(2) [OF S(4)] by (auto simp: tasks_inv_def ds'_def)
  show "admissible c s' t" "dly_frame (insert t (fst ` set ds)) s s'" by (rule S)+
  show "t \<notin> fst ` set ds'" by (auto simp: ds'_def)
qed

text \<open>The control block of a task that is in no list any more goes to the free ones.\<close>

lemma tasks_retire:
  assumes "tasks_inv c s rs ds fs" and "t \<notin> set rs" and "t \<notin> fst ` set ds" and "t \<notin> set fs" and "unat t < task_max c"
    and "\<not> CFG_ORDER_LIST_SCHEDULE_EN c \<Longrightarrow> pri_active s p \<and> 0 < pri_count s p \<and> (pri_count s p = 1 \<longrightarrow> of_prio s p rs = [])"
    and "p = prio (TCBTbl s t)"
  defines "s1 \<equiv> upd_tcb t (state_update (\<lambda>_. TASK_DORMANT)) s\<lparr>TaskSchedReq := True\<rparr>"
  shows "\<exists>s2. (if CFG_ORDER_LIST_SCHEDULE_EN c then Some s1 else DeleteTaskPri (prio (TCBTbl s1 t)) s1) = Some s2 \<and>
    tasks_inv c (upd_tcb t (TCBnext_update (\<lambda>_. FreeTCB s2)) s2\<lparr>FreeTCB := Some t\<rparr>) rs ds (t # fs) \<and> pri_frame s1 s2"
proof -
  note T = assms(1) [unfolded tasks_inv_def]
  have "lists_inv c s1 rs ds" using T same_lists_cong(1) [of s s1] by (simp add: same_lists_def s1_def)
  moreover have f: "PriNum s1 = PriNum s" "ActivePri s1 = ActivePri s" "TaskNumPerPri s1 = TaskNumPerPri s" "\<And>u. priof s1 u = priof s u"
    by (simp_all add: s1_def)
  then have "pri_active s1 p = pri_active s p" "pri_count s1 p = pri_count s p" "of_prio s1 p rs = of_prio s p rs"
    unfolding pri_active_def pri_count_def f(1-3) by simp_all
  ultimately obtain s2 where s2: "(if CFG_ORDER_LIST_SCHEDULE_EN c then Some s1 else DeleteTaskPri p s1) = Some s2"
    "lists_inv c s2 rs ds" "pri_frame s1 s2"
    using deactivate_ok [of c s1 rs ds p] assms(6) by auto
  note fr = pri_frameD [OF s2(3)]
  let ?s = "upd_tcb t (TCBnext_update (\<lambda>_. FreeTCB s2)) s2\<lparr>FreeTCB := Some t\<rparr>"
  have "lists_inv c ?s rs ds = lists_inv c s2 rs ds" by (rule lists_inv_other [of _ _ t]) (use assms(2,3) in auto)
  moreover have "free_chain ?s (FreeTCB s) fs = free_chain s (FreeTCB s) fs"
    by (rule free_chain_cong) (use assms(4) fr(1) in \<open>auto simp: s1_def\<close>)
  moreover have "prio (TCBTbl s1 t) = p" "FreeTCB s2 = FreeTCB s" using fr(4) by (simp_all add: s1_def assms(7))
  moreover have "taskID (TCBTbl s2 u) = taskID (TCBTbl s u)" for u using fr(1) by (simp add: s1_def)
  ultimately show ?thesis using s2 T assms(2-5) by (auto simp: tasks_inv_def)
qed

section \<open>Properties\<close>

text \<open>
  Task 4 runs, tasks 2 (priority 3) and 1 (priority 5) are ready, and the control blocks 3 and 5 are
  free.
\<close>

definition life_example :: kernel where
  "life_example = kernel_start\<lparr>
     TCBTbl := (\<lambda>t. OSTCB_zero\<lparr>taskID := t, delayTick := INVALID_VALUE, eventID := INVALID_ID, mutexID := INVALID_ID, state := TASK_DORMANT\<rparr>)(
       1 := OSTCB_zero\<lparr>taskID := 1, prio := 5, delayTick := INVALID_VALUE, eventID := INVALID_ID, mutexID := INVALID_ID, TCBprev := Some 2\<rparr>,
       2 := OSTCB_zero\<lparr>taskID := 2, prio := 3, delayTick := INVALID_VALUE, eventID := INVALID_ID, mutexID := INVALID_ID, TCBnext := Some 1\<rparr>,
       3 := OSTCB_zero\<lparr>taskID := 3, state := TASK_DORMANT, TCBnext := Some 5\<rparr>),
     TCBRdy := Some 2, TCBRunning := Some 4, TCBNext := Some 4, FreeTCB := Some 3\<rparr>"

lemma life_example_inv: "tasks_inv OsConfig life_example [2, 1] [] [3, 5]"
proof -
  have "rdy_list life_example [2, 1]"
    by (simp add: rdy_list_def dlist_def life_example_def OSTCB_zero_def)
  moreover have "dly_rep life_example []" by (simp add: dly_rep_def delta_rep_def dlist_def life_example_def kernel_start_def)
  moreover have "taskID (TCBTbl life_example t) = t" for t by (simp add: life_example_def)
  moreover have "free_chain life_example (FreeTCB life_example) [3, 5]" by (simp add: life_example_def OSTCB_zero_def)
  moreover have "priof life_example 2 \<le> priof life_example 1" by (simp add: life_example_def)
  ultimately show ?thesis
    by (auto simp: tasks_inv_def lists_inv_def rdy_inv_def ready_example_simps)
qed

lemma life_example_simps:
  "\<not> IsrReq life_example" "\<not> TaskSchedReq life_example" "OSSchedLock life_example = 0" "TCBRunning life_example = Some 4"
  "priof life_example 1 = 5" "priof life_example 2 = 3"
  "state (TCBTbl life_example 1) = TASK_READY" "delayTick (TCBTbl life_example 1) = INVALID_VALUE"
  "pnode (TCBTbl life_example 1) = PNode_null" "eventID (TCBTbl life_example 1) = INVALID_ID" "mutexID (TCBTbl life_example 1) = INVALID_ID"
  by (simp_all add: life_example_def kernel_start_def OSTCB_zero_def)

text \<open>
  C13. Creating a task takes the first free control block, unpacks the parameter word into priority,
  stack size, time slice and initial state, builds the first stack frame and, unless the task is to
  wait, puts it into the READY list behind its equals, in both scheduling schemes; the last step is
  the unlock of the scheduler. All other control blocks keep their contents but for links.
\<close>

theorem task_create:
  fixes pri :: U8 and sz ts argv :: U32 and w :: bool
  assumes "tasks_inv c s rs ds (t # fs)" and "pri_room c s" and "\<not> IsrReq s" and "\<not> TaskSchedReq s"
    and "task \<noteq> 0" and "stk \<noteq> 0" and "pri \<le> CFG_LOWEST_PRIO c" and "20 \<le> unat sz" and "unat sz < 4096" and "unat ts < 2048"
  shows "\<exists>s'. CreateTask c (OsSchedUnlock c cb) task argv (CoCreateTaskEx_param (ucast pri) sz ts (of_bool w)) stk s =
      (if w then Some (t, s') else do { u \<leftarrow> OsSchedUnlock c cb s'; Some (taskID (TCBTbl u t), u) }) \<and>
    tasks_inv c s' (if w then rs else insort_after (priof s') t rs) ds fs \<and>
    taskID (TCBTbl s' t) = t \<and> prio (TCBTbl s' t) = pri \<and> state (TCBTbl s' t) = (if w then TASK_WAITING else TASK_READY) \<and>
    (CFG_ROBIN_EN c \<longrightarrow> timeSlice (TCBTbl s' t) = (if ts = 0 then CFG_TIME_SLICE c else ucast ts)) \<and>
    stkPtr (TCBTbl s' t) = stk - 60 \<and> mem s' (stk - 4) = task \<and> mem s' (stk - 28) = argv \<and>
    OSSchedLock s' = OSSchedLock s + of_bool (\<not> w) \<and> (\<forall>u. u \<notin> insert t (set rs) \<longrightarrow> TCBTbl s' u = TCBTbl s u)"
proof -
  note T = assms(1) [unfolded tasks_inv_def]
  have t: "FreeTCB s = Some t" "taskID (TCBTbl s t) = t" "t \<notin> set fs" using T by auto
  define bottom where "bottom = stk + 4 - 4 * sz"
  define b where "b = init_tcb c (stk - 60) pri bottom (ucast ts) (TCBTbl s t)"
  define s1 where "s1 = s\<lparr>TCBTbl := (TCBTbl s)(t := b), FreeTCB := TCBnext (TCBTbl s t),
    mem := (if CFG_STK_CHECKOUT_EN c then (first_frame task argv stk (mem s))(bottom := MAGIC_WORD) else first_frame task argv stk (mem s))\<rparr>"
  have "OSSchedLock s \<noteq> 0 \<or> \<not> IsrReq s \<and> \<not> TaskSchedReq s" using assms(3,4) by simp
  note steps = CreateTask_steps [OF t(1) this assms(5-10), where argv = argv and cb = cb and w = w, folded bottom_def, folded b_def, folded s1_def]
  have b: "TCBnext b = None" "TCBprev b = None" "prio b = pri" "taskID b = t" "stkPtr b = stk - 60"
    "CFG_ROBIN_EN c \<Longrightarrow> timeSlice b = (if ucast ts = (0 :: U16) then CFG_TIME_SLICE c else ucast ts)"
    using t(2) by (simp_all add: b_def init_tcb_def Let_def)
  have ts: "ucast ts = (0 :: U16) \<longleftrightarrow> ts = 0"
    using assms(10) by (auto simp: word_unat_eq_iff unsigned_ucast_eq take_bit_nat_eq_self)
  have m: "mem s1 (stk - 4) = task" "mem s1 (stk - 28) = argv"
    using stack_guard [OF assms(8,9), of stk] by (simp_all add: s1_def first_frame_def bottom_def)
  have "TCBTbl s1 = (TCBTbl s)(t := b)" "s1 = s\<lparr>TCBTbl := TCBTbl s1, FreeTCB := TCBnext (TCBTbl s t), mem := mem s1\<rparr>"
    by (simp_all add: s1_def)
  then obtain s2 where s2: "(if CFG_ORDER_LIST_SCHEDULE_EN c then Some s1 else ActiveTaskPri pri s1) = Some s2"
    "pri_frame s1 s2" "tasks_inv c s2 rs ds fs" "admissible c s2 t" "t \<notin> set rs" "t \<notin> fst ` set ds"
    using create_insert [OF assms(1,2) _ b(1-4)] by blast
  note fr = pri_frameD [OF s2(2)]
  have T2: "TCBTbl s2 = (TCBTbl s)(t := b)" "mem s2 = mem s1" "OSSchedLock s2 = OSSchedLock s" using fr by (simp_all add: s1_def)
  show ?thesis
  proof (cases w)
    case True
    let ?s = "upd_tcb t (state_update (\<lambda>_. TASK_WAITING)) s2"
    have "tasks_inv c ?s rs ds fs" using s2(3) tasks_inv_cong [of s2 ?s] by (simp add: same_lists_def)
    then show ?thesis using True steps s2(1) T2 b ts m by (intro exI [of _ ?s]) simp
  next
    case False
    have "tasks_inv c (OsSchedLock s2) rs ds fs" "admissible c (OsSchedLock s2) t"
      using s2(3,4) tasks_inv_cong [of s2 "OsSchedLock s2"] by (simp_all add: same_lists_def OsSchedLock_def)
    then obtain s3 where s3: "InsertToTCBRdyList c t (OsSchedLock s2) = Some s3"
      "tasks_inv c s3 (insort_after (priof (OsSchedLock s2)) t rs) ds fs" "ins_frame t rs (OsSchedLock s2) s3"
      using tasks_insert_ok [OF _ _ s2(5,6) t(3)] by blast
    note I = ins_frame_tcb [OF s3(3)] and R = rdy_frameD [of "OsSchedLock s2" s3]
    have fr3: "rdy_frame (OsSchedLock s2) s3" and lo: "links_only (insert t (set rs))
        ((TCBTbl s2)(t := (TCBTbl s2 t)\<lparr>state := TASK_READY\<rparr>)) (TCBTbl s3)"
      using s3(3) by (simp_all add: ins_frame_def OsSchedLock_def)
    have "priof s3 = priof (OsSchedLock s2)" using I(1) by (simp add: fun_eq_iff)
    then show ?thesis
      using False steps s2(1) T2 b ts m s3(1,2) I(1,2,10,11) R [OF fr3] links_onlyD(4,6) [OF lo]
      by (intro exI [of _ s3]) (simp add: OsSchedLock_def)
  qed
qed


theorem task_create_witness:
  "\<exists>s'. CreateTask OsConfig (OsSchedUnlock OsConfig (\<lambda>_. Some)) 0x08001001 7 (CoCreateTaskEx_param 4 64 0 1) 0x20002000 life_example =
     Some (3, s') \<and> tasks_inv OsConfig s' [2, 1] [] [5] \<and> prio (TCBTbl s' 3) = 4 \<and> state (TCBTbl s' 3) = TASK_WAITING"
proof -
  have "pri_room OsConfig life_example" "(4 :: U8) \<le> CFG_LOWEST_PRIO OsConfig" by (simp_all add: pri_room_def OsConfig_def)
  then show ?thesis
    using task_create [of OsConfig life_example "[2, 1]" "[]" 3 "[5]" "0x08001001" "0x20002000" 4 64 0 "\<lambda>_. Some" 7 True]
      life_example_inv life_example_simps(1,2) by auto
qed

text \<open>
  C15. A ready task that is suspended leaves the READY list and nothing else changes for the other
  tasks; awakening it puts it back behind the tasks of its priority, with the unlock of the scheduler
  as the last step.
\<close>

theorem task_suspend_awake:
  assumes "tasks_inv c s rs ds fs" and "t \<in> set rs" and "t \<noteq> 0" and "unat t < task_max c" and "TCBRunning s \<noteq> Some t"
    and "OSSchedLock s = 0" and "\<not> IsrReq s" and "\<not> TaskSchedReq s" and "state (TCBTbl s t) = TASK_READY"
    and "delayTick (TCBTbl s t) = INVALID_VALUE" and "pnode (TCBTbl s t) = PNode_null"
    and "eventID (TCBTbl s t) = INVALID_ID" and "mutexID (TCBTbl s t) = INVALID_ID"
  shows "\<exists>s1 s2. CoSuspendTask c (OsSchedUnlock c cb) t s = Some (E_OK, s1) \<and> tasks_inv c s1 (remove1 t rs) ds fs \<and>
    state (TCBTbl s1 t) = TASK_WAITING \<and> OSSchedLock s1 = 0 \<and>
    CoSuspendTask c (OsSchedUnlock c cb) t s1 = Some (E_ALREADY_IN_WAITING, s1) \<and>
    CoAwakeTask c (OsSchedUnlock c cb) t s1 = do { u \<leftarrow> OsSchedUnlock c cb s2; Some (E_OK, u) } \<and>
    tasks_inv c s2 (insort_after (priof s) t (remove1 t rs)) ds fs \<and> state (TCBTbl s2 t) = TASK_READY \<and>
    (\<forall>u. prio (TCBTbl s2 u) = prio (TCBTbl s u) \<and> (u \<notin> set rs \<longrightarrow> TCBTbl s2 u = TCBTbl s u))"
proof -
  have tp: "tcb_ptr c t = Some t" using assms(4) by (simp add: tcb_ptr_def)
  have "tasks_inv c (OsSchedLock s) rs ds fs" using assms(1) tasks_inv_cong [of s "OsSchedLock s"] by (simp add: same_lists_def OsSchedLock_def)
  then obtain sa where sa: "RemoveFromTCBRdyList c t (OsSchedLock s) = Some sa" "tasks_inv c sa (remove1 t rs) ds fs"
    "rem_frame rs (OsSchedLock s) sa" "admissible c sa t" "t \<notin> set (remove1 t rs)" "t \<notin> fst ` set ds" "t \<notin> set fs"
    using tasks_remove_ok [OF _ assms(2)] by blast
  have fr: "rdy_frame (OsSchedLock s) sa" and lo: "links_only (set rs) (TCBTbl s) (TCBTbl sa)" and q: "\<not> TaskSchedReq sa"
    using sa(3) assms(8) by (simp_all add: rem_frame_def OsSchedLock_def)
  note R = rdy_frameD [OF fr, unfolded OsSchedLock_def, simplified] and L = links_onlyD [OF lo]
  define s1 where "s1 = upd_tcb t (state_update (\<lambda>_. TASK_WAITING)) sa\<lparr>OSSchedLock := 0\<rparr>"
  have ul: "OsSchedUnlock c cb (upd_tcb t (state_update (\<lambda>_. TASK_WAITING)) sa) = Some s1"
    using unlock_calm [of "upd_tcb t (state_update (\<lambda>_. TASK_WAITING)) sa" c cb] q R assms(6,7) by (simp add: s1_def)
  have susp: "CoSuspendTask c (OsSchedUnlock c cb) t s = Some (E_OK, s1)"
    using assms(3-6,9) tp sa(1) ul by (simp add: CoSuspendTask_def Let_def) (simp add: OsSchedLock_def)
  have T1: "state (TCBTbl s1 t) = TASK_WAITING" "OSSchedLock s1 = 0" "delayTick (TCBTbl s1 t) = INVALID_VALUE"
    "pnode (TCBTbl s1 t) = PNode_null" "eventID (TCBTbl s1 t) = INVALID_ID" "mutexID (TCBTbl s1 t) = INVALID_ID"
    using assms(10-13) L by (simp_all add: s1_def)
  then have again: "CoSuspendTask c (OsSchedUnlock c cb) t s1 = Some (E_ALREADY_IN_WAITING, s1)"
    using assms(3,4) tp by (simp add: CoSuspendTask_def)
  have sl: "same_lists sa (OsSchedLock s1)" "same_lists sa s1" by (simp_all add: same_lists_def s1_def OsSchedLock_def)
  have inv1: "tasks_inv c s1 (remove1 t rs) ds fs" "tasks_inv c (OsSchedLock s1) (remove1 t rs) ds fs" "admissible c (OsSchedLock s1) t"
    using sa(2,4) tasks_inv_cong [OF sl(1)] tasks_inv_cong [OF sl(2)] same_lists_cong(3) [OF sl(1)]
    by (simp_all add: s1_def OsSchedLock_def)
  obtain s2 where s2: "InsertToTCBRdyList c t (OsSchedLock s1) = Some s2"
    "tasks_inv c s2 (insort_after (priof (OsSchedLock s1)) t (remove1 t rs)) ds fs" "ins_frame t (remove1 t rs) (OsSchedLock s1) s2"
    using tasks_insert_ok [OF inv1(2,3) sa(5-7)] by blast
  note I = ins_frame_tcb [OF s2(3)]
  have awake: "CoAwakeTask c (OsSchedUnlock c cb) t s1 = do { u \<leftarrow> OsSchedUnlock c cb s2; Some (E_OK, u) }"
    using assms(3,4) tp T1 s2(1) by (simp add: CoAwakeTask_def Let_def)
  have P: "prio (TCBTbl s2 u) = prio (TCBTbl s u)" for u using I(1) L(1) by (simp add: OsSchedLock_def s1_def)
  have "priof (OsSchedLock s1) = priof s" using L(1) by (simp add: OsSchedLock_def s1_def fun_eq_iff)
  moreover have "TCBTbl s2 u = TCBTbl s u" if "u \<notin> set rs" for u
  proof -
    have u: "u \<notin> insert t (set (remove1 t rs))" using that assms(2) set_remove1_subset [of t rs] by auto
    then show ?thesis using I(11) [OF u] links_only_outside [OF lo that] by (simp add: OsSchedLock_def s1_def)
  qed
  ultimately show ?thesis using susp inv1(1) T1(1,2) again awake s2(2) P I(10) by (intro exI [of _ s1] exI [of _ s2]) simp
qed

theorem task_suspend_awake_witness:
  "\<exists>s1. CoSuspendTask OsConfig (OsSchedUnlock OsConfig (\<lambda>_. Some)) 1 life_example = Some (E_OK, s1) \<and> tasks_inv OsConfig s1 [2] [] [3, 5]"
  using task_suspend_awake [OF life_example_inv, of 1 "\<lambda>_. Some"] by (auto simp: life_example_simps ready_example_simps)

text \<open>
  C14. Deleting a task that is ready, delayed or suspended takes it out of the READY and the DELAY
  list, keeps the priority tables in step, makes it dormant and puts its control block in front of
  the free ones, so that the next creation uses it; then the scheduler is asked to switch.
\<close>

theorem task_delete:
  assumes "tasks_inv c s rs ds fs" and "t \<noteq> 0" and "unat t < task_max c"
    and "t \<in> set rs \<and> state (TCBTbl s t) = TASK_READY \<or>
      sleeping c s rs ds t \<and> t \<notin> set fs \<and> state (TCBTbl s t) = TASK_WAITING"
    and "pnode (TCBTbl s t) = PNode_null" and "eventID (TCBTbl s t) = INVALID_ID" and "mutexID (TCBTbl s t) = INVALID_ID"
    and "\<not> CFG_ORDER_LIST_SCHEDULE_EN c \<Longrightarrow> pri_active s (priof s t) \<and> 0 < pri_count s (priof s t) \<and>
      (pri_count s (priof s t) = 1 \<longrightarrow> of_prio s (priof s t) (remove1 t rs) = [])"
  shows "\<exists>s'. CoDelTask c (OsSchedUnlock c cb) t s = do { u \<leftarrow> OsSchedUnlock c cb s'; Some (E_OK, u) } \<and>
    tasks_inv c s' (remove1 t rs) (filter (\<lambda>p. fst p \<noteq> t) ds) (t # fs) \<and> state (TCBTbl s' t) = TASK_DORMANT \<and> TaskSchedReq s' \<and>
    OSSchedLock s' = OSSchedLock s + 1"
proof -
  have tp: "tcb_ptr c t = Some t" using assms(3) by (simp add: tcb_ptr_def)
  let ?l = "OsSchedLock s" and ?ds = "filter (\<lambda>p. fst p \<noteq> t) ds"
  have sl: "same_lists s ?l" "FreeTCB ?l = FreeTCB s" by (simp_all add: same_lists_def OsSchedLock_def)
  have inv: "tasks_inv c ?l rs ds fs" using assms(1) tasks_inv_cong [OF sl] by simp
  have "\<exists>s1. leave_lists c (OsSchedUnlock c cb) t ?l = Some s1 \<and> tasks_inv c s1 (remove1 t rs) ?ds fs \<and>
    t \<notin> set (remove1 t rs) \<and> t \<notin> fst ` set ?ds \<and> t \<notin> set fs \<and> OSSchedLock s1 = OSSchedLock s + 1 \<and>
    PriNum s1 = PriNum s \<and> ActivePri s1 = ActivePri s \<and> TaskNumPerPri s1 = TaskNumPerPri s \<and> (\<forall>u. prio (TCBTbl s1 u) = prio (TCBTbl s u))"
    using assms(4)
  proof (elim disjE conjE)
    assume t: "t \<in> set rs" "state (TCBTbl s t) = TASK_READY"
    obtain s1 where s1: "RemoveFromTCBRdyList c t ?l = Some s1" "tasks_inv c s1 (remove1 t rs) ds fs" "rem_frame rs ?l s1"
      "t \<notin> set (remove1 t rs)" "t \<notin> fst ` set ds" "t \<notin> set fs" using tasks_remove_ok [OF inv t(1)] by blast
    have "?ds = ds" using s1(5) by (auto simp: filter_id_conv)
    moreover have "rdy_frame ?l s1" "links_only (set rs) (TCBTbl s) (TCBTbl s1)"
      using s1(3) by (simp_all add: rem_frame_def OsSchedLock_def)
    ultimately show ?thesis using s1 t(2) rdy_frameD [of ?l s1] links_onlyD(1)
      by (intro exI [of _ s1]) (simp add: leave_lists_def OsSchedLock_def)
  next
    assume t: "sleeping c s rs ds t" "t \<notin> set fs" "state (TCBTbl s t) = TASK_WAITING"
    have "sleeping c ?l rs ds t" using t(1) same_lists_cong(2) [OF sl(1)] by simp
    note S = tasks_stop_delay [OF inv this t(2)]
    have "remove1 t rs = rs" "t \<notin> set rs" using t(1) by (simp_all add: sleeping_def remove1_idem)
    moreover note D = dly_frame_simps [OF S(4)] dly_frame_rest [OF S(4)]
    moreover have "TaskNumPerPri (stop_delay t ?l) = TaskNumPerPri ?l"
      by (simp add: stop_delay_def RemoveDelayList_def Let_def split: option.split)
    moreover have "mutexID (TCBTbl (stop_delay t ?l) t) = INVALID_ID"
      using assms(7) by (simp add: stop_delay_def RemoveDelayList_def Let_def OsSchedLock_def split: option.split)
    ultimately show ?thesis using S(1,3) t(2,3) assms(5-7)
      by (intro exI [of _ "stop_delay t ?l"]) (simp add: leave_lists_def OsSchedLock_def)
  qed
  then obtain s1 where s1: "leave_lists c (OsSchedUnlock c cb) t ?l = Some s1" "tasks_inv c s1 (remove1 t rs) ?ds fs"
    "t \<notin> set (remove1 t rs)" "t \<notin> fst ` set ?ds" "t \<notin> set fs" "OSSchedLock s1 = OSSchedLock s + 1"
    "PriNum s1 = PriNum s" "ActivePri s1 = ActivePri s" "TaskNumPerPri s1 = TaskNumPerPri s" "\<And>u. prio (TCBTbl s1 u) = prio (TCBTbl s u)"
    by blast
  let ?p = "prio (TCBTbl s1 t)"
  have "pri_active s1 ?p = pri_active s (priof s t)" "pri_count s1 ?p = pri_count s (priof s t)"
    "of_prio s1 ?p (remove1 t rs) = of_prio s (priof s t) (remove1 t rs)"
    unfolding pri_active_def pri_count_def s1(7-10) by simp_all
  then have ok: "\<not> CFG_ORDER_LIST_SCHEDULE_EN c \<Longrightarrow> pri_active s1 ?p \<and> 0 < pri_count s1 ?p \<and>
      (pri_count s1 ?p = 1 \<longrightarrow> of_prio s1 ?p (remove1 t rs) = [])" using assms(8) by simp
  define d where "d = upd_tcb t (state_update (\<lambda>_. TASK_DORMANT)) s1\<lparr>TaskSchedReq := True\<rparr>"
  obtain s2 where s2: "(if CFG_ORDER_LIST_SCHEDULE_EN c then Some d else DeleteTaskPri (prio (TCBTbl d t)) d) = Some s2"
    "tasks_inv c (upd_tcb t (TCBnext_update (\<lambda>_. FreeTCB s2)) s2\<lparr>FreeTCB := Some t\<rparr>) (remove1 t rs) ?ds (t # fs)"
    "pri_frame d s2"
    using tasks_retire [OF s1(2-5) assms(3) ok refl] unfolding d_def by blast
  let ?s = "upd_tcb t (TCBnext_update (\<lambda>_. FreeTCB s2)) s2\<lparr>FreeTCB := Some t\<rparr>"
  note fr = pri_frameD [OF s2(3)]
  have "CoDelTask c (OsSchedUnlock c cb) t s = do { u \<leftarrow> OsSchedUnlock c cb ?s; Some (E_OK, u) }"
    using assms(2,3,4,7) tp s1(1) s2(1) by (auto simp: CoDelTask_def Let_def d_def [symmetric])
  then show ?thesis using s2(2) fr(1,6,8) s1(6) by (intro exI [of _ ?s]) (simp add: d_def)
qed


theorem task_delete_witness:
  "\<exists>s'. CoDelTask OsConfig (OsSchedUnlock OsConfig (\<lambda>_. Some)) 1 life_example =
       do { u \<leftarrow> OsSchedUnlock OsConfig (\<lambda>_. Some) s'; Some (E_OK, u) } \<and>
     tasks_inv OsConfig s' [2] [] [1, 3, 5]"
  using task_delete [OF life_example_inv, of 1 "\<lambda>_. Some"] by (auto simp: life_example_simps ready_example_simps)

end
