(* ===== verification/KernelInv.thy ===== *)
theory KernelInv
  imports TaskLife
begin

text \<open>
  The invariant that relates all the tables of the kernel: the three lists, the state and the delay of
  every task, the priority tables, and the task that has the processor; and the unlock of the scheduler,
  the last action of every call, which establishes it.
\<close>

section \<open>The invariant\<close>

text \<open>
  \<open>n\<close> is the task that has the processor or gets it at the next context switch, \<open>None\<close> inside a call that
  has stopped it; \<open>rs\<close>, \<open>ds\<close> and \<open>fs\<close> are the READY, the DELAY and the free list. The tasks of these runs
  wait for time or for \<open>CoAwakeTask\<close> only.
\<close>

definition plain :: "kernel \<Rightarrow> OS_TID \<Rightarrow> bool" where
  "plain s t \<longleftrightarrow> eventID (TCBTbl s t) = INVALID_ID \<and> mutexID (TCBTbl s t) = INVALID_ID \<and> pnode (TCBTbl s t) = PNode_null"

definition task_ok ::
  "kernel \<Rightarrow> P_OSTCB \<Rightarrow> OS_TID list \<Rightarrow> (OS_TID \<times> nat) list \<Rightarrow> OS_TID list \<Rightarrow> OS_TID \<Rightarrow> bool" where
  "task_ok s n rs ds fs t \<longleftrightarrow>
     (if t \<in> set fs then state (TCBTbl s t) = TASK_DORMANT \<or> state (TCBTbl s t) = TASK_READY \<and> stkPtr (TCBTbl s t) = 0
      else plain s t \<and>
        state (TCBTbl s t) = (if n = Some t then TASK_RUNNING else if t \<in> set rs then TASK_READY else TASK_WAITING) \<and>
        (t \<notin> fst ` set ds \<longrightarrow> delayTick (TCBTbl s t) = INVALID_VALUE \<and> (t \<notin> set rs \<longrightarrow> unlinked s t)))"

definition live :: "config \<Rightarrow> OS_TID list \<Rightarrow> OS_TID set" where
  "live c fs = {t. unat t < task_max c \<and> t \<notin> set fs}"

text \<open>The tables of the binary scheme count the tasks that exist.\<close>

definition pri_ok :: "config \<Rightarrow> kernel \<Rightarrow> OS_TID list \<Rightarrow> bool" where
  "pri_ok c s fs \<longleftrightarrow> CFG_ORDER_LIST_SCHEDULE_EN c \<or>
     (\<forall>p. pri_count s p = card {t \<in> live c fs. priof s t = p} \<and> (pri_active s p \<longleftrightarrow> 0 < pri_count s p))"

definition quiet :: "kernel \<Rightarrow> bool" where
  "quiet s \<longleftrightarrow> OSIntNesting s = 0 \<and> \<not> IsrReq s \<and> TmrList s = None"

definition kcore ::
  "config \<Rightarrow> kernel \<Rightarrow> P_OSTCB \<Rightarrow> OS_TID list \<Rightarrow> (OS_TID \<times> nat) list \<Rightarrow> OS_TID list \<Rightarrow> bool" where
  "kcore c s n rs ds fs \<longleftrightarrow> tasks_inv c s rs ds fs \<and> (\<forall>t. unat t < task_max c \<longrightarrow> task_ok s n rs ds fs t) \<and>
     pri_ok c s fs \<and> set rs \<union> fst ` set ds \<union> set_option n \<subseteq> live c fs \<and>
     set_option n \<inter> (set rs \<union> fst ` set ds) = {} \<and> 0 \<in> set_option n \<union> set rs \<and> (\<forall>p \<in> set ds. 0 < snd p) \<and> quiet s"

text \<open>The state between two calls: the highest priority has the processor unless a reschedule is requested.\<close>

definition chosen :: "kernel \<Rightarrow> OS_TID \<Rightarrow> OS_TID list \<Rightarrow> bool" where
  "chosen s n rs \<longleftrightarrow> TaskSchedReq s \<or> (\<forall>x \<in> set rs. priof s n \<le> priof s x)"

definition kernel_inv :: "config \<Rightarrow> kernel \<Rightarrow> bool" where
  "kernel_inv c s \<longleftrightarrow> (\<exists>n r rs ds fs. kcore c s (Some n) rs ds fs \<and> TCBNext s = Some n \<and> TCBRunning s = Some r \<and>
     (r \<in> set fs \<longrightarrow> state (TCBTbl s r) = TASK_DORMANT) \<and> OSSchedLock s = 0 \<and> chosen s n rs)"

text \<open>No ready task has a higher priority than the one that gets the processor.\<close>

definition kernel_top :: "config \<Rightarrow> kernel \<Rightarrow> bool" where
  "kernel_top c s \<longleftrightarrow> (\<exists>n rs ds fs. kcore c s (Some n) rs ds fs \<and> TCBNext s = Some n \<and> (\<forall>x \<in> set rs. priof s n \<le> priof s x))"

section \<open>Scheduling\<close>

lemma pri_ok_cong:
  assumes "PriNum s' = PriNum s" "ActivePri s' = ActivePri s" "TaskNumPerPri s' = TaskNumPerPri s" "\<And>t. priof s' t = priof s t"
  shows "pri_ok c s' fs = pri_ok c s fs"
  unfolding pri_ok_def pri_count_def pri_active_def assms ..

lemma kcore_cong:
  assumes "same_lists s s'" and "FreeTCB s' = FreeTCB s" and "quiet s' = quiet s" and "TaskNumPerPri s' = TaskNumPerPri s"
    and "\<And>t. TCBTbl s' t = TCBTbl s t"
  shows "kcore c s' n rs ds fs = kcore c s n rs ds fs"
proof -
  have "task_ok s' n rs ds fs t = task_ok s n rs ds fs t" for t using assms(5) by (simp add: task_ok_def plain_def unlinked_def)
  moreover have "PriNum s' = PriNum s" "ActivePri s' = ActivePri s" using assms(1) by (simp_all add: same_lists_def)
  then have "pri_ok c s' fs = pri_ok c s fs" using assms(4,5) by (intro pri_ok_cong) simp_all
  ultimately show ?thesis using tasks_inv_cong [OF assms(1,2)] assms(3) by (simp add: kcore_def)
qed

lemma pri_ok_active: "pri_ok c s fs \<Longrightarrow> t \<in> live c fs \<Longrightarrow> CFG_ORDER_LIST_SCHEDULE_EN c \<or> pri_active s (priof s t)"
proof -
  assume "pri_ok c s fs" and t: "t \<in> live c fs"
  then consider "CFG_ORDER_LIST_SCHEDULE_EN c" |
    "pri_count s (priof s t) = card {u \<in> live c fs. priof s u = priof s t}" "pri_active s (priof s t) \<longleftrightarrow> 0 < pri_count s (priof s t)"
    by (auto simp: pri_ok_def)
  then show ?thesis
  proof cases
    case 2
    have "{u \<in> live c fs. priof s u = priof s t} \<noteq> {}" using t by auto
    then show ?thesis using 2 by (simp add: card_gt_0_iff)
  qed simp
qed

lemma kcoreD:
  assumes "kcore c s n rs ds fs"
  shows "tasks_inv c s rs ds fs" "rdy_inv c s rs" "dly_rep s ds" "\<And>t. unat t < task_max c \<Longrightarrow> task_ok s n rs ds fs t" "pri_ok c s fs"
    "set rs \<subseteq> live c fs" "fst ` set ds \<subseteq> live c fs" "set_option n \<subseteq> live c fs" "set_option n \<inter> (set rs \<union> fst ` set ds) = {}"
    "0 \<in> set_option n \<union> set rs" "\<And>p. p \<in> set ds \<Longrightarrow> 0 < snd p" "OSIntNesting s = 0" "\<not> IsrReq s" "TmrList s = None"
    "set rs \<inter> fst ` set ds = {}" "set rs \<inter> set fs = {}" "fst ` set ds \<inter> set fs = {}" "distinct rs"
    "\<And>t. unat t < task_max c \<Longrightarrow> taskID (TCBTbl s t) = t"
proof -
  note K = assms [unfolded kcore_def]
  note T = conjunct1 [OF K, unfolded tasks_inv_def lists_inv_def]
  show "tasks_inv c s rs ds fs" "\<And>t. unat t < task_max c \<Longrightarrow> task_ok s n rs ds fs t" "pri_ok c s fs"
    "set_option n \<inter> (set rs \<union> fst ` set ds) = {}" "0 \<in> set_option n \<union> set rs" using K by blast+
  show "\<And>p. p \<in> set ds \<Longrightarrow> 0 < snd p" using K by auto
  show "set rs \<subseteq> live c fs" "fst ` set ds \<subseteq> live c fs" "set_option n \<subseteq> live c fs" using K by blast+
  show "OSIntNesting s = 0" "\<not> IsrReq s" "TmrList s = None" using K by (simp_all add: quiet_def)
  show r: "rdy_inv c s rs" "dly_rep s ds" "set rs \<inter> fst ` set ds = {}" "set rs \<inter> set fs = {}" "fst ` set ds \<inter> set fs = {}"
    "\<And>t. unat t < task_max c \<Longrightarrow> taskID (TCBTbl s t) = t" using T by blast+
  show "distinct rs" using rq.inv_distinct [OF r(1)] .
qed

lemma kcoreI:
  assumes "tasks_inv c s rs ds fs" and "\<And>t. unat t < task_max c \<Longrightarrow> task_ok s n rs ds fs t" and "pri_ok c s fs"
    and "set rs \<subseteq> live c fs" and "fst ` set ds \<subseteq> live c fs" and "set_option n \<subseteq> live c fs"
    and "set_option n \<inter> (set rs \<union> fst ` set ds) = {}" and "0 \<in> set_option n \<union> set rs" and "\<And>p. p \<in> set ds \<Longrightarrow> 0 < snd p" and "quiet s"
  shows "kcore c s n rs ds fs"
  using assms unfolding kcore_def by blast

text \<open>A task that can be put into the READY list.\<close>

lemma kcore_admissible:
  assumes "kcore c s n rs ds fs" and "t \<in> live c fs" and "t \<notin> set rs" and "t \<notin> fst ` set ds"
  shows "admissible c s t"
proof -
  have t: "unat t < task_max c" "t \<notin> set fs" using assms(2) by (auto simp: live_def)
  then have "unlinked s t" using assms by (auto simp: kcore_def task_ok_def)
  moreover have "taskID (TCBTbl s t) = t" using assms(1) t by (simp add: kcore_def tasks_inv_def)
  ultimately show ?thesis using pri_ok_active [OF _ assms(2)] assms(1) t by (auto simp: kcore_def admissible_def valid_tid_def)
qed

lemma kcore_sleeping:
  assumes "kcore c s n rs ds fs" and "t \<in> live c fs" and "t \<notin> set rs"
  shows "sleeping c s rs ds t"
proof -
  have t: "unat t < task_max c" "t \<notin> set fs" using assms(2) by (auto simp: live_def)
  have k: "task_ok s n rs ds fs t" "taskID (TCBTbl s t) = t" "dly_rep s ds" using assms(1) t by (simp_all add: kcore_def tasks_inv_def lists_inv_def)
  have "delayTick (TCBTbl s t) \<noteq> INVALID_VALUE" if "t \<in> fst ` set ds"
  proof -
    obtain xs where xs: "map fst ds = xs" "total (tickf s) xs < 2 ^ 31"
      using k(3) unfolding dly_rep_def by (rule delta_repE)
    have "t \<in> set xs" using that by (simp add: xs(1) [symmetric])
    then have "unat (tickf s t) \<le> total (tickf s) xs" by (intro member_le_sum_list) auto
    then show ?thesis using xs(2) by (auto simp: INVALID_VALUE_def)
  qed
  moreover have "delayTick (TCBTbl s t) = INVALID_VALUE \<and> unlinked s t" if "t \<notin> fst ` set ds"
    using k(1) t assms(3) that by (simp add: task_ok_def)
  moreover have "CFG_ORDER_LIST_SCHEDULE_EN c \<or> pri_active s (priof s t)" using pri_ok_active [OF _ assms(2)] assms(1) by (simp add: kcore_def)
  ultimately show ?thesis using assms(3) t k(2) by (auto simp: sleeping_def valid_tid_def)
qed

text \<open>What \<open>Schedule\<close> leaves of the state, on every branch.\<close>

definition other_fields where
  "other_fields s = ((FreeTCB s, TCBRunning s, PriNum s, ActivePri s, TaskNumPerPri s, DlyList s),
     (OSIntNesting s, IsrReq s, TmrList s, OSSchedLock s, mem s))"

lemma other_fieldsD:
  assumes "other_fields s' = other_fields s"
  shows "FreeTCB s' = FreeTCB s" "TCBRunning s' = TCBRunning s" "PriNum s' = PriNum s" "ActivePri s' = ActivePri s"
    "TaskNumPerPri s' = TaskNumPerPri s" "DlyList s' = DlyList s" "OSIntNesting s' = OSIntNesting s" "IsrReq s' = IsrReq s"
    "TmrList s' = TmrList s" "OSSchedLock s' = OSSchedLock s" "mem s' = mem s" "quiet s' = quiet s"
  using assms by (simp_all add: other_fields_def quiet_def)

lemma other_fields_rdy: "rdy_frame s s' \<Longrightarrow> other_fields s' = other_fields s"
  by (simp add: other_fields_def rdy_frameD)

lemma other_fields_upd [simp]:
  "other_fields (upd_tcb t f s) = other_fields s" "other_fields (TCBNext_update g s) = other_fields s"
  "other_fields (TaskSchedReq_update h s) = other_fields s" "other_fields (PendSVSet_update h s) = other_fields s"
  "other_fields (OSCheckTime_update k s) = other_fields s" "other_fields (OSTickCnt_update k s) = other_fields s"
  by (simp_all add: other_fields_def)

lemma Schedule_fields:
  assumes "Schedule c s = Some s'"
  shows "other_fields s' = other_fields s"
proof -
  have sw: "other_fields s2 = other_fields s1" if "Schedule_switch c a b s1 = Some s2" for a b s1 s2
    using that by (auto simp: Schedule_switch_def SwitchContext_def CoStkOverflowHook_loops Let_def split: if_splits)
  show ?thesis using assms
    by (auto simp: Schedule_def Let_def split: option.splits if_splits bind_splits
        dest!: sw InsertToTCBRdyList_frame [THEN other_fields_rdy] RemoveFromTCBRdyList_frame [THEN other_fields_rdy])
qed

text \<open>Changes of the links of some tasks do not touch the other lists.\<close>

lemma tasks_inv_links:
  assumes "tasks_inv c s rs ds fs" and "rdy_inv c s' rs'" and "tcb_frame A s s'" and "A \<inter> (fst ` set ds \<union> set fs) = {}"
    and "DlyList s' = DlyList s" and "FreeTCB s' = FreeTCB s" and "set rs' \<inter> (fst ` set ds \<union> set fs) = {}"
  shows "tasks_inv c s' rs' ds fs"
proof -
  note T = assms(1) [unfolded tasks_inv_def lists_inv_def]
  have out: "TCBTbl s' u = TCBTbl s u" if "u \<in> fst ` set ds \<union> set fs" for u
    using tcb_frameD(1) [OF assms(3), of u] assms(4) that by blast
  have "dly_rep s' ds = dly_rep s ds" by (rule dly_rep_eqI) (use assms(5) out in auto)
  moreover have "free_chain s' (FreeTCB s) fs = free_chain s (FreeTCB s) fs" by (rule free_chain_cong) (use out in auto)
  ultimately show ?thesis using T assms(2,6,7) tcb_frameD(3) [OF assms(3)] by (auto simp: tasks_inv_def lists_inv_def)
qed


lemma kernel_invI:
  assumes "kcore c s (Some n) rs ds fs" and "TCBNext s = Some n" and "TCBRunning s = Some r" and "chosen s n rs"
    and "r \<in> set fs \<Longrightarrow> state (TCBTbl s r) = TASK_DORMANT"
  shows "kernel_inv c (s\<lparr>OSSchedLock := 0\<rparr>)"
proof -
  have "kcore c (s\<lparr>OSSchedLock := 0\<rparr>) (Some n) rs ds fs = kcore c s (Some n) rs ds fs"
    by (rule kcore_cong) (simp_all add: same_lists_def quiet_def)
  then show ?thesis using assms by (auto simp: kernel_inv_def chosen_def)
qed

lemma kernel_topI:
  assumes "kcore c s (Some n) rs ds fs" and "TCBNext s = Some n" and "\<And>x. x \<in> set rs \<Longrightarrow> priof s n \<le> priof s x"
  shows "kernel_top c (s\<lparr>OSSchedLock := 0\<rparr>)"
proof -
  have "kcore c (s\<lparr>OSSchedLock := 0\<rparr>) (Some n) rs ds fs = kcore c s (Some n) rs ds fs"
    by (rule kcore_cong) (simp_all add: same_lists_def quiet_def)
  then show ?thesis using assms by (auto simp: kernel_top_def)
qed

lemma unlock_stopped:
  assumes "kcore c s None rs ds fs" and "TCBRunning s = Some r" and "TCBNext s = Some r" and "OSSchedLock s = 1"
    and "TaskSchedReq s" and "no_overflow c r s" and "r \<notin> set rs" and "state (TCBTbl s r) \<noteq> TASK_RUNNING"
    and "r \<in> set fs \<Longrightarrow> state (TCBTbl s r) = TASK_DORMANT"
  shows "\<exists>s'. OsSchedUnlock c cb s = Some s' \<and> kernel_inv c s'"
proof -
  note K = kcoreD [OF assms(1)]
  obtain x xs where rs: "rs = x # xs" using K(10) by (cases rs) auto
  have inv: "rdy_inv c s (x # xs)" using K(2) rs by simp
  then have dx: "x \<notin> set xs" and pr: "\<And>y. y \<in> set xs \<Longrightarrow> priof s x \<le> priof s y"
    using rq.inv_distinct [OF inv] rq.head_highest [OF inv] by auto
  have "sched_ready c s r (x # xs)" using assms(2-4,7,8) inv K(12) rs by (simp add: sched_ready_def)
  then obtain s1 where s1: "Schedule c s = Some s1" "rdy_inv c s1 xs" "TCBNext s1 = Some x" "\<not> TaskSchedReq s1"
    "links_only (set (x # xs)) ((TCBTbl s)(x := (TCBTbl s x)\<lparr>state := TASK_RUNNING\<rparr>)) (TCBTbl s1)" "unlinked s1 x"
    using Schedule_waiting [OF _ assms(8,6)] by blast
  note F = other_fieldsD [OF Schedule_fields [OF s1(1)]]
  have fr: "tcb_frame (set rs) s s1" by (rule tcb_frame_links [OF s1(5) [folded rs]]) (auto simp: rs)
  note D = tcb_frameD [OF fr] and L = links_onlyD [OF s1(5)]
  have T: "tasks_inv c s1 xs ds fs"
    by (rule tasks_inv_links [OF K(1) s1(2) fr _ F(6,1)]) (use K(15,16) rs in auto)
  have x: "x \<in> live c fs" "x \<notin> fst ` set ds" using K(6,15) rs by auto
  have "task_ok s1 (Some x) xs ds fs t" if "unat t < task_max c" for t
  proof (cases "t = x")
    case True
    then show ?thesis using K(4) [OF that] x s1(6) by (auto simp: task_ok_def plain_def D L live_def rs)
  next
    case False
    then show ?thesis using K(4) [OF that] D(1) [of t] by (auto simp: task_ok_def plain_def D L unlinked_def rs)
  qed
  moreover have "pri_ok c s1 fs = pri_ok c s fs" by (rule pri_ok_cong) (simp_all add: F D)
  moreover have "quiet s1" using F(12) K(12-14) by (simp add: quiet_def)
  ultimately have "kcore c s1 (Some x) xs ds fs"
    using T K(5,6,7,10,11) x rs dx unfolding kcore_def by auto
  moreover have "OsSchedUnlock c cb s = Some (s1\<lparr>OSSchedLock := 0\<rparr>)" using unlock_outermost [OF assms(4) K(13)] assms(5) s1(1) by simp
  moreover have "chosen s1 x xs" using pr D(2) by (simp add: chosen_def)
  moreover have "r \<in> set fs \<Longrightarrow> state (TCBTbl s1 r) = TASK_DORMANT" using D(1) [OF assms(7)] assms(9) by simp
  ultimately show ?thesis using s1(3) F(2) assms(2) kernel_invI [of c s1 x xs ds fs r] by auto
qed


lemma preempt_ok:
  assumes "kcore c s (Some n) (x # xs) ds fs" and "TCBRunning s = Some n" and "TCBNext s = Some n" and "OSSchedLock s = 1"
    and "no_overflow c n s" and "must_switch c s n x"
  shows "\<exists>s'. Schedule c s = Some s' \<and> kernel_inv c (s'\<lparr>OSSchedLock := 0\<rparr>) \<and> kernel_top c (s'\<lparr>OSSchedLock := 0\<rparr>)"
proof -
  let ?rs = "insort_after (priof s) n xs"
  note K = kcoreD [OF assms(1)]
  have n: "n \<in> live c fs" "n \<notin> set (x # xs)" "n \<notin> fst ` set ds" using K(8,9) by auto
  have st: "state (TCBTbl s n) = TASK_RUNNING" using K(4) n by (auto simp: task_ok_def live_def)
  have sr: "sched_ready c s n (x # xs)"
    using assms(2-4) K(2,12) n kcore_admissible [OF assms(1) n] by (simp add: sched_ready_def)
  obtain s1 where s1: "Schedule c s = Some s1" "rdy_inv c s1 ?rs" "TCBNext s1 = Some x" "\<not> TaskSchedReq s1"
    "links_only (insert n (set (x # xs))) ((TCBTbl s)(n := (TCBTbl s n)\<lparr>state := TASK_READY\<rparr>, x := (TCBTbl s x)\<lparr>state := TASK_RUNNING\<rparr>)) (TCBTbl s1)"
    "unlinked s1 x"
    using Schedule_running [OF sr st assms(5,6)] by blast
  have dx: "x \<notin> set xs" "x \<noteq> n" and pr: "\<And>y. y \<in> set xs \<Longrightarrow> priof s x \<le> priof s y" and px: "priof s x \<le> priof s n"
    using K(18) n rq.head_highest [OF K(2)] assms(6) by (auto simp: must_switch_def)
  note F = other_fieldsD [OF Schedule_fields [OF s1(1)]]
  have fr: "tcb_frame (insert n (set (x # xs))) s s1" by (rule tcb_frame_links [OF s1(5)]) auto
  note D = tcb_frameD [OF fr] and L = links_onlyD [OF s1(5)]
  have T: "tasks_inv c s1 ?rs ds fs"
    by (rule tasks_inv_links [OF K(1) s1(2) fr _ F(6,1)]) (use K(15,16) n in \<open>auto simp: live_def\<close>)
  have x: "x \<in> live c fs" "x \<notin> fst ` set ds" using K(6,15) by auto
  have "task_ok s1 (Some x) ?rs ds fs t" if "unat t < task_max c" for t
  proof (cases "t = x \<or> t = n")
    case True
    then show ?thesis using K(4) [OF that] x n s1(6) dx by (auto simp: task_ok_def plain_def D L live_def)
  next
    case False
    then show ?thesis using K(4) [OF that] D(1) [of t] by (auto simp: task_ok_def plain_def D L unlinked_def)
  qed
  moreover have "pri_ok c s1 fs = pri_ok c s fs" by (rule pri_ok_cong) (simp_all add: F D)
  moreover have "quiet s1" using F(12) K(12-14) by (simp add: quiet_def)
  ultimately have kc: "kcore c s1 (Some x) ?rs ds fs"
    using T K(5,6,7,10,11) x n dx unfolding kcore_def by auto
  have "\<And>y. y \<in> set ?rs \<Longrightarrow> priof s1 x \<le> priof s1 y" using pr px D(2) by auto
  then have "chosen s1 x ?rs" "kernel_top c (s1\<lparr>OSSchedLock := 0\<rparr>)" using kernel_topI [OF kc s1(3)] by (simp_all add: chosen_def)
  then show ?thesis using kc s1(1,3) F(2) assms(2) n(1) kernel_invI [of c s1 x ?rs ds fs n] by (simp add: live_def)
qed

lemma unlock_all:
  assumes "kcore c s (Some n) rs ds fs" and "TCBNext s = Some n" and "TCBRunning s = Some r" and "OSSchedLock s = 1"
    and "chosen s n rs" and "r = n \<Longrightarrow> no_overflow c n s" and "r \<in> set fs \<Longrightarrow> state (TCBTbl s r) = TASK_DORMANT"
  shows "\<exists>s'. OsSchedUnlock c cb s = Some s' \<and> kernel_inv c s' \<and> (r = n \<and> TaskSchedReq s \<longrightarrow> kernel_top c s')"
proof -
  note K = kcoreD [OF assms(1)]
  have unl: "OsSchedUnlock c cb s = map_option (\<lambda>s. s\<lparr>OSSchedLock := 0\<rparr>) (if TaskSchedReq s then Schedule c s else Some s)"
    using unlock_outermost [OF assms(4) K(13)] .
  have keep: "kernel_inv c (s\<lparr>OSSchedLock := 0\<rparr>)" using kernel_invI [OF assms(1-3,5,7)] .
  have "\<exists>s'. Schedule c s = Some s' \<and> kernel_inv c (s'\<lparr>OSSchedLock := 0\<rparr>) \<and> (r = n \<longrightarrow> kernel_top c (s'\<lparr>OSSchedLock := 0\<rparr>))"
  proof (cases "r = n \<and> rs \<noteq> []")
    case False
    then have "Schedule c s = Some s"
      using assms(2,3) rq.head [OF K(2)] by (cases rs) (auto simp: Schedule_def)
    moreover have "kernel_top c (s\<lparr>OSSchedLock := 0\<rparr>)" if "r = n"
      using False that by (intro kernel_topI [OF assms(1,2)]) auto
    ultimately show ?thesis using keep by simp
  next
    case True
    then obtain x xs where rs: "rs = x # xs" by (cases rs) auto
    have n: "n \<in> live c fs" "n \<notin> set rs" "n \<notin> fst ` set ds" using K(8,9) by auto
    show ?thesis
    proof (cases "must_switch c s n x")
      case sw: True
      then show ?thesis using preempt_ok [of c s n x xs ds fs] assms True rs by auto
    next
      case sw: False
      have "sched_ready c s n (x # xs)"
        using assms(2-4) K(2,12) n kcore_admissible [OF assms(1) n] rs True by (simp add: sched_ready_def)
      moreover have "state (TCBTbl s n) = TASK_RUNNING" using K(4) n by (auto simp: task_ok_def live_def)
      ultimately have "Schedule c s = Some (s\<lparr>TaskSchedReq := False\<rparr>)" using Schedule_stays sw by blast
      moreover have "kcore c (s\<lparr>TaskSchedReq := False\<rparr>) (Some n) rs ds fs = kcore c s (Some n) rs ds fs"
        by (rule kcore_cong) (simp_all add: same_lists_def quiet_def)
      moreover have top: "\<And>y. y \<in> set rs \<Longrightarrow> priof s n \<le> priof s y"
        using sw rq.head_highest [OF K(2) [unfolded rs]] by (auto simp: must_switch_def rs not_less intro: order_trans)
      then have "chosen (s\<lparr>TaskSchedReq := False\<rparr>) n rs" by (simp add: chosen_def)
      ultimately show ?thesis
        using kernel_invI [of c "s\<lparr>TaskSchedReq := False\<rparr>" n rs ds fs r] kernel_topI [of c "s\<lparr>TaskSchedReq := False\<rparr>" n rs ds fs] top assms(1-3,7) by simp
    qed
  qed
  then show ?thesis using unl keep by auto
qed

lemma unlock_ok:
  assumes "kcore c s (Some n) rs ds fs" and "TCBNext s = Some n" and "TCBRunning s = Some r" and "OSSchedLock s = 1"
    and "chosen s n rs" and "r = n \<Longrightarrow> no_overflow c n s" and "r \<in> set fs \<Longrightarrow> state (TCBTbl s r) = TASK_DORMANT"
  shows "\<exists>s'. OsSchedUnlock c cb s = Some s' \<and> kernel_inv c s'"
  using unlock_all [OF assms] by blast

section \<open>States between two calls\<close>

text \<open>The state inside a call: the lock is taken and nothing else has changed.\<close>

lemma kcore_lock: "kcore c (OsSchedLock s) n rs ds fs = kcore c s n rs ds fs"
  by (rule kcore_cong) (simp_all add: same_lists_def quiet_def OsSchedLock_def)

lemma OsSchedLock_simps:
  "TCBTbl (OsSchedLock s) = TCBTbl s" "TCBRunning (OsSchedLock s) = TCBRunning s" "TCBNext (OsSchedLock s) = TCBNext s"
  "TaskSchedReq (OsSchedLock s) = TaskSchedReq s" "OSSchedLock s = 0 \<Longrightarrow> OSSchedLock (OsSchedLock s) = 1" "mem (OsSchedLock s) = mem s"
  "DlyList (OsSchedLock s) = DlyList s" "FreeTCB (OsSchedLock s) = FreeTCB s"
  by (simp_all add: OsSchedLock_def)

definition settled :: "kernel \<Rightarrow> bool" where
  "settled s \<longleftrightarrow> TCBRunning s = TCBNext s"

definition stack_ok :: "config \<Rightarrow> kernel \<Rightarrow> bool" where
  "stack_ok c s \<longleftrightarrow> (\<forall>r. TCBRunning s = Some r \<longrightarrow> no_overflow c r s)"

lemma no_overflow_frame:
  assumes "no_overflow c r s" and "tcb_frame A s s'" and "mem s' = mem s"
  shows "no_overflow c r s'"
  using assms by (simp add: no_overflow_def stk_overflow_def tcb_frameD [OF assms(2)])

lemma free_chain_frame:
  assumes "tcb_frame A s s'" and "A \<inter> set fs = {}"
  shows "free_chain s' q fs = free_chain s q fs"
proof (rule free_chain_cong)
  fix t assume "t \<in> set fs"
  then have "t \<notin> A" using assms(2) by blast
  then show "TCBnext (TCBTbl s' t) = TCBnext (TCBTbl s t)" using tcb_frameD(1) [OF assms(1)] by simp
qed

lemma kernel_invE:
  assumes "kernel_inv c s" and "settled s" and "stack_ok c s"
  obtains n rs ds fs where "kcore c s (Some n) rs ds fs" "TCBNext s = Some n" "TCBRunning s = Some n" "OSSchedLock s = 0"
    "chosen s n rs" "no_overflow c n s" "n \<in> live c fs" "n \<notin> set rs" "n \<notin> fst ` set ds" "state (TCBTbl s n) = TASK_RUNNING"
proof -
  obtain n rs ds fs where k: "kcore c s (Some n) rs ds fs" "TCBNext s = Some n" "TCBRunning s = Some n" "OSSchedLock s = 0" "chosen s n rs"
    using assms(1,2) by (auto simp: kernel_inv_def settled_def)
  note K = kcoreD [OF k(1)]
  have "n \<in> live c fs" "n \<notin> set rs" "n \<notin> fst ` set ds" using K(8,9) by auto
  moreover from this have "state (TCBTbl s n) = TASK_RUNNING" using K(4) by (auto simp: task_ok_def live_def)
  ultimately show thesis using that k assms(3) by (simp add: stack_ok_def)
qed

end
