(* ===== verification/TaskSteps.thy ===== *)
theory TaskSteps
  imports KernelInv
begin

unbundle bit_operations_syntax

text \<open>
  The calls on tasks, the system tick and the context switch keep the invariant of \<open>KernelInv\<close>, and
  every one of them returns.
\<close>

section \<open>Delays and the tick\<close>

lemma delay_step:
  assumes "kernel_inv c s" and "settled s" and "stack_ok c s" and "TCBRunning s \<noteq> Some 0" and "unat ticks < 2 ^ 31"
  shows "\<exists>r s'. CoTickDelay (OsSchedUnlock c cb) ticks s = Some (r, s') \<and> kernel_inv c s'"
proof (cases "ticks = 0")
  case True
  then show ?thesis using assms(1) kcoreD(12) by (auto simp: CoTickDelay_def kernel_inv_def INVALID_VALUE_def)
next
  case False
  obtain n rs ds fs where k: "kcore c s (Some n) rs ds fs" "TCBNext s = Some n" "TCBRunning s = Some n" "OSSchedLock s = 0" "chosen s n rs"
    "no_overflow c n s" "n \<in> live c fs" "n \<notin> set rs" "n \<notin> fst ` set ds" "state (TCBTbl s n) = TASK_RUNNING"
    using kernel_invE [OF assms(1-3)] .
  define sl where "sl = OsSchedLock s"
  have kl: "kcore c sl (Some n) rs ds fs" using k(1) by (simp add: sl_def kcore_lock)
  note K = kcoreD [OF kl]
  have u: "unlinked sl n" using kcore_admissible [OF kl k(7-9)] by (simp add: admissible_def)
  let ?ds = "insort_after snd (n, unat ticks) ds"
  obtain s1 where s1: "InsertDelayList n ticks sl = Some (upd_tcb n (state_update (\<lambda>_. TASK_WAITING)) s1\<lparr>TaskSchedReq := True\<rparr>)"
    "dly_rep s1 ?ds" "dly_frame (insert n (fst ` set ds)) sl s1"
    using InsertDelayList_ok [OF K(3) k(9) u _ assms(5)] False by (auto simp: word_gt_0)
  define s2 where "s2 = upd_tcb n (state_update (\<lambda>_. TASK_WAITING)) s1\<lparr>TaskSchedReq := True\<rparr>"
  note D = dly_frame_simps [OF s1(3)] dly_frame_rest [OF s1(3)] and C = tcb_frameD [OF tcb_frame_dly [OF s1(3)]]
  have G: "FreeTCB s1 = FreeTCB sl" "TaskNumPerPri s1 = TaskNumPerPri sl" "TmrList s1 = TmrList sl"
    using s1(3) by (cases sl; cases s1; simp add: dly_frame_def)+
  have nl: "unat n < task_max c" "n \<notin> set fs" using k(7) by (auto simp: live_def)
  have A: "insert n (fst ` set ds) \<inter> set rs = {}" "insert n (fst ` set ds) \<inter> set fs = {}"
    using k(8) K(15,17) nl by auto
  have "rdy_inv c s2 rs" using rdy_inv_dly_frame [OF s1(3), of rs c] K(2) A by (auto simp: s2_def)
  moreover have "dly_rep s2 ?ds" using s1(2) by (simp add: s2_def)
  moreover have fr: "tcb_frame (insert n (fst ` set ds)) sl s2" using tcb_frame_dly [OF s1(3)] by (auto simp: s2_def tcb_frame_def)
  moreover from this have "free_chain s2 (FreeTCB sl) fs = free_chain sl (FreeTCB sl) fs" using free_chain_frame A(2) by blast
  ultimately have T: "tasks_inv c s2 rs ?ds fs"
    using K(1) k(8) nl D(2) G(1) by (auto simp: tasks_inv_def lists_inv_def s2_def)
  have "task_ok s2 None rs ?ds fs t" if "unat t < task_max c" for t
  proof (cases "t = n")
    case True
    then show ?thesis using K(4) [OF that] nl k(8) by (auto simp: task_ok_def plain_def s2_def C)
  next
    case False
    then show ?thesis using K(4) [OF that] D(9) [of t] D(3) [of t] by (auto simp: task_ok_def plain_def s2_def C unlinked_def)
  qed
  moreover have "pri_ok c s2 fs = pri_ok c sl fs" by (rule pri_ok_cong) (simp_all add: s2_def D G)
  moreover have "0 \<in> set rs" using K(10) assms(4) k(3) by auto
  moreover have "quiet s2" using K(12-14) D G by (simp add: s2_def quiet_def)
  moreover have "0 < snd p" if "p \<in> set ?ds" for p using K(11) [of p] that False by (auto simp: unat_gt_0)
  moreover have "fst ` set ?ds \<subseteq> live c fs" using K(7) k(7) by auto
  ultimately have kc: "kcore c s2 None rs ?ds fs" using T K(5,6) by (intro kcoreI) (blast | simp)+
  have "no_overflow c n sl" using k(6) by (simp add: sl_def no_overflow_def stk_overflow_def OsSchedLock_def)
  then have "no_overflow c n s2" by (rule no_overflow_frame [OF _ fr]) (simp add: s2_def D)
  then have "\<exists>s'. OsSchedUnlock c cb s2 = Some s' \<and> kernel_inv c s'"
    using k(2-4,8) nl D by (intro unlock_stopped [OF kc, where r = n]) (simp_all add: s2_def sl_def OsSchedLock_simps)
  moreover have "CoTickDelay (OsSchedUnlock c cb) ticks s = Option.bind (OsSchedUnlock c cb s2) (\<lambda>s. Some (E_OK, s))"
  proof -
    have "ticks \<noteq> INVALID_VALUE" using assms(5) by (auto simp: INVALID_VALUE_def)
    moreover have "TCBRunning sl = Some n" "OSIntNesting s = 0" using k(3) K(12) by (simp_all add: sl_def OsSchedLock_def)
    ultimately show ?thesis using False k(4) s1(1) by (simp add: CoTickDelay_def sl_def [symmetric] s2_def)
  qed
  ultimately show ?thesis by auto
qed


lemma set_fold_insort: "set (fold (insort_after f) ts rs) = set ts \<union> set rs"
  by (induction ts arbitrary: rs) auto

lemma sorted_staying:
  "sorted (map snd ds) \<Longrightarrow> \<forall>p \<in> set ds. 0 < snd p \<Longrightarrow> q \<in> set (dropWhile (\<lambda>p. snd p = 1) ds) \<Longrightarrow> 1 < (snd q :: nat)"
  by (induction ds) (force split: if_splits)+

lemma staying_pos:
  assumes "dly_rep s ds" and "\<And>p. p \<in> set ds \<Longrightarrow> 0 < snd p" and "p \<in> set (staying ds)"
  shows "0 < snd p"
proof -
  have "sorted (map snd ds)" using assms(1) delta_rep_sorted unfolding dly_rep_def by blast
  then show ?thesis using assms(2,3) sorted_staying [of ds] by fastforce
qed

lemma fst_split: "fst ` set ds = set (expiring ds) \<union> fst ` set (staying ds)"
proof -
  have "set ds = set (takeWhile (\<lambda>p. snd p = 1) ds) \<union> set (dropWhile (\<lambda>p. snd p = 1) ds)"
    by (metis set_append takeWhile_dropWhile_id)
  then show ?thesis by (force simp: image_iff)
qed

lemma tick_step:
  assumes "kernel_inv c s" and "stack_ok c s"
  shows "\<exists>s'. SysTick_Handler c cb (OsSchedUnlock c cb) s = Some s' \<and> kernel_inv c s' \<and> (settled s \<longrightarrow> kernel_top c s')"
proof -
  obtain n r rs ds fs where k: "kcore c s (Some n) rs ds fs" "TCBNext s = Some n" "TCBRunning s = Some r" "OSSchedLock s = 0"
    "r \<in> set fs \<longrightarrow> state (TCBTbl s r) = TASK_DORMANT" using assms(1) by (auto simp: kernel_inv_def)
  let ?s = "s\<lparr>OSSchedLock := 1, OSTickCnt := OSTickCnt s + 1\<rparr>"
  have kl: "kcore c ?s (Some n) rs ds fs" using k(1) kcore_cong [of s ?s] by (simp add: same_lists_def quiet_def)
  note K = kcoreD [OF kl]
  let ?rs = "fold (insort_after (priof ?s)) (expiring ds) rs" and ?ds = "staying ds"
  have L: "lists_inv c ?s rs ds" using K(1) by (simp add: tasks_inv_def)
  have "pure_delay c ?s t" if "t \<in> set (expiring ds)" for t
  proof -
    have t: "t \<in> live c fs" using that K(7) fst_split [of ds] by auto
    then have "plain ?s t" using K(4) [of t] by (auto simp: live_def task_ok_def)
    then show ?thesis using t pri_ok_active [OF K(5) t] K(19) [of t] by (auto simp: pure_delay_def plain_def valid_tid_def live_def)
  qed
  then obtain s1 where s1: "(case DlyList ?s of None \<Rightarrow> Some ?s
      | Some d \<Rightarrow> if delayTick (TCBTbl ?s d) > 1 then Some (upd_tcb d (delayTick_update (\<lambda>n. n - 1)) ?s)
                 else isr_TimeDispose c (upd_tcb d (delayTick_update (\<lambda>_. 0)) ?s)) = Some s1"
    "lists_inv c s1 ?rs ?ds" "rdy_frame ?s (s1\<lparr>DlyList := DlyList ?s\<rparr>)" "tcb_frame (set rs \<union> fst ` set ds) ?s s1"
    and st: "\<And>t. state (TCBTbl s1 t) = (if t \<in> set (expiring ds) then TASK_READY else state (TCBTbl ?s t))"
      "\<And>t. t \<notin> fst ` set ds \<Longrightarrow> delayTick (TCBTbl s1 t) = delayTick (TCBTbl ?s t)"
      "\<And>t. t \<in> set (expiring ds) \<Longrightarrow> delayTick (TCBTbl s1 t) = INVALID_VALUE"
    using SysTick_delay [OF L] K(11) by auto
  define s2 where "s2 = s1\<lparr>TaskSchedReq := True\<rparr>"
  note F = rdy_frameD [OF s1(3), simplified] and D = tcb_frameD [OF s1(4)]
  have fs: "(set rs \<union> fst ` set ds) \<inter> set fs = {}" using K(16,17) by auto
  have n: "n \<in> live c fs" "n \<notin> set rs" "n \<notin> fst ` set ds" using K(8,9) by auto
  have rs': "set ?rs = set (expiring ds) \<union> set rs" by (rule set_fold_insort)
  have T: "tasks_inv c s1 ?rs ?ds fs"
  proof -
    have "set fs \<inter> (set ?rs \<union> fst ` set ?ds) = {}" using fs fst_split [of ds] rs' by blast
    moreover have "FreeTCB s1 = FreeTCB ?s" using F by simp
    ultimately show ?thesis using K(1) s1(2) free_chain_frame [OF s1(4) fs] D(3) unfolding tasks_inv_def by simp
  qed
  have "task_ok s1 (Some n) ?rs ?ds fs t" if t: "unat t < task_max c" for t
  proof (cases "t \<in> set fs")
    case True
    then have "TCBTbl s1 t = TCBTbl ?s t" using fs D(1) [of t] by blast
    then show ?thesis using K(4) [OF t] True by (simp add: task_ok_def)
  next
    case False
    then have old: "plain ?s t" "state (TCBTbl ?s t) = (if Some n = Some t then TASK_RUNNING else if t \<in> set rs then TASK_READY else TASK_WAITING)"
      "t \<notin> fst ` set ds \<Longrightarrow> delayTick (TCBTbl ?s t) = INVALID_VALUE \<and> (t \<notin> set rs \<longrightarrow> unlinked ?s t)"
      using K(4) [OF t] by (simp_all add: task_ok_def)
    have "plain s1 t" using old(1) by (simp add: plain_def D)
    moreover have "state (TCBTbl s1 t) = (if Some n = Some t then TASK_RUNNING else if t \<in> set ?rs then TASK_READY else TASK_WAITING)"
      using st(1) [of t] old(2) n(3) fst_split [of ds] unfolding rs' by auto
    moreover have "delayTick (TCBTbl s1 t) = INVALID_VALUE" if "t \<notin> fst ` set ?ds"
      using that st(2,3) [of t] old(3) fst_split [of ds] by (cases "t \<in> fst ` set ds") auto
    moreover have "unlinked s1 t" if "t \<notin> fst ` set ?ds" "t \<notin> set ?rs"
    proof -
      have "t \<notin> fst ` set ds" "t \<notin> set rs" using that fst_split [of ds] rs' by auto
      then show ?thesis using old(3) D(1) [of t] by (simp add: unlinked_def)
    qed
    ultimately show ?thesis using False by (simp add: task_ok_def)
  qed
  moreover have "pri_ok c s1 fs = pri_ok c ?s fs" by (rule pri_ok_cong) (simp_all add: F D)
  moreover have "quiet s1" using K(12-14) F by (simp add: quiet_def)
  moreover have "0 < snd p" if "p \<in> set ?ds" for p using staying_pos [OF K(3,11) that] .
  moreover have "set ?rs \<subseteq> live c fs" "fst ` set ?ds \<subseteq> live c fs" using K(6,7) fst_split [of ds] rs' by auto
  moreover have "n \<notin> set ?rs" "n \<notin> fst ` set ?ds" using n fst_split [of ds] rs' by auto
  moreover have "0 \<in> set_option (Some n) \<union> set ?rs" using K(10) rs' by auto
  ultimately have "kcore c s1 (Some n) ?rs ?ds fs" using T K(5,8) by (intro kcoreI) (blast | simp)+
  moreover have "kcore c s2 (Some n) ?rs ?ds fs = kcore c s1 (Some n) ?rs ?ds fs"
    unfolding s2_def by (rule kcore_cong) (simp_all add: same_lists_def quiet_def)
  ultimately have kc: "kcore c s2 (Some n) ?rs ?ds fs" by simp
  have f2: "tcb_frame (set rs \<union> fst ` set ds) s s2" using s1(4) by (simp add: s2_def tcb_frame_def)
  have "\<exists>s'. OsSchedUnlock c cb s2 = Some s' \<and> kernel_inv c s' \<and> (r = n \<and> TaskSchedReq s2 \<longrightarrow> kernel_top c s')"
  proof (rule unlock_all [OF kc, where r = r])
    show "no_overflow c n s2" if "r = n"
      using assms(2) k(3) that by (intro no_overflow_frame [OF _ f2]) (auto simp: stack_ok_def s2_def F)
    show "state (TCBTbl s2 r) = TASK_DORMANT" if "r \<in> set fs"
    proof -
      have "r \<notin> set rs \<union> fst ` set ds" using that fs by blast
      then show ?thesis using k(5) that tcb_frameD(1) [OF f2] by simp
    qed
  qed (use k F in \<open>simp_all add: s2_def chosen_def\<close>)
  moreover have "SysTick_Handler c cb (OsSchedUnlock c cb) s = OsSchedUnlock c cb s2"
    using s1(1) F K(14) k(4) by (simp add: SysTick_Handler_def s2_def)
  moreover have "settled s \<Longrightarrow> r = n \<and> TaskSchedReq s2" using k(2,3) by (simp add: settled_def s2_def)
  ultimately show ?thesis by auto
qed

section \<open>The context switch\<close>

text \<open>The context switch stores and loads registers and changes nothing that the scheduler reads.\<close>

lemma pendsv_step:
  assumes "kernel_inv c s"
  shows "\<exists>p' s'. PendSV_Handler_M3 (p, s) = Some (p', s') \<and> kernel_inv c s' \<and> settled s'"
proof -
  obtain n r rs ds fs where k: "kcore c s (Some n) rs ds fs" "TCBNext s = Some n" "TCBRunning s = Some r"
    "r \<in> set fs \<longrightarrow> state (TCBTbl s r) = TASK_DORMANT" "OSSchedLock s = 0" "chosen s n rs" using assms by (auto simp: kernel_inv_def)
  note K = kcoreD [OF k(1)]
  show ?thesis
  proof (cases "r = n")
    case True
    have "kcore c (s\<lparr>PendSVSet := False\<rparr>) (Some n) rs ds fs = kcore c s (Some n) rs ds fs"
      by (rule kcore_cong) (simp_all add: same_lists_def quiet_def)
    then have "kernel_inv c (s\<lparr>PendSVSet := False, OSSchedLock := 0\<rparr>)"
      using k True K(8) by (intro kernel_invI [where n = n and r = r]) (auto simp: chosen_def live_def)
    then show ?thesis using True k(2,3) by (simp add: PendSV_Handler_M3_def settled_def)
  next
    case False
    define m where "m = stmia (PSP p - 32) (map (regs p) [0..<8]) (mem s)"
    define s1 where "s1 = upd_tcb r (stkPtr_update (\<lambda>_. PSP p - 32)) (s\<lparr>PendSVSet := False, mem := m\<rparr>)\<lparr>TCBRunning := Some n\<rparr>"
    have "tasks_inv c s1 rs ds fs = tasks_inv c s rs ds fs" by (rule tasks_inv_cong) (simp_all add: s1_def same_lists_def)
    moreover have "task_ok s1 (Some n) rs ds fs t" if "unat t < task_max c" for t
      using K(4) [OF that] k(4) by (auto simp: task_ok_def plain_def s1_def unlinked_def)
    moreover have "pri_ok c s1 fs = pri_ok c s fs" by (rule pri_ok_cong) (simp_all add: s1_def)
    moreover have "quiet s1" using K(12-14) by (simp add: quiet_def s1_def)
    ultimately have "kcore c s1 (Some n) rs ds fs" using K by (intro kcoreI) simp_all
    then have "kernel_inv c (s1\<lparr>OSSchedLock := 0\<rparr>)"
      using k(2,6) K(8) by (intro kernel_invI [where n = n and r = n]) (auto simp: chosen_def live_def s1_def)
    then show ?thesis using False k(2,3) by (simp add: PendSV_Handler_M3_def settled_def s1_def m_def Let_def)
  qed
qed

section \<open>Suspending and awakening\<close>

text \<open>
  A call that names a task: the parameter checks are on, and the control block is not the last one of
  the table before its first use, which \<open>CreateTCBList\<close> leaves with the state READY.
\<close>

definition known :: "config \<Rightarrow> kernel \<Rightarrow> OS_TID \<Rightarrow> bool" where
  "known c s t \<longleftrightarrow> CFG_PAR_CHECKOUT_EN c \<and>
     (unat t < task_max c \<longrightarrow> state (TCBTbl s t) \<noteq> TASK_READY \<or> stkPtr (TCBTbl s t) \<noteq> 0)"

lemma known_cases:
  assumes "kcore c s (Some n) rs ds fs" and "known c s t" and "unat t < task_max c"
  obtains "t \<in> set fs" "state (TCBTbl s t) = TASK_DORMANT"
  | "t \<in> live c fs" "t = n" "state (TCBTbl s t) = TASK_RUNNING"
  | "t \<in> live c fs" "t \<noteq> n" "t \<in> set rs" "state (TCBTbl s t) = TASK_READY"
  | "t \<in> live c fs" "t \<noteq> n" "t \<notin> set rs" "state (TCBTbl s t) = TASK_WAITING"
proof (cases "t \<in> set fs")
  case True
  then have "state (TCBTbl s t) = TASK_DORMANT" using kcoreD(4) [OF assms(1,3)] assms(2,3) by (auto simp: known_def task_ok_def)
  with True that(1) show thesis by blast
next
  case False
  then have t: "t \<in> live c fs" using assms(3) by (simp add: live_def)
  have st: "state (TCBTbl s t) = (if Some n = Some t then TASK_RUNNING else if t \<in> set rs then TASK_READY else TASK_WAITING)"
    using kcoreD(4) [OF assms(1,3)] False by (simp add: task_ok_def)
  consider "t = n" | "t \<noteq> n" "t \<in> set rs" | "t \<noteq> n" "t \<notin> set rs" by blast
  then show thesis by cases (use that(2-4) t st in simp_all)
qed

text \<open>A task that a step leaves where it is.\<close>

lemma task_ok_frame:
  assumes "task_ok s n rs ds fs t" and "tcb_frame A s s'" and "state (TCBTbl s' t) = state (TCBTbl s t)"
    and "delayTick (TCBTbl s' t) = delayTick (TCBTbl s t)"
    and "t \<in> set rs' \<longleftrightarrow> t \<in> set rs" and "t \<in> fst ` set ds' \<longleftrightarrow> t \<in> fst ` set ds" and "n' = Some t \<longleftrightarrow> n = Some t"
    and "t \<notin> set rs \<Longrightarrow> t \<notin> fst ` set ds \<Longrightarrow> t \<notin> A"
  shows "task_ok s' n' rs' ds' fs t"
proof -
  have u: "unlinked s' t = unlinked s t" if "t \<notin> set rs" "t \<notin> fst ` set ds"
    using tcb_frameD(1) [OF assms(2) assms(8) [OF that]] by (simp add: unlinked_def)
  show ?thesis using assms(1) u unfolding task_ok_def plain_def assms(3-7) tcb_frameD(4-7) [OF assms(2)] by simp
qed

lemma suspend_ready:
  assumes "kcore c s (Some n) rs ds fs" and "t \<in> set rs" and "t \<noteq> n" and "t \<noteq> 0"
  obtains s1 where "RemoveFromTCBRdyList c t s = Some s1"
    "kcore c (upd_tcb t (state_update (\<lambda>_. TASK_WAITING)) s1) (Some n) (remove1 t rs) ds fs" "rem_frame rs s s1"
proof -
  note K = kcoreD [OF assms(1)]
  obtain s1 where s1: "RemoveFromTCBRdyList c t s = Some s1" "tasks_inv c s1 (remove1 t rs) ds fs"
    "rem_frame rs s s1" "admissible c s1 t" "t \<notin> set (remove1 t rs)" "t \<notin> fst ` set ds" "t \<notin> set fs"
    using tasks_remove_ok [OF K(1) assms(2)] by blast
  have fr: "rdy_frame s s1" and lo: "links_only (set rs) (TCBTbl s) (TCBTbl s1)" using s1(3) by (simp_all add: rem_frame_def)
  note F = other_fieldsD [OF other_fields_rdy [OF fr]] and L = links_onlyD [OF lo] and D = tcb_frameD [OF tcb_frame_rem [OF s1(3)]]
  let ?s = "upd_tcb t (state_update (\<lambda>_. TASK_WAITING)) s1" and ?rs = "remove1 t rs"
  have rs': "set ?rs = set rs - {t}" using K(18) by (simp add: set_remove1_eq)
  have fr': "tcb_frame (set rs) s ?s" using assms(2) tcb_frame_rem [OF s1(3)] by (intro tcb_frame_upd) simp_all
  have "tasks_inv c ?s ?rs ds fs" using s1(2) tasks_inv_cong [of s1 ?s] by (simp add: same_lists_def)
  moreover have "task_ok ?s (Some n) ?rs ds fs u" if "unat u < task_max c" for u
  proof (cases "u = t")
    case True
    have "task_ok s (Some n) rs ds fs t" "unlinked s1 t" using K(4) [OF that] True s1(4) by (simp_all add: admissible_def)
    then show ?thesis using True s1(5-7) assms(3) by (simp add: task_ok_def plain_def D L unlinked_def)
  next
    case False
    then show ?thesis using rs' L by (intro task_ok_frame [OF K(4) [OF that] fr']) simp_all
  qed
  moreover have "pri_ok c ?s fs = pri_ok c s fs" by (rule pri_ok_cong) (simp_all add: F D)
  moreover have "quiet ?s" using F(12) K(12-14) by (simp add: quiet_def)
  moreover have "set ?rs \<subseteq> live c fs" "set_option (Some n) \<inter> (set ?rs \<union> fst ` set ds) = {}" "0 \<in> set_option (Some n) \<union> set ?rs"
    using K(6,9,10) rs' assms(4) by auto
  ultimately have "kcore c ?s (Some n) ?rs ds fs" using K(5,7,8,11) by (intro kcoreI) simp_all
  then show thesis using that s1 by blast
qed

text \<open>The running task stops: what remains is a state without a task for the processor.\<close>

lemma stop_running:
  assumes "kcore c s (Some n) rs ds fs" and "n \<noteq> 0"
  shows "kcore c (upd_tcb n (state_update (\<lambda>_. TASK_WAITING)) s) None rs ds fs"
proof -
  note K = kcoreD [OF assms(1)]
  let ?s = "upd_tcb n (state_update (\<lambda>_. TASK_WAITING)) s"
  have n: "n \<in> live c fs" "n \<notin> set rs" "n \<notin> fst ` set ds" using K(8,9) by auto
  have "tasks_inv c ?s rs ds fs" using K(1) tasks_inv_cong [of s ?s] by (simp add: same_lists_def)
  moreover have "task_ok ?s None rs ds fs u" if "unat u < task_max c" for u
  proof (cases "u = n")
    case True
    then show ?thesis using K(4) [OF that] n by (simp add: task_ok_def plain_def unlinked_def live_def)
  next
    case False
    have fr: "tcb_frame {n} s ?s" by (intro tcb_frame_upd) simp_all
    show ?thesis using False by (intro task_ok_frame [OF K(4) [OF that] fr]) simp_all
  qed
  moreover have "pri_ok c ?s fs = pri_ok c s fs" by (rule pri_ok_cong) simp_all
  moreover have "quiet ?s" using K(12-14) by (simp add: quiet_def)
  moreover have "0 \<in> set rs" using K(10) assms(2) by auto
  ultimately show ?thesis using K by (intro kcoreI) simp_all
qed

lemma suspend_step:
  assumes "kernel_inv c s" and "settled s" and "stack_ok c s" and "known c s t"
  shows "\<exists>r s'. CoSuspendTask c (OsSchedUnlock c cb) t s = Some (r, s') \<and> kernel_inv c s'"
proof -
  obtain n rs ds fs where k: "kcore c s (Some n) rs ds fs" "TCBNext s = Some n" "TCBRunning s = Some n" "OSSchedLock s = 0" "chosen s n rs"
    "no_overflow c n s" "n \<in> live c fs" "n \<notin> set rs" "n \<notin> fst ` set ds" "state (TCBTbl s n) = TASK_RUNNING"
    using kernel_invE [OF assms(1-3)] .
  define sl where "sl = OsSchedLock s"
  have kl: "kcore c sl (Some n) rs ds fs" using k(1) by (simp add: sl_def kcore_lock)
  note K = kcoreD [OF kl] and S = OsSchedLock_simps [of s, folded sl_def]
  have no: "no_overflow c n sl" using k(6) by (simp add: S no_overflow_def stk_overflow_def)
  have nl: "n \<notin> set fs" using k(7) by (simp add: live_def)
  have en: "CFG_PAR_CHECKOUT_EN c" using assms(4) by (simp add: known_def)
  consider "t = 0" | "t \<noteq> 0" "unat t \<ge> task_max c" | "t \<noteq> 0" "unat t < task_max c" by linarith
  then show ?thesis
  proof cases
    case 3
    then have tp: "tcb_ptr c t = Some t" by (simp add: tcb_ptr_def)
    show ?thesis
    proof (rule known_cases [OF k(1) assms(4) 3(2)])
      assume t: "t = n" "state (TCBTbl s t) = TASK_RUNNING"
      let ?s = "upd_tcb n (state_update (\<lambda>_. TASK_WAITING)) (sl\<lparr>TaskSchedReq := True\<rparr>)"
      have "kcore c (sl\<lparr>TaskSchedReq := True\<rparr>) (Some n) rs ds fs = kcore c sl (Some n) rs ds fs"
        by (rule kcore_cong) (simp_all add: same_lists_def quiet_def)
      then have kc: "kcore c ?s None rs ds fs" using stop_running kl 3(1) t(1) by simp
      have "no_overflow c n ?s" using no by (simp add: no_overflow_def stk_overflow_def)
      then have "\<exists>s'. OsSchedUnlock c cb ?s = Some s' \<and> kernel_inv c s'"
        using k(2-4,8) S nl by (intro unlock_stopped [OF kc, where r = n]) simp_all
      then show ?thesis using 3 tp t k(3,4) S by (auto simp: CoSuspendTask_def sl_def [symmetric])
    next
      assume t: "t \<noteq> n" "t \<in> set rs" "state (TCBTbl s t) = TASK_READY"
      obtain s1 where s1: "RemoveFromTCBRdyList c t sl = Some s1"
        "kcore c (upd_tcb t (state_update (\<lambda>_. TASK_WAITING)) s1) (Some n) (remove1 t rs) ds fs" "rem_frame rs sl s1"
        using suspend_ready [OF kl t(2,1) 3(1)] .
      let ?s = "upd_tcb t (state_update (\<lambda>_. TASK_WAITING)) s1"
      note R = rdy_frameD [of sl s1] and D = tcb_frameD [OF tcb_frame_rem [OF s1(3)]]
      have fr: "rdy_frame sl s1" "TaskSchedReq s1 = TaskSchedReq sl" using s1(3) by (simp_all add: rem_frame_def)
      have "chosen ?s n (remove1 t rs)" using k(5) fr(2) S(1,4) D(2) set_remove1_subset [of t rs] by (auto simp: chosen_def)
      moreover have "tcb_frame (set rs) sl ?s" using t(2) tcb_frame_rem [OF s1(3)] by (intro tcb_frame_upd) simp_all
      then have "no_overflow c n ?s" by (rule no_overflow_frame [OF no]) (use R [OF fr(1)] in simp)
      ultimately have "\<exists>s'. OsSchedUnlock c cb ?s = Some s' \<and> kernel_inv c s'"
        using k(2-4) S nl R [OF fr(1)] by (intro unlock_ok [OF s1(2), where r = n]) simp_all
      then show ?thesis using 3 tp t k(3,4) S s1(1) by (auto simp: CoSuspendTask_def sl_def [symmetric])
    qed (use 3 tp en k(4) assms(1) in \<open>simp_all add: CoSuspendTask_def\<close>)
  qed (use assms(1) en in \<open>simp_all add: CoSuspendTask_def\<close>)
qed

text \<open>A task without a delay enters the READY list, asking for a reschedule if it comes first.\<close>

lemma ready_core:
  assumes "kcore c s n rs ds fs" and "t \<in> live c fs" and "t \<notin> set rs" and "t \<notin> fst ` set ds" and "n \<noteq> Some t"
  obtains s1 where "InsertToTCBRdyList c t s = Some s1" "kcore c s1 n (insort_after (priof s) t rs) ds fs" "ins_frame t rs s s1"
proof -
  note K = kcoreD [OF assms(1)]
  let ?rs = "insort_after (priof s) t rs"
  have t: "unat t < task_max c" "t \<notin> set fs" using assms(2) by (auto simp: live_def)
  obtain s1 where s1: "InsertToTCBRdyList c t s = Some s1" "tasks_inv c s1 ?rs ds fs" "ins_frame t rs s s1"
    using tasks_insert_ok [OF K(1) kcore_admissible [OF assms(1-4)] assms(3,4) t(2)] by blast
  have fr: "rdy_frame s s1" using s1(3) by (simp add: ins_frame_def)
  note F = other_fieldsD [OF other_fields_rdy [OF fr]] and I = ins_frame_tcb [OF s1(3)] and D = tcb_frameD [OF tcb_frame_ins [OF s1(3)]]
  have "task_ok s1 n ?rs ds fs u" if "unat u < task_max c" for u
  proof (cases "u = t")
    case True
    have "task_ok s n rs ds fs t" using K(4) [OF that] True by simp
    then show ?thesis using True t assms(4,5) by (simp add: task_ok_def plain_def I)
  next
    case False
    then show ?thesis using I(8,10) by (intro task_ok_frame [OF K(4) [OF that] tcb_frame_ins [OF s1(3)]]) simp_all
  qed
  moreover have "pri_ok c s1 fs = pri_ok c s fs" by (rule pri_ok_cong) (simp_all add: F D)
  moreover have "quiet s1" using F(12) K(12-14) by (simp add: quiet_def)
  moreover have "set ?rs \<subseteq> live c fs" "set_option n \<inter> (set ?rs \<union> fst ` set ds) = {}" "0 \<in> set_option n \<union> set ?rs"
    using K(6,9,10) assms(2,5) by auto
  ultimately have "kcore c s1 n ?rs ds fs" using s1(2) K(5,7,8,11) by (intro kcoreI) simp_all
  then show thesis using that s1 by blast
qed

lemma ready_task:
  assumes "kcore c s (Some n) rs ds fs" and "t \<in> live c fs" and "t \<notin> set rs" and "t \<notin> fst ` set ds" and "t \<noteq> n"
    and "chosen s n rs"
  obtains s1 where "InsertToTCBRdyList c t s = Some s1" "kcore c s1 (Some n) (insort_after (priof s) t rs) ds fs"
    "ins_frame t rs s s1" "chosen s1 n (insort_after (priof s) t rs)"
proof -
  let ?rs = "insort_after (priof s) t rs"
  have nt: "Some n \<noteq> Some t" using assms(5) by simp
  obtain s1 where s1: "InsertToTCBRdyList c t s = Some s1" "kcore c s1 (Some n) ?rs ds fs" "ins_frame t rs s s1"
    using ready_core [OF assms(1-4) nt] .
  note D = tcb_frameD [OF tcb_frame_ins [OF s1(3)]]
  have "chosen s1 n ?rs"
  proof (cases "TaskSchedReq s1")
    case False
    then have h: "\<not> TaskSchedReq s" "hd ?rs \<noteq> t" using s1(3) by (simp_all add: ins_frame_def)
    have old: "priof s1 n \<le> priof s1 x" if "x \<in> set rs" for x using assms(6) h(1) that D(2) by (simp add: chosen_def)
    obtain y ys where ys: "?rs = y # ys" by (cases ?rs) (use set_insort_after [of "priof s" t rs] in auto)
    then have "y \<in> set rs" using h(2) set_insort_after [of "priof s" t rs] by auto
    moreover have "t \<in> set ys" using ys h(2) set_insort_after [of "priof s" t rs] by auto
    then have "priof s1 y \<le> priof s1 t" using rq.head_highest [of c s1 y ys] kcoreD(2) [OF s1(2)] ys by auto
    ultimately show ?thesis using old order_trans by (auto simp: chosen_def)
  qed (simp add: chosen_def)
  then show thesis using that s1 by blast
qed

lemma delayed_tick:
  assumes "kcore c s n rs ds fs" and "t \<in> live c fs" and "t \<notin> set rs"
  shows "delayTick (TCBTbl s t) = INVALID_VALUE \<longleftrightarrow> t \<notin> fst ` set ds"
  using kcore_sleeping [OF assms] by (auto simp: sleeping_def split: if_splits)

lemma awake_step:
  assumes "kernel_inv c s" and "settled s" and "stack_ok c s" and "known c s t"
  shows "\<exists>r s'. CoAwakeTask c (OsSchedUnlock c cb) t s = Some (r, s') \<and> kernel_inv c s'"
proof -
  obtain n rs ds fs where k: "kcore c s (Some n) rs ds fs" "TCBNext s = Some n" "TCBRunning s = Some n" "OSSchedLock s = 0" "chosen s n rs"
    "no_overflow c n s" "n \<in> live c fs" "n \<notin> set rs" "n \<notin> fst ` set ds" "state (TCBTbl s n) = TASK_RUNNING"
    using kernel_invE [OF assms(1-3)] .
  define sl where "sl = OsSchedLock s"
  have kl: "kcore c sl (Some n) rs ds fs" using k(1) by (simp add: sl_def kcore_lock)
  note K = kcoreD [OF kl] and S = OsSchedLock_simps [of s, folded sl_def]
  have no: "no_overflow c n sl" using k(6) by (simp add: S no_overflow_def stk_overflow_def)
  have nl: "n \<notin> set fs" using k(7) by (simp add: live_def)
  have en: "CFG_PAR_CHECKOUT_EN c" using assms(4) by (simp add: known_def)
  consider "t = 0" | "t \<noteq> 0" "unat t \<ge> task_max c" | "t \<noteq> 0" "unat t < task_max c" by linarith
  then show ?thesis
  proof cases
    case 3
    then have tp: "tcb_ptr c t = Some t" by (simp add: tcb_ptr_def)
    show ?thesis
    proof (rule known_cases [OF k(1) assms(4) 3(2)])
      assume t: "t \<in> live c fs" "t \<noteq> n" "t \<notin> set rs" "state (TCBTbl s t) = TASK_WAITING"
      show ?thesis
      proof (cases "t \<in> fst ` set ds")
        case True
        then show ?thesis using 3 tp t assms(1) delayed_tick [OF k(1) t(1,3)] by (simp add: CoAwakeTask_def)
      next
        case False
        have pl: "plain s t" "delayTick (TCBTbl s t) = INVALID_VALUE"
          using kcoreD(4) [OF k(1) 3(2)] t False by (auto simp: task_ok_def live_def)
        have ch: "chosen sl n rs" using k(5) S by (simp add: chosen_def)
        obtain s1 where s1: "InsertToTCBRdyList c t sl = Some s1" "kcore c s1 (Some n) (insort_after (priof sl) t rs) ds fs"
          "ins_frame t rs sl s1" "chosen s1 n (insort_after (priof sl) t rs)"
          using ready_task [OF kl t(1,3) False t(2) ch] .
        have fr: "rdy_frame sl s1" using s1(3) by (simp add: ins_frame_def)
        have "no_overflow c n s1" by (rule no_overflow_frame [OF no tcb_frame_ins [OF s1(3)]]) (rule rdy_frameD [OF fr])
        then have "\<exists>s'. OsSchedUnlock c cb s1 = Some s' \<and> kernel_inv c s'"
          using k(2-4) S nl s1(4) rdy_frameD [OF fr] by (intro unlock_ok [OF s1(2), where r = n]) simp_all
        then show ?thesis using 3 tp t pl s1(1) by (auto simp: CoAwakeTask_def plain_def sl_def [symmetric])
      qed
    qed (use 3 tp en k(4) assms(1) in \<open>simp_all add: CoAwakeTask_def\<close>)
  qed (use assms(1) en in \<open>simp_all add: CoAwakeTask_def\<close>)
qed

section \<open>Deletion\<close>

text \<open>The tables when a control block goes back to the free ones, and when one is taken from them.\<close>

lemma live_free: "unat t < task_max c \<Longrightarrow> t \<notin> set fs \<Longrightarrow> live c fs = insert t (live c (t # fs)) \<and> t \<notin> live c (t # fs)"
  by (auto simp: live_def)

lemma card_live_free:
  assumes "unat t < task_max c" and "t \<notin> set fs"
  shows "card {u \<in> live c fs. f u = q} = card {u \<in> live c (t # fs). f u = q} + of_bool (q = f t)"
proof -
  have l: "live c fs = insert t (live c (t # fs))" "t \<notin> live c (t # fs)" using live_free [OF assms] by blast+
  have "{u \<in> live c fs. f u = q} = (if q = f t then insert t {u \<in> live c (t # fs). f u = q} else {u \<in> live c (t # fs). f u = q})"
    unfolding l(1) by auto
  then show ?thesis using l(2) by simp
qed

lemma pri_frame_rest:
  assumes "pri_frame s s'"
  shows "TCBNext s' = TCBNext s" "quiet s' = quiet s" "OSIntNesting s' = OSIntNesting s" "TmrList s' = TmrList s"
proof -
  obtain a b d e f where "s' = s\<lparr>PriNum := a, ActivePri := b, TaskNumPerPri := d, RdyTaskPri := e, RdyTaskPriInfo := f\<rparr>"
    using assms unfolding pri_frame_def by blast
  then show "TCBNext s' = TCBNext s" "quiet s' = quiet s" "OSIntNesting s' = OSIntNesting s" "TmrList s' = TmrList s"
    by (simp_all add: quiet_def)
qed

lemma pri_ok_last:
  assumes "pri_ok c s fs" and "t \<in> live c fs" and "set rs \<subseteq> live c fs" and "t \<notin> set rs" and "\<not> CFG_ORDER_LIST_SCHEDULE_EN c"
  shows "pri_active s (priof s t) \<and> 0 < pri_count s (priof s t) \<and> (pri_count s (priof s t) = 1 \<longrightarrow> of_prio s (priof s t) rs = [])"
proof -
  let ?A = "{u \<in> live c fs. priof s u = priof s t}"
  have p: "pri_count s (priof s t) = card ?A" "pri_active s (priof s t) \<longleftrightarrow> 0 < pri_count s (priof s t)"
    using assms(1,5) by (auto simp: pri_ok_def)
  have t: "t \<in> ?A" using assms(2) by simp
  then have "0 < card ?A" by (auto simp: card_gt_0_iff)
  moreover have "of_prio s (priof s t) rs = []" if one: "card ?A = 1"
  proof -
    obtain x where x: "?A = {x}" using one by (rule card_1_singletonE)
    have "t \<in> {x}" using t unfolding x .
    then have "u \<in> {t}" if "u \<in> ?A" for u using that unfolding x by simp
    then show ?thesis using assms(3,4) by (auto simp: filter_empty_conv)
  qed
  ultimately show ?thesis using p by simp
qed

lemma retire_pri:
  assumes "pri_ok c s fs" and "rdy_inv c s rs" and "t \<in> live c fs" and "set rs \<subseteq> live c fs" and "t \<notin> set rs"
    and "(if CFG_ORDER_LIST_SCHEDULE_EN c then Some s else DeleteTaskPri (priof s t) s) = Some s2"
  shows "pri_ok c s2 (t # fs)"
proof (cases "CFG_ORDER_LIST_SCHEDULE_EN c")
  case True
  then show ?thesis by (simp add: pri_ok_def)
next
  case False
  note L = pri_ok_last [OF assms(1,3,4,5) False]
  have ti: "tables_inv c s rs" using assms(2) False by (simp add: rdy_inv_def)
  have s2: "DeleteTaskPri (priof s t) s = Some s2" using False assms(6) by simp
  then have e: "\<And>q. pri_active s2 q \<longleftrightarrow> pri_active s q \<and> (q = priof s t \<longrightarrow> 1 < pri_count s (priof s t))"
    "\<And>q. pri_count s2 q = pri_count s q - of_bool (q = priof s t)" "TCBTbl s2 = TCBTbl s"
    using DeleteTaskPri_ok [OF ti, of "priof s t"] L by auto
  have p: "pri_count s q = card {u \<in> live c fs. priof s u = q}" "pri_active s q \<longleftrightarrow> 0 < pri_count s q" for q
    using assms(1) False by (auto simp: pri_ok_def)
  have "t \<notin> set fs" "unat t < task_max c" using assms(3) by (auto simp: live_def)
  then have "pri_count s q = card {u \<in> live c (t # fs). priof s u = q} + of_bool (q = priof s t)" for q
    using p(1) card_live_free [of t c fs "priof s" q] by simp
  then show ?thesis using p(2) e by (auto simp: pri_ok_def)
qed

lemma retire:
  assumes "kcore c s n rs ds fs" and "t \<in> live c fs" and "t \<notin> set rs" and "t \<notin> fst ` set ds" and "n \<noteq> Some t" and "t \<noteq> 0"
  defines "d \<equiv> upd_tcb t (state_update (\<lambda>_. TASK_DORMANT)) s\<lparr>TaskSchedReq := True\<rparr>"
  obtains s2 where "(if CFG_ORDER_LIST_SCHEDULE_EN c then Some d else DeleteTaskPri (prio (TCBTbl d t)) d) = Some s2" "pri_frame d s2"
    "kcore c (upd_tcb t (TCBnext_update (\<lambda>_. FreeTCB s2)) s2\<lparr>FreeTCB := Some t\<rparr>) n rs ds (t # fs)"
proof -
  note K = kcoreD [OF assms(1)]
  have t: "unat t < task_max c" "t \<notin> set fs" using assms(2) by (auto simp: live_def)
  obtain s2 where s2: "(if CFG_ORDER_LIST_SCHEDULE_EN c then Some d else DeleteTaskPri (prio (TCBTbl d t)) d) = Some s2"
    "tasks_inv c (upd_tcb t (TCBnext_update (\<lambda>_. FreeTCB s2)) s2\<lparr>FreeTCB := Some t\<rparr>) rs ds (t # fs)" "pri_frame d s2"
    using tasks_retire [OF K(1) assms(3,4) t(2,1) pri_ok_last [OF K(5) assms(2) K(6) assms(3)] refl] unfolding d_def by blast
  let ?s = "upd_tcb t (TCBnext_update (\<lambda>_. FreeTCB s2)) s2\<lparr>FreeTCB := Some t\<rparr>"
  note fr = pri_frameD [OF s2(3)] pri_frame_rest [OF s2(3)]
  have "tcb_frame {t} s d" by (simp add: d_def tcb_frame_def)
  then have F: "tcb_frame {t} s ?s" using fr(1) by (auto simp: tcb_frame_def)
  have "task_ok ?s n rs ds (t # fs) u" if "unat u < task_max c" for u
  proof (cases "u = t")
    case True
    then show ?thesis using fr(1) by (simp add: task_ok_def d_def)
  next
    case False
    then have "TCBTbl ?s u = TCBTbl s u" using tcb_frameD(1) [OF F, of u] by simp
    then show ?thesis using K(4) [OF that] False unfolding task_ok_def plain_def unlinked_def by simp
  qed
  moreover have "rdy_inv c d rs" "pri_ok c d fs"
    using K(2,5) rdy_inv_cong(1) [of d s c rs] pri_ok_cong [of d s c fs] by (simp_all add: d_def)
  then have "pri_ok c s2 (t # fs)" using retire_pri [of c d fs rs t s2] assms(2,3) K(6) s2(1) by simp
  then have "pri_ok c ?s (t # fs)" using pri_ok_cong [of ?s s2 c "t # fs"] by simp
  moreover have "quiet ?s" using K(12-14) fr by (simp add: quiet_def d_def)
  moreover have "set rs \<subseteq> live c (t # fs)" "fst ` set ds \<subseteq> live c (t # fs)" "set_option n \<subseteq> live c (t # fs)"
    using K(6-8) assms(3-5) by (auto simp: live_def)
  ultimately have "kcore c ?s n rs ds (t # fs)" using s2(2) K(9-11) by (intro kcoreI) blast+
  then show thesis using that s2 by blast
qed

text \<open>Every way out of the lists that \<open>CoDelTask\<close> takes, on a task that does not run.\<close>

lemma end_delay:
  assumes "kcore c s (Some n) rs ds fs" and "t \<in> live c fs" and "t \<notin> set rs" and "t \<noteq> n"
  defines "ds' \<equiv> filter (\<lambda>p. fst p \<noteq> t) ds"
  shows "kcore c (stop_delay t s) (Some n) rs ds' fs" and "dly_frame (insert t (fst ` set ds)) s (stop_delay t s)"
    and "t \<notin> fst ` set ds'"
proof -
  note K = kcoreD [OF assms(1)]
  have t: "unat t < task_max c" "t \<notin> set fs" using assms(2) by (auto simp: live_def)
  note S = tasks_stop_delay [OF K(1) kcore_sleeping [OF assms(1-3)] t(2), folded ds'_def]
  let ?s = "stop_delay t s"
  note fr = tcb_frame_dly [OF S(4)] and D = dly_frame_simps [OF S(4)] dly_frame_rest [OF S(4)]
  have iv: "delayTick (TCBTbl ?s t) = INVALID_VALUE"
    by (rule stop_delay_ok(3) [OF _ kcore_sleeping [OF assms(1-3)]]) (use K(1) in \<open>simp add: tasks_inv_def\<close>)
  have "task_ok ?s (Some n) rs ds' fs u" if "unat u < task_max c" for u
  proof (cases "u = t")
    case True
    have "task_ok s (Some n) rs ds fs t" "unlinked ?s t" using K(4) [OF that] S(2) True by (simp_all add: admissible_def)
    then show ?thesis using True t assms(3,4) iv unfolding task_ok_def plain_def tcb_frameD(4-6) [OF fr] D(3) by simp
  next
    case False
    have ds': "u \<in> fst ` set ds' \<longleftrightarrow> u \<in> fst ` set ds" using False by (force simp: ds'_def)
    show ?thesis
    proof (cases "u \<in> fst ` set ds")
      case True
      then show ?thesis using K(4) [OF that] ds' unfolding task_ok_def plain_def tcb_frameD(4-7) [OF fr] D(3) by simp
    next
      case out: False
      then have "TCBTbl ?s u = TCBTbl s u" using D(9) [of u] False by simp
      then show ?thesis using K(4) [OF that] out ds' unfolding task_ok_def plain_def unlinked_def by simp
    qed
  qed
  moreover have "TaskNumPerPri ?s = TaskNumPerPri s" "TmrList ?s = TmrList s"
    by (simp_all add: stop_delay_def RemoveDelayList_def Let_def split: option.split)
  then have "pri_ok c ?s fs" "quiet ?s" using K(5,12-14) D pri_ok_cong [of ?s s c fs] by (simp_all add: quiet_def)
  moreover have sub: "fst ` set ds' \<subseteq> fst ` set ds" "\<And>p. p \<in> set ds' \<Longrightarrow> p \<in> set ds" by (auto simp: ds'_def)
  have "fst ` set ds' \<subseteq> live c fs" "set_option (Some n) \<inter> (set rs \<union> fst ` set ds') = {}" "\<And>p. p \<in> set ds' \<Longrightarrow> 0 < snd p"
    using sub K(7,9,11) by blast+
  ultimately show "kcore c ?s (Some n) rs ds' fs" by (intro kcoreI S(1) K(6,8,10))
  show "dly_frame (insert t (fst ` set ds)) s ?s" "t \<notin> fst ` set ds'" by (rule S)+
qed

text \<open>After its task has left the lists, a deletion retires the control block and unlocks the scheduler.\<close>

lemma CoDelTask_steps:
  assumes "tid \<noteq> 0" and "unat tid < task_max c" and "state (TCBTbl s tid) \<noteq> TASK_DORMANT" and "OSSchedLock s = 0"
    and "plain s tid" and "leave_lists c unl tid (OsSchedLock s) = Some s1"
    and "(if CFG_ORDER_LIST_SCHEDULE_EN c then Some d else DeleteTaskPri (prio (TCBTbl d tid)) d) = Some s2"
    and "d = upd_tcb tid (state_update (\<lambda>_. TASK_DORMANT)) s1\<lparr>TaskSchedReq := True\<rparr>"
  shows "CoDelTask c unl tid s = Option.bind (unl (upd_tcb tid (TCBnext_update (\<lambda>_. FreeTCB s2)) s2\<lparr>FreeTCB := Some tid\<rparr>)) (\<lambda>s. Some (E_OK, s))"
  using assms(1-7) by (simp add: CoDelTask_def tcb_ptr_def plain_def assms(8) [symmetric] split del: if_split)

text \<open>
  The state before the control block is retired, whatever list the task was in; the task that runs
  leaves none.
\<close>

lemma delete_leaves:
  assumes "kcore c s (Some n) rs ds fs" and "t \<in> live c fs" and "t \<noteq> 0" and "OSSchedLock s = 1"
  obtains s1 rs' ds' where "leave_lists c unl t s = Some s1" "tcb_frame (insert t (set rs \<union> fst ` set ds)) s s1"
    "kcore c (upd_tcb t (state_update (\<lambda>_. TASK_WAITING)) s1) (if t = n then None else Some n) rs' ds' fs"
    "t \<notin> set rs'" "t \<notin> fst ` set ds'" "n \<notin> set rs'" "TCBRunning s1 = TCBRunning s" "TCBNext s1 = TCBNext s" "OSSchedLock s1 = 1" "mem s1 = mem s"
proof -
  note K = kcoreD [OF assms(1)]
  have t: "unat t < task_max c" "t \<notin> set fs" using assms(2) by (auto simp: live_def)
  have n: "n \<notin> set rs" "n \<notin> fst ` set ds" using K(9) by auto
  have st: "plain s t" "state (TCBTbl s t) = (if Some n = Some t then TASK_RUNNING else if t \<in> set rs then TASK_READY else TASK_WAITING)"
    using K(4) [OF t(1)] t(2) by (simp_all add: task_ok_def)
  consider "t = n" | "t \<noteq> n" "t \<in> set rs" | "t \<noteq> n" "t \<notin> set rs" by blast
  then show thesis
  proof cases
    case 1
    then show thesis using that [of s rs ds] stop_running [OF assms(1)] st(2) n assms(3,4) by (simp add: leave_lists_def)
  next
    case 2
    obtain s1 where s1: "RemoveFromTCBRdyList c t s = Some s1"
      "kcore c (upd_tcb t (state_update (\<lambda>_. TASK_WAITING)) s1) (Some n) (remove1 t rs) ds fs" "rem_frame rs s s1"
      using suspend_ready [OF assms(1) 2(2,1) assms(3)] .
    have fr: "rdy_frame s s1" using s1(3) by (simp add: rem_frame_def)
    have "tcb_frame (insert t (set rs \<union> fst ` set ds)) s s1" using tcb_frame_rem [OF s1(3)] by (auto simp: tcb_frame_def)
    moreover have "set (remove1 t rs) = set rs - {t}" using K(18) by (simp add: set_remove1_eq)
    moreover have "t \<notin> fst ` set ds" using 2(2) K(15) by auto
    ultimately show thesis using that [of s1 "remove1 t rs" ds] s1(1,2) 2 st(2) n assms(4) rdy_frameD [OF fr] by (simp add: leave_lists_def)
  next
    case 3
    let ?s = "stop_delay t s" and ?ds = "filter (\<lambda>p. fst p \<noteq> t) ds"
    note E = end_delay [OF assms(1,2) 3(2,1)]
    note D = dly_frame_simps [OF E(2)] dly_frame_rest [OF E(2)] and fr = tcb_frame_dly [OF E(2)]
    have "state (TCBTbl ?s t) = TASK_WAITING" using D(3) [of t] st(2) 3 by simp
    then have "upd_tcb t (state_update (\<lambda>_. TASK_WAITING)) ?s = ?s"
      by (cases ?s; cases "TCBTbl ?s t") (simp add: fun_upd_idem)
    then have "kcore c (upd_tcb t (state_update (\<lambda>_. TASK_WAITING)) ?s) (Some n) rs ?ds fs" using E(1) by simp
    moreover have "tcb_frame (insert t (set rs \<union> fst ` set ds)) s ?s" using fr by (auto simp: tcb_frame_def)
    moreover have "leave_lists c unl t s = Some ?s"
      using st 3 tcb_frameD(4-6) [OF fr, of t] by (simp add: leave_lists_def plain_def)
    ultimately show thesis using that [of ?s rs ?ds] E(3) 3 n assms(4) D by simp
  qed
qed

lemma delete_step:
  assumes "kernel_inv c s" and "settled s" and "stack_ok c s" and "known c s t"
  shows "\<exists>r s'. CoDelTask c (OsSchedUnlock c cb) t s = Some (r, s') \<and> kernel_inv c s'"
proof -
  obtain n rs ds fs where k: "kcore c s (Some n) rs ds fs" "TCBNext s = Some n" "TCBRunning s = Some n" "OSSchedLock s = 0" "chosen s n rs"
    "no_overflow c n s" "n \<in> live c fs" "n \<notin> set rs" "n \<notin> fst ` set ds" "state (TCBTbl s n) = TASK_RUNNING"
    using kernel_invE [OF assms(1-3)] .
  define sl where "sl = OsSchedLock s"
  have kl: "kcore c sl (Some n) rs ds fs" using k(1) by (simp add: sl_def kcore_lock)
  note S = OsSchedLock_simps [of s, folded sl_def]
  have no: "no_overflow c n sl" using k(6) by (simp add: S no_overflow_def stk_overflow_def)
  have en: "CFG_PAR_CHECKOUT_EN c" using assms(4) by (simp add: known_def)
  show ?thesis
  proof (cases "t \<in> live c fs \<and> t \<noteq> 0")
    case False
    then have "unat t < task_max c \<Longrightarrow> t \<in> set fs \<or> t = 0" by (auto simp: live_def)
    then have "unat t < task_max c \<Longrightarrow> state (TCBTbl s t) = TASK_DORMANT \<or> t = 0"
      using kcoreD(4) [OF k(1), of t] assms(4) by (auto simp: task_ok_def known_def)
    then show ?thesis using en assms(1) by (auto simp: CoDelTask_def tcb_ptr_def not_le)
  next
    case True
    then have t: "unat t < task_max c" "t \<notin> set fs" "t \<in> live c fs" "t \<noteq> 0" by (auto simp: live_def)
    have st: "plain s t" "state (TCBTbl s t) \<noteq> TASK_DORMANT" using kcoreD(4) [OF k(1) t(1)] t(2) by (simp_all add: task_ok_def)
    obtain s1 rs' ds' where s1: "leave_lists c (OsSchedUnlock c cb) t sl = Some s1" "tcb_frame (insert t (set rs \<union> fst ` set ds)) sl s1"
      "kcore c (upd_tcb t (state_update (\<lambda>_. TASK_WAITING)) s1) (if t = n then None else Some n) rs' ds' fs"
      "t \<notin> set rs'" "t \<notin> fst ` set ds'" "n \<notin> set rs'" "TCBRunning s1 = TCBRunning sl" "TCBNext s1 = TCBNext sl" "OSSchedLock s1 = 1" "mem s1 = mem sl"
      using delete_leaves [OF kl t(3,4) S(5) [OF k(4)]] .
    define d where "d = upd_tcb t (state_update (\<lambda>_. TASK_DORMANT)) s1\<lparr>TaskSchedReq := True\<rparr>"
    have dd: "upd_tcb t (state_update (\<lambda>_. TASK_DORMANT)) (upd_tcb t (state_update (\<lambda>_. TASK_WAITING)) s1)\<lparr>TaskSchedReq := True\<rparr> = d"
      by (simp add: d_def)
    have nt: "(if t = n then None else Some n) \<noteq> Some t" by simp
    obtain s2 where s2: "(if CFG_ORDER_LIST_SCHEDULE_EN c then Some d else DeleteTaskPri (prio (TCBTbl d t)) d) = Some s2" "pri_frame d s2"
      "kcore c (upd_tcb t (TCBnext_update (\<lambda>_. FreeTCB s2)) s2\<lparr>FreeTCB := Some t\<rparr>) (if t = n then None else Some n) rs' ds' (t # fs)"
      using retire [OF s1(3) t(3) s1(4,5) nt t(4), unfolded dd] .
    let ?s = "upd_tcb t (TCBnext_update (\<lambda>_. FreeTCB s2)) s2\<lparr>FreeTCB := Some t\<rparr>"
    note fr = pri_frameD [OF s2(2)] pri_frame_rest [OF s2(2)]
    have "tcb_frame (insert t (set rs \<union> fst ` set ds)) sl ?s" using s1(2) fr(1) by (auto simp: tcb_frame_def d_def)
    then have no': "no_overflow c n ?s" by (rule no_overflow_frame [OF no]) (use fr(5) s1(10) in \<open>simp add: d_def\<close>)
    have eq: "CoDelTask c (OsSchedUnlock c cb) t s = Option.bind (OsSchedUnlock c cb ?s) (\<lambda>s. Some (E_OK, s))"
      by (rule CoDelTask_steps [OF t(4,1) st(2) k(4) st(1) s1(1) [unfolded sl_def] s2(1) d_def])
    have "\<exists>s'. OsSchedUnlock c cb ?s = Some s' \<and> kernel_inv c s'"
    proof (cases "t = n")
      case True
      then show ?thesis using s2(3) k(2-4) S fr s1 no'
        by (intro unlock_stopped [where r = n and rs = rs' and ds = ds' and fs = "t # fs"]) (simp_all add: d_def)
    next
      case False
      then show ?thesis using s2(3) k(2-4,7) S fr s1 no'
        by (intro unlock_ok [where r = n and n = n and rs = rs' and ds = ds' and fs = "t # fs"]) (simp_all add: d_def chosen_def live_def)
    qed
    then show ?thesis using eq by auto
  qed
qed

section \<open>Creation\<close>

text \<open>With a free control block, the tables have room for one more task.\<close>

lemma live_card:
  assumes "t \<in> set fs" and "unat t < task_max c"
  shows "card (live c fs) < task_max c"
proof -
  have "live c fs \<subseteq> {u. unat u < task_max c} - {t}" using assms(1) by (auto simp: live_def)
  then have "card (live c fs) \<le> card ({u :: OS_TID. unat u < task_max c} - {t})" by (intro card_mono) simp_all
  also have "\<dots> < card {u :: OS_TID. unat u < task_max c}" using assms(2) by (intro psubset_card_mono) auto
  also have "\<dots> = card (unat ` {u :: OS_TID. unat u < task_max c})" by (rule card_image [symmetric]) (simp add: inj_on_def word_unat_eq_iff)
  also have "\<dots> \<le> card {..<task_max c}" by (intro card_mono) auto
  finally show ?thesis by simp
qed

lemma pri_ok_room:
  assumes "pri_ok c s fs" and "rdy_inv c s rs" and "t \<in> set fs" and "unat t < task_max c"
  shows "pri_room c s"
proof (cases "CFG_ORDER_LIST_SCHEDULE_EN c")
  case False
  let ?n = "unat (PriNum s)" and ?L = "live c fs"
  have ti: "tables_inv c s rs" using assms(2) False by (simp add: rdy_inv_def)
  then have sm: "strict_mono_on {0..<?n} (ActivePri s)" and mx: "task_max c \<le> 254" by (simp_all add: tables_inv_def)
  have p: "pri_count s q = card {u \<in> ?L. priof s u = q}" "pri_active s q \<longleftrightarrow> 0 < pri_count s q" for q
    using assms(1) False by (auto simp: pri_ok_def)
  have sub: "ActivePri s ` {0..<?n} \<subseteq> priof s ` ?L"
  proof
    fix q assume "q \<in> ActivePri s ` {0..<?n}"
    then have "pri_active s q" by (auto simp: pri_active_def)
    then have "{u \<in> ?L. priof s u = q} \<noteq> {}" using p [of q] by (metis card.empty less_irrefl)
    then show "q \<in> priof s ` ?L" by auto
  qed
  have "?n = card (ActivePri s ` {0..<?n})" using strict_mono_on_imp_inj_on [OF sm] by (simp add: card_image)
  also have "\<dots> \<le> card ?L" using sub surj_card_le [of ?L] by simp
  finally have n: "?n \<le> card ?L" .
  have "unat (TaskNumPerPri s k) \<le> card ?L" if "k < ?n" for k
  proof -
    have "unat (TaskNumPerPri s k) = card {u \<in> ?L. priof s u = ActivePri s k}" using pri_count_active [OF sm that] p(1) by simp
    also have "\<dots> \<le> card ?L" by (intro card_mono) auto
    finally show ?thesis .
  qed
  then show ?thesis using n live_card [OF assms(3,4)] mx by (force simp: pri_room_def)
qed (simp add: pri_room_def)

text \<open>A new control block, counted and in no list yet.\<close>

lemma enlist:
  assumes "kcore c s n rs ds (t # fs)"
    and "TCBTbl s1 = (TCBTbl s)(t := b)" and "TCBnext b = None" and "TCBprev b = None" and "prio b = pri" and "taskID b = t"
    and "delayTick b = INVALID_VALUE" and "eventID b = INVALID_ID" and "mutexID b = INVALID_ID" and "pnode b = PNode_null"
    and "s1 = s\<lparr>TCBTbl := TCBTbl s1, FreeTCB := TCBnext (TCBTbl s t), mem := mem s1\<rparr>"
  obtains s2 where "(if CFG_ORDER_LIST_SCHEDULE_EN c then Some s1 else ActiveTaskPri pri s1) = Some s2" "pri_frame s1 s2"
    "kcore c (upd_tcb t (state_update (\<lambda>_. TASK_WAITING)) s2) n rs ds fs" "t \<notin> set rs" "t \<notin> fst ` set ds"
proof -
  note K = kcoreD [OF assms(1)]
  have t: "unat t < task_max c" "t \<notin> set fs" using K(1) by (auto simp: tasks_inv_def)
  have room: "pri_room c s" using pri_ok_room [OF K(5,2) _ t(1)] by simp
  obtain s2 where s2: "(if CFG_ORDER_LIST_SCHEDULE_EN c then Some s1 else ActiveTaskPri pri s1) = Some s2" "pri_frame s1 s2"
    "tasks_inv c s2 rs ds fs" "admissible c s2 t" "t \<notin> set rs" "t \<notin> fst ` set ds"
    using create_insert [OF K(1) room assms(2-6,11)] by blast
  note fr = pri_frameD [OF s2(2)] pri_frame_rest [OF s2(2)]
  let ?s = "upd_tcb t (state_update (\<lambda>_. TASK_WAITING)) s2"
  obtain T' m where s1: "s1 = s\<lparr>TCBTbl := T', FreeTCB := TCBnext (TCBTbl s t), mem := m\<rparr>" using assms(11) by blast
  have nt: "n \<noteq> Some t" using K(8) by (auto simp: live_def)
  have lv: "live c fs = insert t (live c (t # fs))" using live_free [OF t] by blast
  have out: "TCBTbl ?s u = TCBTbl s u" if "u \<noteq> t" for u using that fr(1) assms(2) by simp
  have "task_ok ?s n rs ds fs u" if "unat u < task_max c" for u
  proof (cases "u = t")
    case True
    then show ?thesis using t s2(5,6) nt fr(1) assms(2-10) by (simp add: task_ok_def plain_def unlinked_def)
  next
    case False
    then show ?thesis using K(4) [OF that] out [OF False] unfolding task_ok_def plain_def unlinked_def by simp
  qed
  moreover have "pri_ok c ?s fs"
  proof (cases "CFG_ORDER_LIST_SCHEDULE_EN c")
    case False
    have ti: "tables_inv c s1 rs"
      using K(2) False lists_inv_other [of s1 s t rs ds c] K(1) s2(5,6) assms(2) by (simp add: s1 tasks_inv_def lists_inv_def rdy_inv_def)
    have "pri_room c s1" using room by (simp add: pri_room_def s1)
    then have r: "unat (PriNum s1) < task_max c" "\<And>k. k < unat (PriNum s1) \<Longrightarrow> unat (TaskNumPerPri s1 k) < 255"
      using False by (auto simp: pri_room_def)
    have "ActiveTaskPri pri s1 = Some s2" using s2(1) False by simp
    then have e: "\<And>q. pri_active s2 q \<longleftrightarrow> pri_active s1 q \<or> q = pri" "\<And>q. pri_count s2 q = pri_count s1 q + of_bool (q = pri)"
      using ActiveTaskPri_ok [OF ti r, of pri] by auto
    have p: "pri_count s q = card {u \<in> live c (t # fs). priof s u = q}" "pri_active s q \<longleftrightarrow> 0 < pri_count s q" for q
      using K(5) False by (auto simp: pri_ok_def)
    have f: "PriNum s1 = PriNum s" "ActivePri s1 = ActivePri s" "TaskNumPerPri s1 = TaskNumPerPri s"
      "PriNum ?s = PriNum s2" "ActivePri ?s = ActivePri s2" "TaskNumPerPri ?s = TaskNumPerPri s2" by (simp_all add: s1)
    have e': "pri_count ?s q = pri_count s q + of_bool (q = pri)" "pri_active ?s q \<longleftrightarrow> pri_active s q \<or> q = pri" for q
      using e [of q] unfolding pri_count_def pri_active_def f by simp_all
    have "{u \<in> live c (t # fs). priof ?s u = q} = {u \<in> live c (t # fs). priof s u = q}" for q using out by (auto simp: live_def)
    moreover have "priof ?s t = pri" using fr(1) assms(2,5) by simp
    ultimately have "pri_count ?s q = card {u \<in> live c fs. priof ?s u = q}" for q
      using card_live_free [OF t, of "priof ?s" q] e'(1) [of q] p(1) [of q] by simp
    moreover have "pri_active ?s q \<longleftrightarrow> 0 < pri_count ?s q" for q using e' [of q] p(2) [of q] by simp
    ultimately show ?thesis unfolding pri_ok_def by blast
  qed (simp add: pri_ok_def)
  moreover have "tasks_inv c ?s rs ds fs" using s2(3) tasks_inv_cong [of s2 ?s] by (simp add: same_lists_def)
  moreover have "quiet ?s" using K(12-14) fr by (simp add: quiet_def s1)
  ultimately have "kcore c ?s n rs ds fs" using K(6-11) lv by (intro kcoreI) blast+
  then show thesis using that s2 by blast
qed

text \<open>
  Creation needs a stack whose first frame leaves the guard word of the running task alone, and no
  pending request, because \<open>AssignTCB\<close> unlocks the scheduler before the block is filled.
\<close>

definition creatable :: "config \<Rightarrow> U32 \<Rightarrow> U32 \<Rightarrow> U32 \<Rightarrow> kernel \<Rightarrow> bool" where
  "creatable c task argv stk s \<longleftrightarrow> CFG_PAR_CHECKOUT_EN c \<and> \<not> TaskSchedReq s \<and> stack_ok c (s\<lparr>mem := first_frame task argv stk (mem s)\<rparr>)"

lemma kcore_mem: "kcore c (s\<lparr>mem := m\<rparr>) n rs ds fs = kcore c s n rs ds fs"
  by (rule kcore_cong) (simp_all add: same_lists_def quiet_def)

lemma kernel_inv_mem: "kernel_inv c (s\<lparr>mem := m\<rparr>) = kernel_inv c s"
  by (simp add: kernel_inv_def kcore_mem chosen_def)

lemma create_rejects:
  assumes "OSSchedLock s \<noteq> 0 \<or> \<not> IsrReq s \<and> \<not> TaskSchedReq s" and "CFG_PAR_CHECKOUT_EN c"
    and "FreeTCB s = None \<or> task = 0 \<or> stk = 0 \<or> ucast (q AND 0xff) > CFG_LOWEST_PRIO c \<or>
      CFG_STK_CHECKOUT_EN c \<and> (ucast (drop_bit 8 (q AND 0xfff00)) :: U16) < 20"
  shows "\<exists>m. CreateTask c (OsSchedUnlock c cb) task argv q stk s = Some (E_CREATE_FAIL, s\<lparr>mem := m\<rparr>)"
proof -
  have as: "FreeTCB s = None \<Longrightarrow> AssignTCB (OsSchedUnlock c cb) (s\<lparr>mem := m\<rparr>) = Some (None, s\<lparr>mem := m\<rparr>)" for m
    using assms(1) unlock_nested unlock_calm by (auto simp: AssignTCB_def OsSchedLock_def)
  show ?thesis
  proof (cases "task = 0 \<or> stk = 0 \<or> ucast (q AND 0xff) > CFG_LOWEST_PRIO c \<or> CFG_STK_CHECKOUT_EN c \<and> (ucast (drop_bit 8 (q AND 0xfff00)) :: U16) < 20")
    case True
    then have "CreateTask c (OsSchedUnlock c cb) task argv q stk s = Some (E_CREATE_FAIL, s)"
      using assms(2) unfolding CreateTask_def Let_def by (simp only: if_True simp_thms)
    then show ?thesis by (intro exI [of _ "mem s"]) simp
  next
    case False
    have "FreeTCB s = None" using assms(3) False by blast
    then have "CreateTask c (OsSchedUnlock c cb) task argv q stk s = Some (E_CREATE_FAIL, s\<lparr>mem := first_frame task argv stk (mem s)\<rparr>)"
      using False as by (simp add: CreateTask_def Let_def InitTaskContext_eq) blast
    then show ?thesis by blast
  qed
qed

text \<open>The arguments that the macro can pack.\<close>

definition packable :: "config \<Rightarrow> U32 \<Rightarrow> U32 \<Rightarrow> bool" where
  "packable c sz ts \<longleftrightarrow> unat sz < 4096 \<and> unat ts < 2048 \<and> (CFG_STK_CHECKOUT_EN c \<or> 20 \<le> unat sz)"

lemma create_checks:
  fixes pri :: U8 and sz ts :: U32
  assumes "packable c sz ts"
    and "\<not> (FreeTCB s = None \<or> task = 0 \<or> stk = 0 \<or> ucast (CoCreateTaskEx_param (ucast pri) sz ts (of_bool w) AND 0xff) > CFG_LOWEST_PRIO c \<or>
      CFG_STK_CHECKOUT_EN c \<and> (ucast (drop_bit 8 (CoCreateTaskEx_param (ucast pri) sz ts (of_bool w) AND 0xfff00)) :: U16) < 20)"
  shows "FreeTCB s \<noteq> None" "task \<noteq> 0" "stk \<noteq> 0" "pri \<le> CFG_LOWEST_PRIO c" "20 \<le> unat sz" "unat sz < 4096" "unat ts < 2048"
proof -
  have b: "unat sz < 4096" "unat ts < 2048" using assms(1) by (simp_all add: packable_def)
  note f = param_fields [OF b, of pri w]
  have "unat (ucast sz :: U16) = unat sz" using b(1) by (simp add: unsigned_ucast_eq take_bit_nat_eq_self)
  then have "(ucast sz :: U16) < 20 \<longleftrightarrow> unat sz < 20" by (simp add: word_less_nat_alt)
  then show "20 \<le> unat sz" using assms f(2) by (auto simp: packable_def)
  show "FreeTCB s \<noteq> None" "task \<noteq> 0" "stk \<noteq> 0" "pri \<le> CFG_LOWEST_PRIO c" using assms(2) f(1) by (auto simp: not_less)
  show "unat sz < 4096" "unat ts < 2048" by (rule b)+
qed

text \<open>What both the call of a task and the calls before the start of the system do.\<close>

lemma create_core:
  fixes pri :: U8 and sz ts argv :: U32 and w :: bool
  assumes "kcore c s n rs ds gs" and "FreeTCB s \<noteq> None" and "OSSchedLock s \<noteq> 0 \<or> \<not> TaskSchedReq s"
    and "task \<noteq> 0" and "stk \<noteq> 0" and "pri \<le> CFG_LOWEST_PRIO c" and "20 \<le> unat sz" and "unat sz < 4096" and "unat ts < 2048"
  obtains t fs s3 where "gs = t # fs" "kcore c s3 n rs ds fs" "t \<in> live c fs" "t \<notin> set rs" "t \<notin> fst ` set ds" "n \<noteq> Some t"
    "CreateTask c (OsSchedUnlock c cb) task argv (CoCreateTaskEx_param (ucast pri) sz ts (of_bool w)) stk s =
       (if w then Some (t, s3) else do { s \<leftarrow> InsertToTCBRdyList c t (OsSchedLock s3); s \<leftarrow> OsSchedUnlock c cb s; Some (taskID (TCBTbl s t), s) })"
    "TCBNext s3 = TCBNext s" "TCBRunning s3 = TCBRunning s" "OSSchedLock s3 = OSSchedLock s" "TaskSchedReq s3 = TaskSchedReq s"
    "\<forall>u. u \<noteq> t \<longrightarrow> TCBTbl s3 u = TCBTbl s u"
    "mem s3 = (if CFG_STK_CHECKOUT_EN c then (first_frame task argv stk (mem s))(stk + 4 - 4 * sz := MAGIC_WORD)
               else first_frame task argv stk (mem s))"
proof -
  note K = kcoreD [OF assms(1)]
  obtain t fs where gs: "gs = t # fs" "FreeTCB s = Some t" using K(1) assms(2) by (cases gs) (auto simp: tasks_inv_def)
  have t: "taskID (TCBTbl s t) = t" "unat t < task_max c" "t \<notin> set fs" using K(1,19) gs by (auto simp: tasks_inv_def)
  have nt: "n \<noteq> Some t" using K(8) gs by (auto simp: live_def)
  define bottom where "bottom = stk + 4 - 4 * sz"
  define b where "b = init_tcb c (stk - 60) pri bottom (ucast ts) (TCBTbl s t)"
  define s1 where "s1 = s\<lparr>TCBTbl := (TCBTbl s)(t := b), FreeTCB := TCBnext (TCBTbl s t),
    mem := (if CFG_STK_CHECKOUT_EN c then (first_frame task argv stk (mem s))(bottom := MAGIC_WORD) else first_frame task argv stk (mem s))\<rparr>"
  have calm: "OSSchedLock s \<noteq> 0 \<or> \<not> IsrReq s \<and> \<not> TaskSchedReq s" using assms(3) K(13) by simp
  note steps = CreateTask_steps [OF gs(2) calm assms(4-9), where argv = argv and cb = cb and w = w, folded bottom_def, folded b_def, folded s1_def]
  have b: "TCBnext b = None" "TCBprev b = None" "prio b = pri" "taskID b = t" "delayTick b = INVALID_VALUE" "eventID b = INVALID_ID"
    "mutexID b = INVALID_ID" "pnode b = PNode_null" using t(1) by (simp_all add: b_def init_tcb_def Let_def)
  have s1: "TCBTbl s1 = (TCBTbl s)(t := b)" "s1 = s\<lparr>TCBTbl := TCBTbl s1, FreeTCB := TCBnext (TCBTbl s t), mem := mem s1\<rparr>"
    by (simp_all add: s1_def)
  obtain s2 where s2: "(if CFG_ORDER_LIST_SCHEDULE_EN c then Some s1 else ActiveTaskPri pri s1) = Some s2" "pri_frame s1 s2"
    "kcore c (upd_tcb t (state_update (\<lambda>_. TASK_WAITING)) s2) n rs ds fs" "t \<notin> set rs" "t \<notin> fst ` set ds"
    using enlist [OF assms(1) [unfolded gs(1)] s1(1) b s1(2)] .
  note fr = pri_frameD [OF s2(2)] pri_frame_rest [OF s2(2)]
  define s3 where "s3 = upd_tcb t (state_update (\<lambda>_. TASK_WAITING)) s2"
  have "InsertToTCBRdyList c t (OsSchedLock s3) = InsertToTCBRdyList c t (OsSchedLock s2)"
    by (simp add: InsertToTCBRdyList_def OsSchedLock_def s3_def o_def)
  moreover have "taskID (TCBTbl s3 t) = t" using fr(1) b(4) by (simp add: s3_def s1_def)
  ultimately have eq: "CreateTask c (OsSchedUnlock c cb) task argv (CoCreateTaskEx_param (ucast pri) sz ts (of_bool w)) stk s =
       (if w then Some (t, s3) else do { s \<leftarrow> InsertToTCBRdyList c t (OsSchedLock s3); s \<leftarrow> OsSchedUnlock c cb s; Some (taskID (TCBTbl s t), s) })"
    using steps s2(1) by (cases w) (simp_all add: s3_def)
  show thesis
    by (rule that [OF gs(1) s2(3) [folded s3_def] _ s2(4,5) nt eq])
      (use fr t in \<open>simp_all add: s3_def s1_def live_def bottom_def\<close>)
qed

lemma create_ok:
  fixes pri :: U8 and sz ts argv :: U32 and w :: bool
  assumes "kernel_inv c s" and "settled s" and "stack_ok c s" and "creatable c task argv stk s" and "FreeTCB s \<noteq> None"
    and "task \<noteq> 0" and "stk \<noteq> 0" and "pri \<le> CFG_LOWEST_PRIO c" and "20 \<le> unat sz" and "unat sz < 4096" and "unat ts < 2048"
  shows "\<exists>r s'. CreateTask c (OsSchedUnlock c cb) task argv (CoCreateTaskEx_param (ucast pri) sz ts (of_bool w)) stk s = Some (r, s') \<and> kernel_inv c s'"
proof -
  obtain n rs ds gs where k: "kcore c s (Some n) rs ds gs" "TCBNext s = Some n" "TCBRunning s = Some n" "OSSchedLock s = 0" "chosen s n rs"
    "no_overflow c n s" "n \<in> live c gs" "n \<notin> set rs" "n \<notin> fst ` set ds" "state (TCBTbl s n) = TASK_RUNNING"
    using kernel_invE [OF assms(1-3)] .
  have q: "\<not> TaskSchedReq s" "stack_ok c (s\<lparr>mem := first_frame task argv stk (mem s)\<rparr>)" using assms(4) by (simp_all add: creatable_def)
  then have q': "OSSchedLock s \<noteq> 0 \<or> \<not> TaskSchedReq s" by simp
  obtain t fs s3 where s3: "gs = t # fs" "kcore c s3 (Some n) rs ds fs" "t \<in> live c fs" "t \<notin> set rs" "t \<notin> fst ` set ds" "Some n \<noteq> Some t"
    "CreateTask c (OsSchedUnlock c cb) task argv (CoCreateTaskEx_param (ucast pri) sz ts (of_bool w)) stk s =
       (if w then Some (t, s3) else do { s \<leftarrow> InsertToTCBRdyList c t (OsSchedLock s3); s \<leftarrow> OsSchedUnlock c cb s; Some (taskID (TCBTbl s t), s) })"
    and f3: "TCBNext s3 = TCBNext s" "TCBRunning s3 = TCBRunning s" "OSSchedLock s3 = OSSchedLock s" "TaskSchedReq s3 = TaskSchedReq s"
    "\<forall>u. u \<noteq> t \<longrightarrow> TCBTbl s3 u = TCBTbl s u"
    "mem s3 = (if CFG_STK_CHECKOUT_EN c then (first_frame task argv stk (mem s))(stk + 4 - 4 * sz := MAGIC_WORD)
               else first_frame task argv stk (mem s))"
    using create_core [OF k(1) assms(5) q' assms(6-11), where cb = cb and argv = argv and w = w] .
  have nt: "t \<noteq> n" "n \<notin> set fs" using s3(6) k(7) s3(1) by (auto simp: live_def)
  have tb: "TCBTbl s3 n = TCBTbl s n" using f3(5) nt(1) by simp
  have "priof s3 x = priof s x" if "x \<in> set rs" for x using that s3(4) f3(5) by metis
  then have ch: "chosen s3 n rs" using k(5) q(1) tb by (auto simp: chosen_def)
  have "no_overflow c n (s\<lparr>mem := first_frame task argv stk (mem s)\<rparr>)" using q(2) k(3) by (simp add: stack_ok_def)
  then have no: "no_overflow c n s3" using tb f3(6) by (auto simp: no_overflow_def stk_overflow_def)
  show ?thesis
  proof (cases w)
    case True
    have "kernel_inv c s3" unfolding kernel_inv_def using s3(2) f3(1-3) k(2-4) ch nt(2) by auto
    then show ?thesis using True s3(7) by simp
  next
    case False
    have ki: "kcore c (OsSchedLock s3) (Some n) rs ds fs" using s3(2) by (simp add: kcore_lock)
    have chi: "chosen (OsSchedLock s3) n rs" using ch by (simp add: chosen_def OsSchedLock_def)
    obtain s4 where s4: "InsertToTCBRdyList c t (OsSchedLock s3) = Some s4"
      "kcore c s4 (Some n) (insort_after (priof (OsSchedLock s3)) t rs) ds fs" "ins_frame t rs (OsSchedLock s3) s4"
      "chosen s4 n (insort_after (priof (OsSchedLock s3)) t rs)"
      using ready_task [OF ki s3(3-5) nt(1) chi] .
    have rf: "rdy_frame (OsSchedLock s3) s4" using s4(3) by (simp add: ins_frame_def)
    have "no_overflow c n (OsSchedLock s3)" using no by (simp add: no_overflow_def stk_overflow_def OsSchedLock_def)
    then have "no_overflow c n s4" by (rule no_overflow_frame [OF _ tcb_frame_ins [OF s4(3)]]) (rule rdy_frameD [OF rf])
    then have "\<exists>s'. OsSchedUnlock c cb s4 = Some s' \<and> kernel_inv c s'"
      using f3 k(2-4) nt s4(4) rdy_frameD [OF rf] by (intro unlock_ok [OF s4(2), where r = n]) (simp_all add: OsSchedLock_simps)
    then show ?thesis using False s3(7) s4(1) by auto
  qed
qed

lemma create_step:
  fixes pri :: U8 and sz ts argv :: U32 and w :: bool
  assumes "kernel_inv c s" and "settled s" and "stack_ok c s" and "creatable c task argv stk s" and "packable c sz ts"
  shows "\<exists>r s'. CreateTask c (OsSchedUnlock c cb) task argv (CoCreateTaskEx_param (ucast pri) sz ts (of_bool w)) stk s = Some (r, s') \<and> kernel_inv c s'"
proof (cases "FreeTCB s = None \<or> task = 0 \<or> stk = 0 \<or> ucast (CoCreateTaskEx_param (ucast pri) sz ts (of_bool w) AND 0xff) > CFG_LOWEST_PRIO c \<or>
    CFG_STK_CHECKOUT_EN c \<and> (ucast (drop_bit 8 (CoCreateTaskEx_param (ucast pri) sz ts (of_bool w) AND 0xfff00)) :: U16) < 20")
  case True
  have "\<not> TaskSchedReq s" "\<not> IsrReq s" "CFG_PAR_CHECKOUT_EN c"
    using assms(1,4) kcoreD(13) by (auto simp: creatable_def kernel_inv_def)
  then show ?thesis using create_rejects [OF _ _ True, of cb argv] assms(1) kernel_inv_mem by fastforce
next
  case False
  show ?thesis using create_ok [OF assms(1-4) create_checks [OF assms(5) False]] .
qed

text \<open>A task ends itself.\<close>

lemma exit_step:
  assumes "kernel_inv c s" and "settled s" and "stack_ok c s" and "CFG_PAR_CHECKOUT_EN c"
  shows "\<exists>s'. CoExitTask c (OsSchedUnlock c cb) s = Some s' \<and> kernel_inv c s'"
proof -
  obtain n rs ds fs where k: "kcore c s (Some n) rs ds fs" "TCBNext s = Some n" "TCBRunning s = Some n" "OSSchedLock s = 0" "chosen s n rs"
    "no_overflow c n s" "n \<in> live c fs" "n \<notin> set rs" "n \<notin> fst ` set ds" "state (TCBTbl s n) = TASK_RUNNING"
    using kernel_invE [OF assms(1-3)] .
  have "taskID (TCBTbl s n) = n" using kcoreD(19) [OF k(1)] k(7) by (simp add: live_def)
  moreover have "known c s n" using k(10) assms(4) by (simp add: known_def)
  ultimately show ?thesis using delete_step [OF assms(1-3), of n cb] k(3) by (auto simp: CoExitTask_def)
qed

end
