(* ===== verification/KernelRuns.thy ===== *)
theory KernelRuns
  imports TaskSteps Memory
begin

unbundle bit_operations_syntax

text \<open>
  Runs of the kernel from reset: \<open>CoInitOS\<close>, the calls of \<open>CreateTask\<close> in \<open>main\<close>, \<open>CoStartOS\<close>, and then
  the calls of the tasks, the ticks and the context switches in any order.
\<close>

section \<open>The control blocks after reset\<close>

definition all_tids :: "config \<Rightarrow> OS_TID list" where
  "all_tids c = map of_nat [0..<task_max c]"

lemma tid_of_nat: "i \<le> 255 \<Longrightarrow> unat (of_nat i :: OS_TID) = i"
  by (simp add: unat_of_nat)

definition fresh_tcb :: "config \<Rightarrow> OS_TID \<Rightarrow> OSTCB" where
  "fresh_tcb c t = OSTCB_zero\<lparr>taskID := t, state := (if unat t < task_max c - 1 then TASK_DORMANT else TASK_READY),
     TCBnext := (if unat t < task_max c - 1 then Some (t + 1) else None)\<rparr>"

text \<open>The body of the loop of \<open>CreateTCBList\<close>.\<close>

definition link_tcb :: "bool \<Rightarrow> nat \<Rightarrow> kernel \<Rightarrow> kernel" where
  "link_tcb ord i s =
     (let s = upd_tcb (of_nat i) (\<lambda>t. t\<lparr>taskID := of_nat i, state := TASK_DORMANT, TCBnext := Some (of_nat (i + 1))\<rparr>) s
      in if ord then s else s\<lparr>RdyTaskPri := (RdyTaskPri s)(i := INVALID_ID), ActivePri := (ActivePri s)(i := INVALID_ID)\<rparr>)"

definition linked_tcb :: "nat \<Rightarrow> (OS_TID \<Rightarrow> OSTCB) \<Rightarrow> OS_TID \<Rightarrow> OSTCB" where
  "linked_tcb k T t = (if unat t < k then (T t)\<lparr>taskID := t, state := TASK_DORMANT, TCBnext := Some (t + 1)\<rparr> else T t)"

lemma link_tcb_loop:
  "k \<le> 254 \<Longrightarrow> \<exists>R A. fold (link_tcb ord) [0..<k] s = s\<lparr>TCBTbl := linked_tcb k (TCBTbl s), RdyTaskPri := R, ActivePri := A\<rparr>"
proof (induction k)
  case 0
  have "linked_tcb 0 (TCBTbl s) = TCBTbl s" by (simp add: linked_tcb_def fun_eq_iff)
  then show ?case by (intro exI [of _ "RdyTaskPri s"] exI [of _ "ActivePri s"]) simp
next
  case (Suc k)
  let ?k = "of_nat k :: OS_TID" and ?T = "linked_tcb k (TCBTbl s)"
  have k: "unat ?k = k" using Suc.prems by (simp add: tid_of_nat)
  obtain R A where IH: "fold (link_tcb ord) [0..<k] s = s\<lparr>TCBTbl := ?T, RdyTaskPri := R, ActivePri := A\<rparr>"
    using Suc.IH Suc.prems by auto
  have "(?T(?k := (?T ?k)\<lparr>taskID := ?k, state := TASK_DORMANT, TCBnext := Some (?k + 1)\<rparr>)) t = linked_tcb (Suc k) (TCBTbl s) t" for t
    using k by (cases "t = ?k") (auto simp: linked_tcb_def less_Suc_eq word_unat_eq_iff)
  then have T: "?T(?k := (?T ?k)\<lparr>taskID := ?k, state := TASK_DORMANT, TCBnext := Some (?k + 1)\<rparr>) = linked_tcb (Suc k) (TCBTbl s)" by blast
  have "fold (link_tcb ord) [0..<Suc k] s = link_tcb ord k (s\<lparr>TCBTbl := ?T, RdyTaskPri := R, ActivePri := A\<rparr>)" by (simp add: IH)
  also have "\<dots> = s\<lparr>TCBTbl := linked_tcb (Suc k) (TCBTbl s), RdyTaskPri := (if ord then R else R(k := INVALID_ID)),
      ActivePri := (if ord then A else A(k := INVALID_ID))\<rparr>"
    by (simp add: link_tcb_def T [symmetric] add.commute)
  finally show ?case by blast
qed

lemma CreateTCBList_ok:
  assumes "config_ok c"
  shows "\<exists>T R A. CreateTCBList c (kernel_start\<lparr>mem := m\<rparr>) =
      kernel_start\<lparr>TCBTbl := T, RdyTaskPri := R, ActivePri := A, FreeTCB := Some 0, mem := m\<rparr> \<and>
    (\<forall>t. unat t < task_max c \<longrightarrow> T t = fresh_tcb c t)"
proof -
  let ?n = "task_max c - 1" and ?s = "kernel_start\<lparr>mem := m\<rparr>" and ?ord = "CFG_ORDER_LIST_SCHEDULE_EN c"
  have n: "?n \<le> 254" "0 < task_max c" using assms by (simp_all add: config_ok_def task_max_def SYS_TASK_NUM_def)
  let ?L = "linked_tcb ?n (TCBTbl ?s)"
  obtain R A where L: "fold (link_tcb ?ord) [0..<?n] ?s = ?s\<lparr>TCBTbl := ?L, RdyTaskPri := R, ActivePri := A\<rparr>"
    using link_tcb_loop [OF n(1)] by blast
  have s: "(if ?ord then ?s else ?s\<lparr>PriNum := 0\<rparr>) = ?s" by (simp add: kernel_start_def)
  have body: "(\<lambda>i s. let s = upd_tcb (of_nat i) (\<lambda>t. t\<lparr>taskID := of_nat i, state := TASK_DORMANT, TCBnext := Some (of_nat (i + 1))\<rparr>) s
      in if ?ord then s else s\<lparr>RdyTaskPri := (RdyTaskPri s)(i := INVALID_ID), ActivePri := (ActivePri s)(i := INVALID_ID)\<rparr>) = link_tcb ?ord"
    by (intro ext) (simp only: link_tcb_def)
  define T where "T = ?L(of_nat ?n := (?L (of_nat ?n))\<lparr>taskID := of_nat ?n, TCBnext := None\<rparr>)"
  have "T t = fresh_tcb c t" if "unat t < task_max c" for t
  proof (cases "t = of_nat ?n")
    case True
    then have "unat t = ?n" using n tid_of_nat [of ?n] by simp
    then show ?thesis using True by (simp add: T_def fresh_tcb_def linked_tcb_def kernel_start_def OSTCB_zero_def)
  next
    case False
    then have "unat t \<noteq> ?n" using tid_of_nat [of ?n] n by (auto simp: word_unat_eq_iff)
    then have "unat t < ?n" using that by simp
    then show ?thesis using False by (simp add: T_def fresh_tcb_def linked_tcb_def kernel_start_def)
  qed
  moreover have "CreateTCBList c ?s = kernel_start\<lparr>TCBTbl := T, RdyTaskPri := R,
      ActivePri := (if ?ord then A else A(?n := INVALID_ID)), FreeTCB := Some 0, mem := m\<rparr>"
    unfolding CreateTCBList_def body unfolding Let_def s L by (simp add: T_def)
  ultimately show ?thesis by blast
qed

lemma free_chain_upto:
  assumes "\<And>t. unat t < task_max c \<Longrightarrow> TCBTbl s t = fresh_tcb c t" and "task_max c \<le> 254" and "j < task_max c"
  shows "free_chain s (Some (of_nat j)) (map of_nat [j..<task_max c])"
  using assms(3)
proof (induction "task_max c - j" arbitrary: j)
  case (Suc d)
  have u: "unat (of_nat j :: OS_TID) = j" using Suc.prems assms(2) by (simp add: tid_of_nat)
  have b: "TCBTbl s (of_nat j) = fresh_tcb c (of_nat j)" using assms(1) u Suc.prems by simp
  have l: "[j..<task_max c] = j # [Suc j..<task_max c]" using Suc.prems by (rule upt_conv_Cons)
  show ?case
  proof (cases "Suc j < task_max c")
    case True
    then have "free_chain s (Some (of_nat (Suc j))) (map of_nat [Suc j..<task_max c])" using Suc.hyps(1) [of "Suc j"] Suc.hyps(2) by linarith
    moreover have "TCBnext (TCBTbl s (of_nat j)) = Some (of_nat (Suc j))" using b u True by (simp add: fresh_tcb_def)
    ultimately show ?thesis by (simp add: l del: of_nat_Suc)
  next
    case False
    then have "TCBnext (TCBTbl s (of_nat j)) = None" using b u by (simp add: fresh_tcb_def)
    then show ?thesis using False by (simp add: l)
  qed
qed simp

lemma all_tids_simps:
  assumes "task_max c \<le> 254"
  shows "distinct (all_tids c)" "t \<in> set (all_tids c) \<longleftrightarrow> unat t < task_max c"
proof -
  have "inj_on (of_nat :: nat \<Rightarrow> OS_TID) {0..<task_max c}"
  proof (rule inj_on_inverseI)
    fix i assume "i \<in> {0..<task_max c}"
    then show "unat (of_nat i :: OS_TID) = i" using assms by (intro tid_of_nat) simp
  qed
  then show "distinct (all_tids c)" by (simp add: all_tids_def distinct_map)
  have "unat t < task_max c \<Longrightarrow> t = of_nat (unat t)" by simp
  then show "t \<in> set (all_tids c) \<longleftrightarrow> unat t < task_max c" using assms by (force simp: all_tids_def tid_of_nat image_iff)
qed

text \<open>Nothing exists yet: the state before the idle task is created.\<close>

lemma fresh_tasks_inv:
  assumes "\<And>t. unat t < task_max c \<Longrightarrow> TCBTbl s t = fresh_tcb c t" and "task_max c \<le> 254" and "0 < task_max c" and "FreeTCB s = Some 0"
    and "TCBRdy s = None" and "DlyList s = None" and "PriNum s = 0"
  shows "tasks_inv c s [] [] (all_tids c)"
proof -
  have "rdy_inv c s []"
    using assms(2,5,7) by (simp add: rdy_inv_def rdy_list_def dlist_def tables_inv_def)
  moreover have "dly_rep s []" using assms(6) by (simp add: dly_rep_def delta_rep_def dlist_def)
  moreover have "free_chain s (Some 0) (all_tids c)"
    using free_chain_upto [OF assms(1,2,3)] by (simp add: all_tids_def)
  moreover have "taskID (TCBTbl s t) = t" if "unat t < task_max c" for t using assms(1) [OF that] by (simp add: fresh_tcb_def)
  ultimately show ?thesis using assms(4) all_tids_simps [OF assms(2)] by (simp add: tasks_inv_def lists_inv_def)
qed

section \<open>From reset to the first task\<close>

text \<open>What the build and the link map provide.\<close>

definition image_ok :: "config \<Rightarrow> bool" where
  "image_ok c \<longleftrightarrow> config_ok c \<and> CFG_IDLE_STACK_SIZE c < 4096 \<and> \<not> bad_addr (KernelHeap c) \<and> CoIdleTask_entry c \<noteq> 0 \<and>
     unat (idle_stk c) + 4 * CFG_IDLE_STACK_SIZE c \<le> 2 ^ 32"

text \<open>Between \<open>CoInitOS\<close> and \<open>CoStartOS\<close> the scheduler is locked and no task runs.\<close>

definition boot_inv :: "config \<Rightarrow> kernel \<Rightarrow> bool" where
  "boot_inv c s \<longleftrightarrow> (\<exists>rs fs. kcore c s None rs [] fs) \<and> OSSchedLock s = 1 \<and> TaskSchedReq s"

lemma idle_created:
  fixes pri :: U8 and sz :: U32
  assumes "\<And>t. unat t < task_max c \<Longrightarrow> TCBTbl s t = fresh_tcb c t" and "task_max c \<le> 254" and "0 < task_max c" and "FreeTCB s = Some 0"
    and "TCBRdy s = None" and "DlyList s = None" and "PriNum s = 0" and "quiet s" and "OSSchedLock s = 1"
    and "task \<noteq> 0" and "stk \<noteq> 0" and "pri \<le> CFG_LOWEST_PRIO c" and "20 \<le> unat sz" and "unat sz < 4096"
  shows "\<exists>s' fs. CreateTask c (OsSchedUnlock c cb) task argv (CoCreateTaskEx_param (ucast pri) sz 0 0) stk s = Some (0, s') \<and>
    kcore c s' None [0] [] fs \<and> OSSchedLock s' = 1 \<and> TaskSchedReq s' \<and> stkPtr (TCBTbl s' 0) = stk - 60 \<and>
    (CFG_STK_CHECKOUT_EN c \<longrightarrow> stack (TCBTbl s' 0) = stk + 4 - 4 * sz \<and> mem s' (stk + 4 - 4 * sz) = MAGIC_WORD)"
proof -
  obtain fs where fs: "all_tids c = 0 # fs" using assms(3) by (simp add: all_tids_def upt_conv_Cons)
  have T: "tasks_inv c s [] [] (0 # fs)" using fresh_tasks_inv [OF assms(1-7)] fs by simp
  have all: "u \<in> set (0 # fs) \<longleftrightarrow> unat u < task_max c" for u using all_tids_simps(2) [OF assms(2)] fs by metis
  have d: "0 \<notin> set fs" using all_tids_simps(1) [OF assms(2)] fs by simp
  have lv: "live c fs = {0}" using all d by (auto simp: live_def)
  define bottom where "bottom = stk + 4 - 4 * sz"
  define b where "b = init_tcb c (stk - 60) pri bottom (ucast (0 :: U32)) (TCBTbl s 0)"
  define s1 where "s1 = s\<lparr>TCBTbl := (TCBTbl s)(0 := b), FreeTCB := TCBnext (TCBTbl s 0),
    mem := (if CFG_STK_CHECKOUT_EN c then (first_frame task argv stk (mem s))(bottom := MAGIC_WORD) else first_frame task argv stk (mem s))\<rparr>"
  have "OSSchedLock s \<noteq> 0 \<or> \<not> IsrReq s \<and> \<not> TaskSchedReq s" using assms(9) by simp
  note steps = CreateTask_steps [OF assms(4) this assms(10-14), where argv = argv and cb = cb and w = False and ts = 0, folded bottom_def, folded b_def, folded s1_def]
  have id: "taskID (TCBTbl s 0) = 0" using assms(1) [of 0] assms(3) by (simp add: fresh_tcb_def)
  have b: "TCBnext b = None" "TCBprev b = None" "prio b = pri" "taskID b = 0" "delayTick b = INVALID_VALUE" "eventID b = INVALID_ID"
    "mutexID b = INVALID_ID" "pnode b = PNode_null" using id by (simp_all add: b_def init_tcb_def Let_def)
  have s1: "TCBTbl s1 = (TCBTbl s)(0 := b)" "s1 = s\<lparr>TCBTbl := TCBTbl s1, FreeTCB := TCBnext (TCBTbl s 0), mem := mem s1\<rparr>"
    by (simp_all add: s1_def)
  have "pri_room c s" using assms(3,7) by (simp add: pri_room_def)
  then obtain s2 where s2: "(if CFG_ORDER_LIST_SCHEDULE_EN c then Some s1 else ActiveTaskPri pri s1) = Some s2" "pri_frame s1 s2"
    "tasks_inv c s2 [] [] fs" "admissible c s2 0"
    using create_insert [OF T _ s1(1) b(1-4) s1(2)] by blast
  note fr = pri_frameD [OF s2(2)] pri_frame_rest [OF s2(2)]
  let ?l = "OsSchedLock s2"
  have "tasks_inv c ?l [] [] fs" "admissible c ?l 0"
    using s2(3,4) tasks_inv_cong [of s2 ?l] same_lists_cong(3) [of s2 ?l] by (simp_all add: same_lists_def OsSchedLock_def)
  then obtain s3 where s3: "InsertToTCBRdyList c 0 ?l = Some s3" "tasks_inv c s3 [0] [] fs" "ins_frame 0 [] ?l s3"
    using tasks_insert_ok [of c ?l "[]" "[]" fs 0] d by auto
  have rf: "rdy_frame ?l s3" and q: "TaskSchedReq s3" using s3(3) by (simp_all add: ins_frame_def)
  note R = rdy_frameD [OF rf, unfolded OsSchedLock_def, simplified] and I = ins_frame_tcb [OF s3(3)]
  have T3: "TCBTbl s3 u = TCBTbl s u" if "u \<noteq> 0" for u using I(11) [of u] that fr(1) by (simp add: OsSchedLock_def s1_def)
  have b3: "plain s3 0" "state (TCBTbl s3 0) = TASK_READY" "delayTick (TCBTbl s3 0) = INVALID_VALUE" "priof s3 0 = pri" "taskID (TCBTbl s3 0) = 0"
    using b fr(1) by (simp_all add: I plain_def OsSchedLock_def s1_def)
  have "task_ok s3 None [0] [] fs u" if "unat u < task_max c" for u
  proof (cases "u = 0")
    case True
    then show ?thesis using d b3 by (simp add: task_ok_def)
  next
    case False
    then have "u \<in> set fs" using that all by auto
    then show ?thesis using T3 [OF False] assms(1) [OF that] by (simp add: task_ok_def fresh_tcb_def OSTCB_zero_def)
  qed
  moreover have "pri_ok c s3 fs"
  proof (cases "CFG_ORDER_LIST_SCHEDULE_EN c")
    case False
    have f: "PriNum s1 = 0" using assms(7) by (simp add: s1_def)
    have "tables_inv c s1 []" using f assms(2) by (simp add: tables_inv_def)
    then have e: "\<And>q. pri_active s2 q \<longleftrightarrow> pri_active s1 q \<or> q = pri" "\<And>q. pri_count s2 q = pri_count s1 q + of_bool (q = pri)"
      using ActiveTaskPri_ok [of c s1 "[]" pri] f assms(3) s2(1) False by auto
    have z: "\<not> pri_active s1 q" "pri_count s1 q = 0" for q using f by (simp_all add: pri_active_def pri_count_def)
    have g: "PriNum s3 = PriNum s2" "ActivePri s3 = ActivePri s2" "TaskNumPerPri s3 = TaskNumPerPri s2" using R by simp_all
    have "pri_active s3 q \<longleftrightarrow> q = pri" "pri_count s3 q = of_bool (q = pri)" for q
      using e [of q] z [of q] unfolding pri_active_def pri_count_def g by simp_all
    moreover have "card {t \<in> live c fs. priof s3 t = q} = of_bool (q = pri)" for q
    proof -
      have "{t \<in> live c fs. priof s3 t = q} = (if q = pri then {0} else {})" using lv b3(4) by auto
      then show ?thesis by simp
    qed
    ultimately show ?thesis by (simp add: pri_ok_def)
  qed (simp add: pri_ok_def)
  moreover have "quiet s3" using assms(8) R fr by (simp add: quiet_def s1_def)
  ultimately have kc: "kcore c s3 None [0] [] fs" using s3(2) lv by (intro kcoreI) simp_all
  let ?s = "s3\<lparr>OSSchedLock := 1\<rparr>"
  have "kcore c ?s None [0] [] fs = kcore c s3 None [0] [] fs" by (rule kcore_cong) (simp_all add: same_lists_def quiet_def)
  then have "kcore c ?s None [0] [] fs" using kc by simp
  moreover have "stkPtr (TCBTbl s3 0) = stk - 60" "CFG_STK_CHECKOUT_EN c \<Longrightarrow> stack (TCBTbl s3 0) = bottom \<and> mem s3 bottom = MAGIC_WORD"
    using tcb_frameD(7,8) [OF tcb_frame_ins [OF s3(3)], of 0] fr R by (simp_all add: OsSchedLock_def s1_def b_def init_tcb_def Let_def)
  moreover have "OSSchedLock s3 = 2" using R fr assms(9) by (simp add: s1_def)
  then have "OsSchedUnlock c cb s3 = Some ?s" using unlock_nested [of s3 c cb] by simp
  ultimately show ?thesis using steps s2(1) s3(1) b3(5) q by (intro exI [of _ ?s] exI [of _ fs]) (simp add: bottom_def)
qed

lemma fold_ecb_frame: "\<exists>E. fold (\<lambda>i. upd_ecb (e i) (f i)) xs s = s\<lparr>EventTbl := E\<rparr>"
proof (induction xs arbitrary: s)
  case Nil
  show ?case by (intro exI [of _ "EventTbl s"]) simp
next
  case (Cons x xs)
  obtain E where "fold (\<lambda>i. upd_ecb (e i) (f i)) xs (upd_ecb (e x) (f x) s) = (upd_ecb (e x) (f x) s)\<lparr>EventTbl := E\<rparr>"
    using Cons by blast
  also have "\<dots> = s\<lparr>EventTbl := E\<rparr>" by simp
  finally show ?case by (intro exI [of _ E]) (simp only: fold_Cons o_apply)
qed

lemma CreateEventList_frame: "\<exists>E. CreateEventList c s = s\<lparr>EventTbl := E, FreeEventList := Some 0\<rparr>"
proof -
  let ?n = "CFG_MAX_EVENT c - 1"
  obtain E where E: "fold (\<lambda>i. upd_ecb (of_nat i) (init_ecb (of_nat i) (VEcb (of_nat (i + 1))))) [0..<?n] s = s\<lparr>EventTbl := E\<rparr>"
    using fold_ecb_frame [of of_nat "\<lambda>i. init_ecb (of_nat i) (VEcb (of_nat (i + 1)))" "[0..<?n]" s] by blast
  show ?thesis unfolding CreateEventList_def Let_def E
    by (intro exI [of _ "E(of_nat ?n := init_ecb (of_nat ?n) vnull (E (of_nat ?n)))"]) simp
qed

lemma CoCreateKheap_frame:
  assumes "\<not> bad_addr (KernelHeap c)"
  shows "\<exists>H m. CoCreateKheap c s = Some (s\<lparr>Kheap := H, FMBlist := KernelHeap c, mem := m\<rparr>)"
proof -
  have u: "mem_update f t = t\<lparr>mem := f (mem t)\<rparr>" for f and t :: kernel by (cases t) simp
  define H where "H = \<lparr>startAddr = KernelHeap c, endAddr = KernelHeap c + of_nat (KHEAP_SIZE c) * 4\<rparr>"
  define f where "f = (\<lambda>m :: U32 \<Rightarrow> U32. m(KernelHeap c + off_nextFMB := 0, KernelHeap c + off_nextUMB := 0, KernelHeap c + off_preUMB := 0))"
  have "CoCreateKheap c s = Some (mem_update f (s\<lparr>Kheap := H, FMBlist := KernelHeap c\<rparr>))"
    using assms by (simp add: CoCreateKheap_def wr_def H_def f_def o_def)
  also have "\<dots> = Some (s\<lparr>Kheap := H, FMBlist := KernelHeap c, mem := f (mem s)\<rparr>)" by (subst u) simp
  finally show ?thesis by blast
qed

lemma init_ok:
  assumes "image_ok c"
  shows "\<exists>p' s'. CoInitOS c (OsSchedUnlock c cb) (p, kernel_start\<lparr>mem := m\<rparr>) = Some (p', s') \<and> (\<exists>fs. kcore c s' None [0] [] fs) \<and>
    OSSchedLock s' = 1 \<and> TaskSchedReq s' \<and> no_overflow c 0 s'"
proof -
  note A = assms [unfolded image_ok_def] and C = conjunct1 [OF assms [unfolded image_ok_def], unfolded config_ok_def]
  have tm: "task_max c \<le> 254" "0 < task_max c" using C by (simp_all add: task_max_def SYS_TASK_NUM_def)
  obtain T R A' where L: "CreateTCBList c (kernel_start\<lparr>mem := m\<rparr>) =
      kernel_start\<lparr>TCBTbl := T, RdyTaskPri := R, ActivePri := A', FreeTCB := Some 0, mem := m\<rparr>"
    "\<And>t. unat t < task_max c \<Longrightarrow> T t = fresh_tcb c t" using CreateTCBList_ok A by blast
  define s1 where "s1 = CreateEventList c (CreateTCBList c (kernel_start\<lparr>mem := m\<rparr>))"
  obtain E where s1: "s1 = kernel_start\<lparr>TCBTbl := T, RdyTaskPri := R, ActivePri := A', FreeTCB := Some 0, mem := m, EventTbl := E, FreeEventList := Some 0\<rparr>"
    using CreateEventList_frame [of c] unfolding s1_def L(1) by blast
  obtain H m' where s2: "CoCreateKheap c s1 = Some (s1\<lparr>Kheap := H, FMBlist := KernelHeap c, mem := m'\<rparr>)"
    using A CoCreateKheap_frame by blast
  let ?s = "OsSchedLock (s1\<lparr>Kheap := H, FMBlist := KernelHeap c, mem := m'\<rparr>)"
  let ?stk = "idle_stk c + 4 * of_nat (CFG_IDLE_STACK_SIZE c - 1)" and ?sz = "of_nat (CFG_IDLE_STACK_SIZE c) :: U32"
  have sz: "20 \<le> unat ?sz" "unat ?sz < 4096" using A C by (simp_all add: unat_of_nat)
  have f: "TCBTbl ?s = T" "FreeTCB ?s = Some 0" "TCBRdy ?s = None" "DlyList ?s = None" "PriNum ?s = 0" "quiet ?s" "OSSchedLock ?s = 1"
    by (simp_all add: s1 kernel_start_def OsSchedLock_def quiet_def)
  have "CoCreateTask_param (ucast (CFG_LOWEST_PRIO c)) ?sz = CoCreateTaskEx_param (ucast (CFG_LOWEST_PRIO c)) ?sz 0 0"
    by (simp add: CoCreateTask_param_def CoCreateTaskEx_param_def)
  moreover have "unat ?stk = unat (idle_stk c) + 4 * (CFG_IDLE_STACK_SIZE c - 1)"
  proof -
    have "unat (4 * of_nat (CFG_IDLE_STACK_SIZE c - 1) :: U32) = 4 * (CFG_IDLE_STACK_SIZE c - 1)"
      using conjunct1 [OF conjunct2 [OF A]] by (simp add: unat_word_ariths unat_of_nat mod_less)
    moreover have "unat (idle_stk c) + 4 * (CFG_IDLE_STACK_SIZE c - 1) < 2 ^ 32" using A C by linarith
    ultimately show ?thesis by (subst unat_plus_simple [THEN iffD1]) (simp_all add: word_le_nat_alt unat_word_ariths)
  qed
  then have stk: "unat ?stk = unat (idle_stk c) + 4 * CFG_IDLE_STACK_SIZE c - 4" "?stk \<noteq> 0" using C by (auto simp: right_diff_distrib')
  ultimately obtain s' fs where s': "CreateTask c (OsSchedUnlock c cb) (CoIdleTask_entry c) 0 (CoCreateTask_param (ucast (CFG_LOWEST_PRIO c)) ?sz) ?stk ?s = Some (0, s')"
    "kcore c s' None [0] [] fs" "OSSchedLock s' = 1" "TaskSchedReq s'" "stkPtr (TCBTbl s' 0) = ?stk - 60"
    "CFG_STK_CHECKOUT_EN c \<Longrightarrow> stack (TCBTbl s' 0) = ?stk + 4 - 4 * ?sz \<and> mem s' (?stk + 4 - 4 * ?sz) = MAGIC_WORD"
    using idle_created [of c ?s "CoIdleTask_entry c" ?stk "CFG_LOWEST_PRIO c" ?sz cb 0] L(2) tm f A sz by auto
  have bot: "?stk + 4 - 4 * ?sz = idle_stk c" using C by (simp add: of_nat_diff algebra_simps)
  note top = s'(6) [unfolded bot]
  have "idle_stk c \<le> ?stk - 60"
  proof -
    have n: "25 \<le> CFG_IDLE_STACK_SIZE c" using C by blast
    then have "60 \<le> unat ?stk" using stk(1) by linarith
    then have "unat (?stk - 60) = unat ?stk - 60" by (subst unat_sub) (simp_all add: word_le_nat_alt)
    then show ?thesis using stk(1) n unfolding word_le_nat_alt by linarith
  qed
  then have "no_overflow c 0 s'" using s'(5) top by (auto simp: no_overflow_def stk_overflow_def not_less)
  then show ?thesis using s2 s' by (auto simp: CoInitOS_def s1_def [symmetric])
qed

text \<open>\<open>main\<close> creates tasks before the start: the nested unlock never switches.\<close>

lemma boot_create:
  fixes pri :: U8 and sz ts argv :: U32 and w :: bool
  assumes "boot_inv c s" and "FreeTCB s \<noteq> None" and "task \<noteq> 0" and "stk \<noteq> 0" and "pri \<le> CFG_LOWEST_PRIO c"
    and "20 \<le> unat sz" and "unat sz < 4096" and "unat ts < 2048"
  shows "\<exists>r s'. CreateTask c (OsSchedUnlock c cb) task argv (CoCreateTaskEx_param (ucast pri) sz ts (of_bool w)) stk s = Some (r, s') \<and> boot_inv c s'"
proof -
  obtain rs gs where k: "kcore c s None rs [] gs" "OSSchedLock s = 1" "TaskSchedReq s" using assms(1) by (auto simp: boot_inv_def)
  have q: "OSSchedLock s \<noteq> 0 \<or> \<not> TaskSchedReq s" using k(2) by simp
  obtain t fs s3 where s3: "gs = t # fs" "kcore c s3 None rs [] fs" "t \<in> live c fs" "t \<notin> set rs" "t \<notin> fst ` set ([] :: (OS_TID \<times> nat) list)" "None \<noteq> Some t"
    "CreateTask c (OsSchedUnlock c cb) task argv (CoCreateTaskEx_param (ucast pri) sz ts (of_bool w)) stk s =
       (if w then Some (t, s3) else do { s \<leftarrow> InsertToTCBRdyList c t (OsSchedLock s3); s \<leftarrow> OsSchedUnlock c cb s; Some (taskID (TCBTbl s t), s) })"
    "TCBNext s3 = TCBNext s" "TCBRunning s3 = TCBRunning s"
    and f3: "OSSchedLock s3 = OSSchedLock s" "TaskSchedReq s3 = TaskSchedReq s" "\<forall>u. u \<noteq> t \<longrightarrow> TCBTbl s3 u = TCBTbl s u"
    "mem s3 = (if CFG_STK_CHECKOUT_EN c then (first_frame task argv stk (mem s))(stk + 4 - 4 * sz := MAGIC_WORD)
               else first_frame task argv stk (mem s))"
    using create_core [OF k(1) assms(2) q assms(3-8), where cb = cb and argv = argv and w = w] .
  show ?thesis
  proof (cases w)
    case True
    then show ?thesis using s3(2,7) f3 k(2,3) by (auto simp: boot_inv_def)
  next
    case False
    have ki: "kcore c (OsSchedLock s3) None rs [] fs" using s3(2) by (simp add: kcore_lock)
    obtain s4 where s4: "InsertToTCBRdyList c t (OsSchedLock s3) = Some s4"
      "kcore c s4 None (insort_after (priof (OsSchedLock s3)) t rs) [] fs" "ins_frame t rs (OsSchedLock s3) s4"
      using ready_core [OF ki s3(3-6)] .
    have rf: "rdy_frame (OsSchedLock s3) s4" "TaskSchedReq s4" using s4(3) f3(2) k(3) by (simp_all add: ins_frame_def OsSchedLock_def)
    have l: "OSSchedLock s4 = 2" using rdy_frameD [OF rf(1)] f3(1) k(2) by (simp add: OsSchedLock_def)
    have "kcore c (s4\<lparr>OSSchedLock := 1\<rparr>) None rs' [] fs = kcore c s4 None rs' [] fs" for rs'
      by (rule kcore_cong) (simp_all add: same_lists_def quiet_def)
    then have "boot_inv c (s4\<lparr>OSSchedLock := 1\<rparr>)" using s4(2) rf(2) by (auto simp: boot_inv_def)
    moreover have "OsSchedUnlock c cb s4 = Some (s4\<lparr>OSSchedLock := 1\<rparr>)" using unlock_nested [of s4 c cb] l by simp
    ultimately show ?thesis using False s3(7) s4(1) by auto
  qed
qed

lemma boot_create_step:
  fixes pri :: U8 and sz ts argv :: U32 and w :: bool
  assumes "boot_inv c s" and "CFG_PAR_CHECKOUT_EN c" and "packable c sz ts"
  shows "\<exists>r s'. CreateTask c (OsSchedUnlock c cb) task argv (CoCreateTaskEx_param (ucast pri) sz ts (of_bool w)) stk s = Some (r, s') \<and> boot_inv c s'"
proof (cases "FreeTCB s = None \<or> task = 0 \<or> stk = 0 \<or> ucast (CoCreateTaskEx_param (ucast pri) sz ts (of_bool w) AND 0xff) > CFG_LOWEST_PRIO c \<or>
    CFG_STK_CHECKOUT_EN c \<and> (ucast (drop_bit 8 (CoCreateTaskEx_param (ucast pri) sz ts (of_bool w) AND 0xfff00)) :: U16) < 20")
  case True
  have "OSSchedLock s \<noteq> 0 \<or> \<not> IsrReq s \<and> \<not> TaskSchedReq s" using assms(1) by (simp add: boot_inv_def)
  moreover have "boot_inv c (s\<lparr>mem := m\<rparr>)" for m using assms(1) by (simp add: boot_inv_def kcore_mem)
  ultimately show ?thesis using create_rejects [OF _ assms(2) True, of cb argv] by blast
next
  case False
  show ?thesis using boot_create [OF assms(1) create_checks [OF assms(3) False]] .
qed

text \<open>\<open>CoStartOS\<close> gives the processor to the idle task and lets the scheduler choose.\<close>

lemma start_core:
  assumes "kcore c s None rs [] fs" and "OSSchedLock s = 1" and "TaskSchedReq s" and "no_overflow c 0 s"
  obtains s1 where "CoStartOS c unl s = unl s1" "kcore c s1 (Some 0) (remove1 0 rs) [] fs" "TCBRunning s1 = Some 0" "TCBNext s1 = Some 0"
    "OSSchedLock s1 = 1" "TaskSchedReq s1" "no_overflow c 0 s1" "0 \<notin> set fs"
proof -
  note K = kcoreD [OF assms(1)]
  have z: "0 \<in> set rs" "0 \<in> live c fs" using K(6,10) by auto
  define sa where "sa = upd_tcb 0 (state_update (\<lambda>_. TASK_RUNNING)) (s\<lparr>TCBRunning := Some 0, TCBNext := Some 0\<rparr>)"
  have "tasks_inv c sa rs [] fs" using K(1) tasks_inv_cong [of s sa] by (simp add: same_lists_def sa_def)
  then obtain s1 where s1: "RemoveFromTCBRdyList c 0 sa = Some s1" "tasks_inv c s1 (remove1 0 rs) [] fs"
    "rem_frame rs sa s1" "admissible c s1 0" "0 \<notin> set (remove1 0 rs)" "0 \<notin> set fs"
    using tasks_remove_ok [OF _ z(1)] by blast
  have fr: "rdy_frame sa s1" and lo: "links_only (set rs) (TCBTbl sa) (TCBTbl s1)" and q: "TaskSchedReq s1"
    using s1(3) assms(3) by (simp_all add: rem_frame_def sa_def)
  note R = rdy_frameD [OF fr, unfolded sa_def, simplified] and L = links_onlyD [OF lo]
  let ?rs = "remove1 0 rs"
  have rs': "set ?rs = set rs - {0}" using K(18) by (simp add: set_remove1_eq)
  have F: "tcb_frame (set rs) s s1" using tcb_frame_rem [OF s1(3)] z(1) by (auto simp: sa_def tcb_frame_def)
  have "task_ok s1 (Some 0) ?rs [] fs u" if "unat u < task_max c" for u
  proof (cases "u = 0")
    case True
    have "task_ok s None rs [] fs 0" "unlinked s1 0" using K(4) [OF that] True s1(4) by (simp_all add: admissible_def)
    then show ?thesis using True s1(6) by (simp add: task_ok_def plain_def tcb_frameD(4-6) [OF F] L sa_def)
  next
    case False
    then show ?thesis using rs' by (intro task_ok_frame [OF K(4) [OF that] F]) (simp_all add: L sa_def)
  qed
  moreover have "pri_ok c s1 fs = pri_ok c s fs" by (rule pri_ok_cong) (simp_all add: R tcb_frameD(2) [OF F])
  moreover have "quiet s1" using K(12-14) R by (simp add: quiet_def)
  moreover have "set ?rs \<subseteq> live c fs" "set_option (Some 0) \<inter> (set ?rs \<union> fst ` set []) = {}" using K(6) rs' by auto
  ultimately have "kcore c s1 (Some 0) ?rs [] fs" using s1(2) K(5) z(2) by (intro kcoreI) simp_all
  moreover have "no_overflow c 0 s1" by (rule no_overflow_frame [OF assms(4) F]) (use R in simp)
  moreover have "CoStartOS c unl s = unl s1" using s1(1) by (simp add: CoStartOS_def sa_def)
  ultimately show thesis using that q s1(6) R assms(2) by simp
qed

lemma start_ok:
  assumes "boot_inv c s" and "no_overflow c 0 s"
  shows "\<exists>s'. CoStartOS c (OsSchedUnlock c cb) s = Some s' \<and> kernel_inv c s'"
proof -
  obtain rs fs where k: "kcore c s None rs [] fs" "OSSchedLock s = 1" "TaskSchedReq s" using assms(1) by (auto simp: boot_inv_def)
  obtain s1 where s1: "CoStartOS c (OsSchedUnlock c cb) s = OsSchedUnlock c cb s1" "kcore c s1 (Some 0) (remove1 0 rs) [] fs"
    "TCBRunning s1 = Some 0" "TCBNext s1 = Some 0" "OSSchedLock s1 = 1" "TaskSchedReq s1" "no_overflow c 0 s1" "0 \<notin> set fs"
    using start_core [OF k assms(2)] .
  then show ?thesis using unlock_ok [OF s1(2,4,3,5), of cb] by (simp add: chosen_def)
qed

text \<open>Without any other task the idle task keeps the processor.\<close>

lemma start_idle:
  assumes "kcore c s None [0] [] fs" and "OSSchedLock s = 1" and "TaskSchedReq s" and "no_overflow c 0 s"
  shows "\<exists>s'. CoStartOS c (OsSchedUnlock c cb) s = Some s' \<and> TCBRunning s' = Some 0 \<and> settled s' \<and> stack_ok c s'"
proof -
  obtain s1 where s1: "CoStartOS c (OsSchedUnlock c cb) s = OsSchedUnlock c cb s1" "kcore c s1 (Some 0) (remove1 0 [0]) [] fs"
    "TCBRunning s1 = Some 0" "TCBNext s1 = Some 0" "OSSchedLock s1 = 1" "TaskSchedReq s1" "no_overflow c 0 s1" "0 \<notin> set fs"
    using start_core [OF assms] .
  have "Schedule c s1 = Some s1" using s1(3,4) rq.head [OF kcoreD(2) [OF s1(2)]] by (simp add: Schedule_def)
  then have "OsSchedUnlock c cb s1 = Some (s1\<lparr>OSSchedLock := 0\<rparr>)" using unlock_outermost [OF s1(5) kcoreD(13) [OF s1(2)]] s1(6) by simp
  then show ?thesis using s1 by (simp add: settled_def stack_ok_def no_overflow_def stk_overflow_def)
qed

section \<open>Runs\<close>

text \<open>
  The calls on tasks, with the arguments of the source. A call reaches the kernel from the task that
  has the processor; the tick may come at any time, and the context switch happens when the pending
  interrupt is taken. Between them the tasks compute, which may change all registers and all memory
  outside the tables of the kernel.
\<close>

datatype kcall =
    Create U32 U32 U8 U32 U32 bool U32
  | Delete OS_TID
  | Exit
  | Suspend OS_TID
  | Awake OS_TID
  | Delay U32

datatype kevent = Call kcall | Tick | Switch | Compute

fun do_call :: "config \<Rightarrow> (U32 \<Rightarrow> kernel \<Rightarrow> kernel option) \<Rightarrow> kcall \<Rightarrow> kernel \<Rightarrow> kernel option" where
  "do_call c cb (Create task argv pri sz ts w stk) s =
     map_option snd (CreateTask c (OsSchedUnlock c cb) task argv (CoCreateTaskEx_param (ucast pri) sz ts (of_bool w)) stk s)"
| "do_call c cb (Delete t) s = map_option snd (CoDelTask c (OsSchedUnlock c cb) t s)"
| "do_call c cb Exit s = CoExitTask c (OsSchedUnlock c cb) s"
| "do_call c cb (Suspend t) s = map_option snd (CoSuspendTask c (OsSchedUnlock c cb) t s)"
| "do_call c cb (Awake t) s = map_option snd (CoAwakeTask c (OsSchedUnlock c cb) t s)"
| "do_call c cb (Delay n) s = map_option snd (CoTickDelay (OsSchedUnlock c cb) n s)"

text \<open>The rules that the calling task keeps to.\<close>

fun may_call :: "config \<Rightarrow> kcall \<Rightarrow> kernel \<Rightarrow> bool" where
  "may_call c (Create task argv pri sz ts w stk) s \<longleftrightarrow> creatable c task argv stk s \<and> packable c sz ts"
| "may_call c (Delete t) s \<longleftrightarrow> known c s t"
| "may_call c Exit s \<longleftrightarrow> CFG_PAR_CHECKOUT_EN c"
| "may_call c (Suspend t) s \<longleftrightarrow> known c s t"
| "may_call c (Awake t) s \<longleftrightarrow> known c s t"
| "may_call c (Delay n) s \<longleftrightarrow> TCBRunning s \<noteq> Some 0 \<and> unat n < 2 ^ 31"

fun enabled :: "config \<Rightarrow> kevent \<Rightarrow> kernel \<Rightarrow> bool" where
  "enabled c (Call k) s \<longleftrightarrow> settled s \<and> stack_ok c s \<and> may_call c k s"
| "enabled c Tick s \<longleftrightarrow> stack_ok c s"
| "enabled c Switch s \<longleftrightarrow> True"
| "enabled c Compute s \<longleftrightarrow> True"

inductive kstep ::
  "config \<Rightarrow> (U32 \<Rightarrow> kernel \<Rightarrow> kernel option) \<Rightarrow> cpu \<times> kernel \<Rightarrow> kevent \<Rightarrow> cpu \<times> kernel \<Rightarrow> bool"
  for c and cb where
  call: "enabled c (Call k) s \<Longrightarrow> do_call c cb k s = Some s' \<Longrightarrow> kstep c cb (p, s) (Call k) (p, s')"
| tick: "enabled c Tick s \<Longrightarrow> SysTick_Handler c cb (OsSchedUnlock c cb) s = Some s' \<Longrightarrow> kstep c cb (p, s) Tick (p, s')"
| switch: "PendSV_Handler_M3 (p, s) = Some q \<Longrightarrow> kstep c cb (p, s) Switch q"
| compute: "kstep c cb (p, s) Compute (p', s\<lparr>mem := m\<rparr>)"

inductive booted :: "config \<Rightarrow> (U32 \<Rightarrow> kernel \<Rightarrow> kernel option) \<Rightarrow> cpu \<times> kernel \<Rightarrow> bool"
  for c and cb where
  init: "CoInitOS c (OsSchedUnlock c cb) (p, kernel_start\<lparr>mem := m\<rparr>) = Some q \<Longrightarrow> booted c cb q"
| create: "booted c cb (p, s) \<Longrightarrow> packable c sz ts \<Longrightarrow>
    do_call c cb (Create task argv pri sz ts w stk) s = Some s' \<Longrightarrow> booted c cb (p, s')"
| main: "booted c cb (p, s) \<Longrightarrow> booted c cb (p', s\<lparr>mem := m\<rparr>)"

inductive reachable :: "config \<Rightarrow> (U32 \<Rightarrow> kernel \<Rightarrow> kernel option) \<Rightarrow> cpu \<times> kernel \<Rightarrow> bool"
  for c and cb where
  start: "booted c cb (p, s) \<Longrightarrow> no_overflow c 0 s \<Longrightarrow> CoStartOS c (OsSchedUnlock c cb) s = Some s' \<Longrightarrow> reachable c cb (p, s')"
| step: "reachable c cb q \<Longrightarrow> kstep c cb q e q' \<Longrightarrow> reachable c cb q'"

text \<open>Every call that the rules allow returns, to a state that satisfies the invariant.\<close>

lemma call_returns:
  assumes "kernel_inv c s" and "enabled c (Call k) s"
  shows "\<exists>s'. do_call c cb k s = Some s' \<and> kernel_inv c s'"
proof -
  have e: "settled s" "stack_ok c s" "may_call c k s" using assms(2) by simp_all
  show ?thesis
  proof (cases k)
    case (Create task argv pri sz ts w stk)
    then show ?thesis using create_step [OF assms(1) e(1,2), of task argv stk sz ts cb pri w] e(3) by auto
  next
    case (Delete t)
    then show ?thesis using delete_step [OF assms(1) e(1,2), of t cb] e(3) by auto
  next
    case Exit
    then show ?thesis using exit_step [OF assms(1) e(1,2), of cb] e(3) by auto
  next
    case (Suspend t)
    then show ?thesis using suspend_step [OF assms(1) e(1,2), of t cb] e(3) by auto
  next
    case (Awake t)
    then show ?thesis using awake_step [OF assms(1) e(1,2), of t cb] e(3) by auto
  next
    case (Delay n)
    then show ?thesis using delay_step [OF assms(1) e(1,2), of n cb] e(3) by auto
  qed
qed

lemma kstep_inv:
  assumes "kstep c cb (p, s) e q" and "kernel_inv c s"
  shows "kernel_inv c (snd q)"
  using assms(1)
proof (cases rule: kstep.cases)
  case (call k s')
  then show ?thesis using call_returns [OF assms(2), of k cb] by auto
next
  case (tick s')
  then show ?thesis using tick_step [OF assms(2), of cb] by auto
next
  case switch
  then show ?thesis using pendsv_step [OF assms(2), of p] by auto
next
  case (compute p' m)
  then show ?thesis using assms(2) by (simp add: kernel_inv_mem)
qed

lemma booted_inv:
  assumes "booted c cb q" and "image_ok c" and "CFG_PAR_CHECKOUT_EN c"
  shows "boot_inv c (snd q)"
  using assms(1)
proof induction
  case (init p m q)
  then show ?case using init_ok [OF assms(2), of cb p m] unfolding boot_inv_def by fastforce
next
  case (create p s sz ts task argv pri w stk s')
  then show ?case using boot_create_step [of c s sz ts cb task argv pri w stk] assms(3) by auto
next
  case (main p s p' m)
  then show ?case by (simp add: boot_inv_def kcore_mem)
qed

lemma reachable_inv:
  assumes "reachable c cb q" and "image_ok c" and "CFG_PAR_CHECKOUT_EN c"
  shows "kernel_inv c (snd q)"
  using assms(1)
proof induction
  case (start p s s')
  then show ?case using booted_inv [OF _ assms(2,3)] start_ok [of c s cb] by force
next
  case (step q e q')
  then show ?case using kstep_inv [of c cb "fst q" "snd q" e q'] by simp
qed

lemma image_ok_OsConfig: "image_ok OsConfig"
  using config_ok_OsConfig by (simp add: image_ok_def OsConfig_def bad_addr_def)

lemma checks_OsConfig: "CFG_PAR_CHECKOUT_EN OsConfig"
  by (simp add: OsConfig_def)

text \<open>A run: the system with the idle task alone.\<close>

lemma reachable_idle:
  assumes "image_ok c"
  shows "\<exists>p s. reachable c cb (p, s) \<and> settled s \<and> stack_ok c s"
proof -
  fix p0
  obtain p s fs where s: "CoInitOS c (OsSchedUnlock c cb) (p0, kernel_start\<lparr>mem := (\<lambda>_. 0)\<rparr>) = Some (p, s)"
    "kcore c s None [0] [] fs" "OSSchedLock s = 1" "TaskSchedReq s" "no_overflow c 0 s"
    using init_ok [OF assms] by blast
  obtain s' where s': "CoStartOS c (OsSchedUnlock c cb) s = Some s'" "settled s'" "stack_ok c s'"
    using start_idle [OF s(2-5)] by blast
  have "reachable c cb (p, s')" using reachable.start [OF booted.init [OF s(1)] s(5) s'(1)] .
  then show ?thesis using s' by blast
qed

section \<open>Properties\<close>

text \<open>A task that exists and is ready; a block that was never used has no stack.\<close>

definition ready_task_id :: "config \<Rightarrow> kernel \<Rightarrow> OS_TID \<Rightarrow> bool" where
  "ready_task_id c s t \<longleftrightarrow> unat t < task_max c \<and> state (TCBTbl s t) = TASK_READY \<and> stkPtr (TCBTbl s t) \<noteq> 0"

lemma kcore_ready:
  assumes "kcore c s n rs ds fs" and "ready_task_id c s t"
  shows "t \<in> set rs"
proof -
  have "task_ok s n rs ds fs t" using kcoreD(4) [OF assms(1)] assms(2) by (simp add: ready_task_id_def)
  then show ?thesis using assms(2) by (auto simp: task_ok_def ready_task_id_def split: if_splits)
qed

lemma kcore_running:
  assumes "kcore c s (Some n) rs ds fs" and "unat t < task_max c"
  shows "state (TCBTbl s t) = TASK_RUNNING \<longleftrightarrow> t = n"
proof -
  have "task_ok s (Some n) rs ds fs t" using kcoreD(4) [OF assms] .
  moreover have "n \<notin> set fs" using kcoreD(8) [OF assms(1)] by (simp add: live_def)
  ultimately show ?thesis by (auto simp: task_ok_def split: if_splits)
qed

text \<open>
  C4. Every run from reset keeps the kernel consistent: however the calls on tasks, the ticks, the
  context switches and the computations of the tasks follow each other, the READY, the DELAY and the
  free list stay well formed and disjoint, the state, the delay and the links of every task agree with
  the list it is in, the priority tables count the tasks, and one task has the processor.
\<close>

theorem runs_keep_kernel_consistent:
  assumes "image_ok c" and "CFG_PAR_CHECKOUT_EN c" and "reachable c cb (p, s)"
  shows "kernel_inv c s"
  using reachable_inv [OF assms(3,1,2)] by simp

theorem runs_keep_kernel_consistent_witness:
  "\<exists>p s. reachable OsConfig (\<lambda>_. Some) (p, s) \<and> kernel_inv OsConfig s"
  using reachable_idle [OF image_ok_OsConfig, of "\<lambda>_. Some"]
    runs_keep_kernel_consistent [OF image_ok_OsConfig checks_OsConfig] by blast

text \<open>
  C5. No run gets stuck: in every reachable state each event that the rules for tasks allow returns.
\<close>

theorem runs_never_stuck:
  assumes "image_ok c" and "CFG_PAR_CHECKOUT_EN c" and "reachable c cb (p, s)" and "enabled c e s"
  shows "\<exists>q. kstep c cb (p, s) e q"
proof -
  have inv: "kernel_inv c s" using reachable_inv [OF assms(3,1,2)] by simp
  show ?thesis
  proof (cases e)
    case (Call k)
    then show ?thesis using call_returns [OF inv, of k cb] assms(4) kstep.call [of c k s cb] by blast
  next
    case Tick
    then show ?thesis using tick_step [OF inv, of cb] assms(4) kstep.tick [of c s cb] by auto
  next
    case Switch
    then show ?thesis using pendsv_step [OF inv, of p] kstep.switch [of p s] by blast
  next
    case Compute
    then show ?thesis using kstep.compute by blast
  qed
qed

theorem runs_never_stuck_witness:
  "\<exists>p s q. reachable OsConfig (\<lambda>_. Some) (p, s) \<and> kstep OsConfig (\<lambda>_. Some) (p, s) Tick q"
  using reachable_idle [OF image_ok_OsConfig, of "\<lambda>_. Some"]
    runs_never_stuck [OF image_ok_OsConfig checks_OsConfig] enabled.simps(2) by blast

text \<open>
  C6. In every reachable state exactly one task is in the state RUNNING, the one that has the processor
  or gets it at the next context switch; and unless a reschedule is pending, no ready task has a higher
  priority.
\<close>

theorem runs_highest_priority:
  assumes "image_ok c" and "CFG_PAR_CHECKOUT_EN c" and "reachable c cb (p, s)"
  shows "\<exists>n. TCBNext s = Some n \<and> unat n < task_max c \<and>
    (\<forall>t. unat t < task_max c \<longrightarrow> (state (TCBTbl s t) = TASK_RUNNING \<longleftrightarrow> t = n)) \<and>
    (\<not> TaskSchedReq s \<longrightarrow> (\<forall>t. ready_task_id c s t \<longrightarrow> prio (TCBTbl s n) \<le> prio (TCBTbl s t)))"
proof -
  have "kernel_inv c s" using reachable_inv [OF assms(3,1,2)] by simp
  then obtain n r rs ds fs where k: "kcore c s (Some n) rs ds fs" "TCBNext s = Some n" "chosen s n rs" by (auto simp: kernel_inv_def)
  have "unat n < task_max c" using kcoreD(8) [OF k(1)] by (simp add: live_def)
  then show ?thesis using k(2,3) kcore_running [OF k(1)] kcore_ready [OF k(1)] by (auto simp: chosen_def)
qed

theorem runs_highest_priority_witness:
  "\<exists>p s n. reachable OsConfig (\<lambda>_. Some) (p, s) \<and> TCBNext s = Some n \<and> state (TCBTbl s n) = TASK_RUNNING"
  using reachable_idle [OF image_ok_OsConfig, of "\<lambda>_. Some"]
    runs_highest_priority [OF image_ok_OsConfig checks_OsConfig] by blast

text \<open>
  C7. A pending reschedule does not wait for longer than a tick: when no context switch is outstanding,
  the tick gives the processor to a task such that no ready task has a higher priority.
\<close>

theorem tick_serves_highest_priority:
  assumes "image_ok c" and "CFG_PAR_CHECKOUT_EN c" and "reachable c cb (p, s)" and "settled s" and "stack_ok c s"
  shows "\<exists>s' n. SysTick_Handler c cb (OsSchedUnlock c cb) s = Some s' \<and> TCBNext s' = Some n \<and>
    state (TCBTbl s' n) = TASK_RUNNING \<and> (\<forall>t. ready_task_id c s' t \<longrightarrow> prio (TCBTbl s' n) \<le> prio (TCBTbl s' t))"
proof -
  have "kernel_inv c s" using reachable_inv [OF assms(3,1,2)] by simp
  then obtain s' where s': "SysTick_Handler c cb (OsSchedUnlock c cb) s = Some s'" "kernel_top c s'"
    using tick_step [OF _ assms(5), of cb] assms(4) by blast
  then obtain n rs ds fs where k: "kcore c s' (Some n) rs ds fs" "TCBNext s' = Some n" "\<And>x. x \<in> set rs \<Longrightarrow> priof s' n \<le> priof s' x"
    by (auto simp: kernel_top_def)
  have "unat n < task_max c" using kcoreD(8) [OF k(1)] by (simp add: live_def)
  then show ?thesis using s'(1) k(2,3) kcore_running [OF k(1)] kcore_ready [OF k(1)] by blast
qed

theorem tick_serves_highest_priority_witness:
  "\<exists>p s s'. reachable OsConfig (\<lambda>_. Some) (p, s) \<and> SysTick_Handler OsConfig (\<lambda>_. Some) (OsSchedUnlock OsConfig (\<lambda>_. Some)) s = Some s'"
  using reachable_idle [OF image_ok_OsConfig, of "\<lambda>_. Some"]
    tick_serves_highest_priority [OF image_ok_OsConfig checks_OsConfig] by blast

end
