(* ===== verification/Spec2Isabelle.thy ===== *)
theory Spec2Isabelle
  imports LwipKinetis TimerList Inheritance Timeouts HeapRuns PortCode KernelRuns
begin

text \<open>
  CoOS, a real-time kernel for ARM Cortex-M processors: a model of the kernel's own sources under
  \<open>src/CoOS\<close> and of the two lwIP ports on top of it, and the theorems that make them correct.

  \<^bold>\<open>The program.\<close> The kernel keeps a fixed table of task control blocks (\<open>task.c\<close>). A task is running,
  in the READY list, waiting or dormant. \<open>Schedule\<close> picks the first task of the READY list and pends
  the PendSV exception, whose handler (\<open>portable/GCC\<close>, \<open>portable/Keil\<close>, \<open>portable/IAR\<close>) swaps the register sets. A waiting task
  is in the DELAY list (\<open>time.c\<close>) when it has a time-out, and in the waiting list of an event
  (\<open>event.c\<close>, under \<open>sem.c\<close>, \<open>mbox.c\<close> and \<open>queue.c\<close>), of a mutex (\<open>mutex.c\<close>) or of the flags
  (\<open>flag.c\<close>). The system tick (\<open>portable/arch.c\<close>) counts down the DELAY list and the list of running
  timers (\<open>timer.c\<close>). While the scheduler is locked (\<open>core.c\<close>), an interrupt handler leaves its request
  in the service request queue (\<open>serviceReq.c\<close>), and the last unlock serves the queue. \<open>mm.c\<close> and
  \<open>kernelHeap.c\<close> give memory to the application. \<open>sys_arch.c\<close> builds the mailboxes, semaphores and
  threads of lwIP from the services of the kernel.

  \<^bold>\<open>The model.\<close> All global variables of the kernel are the fields of the record \<open>kernel\<close>; an
  operation takes the state and returns the new one. A pointer to a control block is the number of
  the block, \<open>None\<close> is the null pointer. The memory of the application and the stacks is the word
  store \<open>mem\<close>. \<open>Some\<close> is the result of a call that returns; \<open>None\<close> stands for an access through a null
  pointer or out of the bounds of a table, for an undefined shift, and for a loop that does not end.
  All counters and addresses are words of the width they have in C, so that they wrap around as
  the code does. The settings of \<open>OsConfig.h\<close> are the record \<open>config\<close>; \<open>config_ok\<close> are the checks of
  \<open>OsError.h\<close>. A call that blocks is cut at the context switch: the first part returns \<open>Blocked\<close>, the
  second part is the definition with the suffix \<open>_resume\<close>.

  \<^bold>\<open>The theories\<close>, in the order of their imports:
  \<^item> \<open>CoOS_Prelude\<close>: words, doubly linked lists as lists (\<open>dlist\<close>), stable insertion, and the named
    collections of facts.
  \<^item> \<open>CoOS_State\<close>: the structures of the header files, the state and the access to the tables.
  \<^item> \<open>PriQueue\<close>, \<open>ReadyList\<close>, \<open>ReadyQueue\<close>, \<open>PriTables\<close>: the READY list of \<open>task.c\<close> with both search
    strategies, the ordered list and the binary scheme with its tables of priorities. The abstract
    queue is the list of ready tasks with stable insertion by priority; the locale \<open>ready_queue\<close> is the
    contract, interpreted on \<open>InsertToTCBRdyList\<close> and \<open>RemoveFromTCBRdyList\<close>.
  \<^item> \<open>Scheduler\<close>: \<open>Schedule\<close>, the stack check, and the context switch of both handlers on registers
    and stack memory.
  \<^item> \<open>ThumbCode\<close>, \<open>PortCode\<close>: a semantics of the Thumb instructions that the ports use, with registers, memory,
    interrupt mask and interrupts between the instructions; and the routines of the GCC, Keil and IAR
    ports as lists of these instructions, for any placement of the variables in memory (\<open>layout\<close>).
  \<^item> \<open>DeltaList\<close>: lists of times that store differences. The locale \<open>delta_loop\<close> has the insertion loop
    with its two ways to link, and \<open>delta_list\<close> the operations; both are interpreted for the DELAY list
    (\<open>DelayList\<close>) and for the timer list (\<open>TimerList\<close>).
  \<^item> \<open>TaskLists\<close>: the READY and the DELAY list together, with the changes that keep both.
  \<^item> \<open>EventCore\<close>: event control blocks, waiting lists, delivery and deletion of events.
  \<^item> \<open>RingQueue\<close>: ring buffers; the locale \<open>fifo\<close> is interpreted for the service request queue
    (\<open>ServiceQueue\<close>) and for the mail queues (\<open>MailQueue\<close>).
  \<^item> \<open>Sem\<close>, \<open>Mbox\<close>, \<open>MailQueue\<close>, \<open>Flag\<close>, \<open>Timer\<close>: the operations of these services. \<open>FlagWait\<close> has the
    list of tasks that wait for flags and what \<open>CoSetFlag\<close> does to it.
  \<^item> \<open>Core\<close>: expiry of delays, service of the postponed requests, the scheduler lock, interrupt entry
    and exit, the system tick. \<open>Timeouts\<close>: the tick with tasks that wait for events and flags beside the time.
  \<^item> \<open>Mutex\<close>, \<open>Inheritance\<close>: mutexes, \<open>CoSetPriority\<close> and the inheritance of priorities (the theorems are for
    the ordered-list scheme).
  \<^item> \<open>Task\<close>, \<open>TaskLife\<close>: creation, deletion, suspension and awakening of tasks, and the list of free
    control blocks beside the READY and the DELAY list.
  \<^item> \<open>KernelInv\<close>, \<open>TaskSteps\<close>, \<open>KernelRuns\<close>: the runs of the whole system. \<open>kernel_inv\<close> relates the three
    lists, the state, delay and links of every task, the priority tables and the next task;
    \<open>TaskSteps\<close> shows that every call on tasks, the tick and the context switch return and keep it;
    \<open>KernelRuns\<close> proves it of the state after \<open>CoInitOS\<close>, creations and \<open>CoStartOS\<close>, and of every state of the
    inductive relation \<open>reachable\<close>, whose steps \<open>kstep\<close> are these events and the computations of tasks. The
    calls are steps of their own: an interrupt inside a call finds the scheduler locked and is the
    subject of \<open>Core\<close> and \<open>ServiceQueue\<close>. The tasks of these runs wait for time or for \<open>CoAwakeTask\<close>; waiting for
    events, flags and mutexes is treated in the theories of these services.
  \<^item> \<open>Partition\<close>: the word store and the partitions of \<open>mm.c\<close>. \<open>PartitionPool\<close>: taking and giving
    back blocks under the unlock of the kernel. \<open>Memory\<close>: \<open>kernelHeap.c\<close> and \<open>CoInitOS\<close>.
  \<^item> \<open>HeapBlocks\<close>, \<open>HeapAlloc\<close>, \<open>HeapFree\<close>, \<open>HeapRuns\<close>: the layout of the kernel heap as a list of blocks
    and the headers that represent it, first fit, release with coalescing, and the runs of a program
    that uses the heap as the inductive relation \<open>heap_run\<close>.
  \<^item> \<open>LwipPort\<close>: \<open>sys_arch.c\<close> of lwIP 1.3.1. \<open>LwipKinetis\<close>: \<open>sys_arch.c\<close> of lwIP 1.4.1 on the Kinetis boards
    (\<open>Example/Freescale/Kinetis/lwip_port\<close>), with its critical regions on the interrupt mask.

  \<^bold>\<open>What the theorems show.\<close> The READY list is a stable priority queue under both strategies, and the
  strategies agree; the tables of the binary scheme stay sorted and counted. Creating, suspending,
  awakening and deleting tasks keep the READY, DELAY and free lists and the tables. \<open>Schedule\<close> gives the
  processor to a task of the highest priority, puts a preempted task behind its equals, and reports a
  damaged stack; a task that is switched out continues with its registers. In every run from reset the
  tables stay consistent, every permitted event returns, exactly one task runs, and no ready task has a
  higher priority unless a reschedule is pending, which a tick serves when no context switch is outstanding. The handlers
  of all ports implement this context switch instruction by instruction, and their byte counters are
  atomic under any schedule of interrupts, none of whose changes is lost. The DELAY list and the timer
  list keep the times of all other members on insertion and removal, and a tick makes exactly the
  tasks ready whose time has come and takes them out of the waiting lists of events and flags. Events are delivered to the first waiter in the chosen order; posts
  are described on every branch; queues are first in first out. Pending blocks and switches to the
  first ready task. A mutex lets its owner inherit the priority of a waiter and is handed to the first
  waiter, at the best waiting priority unless an inheritance is on record. Expired timers are stopped or
  reloaded and their call-backs called in order. \<open>CoSetFlag\<close> wakes exactly the tasks whose condition it fulfils. Partitions and the heap give
  out disjoint memory inside their bounds and take it back. Some theorems show where the code does not
  do what it means to: a partition of more than 256 blocks is never completed, a pend can lose a
  wake-up that arrives while it unlocks the scheduler, a request of nearly 4 GiB gets a block, the
  creation of a mailbox on the Kinetis boards reports success when it has failed, and the record of an
  inheritance outlives its task, so that a later owner of the mutex runs at a priority that nobody waits
  with (\<open>mutex_record_stale\<close>).

  \<^bold>\<open>Parameters, loops and bounds.\<close> \<open>unl\<close> in the services is the call of \<open>OsSchedUnlock\<close>, which in turn
  calls the services to serve the postponed requests; \<open>Core\<close> closes the circle with \<open>sched_unlock\<close>.
  Its first argument bounds the depth of that recursion: an unlock inside the service of the queue
  finds the scheduler still locked once more and only decrements the counter, so that depth 2 is never
  exceeded. \<open>cb\<close> are the timer call-backs, code of the application; the theorem on expired timers asks of
  those it calls that they return under the schedule lock and leave the timers and the lock alone, which
  holds of call-backs that post through the service request queue (\<open>post_callback_ok\<close>). Loops over linked lists are
  partial functions in the option monad; the theorems about them show that they return. The other
  recursive definitions are total, and no definition uses fuel beside the depth above.

  \<^bold>\<open>Not modelled.\<close> In the model of the kernel services a section with interrupts off is one step; the mask
  itself is modelled for the ports and the Kinetis critical regions. Code for settings that switch a module off or
  \<open>CFG_TASK_SCHEDULE_EN\<close> to 0 (\<open>CoActivateTask\<close>) is not compiled under the settings of the model. The
  initialisation of the timer and interrupt-priority registers has no effect on the state. lwIP
  itself, its drivers, the board support, the examples and the tests are not part of the kernel.
\<close>

end
